(* ===== verification/Prelude.thy ===== *)
theory Prelude
  imports Complex_Main "HOL-Library.AList" "HOL-Library.Char_ord" "HOL-Library.List_Lexorder"
begin

section \<open>Shared vocabulary of the development\<close>

text \<open>
  What every component uses: JavaScript values as the code's \<open>unknown\<close>, strings and their
  library calls, insertion-ordered records and \<open>Map\<close>s as association lists
  (\<open>AList.update\<close> keeps the position of an existing key and appends a new one, as a JavaScript
  object and a \<open>Map\<close> do), exceptions as the left side of a sum, and loops that may not end.

  Strings are lists of code units below 256. Numbers are exact rationals: the rounding of IEEE
  doubles is not modelled, and neither is \<open>NaN\<close>.
\<close>

named_theorems count_simps \<open>counters kept in association lists\<close>
named_theorems err_simps \<open>sequencing of computations that may throw\<close>

type_synonym time = int
type_synonym 'v record_of = "(string \<times> 'v) list"

subsection \<open>Exceptions as sums\<close>

definition bindE :: "'e + 'a \<Rightarrow> ('a \<Rightarrow> 'e + 'b) \<Rightarrow> 'e + 'b" where
  "bindE x f = (case x of Inl e \<Rightarrow> Inl e | Inr a \<Rightarrow> f a)"

lemma bindE_Inl [simp]: "bindE (Inl e) f = Inl e"
  by (simp add: bindE_def)

lemma bindE_Inr [simp]: "bindE (Inr a) f = f a"
  by (simp add: bindE_def)

lemma bindE_eq_Inr [err_simps]: "bindE x f = Inr b \<longleftrightarrow> (\<exists>a. x = Inr a \<and> f a = Inr b)"
  by (cases x) auto

lemma bindE_eq_Inl [err_simps]:
  "bindE x f = Inl e \<longleftrightarrow> x = Inl e \<or> (\<exists>a. x = Inr a \<and> f a = Inl e)"
  by (cases x) auto

lemma bindE_cong [fundef_cong]:
  "x = y \<Longrightarrow> (\<And>a. y = Inr a \<Longrightarrow> f a = g a) \<Longrightarrow> bindE x f = bindE y g"
  by (cases y) auto

text \<open>A \<open>for\<close> loop whose body may throw.\<close>

fun foldE :: "('a \<Rightarrow> 's \<Rightarrow> 'e + 's) \<Rightarrow> 'a list \<Rightarrow> 's \<Rightarrow> 'e + 's" where
  "foldE f [] s = Inr s"
| "foldE f (x # xs) s = bindE (f x s) (foldE f xs)"

lemma foldE_invariant:
  assumes "foldE f xs s = Inr s'" and "P s"
    and "\<And>x s s'. x \<in> set xs \<Longrightarrow> P s \<Longrightarrow> f x s = Inr s' \<Longrightarrow> P s'"
  shows "P s'"
  using assms by (induction xs arbitrary: s) (auto simp: err_simps)

lemma foldE_append: "foldE f (xs @ ys) s = bindE (foldE f xs s) (foldE f ys)"
  by (induction xs arbitrary: s) (auto simp: bindE_def split: sum.splits)

subsection \<open>Loops\<close>

text \<open>
  A \<open>while\<close> loop of the code is a step function: \<open>Inl\<close> the next state or \<open>Inr\<close> the state in
  which the loop is left. \<open>iterate\<close> runs at most \<open>fuel\<close> steps and is \<open>None\<close> when the loop
  has not been left by then.
\<close>

fun iterate :: "('s \<Rightarrow> 's + 'r) \<Rightarrow> nat \<Rightarrow> 's \<Rightarrow> 'r option" where
  "iterate step 0 s = None"
| "iterate step (Suc fuel) s = (case step s of Inl s' \<Rightarrow> iterate step fuel s' | Inr r \<Rightarrow> Some r)"

lemma iterate_invariant:
  assumes "iterate step fuel s = Some r" and "I s"
    and "\<And>s s'. I s \<Longrightarrow> step s = Inl s' \<Longrightarrow> I s'"
    and "\<And>s r. I s \<Longrightarrow> step s = Inr r \<Longrightarrow> Q r"
  shows "Q r"
  using assms by (induction fuel arbitrary: s) (auto split: sum.splits)

lemma iterate_more_fuel:
  "iterate step fuel s = Some r \<Longrightarrow> fuel \<le> fuel' \<Longrightarrow> iterate step fuel' s = Some r"
proof (induction fuel arbitrary: s fuel')
  case (Suc fuel)
  then obtain f where "fuel' = Suc f" "fuel \<le> f" by (cases fuel') auto
  with Suc show ?case by (auto split: sum.splits)
qed simp

lemma iterate_diverges:
  assumes "I s" and "\<And>s. I s \<Longrightarrow> \<exists>s'. step s = Inl s' \<and> I s'"
  shows "iterate step fuel s = None"
  using assms(1)
proof (induction fuel arbitrary: s)
  case (Suc fuel)
  from assms(2) [OF Suc.prems] obtain s' where "step s = Inl s'" "I s'" by auto
  with Suc.IH show ?case by simp
qed simp

text \<open>
  The contract of a loop that ends: an invariant the step keeps and a measure it decreases.
  Every loop of the code that is modelled with \<open>iterate\<close> interprets it.
\<close>

locale bounded_loop =
  fixes step :: "'s \<Rightarrow> 's + 'r" and inv :: "'s \<Rightarrow> bool" and measure :: "'s \<Rightarrow> nat"
  assumes keeps: "inv s \<Longrightarrow> step s = Inl s' \<Longrightarrow> inv s'"
    and decreases: "inv s \<Longrightarrow> step s = Inl s' \<Longrightarrow> measure s' < measure s"
begin

lemma enough_fuel: "inv s \<Longrightarrow> measure s < fuel \<Longrightarrow> \<exists>r. iterate step fuel s = Some r"
proof (induction fuel arbitrary: s)
  case (Suc fuel)
  show ?case
  proof (cases "step s")
    case (Inl s')
    with Suc.prems have "inv s'" "measure s' < fuel"
      using keeps decreases by fastforce+
    with Suc.IH Inl show ?thesis by auto
  qed simp
qed simp

lemma fuel_irrelevant:
  "inv s \<Longrightarrow> measure s < fuel \<Longrightarrow> measure s < fuel' \<Longrightarrow> iterate step fuel s = iterate step fuel' s"
  by (metis enough_fuel iterate_more_fuel nat_le_linear)

end

subsection \<open>Counters\<close>

text \<open>\<open>counters[k] ?? 0\<close> on a \<open>Record<string, number>\<close>.\<close>

definition count_of :: "nat record_of \<Rightarrow> string \<Rightarrow> nat" where
  "count_of m k = (case map_of m k of None \<Rightarrow> 0 | Some n \<Rightarrow> n)"

lemma count_of_Nil [simp]: "count_of [] k = 0"
  by (simp add: count_of_def)

lemma count_of_update [count_simps, simp]:
  "count_of (AList.update k v m) k' = (if k' = k then v else count_of m k')"
  by (simp add: count_of_def update_conv')

lemma map_of_update [simp]:
  "map_of (AList.update k v m) k' = (if k' = k then Some v else map_of m k')"
  by (simp add: update_conv')

subsection \<open>Strings\<close>

definition digit_char :: "nat \<Rightarrow> char" where
  "digit_char d = (char_of (48 + d) :: char)"

fun show_nat :: "nat \<Rightarrow> string" where
  "show_nat n = (if n < 10 then [digit_char n] else show_nat (n div 10) @ [digit_char (n mod 10)])"

declare show_nat.simps [simp del]

definition show_int :: "int \<Rightarrow> string" where
  "show_int i = (if i < 0 then ''-'' @ show_nat (nat (- i)) else show_nat (nat i))"

text \<open>\<open>s.split(c)\<close> for a one-character separator, and \<open>parts.join(sep)\<close>.\<close>

fun split_on :: "char \<Rightarrow> string \<Rightarrow> string list" where
  "split_on c [] = [[]]"
| "split_on c (x # xs) =
     (if x = c then [] # split_on c xs
      else (case split_on c xs of [] \<Rightarrow> [[x]] | w # ws \<Rightarrow> (x # w) # ws))"

fun join_with :: "string \<Rightarrow> string list \<Rightarrow> string" where
  "join_with sep [] = []"
| "join_with sep [w] = w"
| "join_with sep (w # ws) = w @ sep @ join_with sep ws"

lemma split_on_nonempty: "split_on c s \<noteq> []"
  by (induction s) (auto split: list.splits)

lemma join_split [simp]: "join_with [c] (split_on c s) = s"
proof (induction s)
  case (Cons x s)
  obtain w ws where "split_on c s = w # ws"
    using split_on_nonempty [of c s] by (cases "split_on c s") auto
  with Cons show ?case by (cases ws) auto
qed simp

lemma split_on_no_sep: "c \<notin> set w \<Longrightarrow> split_on c w = [w]"
  by (induction w) auto

lemma split_on_app: "c \<notin> set w \<Longrightarrow> split_on c (w @ c # s) = w # split_on c s"
  by (induction w) auto

lemma split_join:
  "ws \<noteq> [] \<Longrightarrow> \<forall>w \<in> set ws. c \<notin> set w \<Longrightarrow> split_on c (join_with [c] ws) = ws"
  by (induction "[c]" ws rule: join_with.induct) (auto simp: split_on_no_sep split_on_app)

text \<open>\<open>s.startsWith(p)\<close>, \<open>s.includes(p)\<close>, \<open>s.indexOf(c)\<close>.\<close>

fun starts_with :: "string \<Rightarrow> string \<Rightarrow> bool" where
  "starts_with s [] = True"
| "starts_with [] (p # ps) = False"
| "starts_with (c # cs) (p # ps) = (c = p \<and> starts_with cs ps)"

lemma starts_with_iff: "starts_with s p \<longleftrightarrow> (\<exists>t. s = p @ t)"
  by (induction s p rule: starts_with.induct) auto

fun str_includes :: "string \<Rightarrow> string \<Rightarrow> bool" where
  "str_includes [] p = (p = [])"
| "str_includes (c # cs) p = (starts_with (c # cs) p \<or> str_includes cs p)"

fun index_of :: "char \<Rightarrow> string \<Rightarrow> nat option" where
  "index_of c [] = None"
| "index_of c (x # xs) = (if x = c then Some 0 else map_option Suc (index_of c xs))"

lemma index_of_less: "index_of c s = Some k \<Longrightarrow> k < length s"
  by (induction s arbitrary: k) (auto split: if_splits)

lemma index_of_app: "c \<notin> set w \<Longrightarrow> index_of c (w @ c # s) = Some (length w)"
  by (induction w) auto

text \<open>Character classes of the code's regular expressions.\<close>

definition is_digit :: "char \<Rightarrow> bool" where
  "is_digit c \<longleftrightarrow> (let n = (of_char c :: nat) in 48 \<le> n \<and> n \<le> 57)"

definition is_upper :: "char \<Rightarrow> bool" where
  "is_upper c \<longleftrightarrow> (let n = (of_char c :: nat) in 65 \<le> n \<and> n \<le> 90)"

definition is_lower :: "char \<Rightarrow> bool" where
  "is_lower c \<longleftrightarrow> (let n = (of_char c :: nat) in 97 \<le> n \<and> n \<le> 122)"

definition is_letter :: "char \<Rightarrow> bool" where
  "is_letter c \<longleftrightarrow> is_upper c \<or> is_lower c"

text \<open>\<open>\s\<close> of a regular expression, on code units below 256.\<close>

definition is_space :: "char \<Rightarrow> bool" where
  "is_space c \<longleftrightarrow> (let n = (of_char c :: nat) in (9 \<le> n \<and> n \<le> 13) \<or> n = 32 \<or> n = 160)"

lemmas char_class_defs = is_digit_def is_upper_def is_lower_def is_letter_def is_space_def Let_def

definition digit_value :: "char \<Rightarrow> nat" where
  "digit_value c = of_char c - 48"

text \<open>The value of a run of decimal digits, \<open>Number('123')\<close>.\<close>

fun digits_value :: "nat \<Rightarrow> string \<Rightarrow> nat" where
  "digits_value acc [] = acc"
| "digits_value acc (c # cs) = digits_value (10 * acc + digit_value c) cs"

subsection \<open>JavaScript values\<close>

text \<open>
  Objects and arrays are compared by identity, so each carries the identity of the object it
  is: \<open>Host\<close> for a value that comes from outside the modelled code, \<open>Built\<close> for an object the
  modelled code allocates (numbered in order of allocation, with the place of its allocation).
  \<open>JFun\<close> is a function inherited from a built-in prototype.
\<close>

datatype oid = Host nat | Built nat string

datatype jsval =
  JUndef | JNull | JBool bool | JNum rat | JStr string
| JArr oid "jsval list" | JObj oid "(string \<times> jsval) list" | JFun string

type_synonym fields = "(string \<times> jsval) list"

text \<open>The operator \<open>===\<close>.\<close>

fun strict_eq :: "jsval \<Rightarrow> jsval \<Rightarrow> bool" where
  "strict_eq (JArr a _) (JArr b _) = (a = b)"
| "strict_eq (JObj a _) (JObj b _) = (a = b)"
| "strict_eq v w = (v = w)"

lemma strict_eq_refl [simp]: "strict_eq v v"
  by (cases v) auto

lemma strict_eq_sym: "strict_eq v w = strict_eq w v"
  by (cases v; cases w) auto

text \<open>\<open>Boolean(v)\<close>: JavaScript's own truthiness.\<close>

fun to_boolean :: "jsval \<Rightarrow> bool" where
  "to_boolean JUndef = False"
| "to_boolean JNull = False"
| "to_boolean (JBool b) = b"
| "to_boolean (JNum n) = (n \<noteq> 0)"
| "to_boolean (JStr s) = (s \<noteq> [])"
| "to_boolean _ = True"

definition field_of :: "fields \<Rightarrow> string \<Rightarrow> jsval" where
  "field_of fs k = (case map_of fs k of None \<Rightarrow> JUndef | Some v \<Rightarrow> v)"

lemma field_of_update [simp]:
  "field_of (AList.update k v fs) k' = (if k' = k then v else field_of fs k')"
  by (simp add: field_of_def)

text \<open>Object spread \<open>{ ...a, ...b }\<close>: the fields of \<open>b\<close> are assigned onto those of \<open>a\<close>.\<close>

definition spread :: "'v record_of \<Rightarrow> 'v record_of \<Rightarrow> 'v record_of" where
  "spread a b = AList.updates (map fst b) (map snd b) a"

subsection \<open>Lists without repetitions\<close>

text \<open>The elements of a list without the repetitions, first occurrences kept (\<open>[...new Set(xs)]\<close>).\<close>

fun dedup :: "'a list \<Rightarrow> 'a list" where
  "dedup [] = []"
| "dedup (x # xs) = x # removeAll x (dedup xs)"

lemma set_dedup [simp]: "set (dedup xs) = set xs"
  by (induction xs) auto

lemma distinct_removeAll': "distinct xs \<Longrightarrow> distinct (removeAll x xs)"
  by (simp add: distinct_removeAll)

lemma distinct_dedup [simp]: "distinct (dedup xs)"
  by (induction xs) (auto simp: distinct_removeAll)

subsection \<open>Multimaps\<close>

text \<open>\<open>map.get(k) ?? []\<close>, and the loop that groups the elements of a list under a key.\<close>

definition lookup_list :: "'v list record_of \<Rightarrow> string \<Rightarrow> 'v list" where
  "lookup_list m k = (case map_of m k of None \<Rightarrow> [] | Some vs \<Rightarrow> vs)"

definition group_step ::
  "('a \<Rightarrow> string) \<Rightarrow> ('a \<Rightarrow> 'v) \<Rightarrow> 'a \<Rightarrow> 'v list record_of \<Rightarrow> 'v list record_of" where
  "group_step key val x m = AList.update (key x) (lookup_list m (key x) @ [val x]) m"

definition group_by :: "('a \<Rightarrow> string) \<Rightarrow> ('a \<Rightarrow> 'v) \<Rightarrow> 'a list \<Rightarrow> 'v list record_of" where
  "group_by key val xs = fold (group_step key val) xs []"

lemma lookup_list_Nil [simp]: "lookup_list [] k = []"
  by (simp add: lookup_list_def)

lemma lookup_group_fold:
  "lookup_list (fold (group_step key val) xs m) k =
     lookup_list m k @ map val (filter (\<lambda>x. key x = k) xs)"
  by (induction xs arbitrary: m) (auto simp: group_step_def lookup_list_def)

lemma lookup_group_by [simp]:
  "lookup_list (group_by key val xs) k = map val (filter (\<lambda>x. key x = k) xs)"
  by (simp add: group_by_def lookup_group_fold)

lemma lookup_list_subset: "set (lookup_list m k) \<subseteq> set (concat (map snd m))"
proof (cases "map_of m k")
  case (Some vs)
  then show ?thesis using map_of_SomeD [OF Some] by (force simp: lookup_list_def)
qed (simp add: lookup_list_def)

lemma sort_eq_Nil [simp]: "sort_key f xs = [] \<longleftrightarrow> xs = []"
  by (metis set_empty set_sort)

end
