(* ===== verification/ScopeExpr.thy ===== *)
theory ScopeExpr
  imports Prelude
begin

section \<open>The scope expression language\<close>

text \<open>
  \<open>packages/workflow/src/graph-engine/scope-expr.ts\<close>: the language of transition conditions,
  guards, gate checks, effects and routing rules. The tokenizer and the recursive-descent parser
  throw a \<open>ScopeExpressionError\<close>; here they return one. The parser's six mutually recursive
  methods take fuel, and \<open>parse_tokens\<close> supplies an amount that is proved to be enough.
\<close>

subsection \<open>Tokens\<close>

datatype binop = OpEq | OpNe | OpAnd | OpOr

datatype token =
  TIdent string | TString string | TNumber rat | TOp binop | TNot | TLParen | TRParen | TEof

datatype scope_error =
  UnterminatedString nat | UnexpectedChar char nat | TrailingTokens | MissingParen
| UnexpectedToken token | ReadPastEnd

definition ident_start :: "char \<Rightarrow> bool" where
  "ident_start c \<longleftrightarrow> is_letter c \<or> c = CHR ''_''"

definition ident_char :: "char \<Rightarrow> bool" where
  "ident_char c \<longleftrightarrow> is_letter c \<or> is_digit c \<or> c = CHR ''_'' \<or> c = CHR ''.'' \<or> c = CHR ''-''"

fun two_char_op :: "char \<Rightarrow> string \<Rightarrow> binop option" where
  "two_char_op c [] = None"
| "two_char_op c (d # _) =
     (if c = CHR ''='' \<and> d = CHR ''='' then Some OpEq
      else if c = CHR ''!'' \<and> d = CHR ''='' then Some OpNe
      else if c = CHR ''&'' \<and> d = CHR ''&'' then Some OpAnd
      else if c = CHR ''|'' \<and> d = CHR ''|'' then Some OpOr
      else None)"

text \<open>The longest prefix matching \<open>[0-9]+(.[0-9]+)?\<close>, as its value and what follows it.\<close>

fun scan_fraction :: "string \<Rightarrow> string \<times> string" where
  "scan_fraction (d # c # cs) =
     (if d = CHR ''.'' \<and> is_digit c
      then (takeWhile is_digit (c # cs), dropWhile is_digit (c # cs))
      else ([], d # c # cs))"
| "scan_fraction rest = ([], rest)"

definition scan_number :: "string \<Rightarrow> rat \<times> string" where
  "scan_number s =
     (case scan_fraction (dropWhile is_digit s) of (fr, rest) \<Rightarrow>
        (of_nat (digits_value 0 (takeWhile is_digit s @ fr)) / of_nat (10 ^ length fr), rest))"

lemma dropWhile_length_le: "length (dropWhile P xs) \<le> length xs"
  by (induction xs) auto

lemma scan_fraction_rest: "length (snd (scan_fraction s)) \<le> length s"
  by (induction s rule: scan_fraction.induct) (auto simp: le_SucI dropWhile_length_le)

lemma scan_number_shorter:
  assumes "scan_number (c # cs) = (v, rest)" "is_digit c"
  shows "length rest < Suc (length cs)"
proof -
  have "length rest \<le> length (dropWhile is_digit cs)"
    using assms scan_fraction_rest [of "dropWhile is_digit cs"]
    by (auto simp: scan_number_def split: prod.splits)
  also have "\<dots> \<le> length cs" by (rule dropWhile_length_le)
  finally show ?thesis by simp
qed

function (sequential) tokenize_at :: "nat \<Rightarrow> string \<Rightarrow> scope_error + token list" where
  "tokenize_at i [] = Inr [TEof]"
| "tokenize_at i (c # cs) =
     (if is_space c then tokenize_at (i + 1) cs
      else if c = CHR ''('' then bindE (tokenize_at (i + 1) cs) (\<lambda>ts. Inr (TLParen # ts))
      else if c = CHR '')'' then bindE (tokenize_at (i + 1) cs) (\<lambda>ts. Inr (TRParen # ts))
      else case two_char_op c cs of
        Some op \<Rightarrow> bindE (tokenize_at (i + 2) (tl cs)) (\<lambda>ts. Inr (TOp op # ts))
      | None \<Rightarrow>
          if c = CHR ''!'' then bindE (tokenize_at (i + 1) cs) (\<lambda>ts. Inr (TNot # ts))
          else if c = CHR 0x27 then
            (case index_of (CHR 0x27) cs of
               None \<Rightarrow> Inl (UnterminatedString i)
             | Some k \<Rightarrow> bindE (tokenize_at (i + k + 2) (drop (Suc k) cs))
                          (\<lambda>ts. Inr (TString (take k cs) # ts)))
          else if is_digit c then
            (case scan_number (c # cs) of (v, rest) \<Rightarrow>
               bindE (tokenize_at (i + (length (c # cs) - length rest)) rest)
                 (\<lambda>ts. Inr (TNumber v # ts)))
          else if ident_start c then
            (let name = c # takeWhile ident_char cs in
             bindE (tokenize_at (i + length name) (dropWhile ident_char cs))
               (\<lambda>ts. Inr (TIdent name # ts)))
          else Inl (UnexpectedChar c i))"
  by pat_completeness auto
termination
  by (relation "measure (\<lambda>(i, s). length s)")
    (auto simp: le_imp_less_Suc dropWhile_length_le dest: index_of_less
      intro: scan_number_shorter [OF sym])

declare tokenize_at.simps(2) [simp del]

definition tokenize :: "string \<Rightarrow> scope_error + token list" where
  "tokenize source = tokenize_at 0 source"

subsection \<open>Syntax trees and the parser\<close>

datatype expr =
  ELit jsval | ERef "string list" | ENot expr | EBin binop expr expr

type_synonym 'a parsed = "(scope_error + 'a \<times> token list) option"

text \<open>Sequencing: \<open>None\<close> is a parser out of fuel, \<open>Some (Inl e)\<close> one that threw.\<close>

definition pbind :: "'a parsed \<Rightarrow> ('a \<Rightarrow> token list \<Rightarrow> 'b parsed) \<Rightarrow> 'b parsed" where
  "pbind p f = (case p of
     None \<Rightarrow> None
   | Some (Inl e) \<Rightarrow> Some (Inl e)
   | Some (Inr (a, rest)) \<Rightarrow> f a rest)"

definition preturn :: "'a \<Rightarrow> token list \<Rightarrow> 'a parsed" where
  "preturn a rest = Some (Inr (a, rest))"

definition pthrow :: "scope_error \<Rightarrow> 'a parsed" where
  "pthrow e = Some (Inl e)"

lemma pbind_simps [simp]:
  "pbind None f = None" "pbind (pthrow e) f = pthrow e" "pbind (preturn a rest) f = f a rest"
  by (simp_all add: pbind_def pthrow_def preturn_def)

text \<open>\<open>this.peek()\<close> against one token.\<close>

fun peek_is :: "token \<Rightarrow> token list \<Rightarrow> bool" where
  "peek_is t [] = False"
| "peek_is t (u # _) = (t = u)"

text \<open>The leaves of \<open>parsePrimary\<close>: \<open>None\<close> when the token starts no leaf.\<close>

fun leaf_of :: "token \<Rightarrow> expr option" where
  "leaf_of (TString s) = Some (ELit (JStr s))"
| "leaf_of (TNumber v) = Some (ELit (JNum v))"
| "leaf_of (TIdent name) = Some
     (if name = ''true'' then ELit (JBool True)
      else if name = ''false'' then ELit (JBool False)
      else ERef (split_on (CHR ''.'') name))"
| "leaf_of _ = None"

text \<open>
  The parser's methods and their loops. A loop is the meth of its level with the operand
  parsed so far.
\<close>

datatype level =
  POr | POrLoop expr | PAnd | PAndLoop expr | PEquality | PEqualityLoop expr | PUnary | PPrimary

fun parse_at :: "nat \<Rightarrow> level \<Rightarrow> token list \<Rightarrow> expr parsed" where
  "parse_at 0 l ts = None"
| "parse_at (Suc n) POr ts = pbind (parse_at n PAnd ts) (\<lambda>left. parse_at n (POrLoop left))"
| "parse_at (Suc n) (POrLoop left) ts =
     (if peek_is (TOp OpOr) ts
      then pbind (parse_at n PAnd (tl ts)) (\<lambda>right. parse_at n (POrLoop (EBin OpOr left right)))
      else preturn left ts)"
| "parse_at (Suc n) PAnd ts =
     pbind (parse_at n PEquality ts) (\<lambda>left. parse_at n (PAndLoop left))"
| "parse_at (Suc n) (PAndLoop left) ts =
     (if peek_is (TOp OpAnd) ts
      then pbind (parse_at n PEquality (tl ts))
             (\<lambda>right. parse_at n (PAndLoop (EBin OpAnd left right)))
      else preturn left ts)"
| "parse_at (Suc n) PEquality ts =
     pbind (parse_at n PUnary ts) (\<lambda>left. parse_at n (PEqualityLoop left))"
| "parse_at (Suc n) (PEqualityLoop left) ts =
     (if peek_is (TOp OpEq) ts
      then pbind (parse_at n PUnary (tl ts))
             (\<lambda>right. parse_at n (PEqualityLoop (EBin OpEq left right)))
      else if peek_is (TOp OpNe) ts
      then pbind (parse_at n PUnary (tl ts))
             (\<lambda>right. parse_at n (PEqualityLoop (EBin OpNe left right)))
      else preturn left ts)"
| "parse_at (Suc n) PUnary ts =
     (if peek_is TNot ts
      then pbind (parse_at n PUnary (tl ts)) (\<lambda>operand. preturn (ENot operand))
      else parse_at n PPrimary ts)"
| "parse_at (Suc n) PPrimary ts =
     (case ts of
        [] \<Rightarrow> pthrow ReadPastEnd
      | t # rest \<Rightarrow>
          if t = TLParen then
            pbind (parse_at n POr rest) (\<lambda>inner rest'.
              if rest' = [] then pthrow ReadPastEnd
              else if hd rest' \<noteq> TRParen then pthrow MissingParen
              else preturn inner (tl rest'))
          else (case leaf_of t of
                  None \<Rightarrow> pthrow (UnexpectedToken t)
                | Some leaf \<Rightarrow> preturn leaf rest))"

definition parse_fuel :: "token list \<Rightarrow> nat" where
  "parse_fuel ts = 6 * length ts + 5"

text \<open>\<open>Parser.parse\<close>.\<close>

definition parse_tokens :: "token list \<Rightarrow> (scope_error + expr) option" where
  "parse_tokens ts =
     (case parse_at (parse_fuel ts) POr ts of
        None \<Rightarrow> None
      | Some (Inl e) \<Rightarrow> Some (Inl e)
      | Some (Inr (ex, rest)) \<Rightarrow>
          (if rest = [] then Some (Inl ReadPastEnd)
           else if hd rest \<noteq> TEof then Some (Inl TrailingTokens)
           else Some (Inr ex)))"

text \<open>The fuel is enough: every meth consumes a token before it calls itself again.\<close>

definition consumes :: "nat \<Rightarrow> expr parsed \<Rightarrow> bool" where
  "consumes k p \<longleftrightarrow> (\<exists>x. p = Some x \<and> (\<forall>e rest. x = Inr (e, rest) \<longrightarrow> length rest < k))"

lemma consumes_simps [simp]:
  "consumes k (pthrow e)" "consumes k (preturn a rest) \<longleftrightarrow> length rest < k" "\<not> consumes k None"
  by (auto simp: consumes_def pthrow_def preturn_def)

lemma consumes_pbind:
  assumes "consumes k p" and "\<And>e rest. length rest < k \<Longrightarrow> consumes k' (f e rest)"
  shows "consumes k' (pbind p f)"
  using assms by (auto simp: consumes_def pbind_def split: sum.splits prod.splits)

lemma consumes_mono: "consumes k p \<Longrightarrow> k \<le> k' \<Longrightarrow> consumes k' p"
  by (fastforce simp: consumes_def)

fun level_fuel :: "level \<Rightarrow> nat" where
  "level_fuel POr = 5"
| "level_fuel PAnd = 4"
| "level_fuel PEquality = 3"
| "level_fuel PUnary = 2"
| "level_fuel _ = 1"

fun is_loop :: "level \<Rightarrow> bool" where
  "is_loop (POrLoop _) = True"
| "is_loop (PAndLoop _) = True"
| "is_loop (PEqualityLoop _) = True"
| "is_loop _ = False"

lemma parse_consumes:
  "6 * length ts + level_fuel l \<le> n \<Longrightarrow>
   consumes (if is_loop l then Suc (length ts) else length ts) (parse_at n l ts)"
proof (induction n arbitrary: l ts)
  case 0
  then show ?case by (cases l) auto
next
  case (Suc n)
  have meth: "consumes (length us) (parse_at n k us)"
    if "6 * length us + level_fuel k \<le> n" "\<not> is_loop k" for k us
    using Suc.IH [OF that(1)] that(2) by simp
  have loop: "consumes m (parse_at n k us)"
    if "6 * length us + level_fuel k \<le> n" "is_loop k" "length us < m" for k us m
    using Suc.IH [OF that(1)] that(2,3) by (auto intro: consumes_mono)
  have chain: "consumes m (pbind (parse_at n k us) (\<lambda>e. parse_at n (q e)))"
    if "6 * length us + level_fuel k \<le> n" "\<not> is_loop k" "\<And>e. is_loop (q e)"
      "\<And>e. level_fuel (q e) = 1" "length us \<le> m" "length us < Suc n" for k us q m
  proof (rule consumes_pbind [OF meth [OF that(1,2)]])
    fix e and rest :: "token list"
    assume "length rest < length us"
    with that(1,5) show "consumes m (parse_at n (q e) rest)"
      by (intro loop) (auto simp: that(3,4))
  qed
  show ?case
  proof (cases l)
    case POr
    with Suc.prems show ?thesis by (auto intro!: chain)
  next
    case PAnd
    with Suc.prems show ?thesis by (auto intro!: chain)
  next
    case PEquality
    with Suc.prems show ?thesis by (auto intro!: chain)
  next
    case (POrLoop left)
    with Suc.prems show ?thesis by (cases ts) (auto intro!: chain)
  next
    case (PAndLoop left)
    with Suc.prems show ?thesis by (cases ts) (auto intro!: chain)
  next
    case (PEqualityLoop left)
    with Suc.prems show ?thesis by (cases ts) (auto intro!: chain)
  next
    case PUnary
    with Suc.prems show ?thesis
      using meth [of ts PPrimary]
      by (cases ts) (auto intro!: consumes_pbind [OF meth])
  next
    case PPrimary
    show ?thesis
    proof (cases ts)
      case (Cons t rest)
      with Suc.prems PPrimary show ?thesis
        by (auto simp: neq_Nil_conv split: option.splits intro!: consumes_pbind [OF meth])
    qed (simp add: PPrimary)
  qed
qed

lemma parse_tokens_total: "\<exists>r. parse_tokens ts = Some r"
proof -
  have "consumes (length ts) (parse_at (parse_fuel ts) POr ts)"
    using parse_consumes [of ts POr "parse_fuel ts"] by (simp add: parse_fuel_def)
  then obtain x where "parse_at (parse_fuel ts) POr ts = Some x"
    by (auto simp: consumes_def)
  then show ?thesis
    by (cases x) (auto simp: parse_tokens_def split: prod.splits)
qed

subsection \<open>Parsing what was printed\<close>

text \<open>
  The printer of the grammar: \<open>print_at k e\<close> is \<open>e\<close> where an operand of binding strength
  \<open>k\<close> is expected (0 \<open>||\<close>, 1 \<open>&&\<close>, 2 \<open>==\<close> and \<open>!=\<close>, 3 an operand of those), with
  parentheses only where the precedences and the left associativity need them.
\<close>

fun strength :: "binop \<Rightarrow> nat" where
  "strength OpOr = 0"
| "strength OpAnd = 1"
| "strength OpEq = 2"
| "strength OpNe = 2"

fun leaf_token :: "expr \<Rightarrow> token" where
  "leaf_token (ELit (JStr s)) = TString s"
| "leaf_token (ELit (JNum v)) = TNumber v"
| "leaf_token (ELit (JBool b)) = TIdent (if b then ''true'' else ''false'')"
| "leaf_token (ERef path) = TIdent (join_with ''.'' path)"
| "leaf_token _ = TEof"

definition parens_if :: "bool \<Rightarrow> token list \<Rightarrow> token list" where
  "parens_if b ts = (if b then TLParen # ts @ [TRParen] else ts)"

fun print_at :: "nat \<Rightarrow> expr \<Rightarrow> token list" where
  "print_at k (EBin op a b) =
     parens_if (strength op < k)
       (print_at (strength op) a @ TOp op # print_at (Suc (strength op)) b)"
| "print_at k (ENot a) = TNot # print_at 3 a"
| "print_at k e = [leaf_token e]"

text \<open>Expressions a source can denote: literals the grammar has, references of one name.\<close>

fun printable :: "expr \<Rightarrow> bool" where
  "printable (EBin op a b) = (printable a \<and> printable b)"
| "printable (ENot a) = printable a"
| "printable e = (leaf_of (leaf_token e) = Some e)"

definition evals :: "level \<Rightarrow> token list \<Rightarrow> expr \<Rightarrow> token list \<Rightarrow> bool" where
  "evals l ts e rest \<longleftrightarrow> (\<exists>n. parse_at n l ts = preturn e rest)"

lemma pbind_eq_preturn:
  "pbind p f = preturn b rest \<longleftrightarrow> (\<exists>a rest'. p = preturn a rest' \<and> f a rest' = preturn b rest)"
  by (auto simp: pbind_def preturn_def split: option.splits sum.splits)

definition upto_fuel :: "'a parsed \<Rightarrow> 'a parsed \<Rightarrow> bool" where
  "upto_fuel p q \<longleftrightarrow> p = None \<or> p = q"

lemma upto_fuel_refl [simp]: "upto_fuel p p"
  by (simp add: upto_fuel_def)

lemma upto_fuel_pbind:
  "upto_fuel p q \<Longrightarrow> (\<And>a rest. upto_fuel (f a rest) (g a rest)) \<Longrightarrow>
   upto_fuel (pbind p f) (pbind q g)"
  by (auto simp: upto_fuel_def pbind_def split: option.splits sum.splits)

lemma parse_more_fuel: "n \<le> m \<Longrightarrow> upto_fuel (parse_at n l ts) (parse_at m l ts)"
proof (induction n arbitrary: m l ts)
  case (Suc n)
  then obtain k where m: "m = Suc k" and le: "n \<le> k" by (cases m) auto
  note IH = Suc.IH [OF le]
  show ?case
    by (cases l) (auto simp: m IH split: list.splits option.splits intro!: upto_fuel_pbind)
qed (simp add: upto_fuel_def)

lemma evals_both:
  assumes "evals l ts e rest" and "evals l' us e' rest'"
  shows "\<exists>n. parse_at n l ts = preturn e rest \<and> parse_at n l' us = preturn e' rest'"
proof -
  from assms obtain n m
    where *: "parse_at n l ts = preturn e rest" "parse_at m l' us = preturn e' rest'"
    by (auto simp: evals_def)
  have "upto_fuel (preturn e rest) (parse_at (max n m) l ts)"
    "upto_fuel (preturn e' rest') (parse_at (max n m) l' us)"
    using parse_more_fuel [of n "max n m" l ts] parse_more_fuel [of m "max n m" l' us]
    by (simp_all add: *)
  then show ?thesis
    by (intro exI [of _ "max n m"]) (auto simp: upto_fuel_def preturn_def)
qed

lemma evals_step:
  assumes "\<And>n. parse_at n l us = preturn a mid \<Longrightarrow> parse_at n l' mid = preturn e rest \<Longrightarrow>
    parse_at (Suc n) k ts = preturn e rest"
    and "evals l us a mid" and "evals l' mid e rest"
  shows "evals k ts e rest"
  using evals_both [OF assms(2,3)] assms(1) unfolding evals_def by blast

lemma evals_method:
  "evals PAnd ts a mid \<Longrightarrow> evals (POrLoop a) mid e rest \<Longrightarrow> evals POr ts e rest"
  "evals PEquality ts a mid \<Longrightarrow> evals (PAndLoop a) mid e rest \<Longrightarrow> evals PAnd ts e rest"
  "evals PUnary ts a mid \<Longrightarrow> evals (PEqualityLoop a) mid e rest \<Longrightarrow> evals PEquality ts e rest"
  by (rule evals_step; simp)+

lemma evals_loop:
  "evals PAnd ts b mid \<Longrightarrow> evals (POrLoop (EBin OpOr a b)) mid e rest \<Longrightarrow>
   evals (POrLoop a) (TOp OpOr # ts) e rest"
  "evals PEquality ts b mid \<Longrightarrow> evals (PAndLoop (EBin OpAnd a b)) mid e rest \<Longrightarrow>
   evals (PAndLoop a) (TOp OpAnd # ts) e rest"
  "op = OpEq \<or> op = OpNe \<Longrightarrow> evals PUnary ts b mid \<Longrightarrow>
   evals (PEqualityLoop (EBin op a b)) mid e rest \<Longrightarrow>
   evals (PEqualityLoop a) (TOp op # ts) e rest"
  by (rule evals_step; auto)+

lemma evals_Suc: "parse_at (Suc n) l ts = preturn e rest \<Longrightarrow> evals l ts e rest"
  unfolding evals_def by blast

lemma evals_loop_end:
  "\<not> peek_is (TOp OpOr) rest \<Longrightarrow> evals (POrLoop e) rest e rest"
  "\<not> peek_is (TOp OpAnd) rest \<Longrightarrow> evals (PAndLoop e) rest e rest"
  "\<not> peek_is (TOp OpEq) rest \<Longrightarrow> \<not> peek_is (TOp OpNe) rest \<Longrightarrow>
   evals (PEqualityLoop e) rest e rest"
  by (rule evals_Suc [of 0]; simp)+

lemma evals_not: "evals PUnary ts e rest \<Longrightarrow> evals PUnary (TNot # ts) (ENot e) rest"
  unfolding evals_def by (metis (no_types, lifting) list.sel(3) parse_at.simps(8) peek_is.simps(2) pbind_simps(3))

lemma evals_leaf:
  assumes "leaf_of t = Some e"
  shows "evals PUnary (t # rest) e rest"
  using assms by (intro evals_Suc [of 1]) (cases t; simp)

lemma evals_parens:
  assumes "evals POr (ts @ TRParen # rest) e (TRParen # rest)"
  shows "evals PUnary (TLParen # ts @ TRParen # rest) e rest"
proof -
  from assms obtain n where "parse_at n POr (ts @ TRParen # rest) = preturn e (TRParen # rest)"
    by (auto simp: evals_def)
  then show ?thesis by (intro evals_Suc [of "Suc n"]) simp
qed

text \<open>
  The meth of a strength, and what the loop of that strength does with the expression once
  it has been read: the left operands are accumulated from the left.
\<close>

fun method_of :: "nat \<Rightarrow> level" where
  "method_of k = (if k = 0 then POr else if k = 1 then PAnd else if k = 2 then PEquality else PUnary)"

fun loop_of :: "nat \<Rightarrow> expr \<Rightarrow> level" where
  "loop_of k e = (if k = 0 then POrLoop e else if k = 1 then PAndLoop e else PEqualityLoop e)"

text \<open>No operator of strength \<open>k\<close> or more follows.\<close>

definition closed_at :: "nat \<Rightarrow> token list \<Rightarrow> bool" where
  "closed_at k rest \<longleftrightarrow> (\<forall>op. k \<le> strength op \<longrightarrow> \<not> peek_is (TOp op) rest)"

definition reads :: "nat \<Rightarrow> expr \<Rightarrow> bool" where
  "reads k e \<longleftrightarrow> (\<forall>rest. closed_at (Suc k) rest \<longrightarrow>
     (if k < 3 then \<forall>e' rest'. evals (loop_of k e) rest e' rest' \<longrightarrow>
                     evals (method_of k) (print_at k e @ rest) e' rest'
      else evals PUnary (print_at k e @ rest) e rest))"

lemma closed_at_mono: "closed_at k rest \<Longrightarrow> k \<le> j \<Longrightarrow> closed_at j rest"
  by (auto simp: closed_at_def)

lemma closed_at_RParen [simp]: "closed_at k (TRParen # rest)" "closed_at k (TEof # rest)"
  by (simp_all add: closed_at_def)

lemma closed_at_op: "closed_at (Suc (strength op)) (TOp op # rest)"
  by (auto simp: closed_at_def)

lemma reads_exact:
  assumes "reads k e" and "closed_at k rest" and "k \<le> 3"
  shows "evals (method_of k) (print_at k e @ rest) e rest"
proof (cases "k < 3")
  case True
  have "\<not> peek_is (TOp op) rest" if "k \<le> strength op" for op
    using assms(2) that by (simp add: closed_at_def)
  with True have "evals (loop_of k e) rest e rest"
    by (auto intro!: evals_loop_end)
  with True assms show ?thesis
    using closed_at_mono [of k rest "Suc k"] by (auto simp: reads_def)
next
  case False
  with assms show ?thesis
    using closed_at_mono [of k rest "Suc k"] by (auto simp: reads_def)
qed

lemma reads_lift:
  assumes "reads (Suc k) e" and "k < 3" and "print_at k e = print_at (Suc k) e"
  shows "reads k e"
proof -
  have "evals (method_of k) (print_at k e @ rest) e' rest'"
    if "closed_at (Suc k) rest" and loop: "evals (loop_of k e) rest e' rest'" for rest e' rest'
  proof -
    have inner: "evals (method_of (Suc k)) (print_at k e @ rest) e rest"
      using reads_exact [OF assms(1) that(1)] assms(2,3) by simp
    consider "k = 0" | "k = 1" | "k = 2" using assms(2) by linarith
    then show ?thesis
      using inner loop by cases (auto intro: evals_method)
  qed
  with assms(2) show ?thesis by (simp add: reads_def)
qed

lemma reads_parens:
  assumes "reads 0 e" and "print_at 3 e = TLParen # print_at 0 e @ [TRParen]"
  shows "reads 3 e"
proof -
  have "evals PUnary (TLParen # print_at 0 e @ TRParen # rest) e rest" for rest
    using reads_exact [OF assms(1), of "TRParen # rest"] by (auto intro: evals_parens)
  with assms(2) show ?thesis by (simp add: reads_def)
qed

lemma reads_binary:
  assumes a: "reads (strength op) a" and b: "reads (Suc (strength op)) b"
  shows "reads (strength op) (EBin op a b)"
proof -
  let ?k = "strength op"
  have k: "?k < 3" by (cases op) auto
  have "evals (method_of ?k) (print_at ?k (EBin op a b) @ rest) e' rest'"
    if "closed_at (Suc ?k) rest" and loop: "evals (loop_of ?k (EBin op a b)) rest e' rest'"
    for rest e' rest'
  proof -
    let ?mid = "print_at (Suc ?k) b @ rest"
    have "evals (method_of (Suc ?k)) ?mid b rest"
      using reads_exact [OF b that(1)] k by simp
    with loop have "evals (loop_of ?k a) (TOp op # ?mid) e' rest'"
      by (cases op) (auto intro: evals_loop)
    with a k show ?thesis
      by (simp add: reads_def closed_at_op parens_if_def)
  qed
  with k show ?thesis by (simp add: reads_def)
qed

lemma reads_leaf:
  assumes "leaf_of (leaf_token e) = Some e" and "\<And>k. print_at k e = [leaf_token e]" and "k \<le> 3"
  shows "reads k e"
  using assms(3)
proof (induction rule: inc_induct)
  case base
  show ?case using evals_leaf [OF assms(1)] by (simp add: reads_def assms(2))
next
  case (step k)
  show ?case using step.hyps by (intro reads_lift [OF step.IH]) (simp_all add: assms(2))
qed

lemma reads_printed: "printable e \<Longrightarrow> k \<le> 3 \<Longrightarrow> reads k e"
proof (induction e arbitrary: k)
  case (EBin op a b)
  let ?e = "EBin op a b" and ?s = "strength op"
  have s: "?s < 3" by (cases op) auto
  have at: "reads ?s ?e"
    using EBin s by (intro reads_binary) simp_all
  have below: "reads j ?e" if "j \<le> ?s" for j
    using that
  proof (induction rule: inc_induct)
    case (step j)
    show ?case using step.hyps s by (intro reads_lift [OF step.IH]) (simp_all add: parens_if_def)
  qed (rule at)
  have top: "reads 3 ?e"
    using below [of 0] s by (intro reads_parens) (simp_all add: parens_if_def)
  have above: "reads j ?e" if "j \<le> 3" "?s < j" for j
    using that(1)
  proof (induction rule: inc_induct)
    case (step m)
    show ?case using step.hyps that(2) by (intro reads_lift [OF step.IH]) (simp_all add: parens_if_def)
  qed (rule top)
  show ?case
    using below above EBin.prems by (cases "k \<le> ?s") auto
next
  case (ENot a)
  have top: "reads 3 (ENot a)"
    using ENot reads_exact [of 3 a] evals_not by (auto simp: reads_def)
  show ?case
    using ENot.prems(2)
  proof (induction rule: inc_induct)
    case (step j)
    show ?case using step.hyps by (intro reads_lift [OF step.IH]) simp_all
  qed (rule top)
qed (rule reads_leaf; auto)+

lemma evals_parse_tokens:
  assumes "evals POr ts e [TEof]"
  shows "parse_tokens ts = Some (Inr e)"
proof -
  from assms obtain n where n: "parse_at n POr ts = preturn e [TEof]" by (auto simp: evals_def)
  obtain r where r: "parse_at (parse_fuel ts) POr ts = Some r"
    using parse_tokens_total [of ts] by (auto simp: parse_tokens_def split: option.splits)
  have "preturn e [TEof] = Some r"
    using parse_more_fuel [of n "max n (parse_fuel ts)" POr ts]
      parse_more_fuel [of "parse_fuel ts" "max n (parse_fuel ts)" POr ts] n r
    by (simp add: upto_fuel_def preturn_def)
  with r show ?thesis by (auto simp: parse_tokens_def preturn_def)
qed

lemma parse_printed: "printable e \<Longrightarrow> parse_tokens (print_at 0 e @ [TEof]) = Some (Inr e)"
  using reads_exact [OF reads_printed, of e 0 "[TEof]"] by (auto intro: evals_parse_tokens)

subsection \<open>The messages of the errors\<close>

fun token_type :: "token \<Rightarrow> string" where
  "token_type (TIdent _) = ''ident''"
| "token_type (TString _) = ''string''"
| "token_type (TNumber _) = ''number''"
| "token_type (TOp _) = ''op''"
| "token_type TNot = ''op''"
| "token_type TLParen = ''lparen''"
| "token_type TRParen = ''rparen''"
| "token_type TEof = ''eof''"

fun scope_error_message :: "scope_error \<Rightarrow> string" where
  "scope_error_message (UnterminatedString i) = ''unterminated string at '' @ show_nat i"
| "scope_error_message (UnexpectedChar c i) =
     ''unexpected character '' @ [CHR 0x27, c, CHR 0x27] @ '' at '' @ show_nat i"
| "scope_error_message TrailingTokens = ''unexpected trailing tokens''"
| "scope_error_message MissingParen = ''missing )''"
| "scope_error_message (UnexpectedToken t) = ''unexpected token '' @ token_type t"
| "scope_error_message ReadPastEnd =
     ''Cannot read properties of undefined (reading '' @ [CHR 0x27] @ ''type'' @ [CHR 0x27] @ '')''"

subsection \<open>The parse cache\<close>

text \<open>What a source parses to; \<open>the\<close> is defined by \<open>parse_tokens_total\<close>.\<close>

definition parse_source :: "string \<Rightarrow> scope_error + expr" where
  "parse_source source = bindE (tokenize source) (\<lambda>ts. the (parse_tokens ts))"

type_synonym parse_cache = "expr record_of"

definition parseScopeExpression ::
  "parse_cache \<Rightarrow> string \<Rightarrow> (scope_error + expr) \<times> parse_cache" where
  "parseScopeExpression cache source =
     (case map_of cache source of
        Some e \<Rightarrow> (Inr e, cache)
      | None \<Rightarrow>
          (case parse_source source of
             Inl err \<Rightarrow> (Inl err, cache)
           | Inr e \<Rightarrow>
               (Inr e, AList.update source e (if length cache > 500 then [] else cache))))"

definition cache_ok :: "parse_cache \<Rightarrow> bool" where
  "cache_ok cache \<longleftrightarrow> length cache \<le> 501 \<and>
     (\<forall>source e. map_of cache source = Some e \<longrightarrow> parse_source source = Inr e)"

lemma length_update_le: "length (AList.update k v m) \<le> Suc (length m)"
  by (induction m) auto

lemma cached_parse:
  assumes "cache_ok cache"
  shows "fst (parseScopeExpression cache source) = parse_source source"
    and "cache_ok (snd (parseScopeExpression cache source))"
  using assms length_update_le [of source _ cache]
  by (auto simp: parseScopeExpression_def cache_ok_def split: option.splits sum.splits
      intro: le_trans [OF length_update_le])

subsection \<open>Evaluation\<close>

text \<open>The properties an object finds on its prototype, \<open>Object.prototype\<close> or \<open>Array.prototype\<close>.\<close>

definition object_methods :: "string list" where
  "object_methods = [''toString'', ''toLocaleString'', ''valueOf'', ''hasOwnProperty'',
     ''isPrototypeOf'', ''propertyIsEnumerable'', ''__defineGetter__'', ''__defineSetter__'',
     ''__lookupGetter__'', ''__lookupSetter__'']"

definition array_methods :: "string list" where
  "array_methods = [''at'', ''concat'', ''copyWithin'', ''entries'', ''every'', ''fill'',
     ''filter'', ''find'', ''findIndex'', ''findLast'', ''findLastIndex'', ''flat'', ''flatMap'',
     ''forEach'', ''includes'', ''indexOf'', ''join'', ''keys'', ''lastIndexOf'', ''map'', ''pop'',
     ''push'', ''reduce'', ''reduceRight'', ''reverse'', ''shift'', ''slice'', ''some'', ''sort'',
     ''splice'', ''toLocaleString'', ''toReversed'', ''toSorted'', ''toSpliced'', ''toString'',
     ''unshift'', ''values'', ''with'']"

text \<open>A canonical array index: decimal digits without a leading zero.\<close>

definition array_index :: "string \<Rightarrow> nat option" where
  "array_index s =
     (if s \<noteq> [] \<and> list_all is_digit s \<and> (s = ''0'' \<or> hd s \<noteq> CHR ''0'')
      then Some (digits_value 0 s) else None)"

text \<open>\<open>current[segment]\<close> of an object or an array, for a segment that is not a blocked one.\<close>

definition inherited :: "string list \<Rightarrow> string \<Rightarrow> string \<Rightarrow> jsval option" where
  "inherited names owner k = (if k \<in> set names then Some (JFun (owner @ k)) else None)"

definition get_property :: "jsval \<Rightarrow> string \<Rightarrow> jsval" where
  "get_property v k = (case v of
     JObj _ fs \<Rightarrow>
       (case map_of fs k of
          Some w \<Rightarrow> w
        | None \<Rightarrow> (case inherited object_methods ''Object.'' k of Some w \<Rightarrow> w | None \<Rightarrow> JUndef))
   | JArr _ xs \<Rightarrow>
       (if k = ''length'' then JNum (of_nat (length xs))
        else case array_index k of
          Some i \<Rightarrow> if i < length xs then xs ! i else JUndef
        | None \<Rightarrow>
            (case inherited array_methods ''Array.'' k of
               Some w \<Rightarrow> w
             | None \<Rightarrow> (case inherited object_methods ''Object.'' k of Some w \<Rightarrow> w | None \<Rightarrow> JUndef)))
   | _ \<Rightarrow> JUndef)"

definition is_object :: "jsval \<Rightarrow> bool" where
  "is_object v = (case v of JObj _ _ \<Rightarrow> True | JArr _ _ \<Rightarrow> True | _ \<Rightarrow> False)"

definition blocked :: "string \<Rightarrow> bool" where
  "blocked s \<longleftrightarrow> s = ''__proto__'' \<or> s = ''constructor'' \<or> s = ''prototype''"

fun resolveRef :: "string list \<Rightarrow> jsval \<Rightarrow> jsval" where
  "resolveRef [] current = current"
| "resolveRef (segment # path) current =
     (if blocked segment then JUndef
      else if \<not> is_object current then JUndef
      else resolveRef path (get_property current segment))"

fun truthy :: "jsval \<Rightarrow> bool" where
  "truthy (JBool b) = b"
| "truthy JUndef = False"
| "truthy JNull = False"
| "truthy (JNum n) = (n \<noteq> 0)"
| "truthy (JStr s) = (s \<noteq> [])"
| "truthy _ = True"

fun evaluateNode :: "expr \<Rightarrow> jsval \<Rightarrow> jsval" where
  "evaluateNode (ELit v) scope = v"
| "evaluateNode (ERef path) scope = resolveRef path scope"
| "evaluateNode (ENot e) scope = JBool (\<not> truthy (evaluateNode e scope))"
| "evaluateNode (EBin op l r) scope =
     (case op of
        OpAnd \<Rightarrow> JBool (truthy (evaluateNode l scope) \<and> truthy (evaluateNode r scope))
      | OpOr \<Rightarrow> JBool (truthy (evaluateNode l scope) \<or> truthy (evaluateNode r scope))
      | OpEq \<Rightarrow> JBool (strict_eq (evaluateNode l scope) (evaluateNode r scope))
      | OpNe \<Rightarrow> JBool (\<not> strict_eq (evaluateNode l scope) (evaluateNode r scope)))"

text \<open>
  The two entry points. The cache is left out of them: with any cache the code can have,
  parsing answers what it answers with none (\<open>cached_parse\<close>).
\<close>

definition evaluateScopeExpression :: "string \<Rightarrow> jsval \<Rightarrow> scope_error + bool" where
  "evaluateScopeExpression source scope =
     bindE (parse_source source) (\<lambda>e. Inr (truthy (evaluateNode e scope)))"

definition evaluateScopeValue :: "string \<Rightarrow> jsval \<Rightarrow> scope_error + jsval" where
  "evaluateScopeValue source scope = bindE (parse_source source) (\<lambda>e. Inr (evaluateNode e scope))"

lemma resolveRef_blocked: "\<exists>s \<in> set path. blocked s \<Longrightarrow> resolveRef path scope = JUndef"
  by (induction path arbitrary: scope) auto

lemma resolveRef_not_object: "\<not> is_object v \<Longrightarrow> path \<noteq> [] \<Longrightarrow> resolveRef path v = JUndef"
  by (cases path) auto

subsection \<open>Properties\<close>

text \<open>
  C8. The recursive-descent parser inverts the printer that puts parentheses only where the
  precedences (\<open>||\<close>, then \<open>&&\<close>, then \<open>==\<close> and \<open>!=\<close>, then \<open>!\<close>) and the left associativity
  need them: every expression a source can denote is read back as itself.
\<close>

theorem parser_inverts_printer:
  "printable e \<Longrightarrow> parse_tokens (print_at 0 e @ [TEof]) = Some (Inr e)"
  by (rule parse_printed)

theorem parser_inverts_printer_witness:
  "parse_tokens
     [TLParen, TIdent ''a'', TOp OpOr, TIdent ''b.c'', TRParen, TOp OpAnd, TNot,
      TIdent ''x'', TOp OpEq, TNumber 3, TEof] =
   Some (Inr (EBin OpAnd (EBin OpOr (ERef [''a'']) (ERef [''b'', ''c'']))
     (EBin OpEq (ENot (ERef [''x''])) (ELit (JNum 3)))))"
  using parser_inverts_printer
    [of "EBin OpAnd (EBin OpOr (ERef [''a'']) (ERef [''b'', ''c'']))
       (EBin OpEq (ENot (ERef [''x''])) (ELit (JNum 3)))"]
  by (simp add: parens_if_def)

text \<open>
  The parser always ends: on every token list, one that does not even end with the
  end-of-input token included, it returns an expression or throws.
\<close>

theorem parser_terminates: "\<exists>r. parse_tokens ts = Some r"
  by (rule parse_tokens_total)

text \<open>
  C9. The parse cache is transparent and bounded: from any cache the code can have, the cached
  parse answers what the parser answers, and leaves such a cache, of at most 501 entries.
\<close>

theorem cache_transparent:
  assumes "cache_ok cache"
  shows "fst (parseScopeExpression cache source) = parse_source source \<and>
     cache_ok (snd (parseScopeExpression cache source))"
  using cached_parse [OF assms] by simp

theorem cache_transparent_witness:
  "fst (parseScopeExpression [] ''vars.ok'') = parse_source ''vars.ok'' \<and>
   cache_ok (snd (parseScopeExpression [] ''vars.ok''))"
  using cache_transparent [of "[]" "''vars.ok''"] by (simp add: cache_ok_def)

text \<open>
  References do reach inherited members, though the language promises no prototype access:
  \<open>vars.toString\<close> is true in every scope whose \<open>vars\<close> is an object with no field of that
  name.
\<close>

theorem references_reach_prototype:
  assumes "map_of scope ''vars'' = Some (JObj v fs)" and "map_of fs ''toString'' = None"
  shows "evaluateScopeExpression ''vars.toString'' (JObj i scope) = Inr True"
proof -
  have parsed: "parse_source ''vars.toString'' = Inr (ERef [''vars'', ''toString''])"
    by code_simp
  have "inherited object_methods ''Object.'' ''toString'' = Some (JFun ''Object.toString'')"
    by (simp add: inherited_def object_methods_def)
  with assms show ?thesis
    by (simp add: evaluateScopeExpression_def parsed blocked_def is_object_def get_property_def)
qed

theorem references_reach_prototype_witness:
  "evaluateScopeExpression ''vars.toString'' (JObj (Host 0) [(''vars'', JObj (Host 1) [])]) = Inr True"
  by (rule references_reach_prototype [of _ "Host 1" "[]"]) simp_all

end
