(* ===== verification/Graph.thy ===== *)
theory Graph
  imports Prelude
begin

section \<open>The data model of workflow graphs\<close>

text \<open>
  \<open>packages/core/src/graph.ts\<close>, the trigger and eligibility types of
  \<open>packages/core/src/workflow.ts\<close>, the wait types of \<open>packages/core/src/waits.ts\<close> and the
  persisted graph state of \<open>packages/core/src/run-graph.ts\<close>, field by field. An optional field
  is an \<open>option\<close>; a \<open>number\<close> a source can write is a rational; a \<open>Record\<close> is an
  association list in insertion order. The engine's own counters are natural numbers.
\<close>

subsection \<open>Triggers and eligibility\<close>

record workflow_trigger =
  trg_states :: "string list option"
  trg_labels :: "string list option"

record workflow_eligibility =
  labelsInclude :: "string list option"
  labelsExclude :: "string list option"
  elig_types :: "string list option"
  elig_assignee :: "string option"

subsection \<open>Nodes\<close>

datatype graph_node_kind =
  KAgent | KCommand | KAction | KGate | KHumanInput | KWait | KSubworkflow | KExperiment
| KFanOut | KTerminal

record definition_ref =
  ref_name :: string
  ref_version :: "nat option"

datatype wait_kind =
  WHumanInput | WApproval | WTime | WExternalEvent | WDependency | WProviderAvailability
| WWorkItemEvent

record wait_spec =
  ws_kind :: wait_kind
  ws_parameters :: fields
  ws_timeoutMs :: "int option"

datatype human_input_type =
  HText | HBoolean | HSingleChoice | HMultipleChoice | HApproval | HSecret | HFileReference
| HFreeForm

datatype surface = SurfaceApp | SurfaceWorkItem | SurfaceBoth

record human_input_request_spec =
  hr_type :: human_input_type
  hr_prompt :: string
  hr_surface :: surface
  hr_choices :: "string list option"
  hr_secretName :: "string option"
  hr_timeoutMs :: "int option"

record agent_node_config =
  an_goal :: string
  an_profile :: "definition_ref option"
  an_outputSchema :: "fields option"
  an_toolNames :: "string list option"
  an_maxTurns :: "rat option"
  an_timeoutMs :: "int option"

record command_node_config =
  cn_command :: string
  cn_cwd :: "string option"
  cn_env :: "string record_of option"
  cn_timeoutMs :: "int option"

record action_node_config =
  ac_action :: string
  ac_with :: "fields option"

record gate_node_config =
  gn_gateSet :: definition_ref
  gn_maxRemediationAttempts :: "rat option"
  gn_remediationProfile :: "definition_ref option"

record subworkflow_node_config =
  sn_workflow :: definition_ref
  sn_inputs :: "string record_of option"

record experiment_node_config =
  en_experiment :: definition_ref
  en_rubric :: "definition_ref option"

datatype join_mode = JoinAll | JoinAny | JoinMin

record join_spec =
  join_mode :: join_mode
  join_n :: "rat option"
  join_required :: "string list option"

record fan_out_node_config =
  fo_items :: string
  fo_workflow :: definition_ref
  fo_join :: join_spec
  fo_maxConcurrency :: "rat option"

datatype terminal_outcome = OutCompleted | OutFailed | OutBlocked

datatype graph_node_config =
  AgentNode agent_node_config
| CommandNode command_node_config
| ActionNode action_node_config
| GateNode gate_node_config
| HumanInputNode human_input_request_spec
| WaitNode wait_spec
| SubworkflowNode subworkflow_node_config
| ExperimentNode experiment_node_config
| FanOutNode fan_out_node_config
| TerminalNode terminal_outcome

fun config_kind :: "graph_node_config \<Rightarrow> graph_node_kind" where
  "config_kind (AgentNode _) = KAgent"
| "config_kind (CommandNode _) = KCommand"
| "config_kind (ActionNode _) = KAction"
| "config_kind (GateNode _) = KGate"
| "config_kind (HumanInputNode _) = KHumanInput"
| "config_kind (WaitNode _) = KWait"
| "config_kind (SubworkflowNode _) = KSubworkflow"
| "config_kind (ExperimentNode _) = KExperiment"
| "config_kind (FanOutNode _) = KFanOut"
| "config_kind (TerminalNode _) = KTerminal"

record lifecycle_effect =
  setDomainState :: "string option"
  setData :: "string record_of option"
  project :: "string option"

record retry_policy =
  maxAttempts :: rat
  backoffMs :: "int option"

record graph_node =
  node_id :: string
  node_config :: graph_node_config
  node_join :: "join_spec option"
  node_guards :: "string list option"
  onEnter :: "lifecycle_effect option"
  onExit :: "lifecycle_effect option"
  node_retry :: "retry_policy option"

record graph_transition =
  tr_id :: string
  tr_from :: string
  tr_to :: string
  tr_condition :: "string option"
  loopBound :: "rat option"
  tr_effects :: "lifecycle_effect option"

record external_projection =
  xp_states :: "string record_of option"
  xp_comments :: "string list option"
  xp_managedSection :: "bool option"

datatype retention = RetainAlways | RetainOnFailure | RetainNever

record workspace_config =
  wc_strategy :: string
  wc_retention :: "retention option"

record workflow_graph =
  graph_name :: string
  graph_description :: "string option"
  graph_entry :: string
  graph_nodes :: "graph_node list"
  graph_transitions :: "graph_transition list"
  graph_domainStates :: "string list option"
  graph_projection :: "external_projection option"
  graph_trigger :: "workflow_trigger option"
  graph_eligibility :: "workflow_eligibility option"
  graph_defaultProfile :: "definition_ref option"
  graph_variables :: "string record_of option"
  graph_workspace :: "workspace_config option"

definition is_terminal_node :: "graph_node \<Rightarrow> bool" where
  "is_terminal_node n \<longleftrightarrow> config_kind (node_config n) = KTerminal"

lemma is_terminal_node_iff: "is_terminal_node n \<longleftrightarrow> (\<exists>out. node_config n = TerminalNode out)"
  by (cases "node_config n") (auto simp: is_terminal_node_def)

subsection \<open>Waits and human input\<close>

datatype wait_status = WaitOpen | WaitSatisfied | WaitExpired | WaitCancelled

datatype channel = ChannelApp | ChannelWorkItem

record human_input =
  hi_requestId :: string
  hi_responder :: string
  hi_channel :: channel
  hi_at :: time
  hi_value :: jsval

record wait_satisfaction =
  sat_kind :: wait_kind
  sat_at :: time
  sat_input :: "human_input option"
  sat_event :: "fields option"

record wait_condition =
  wait_id :: string
  wait_runId :: string
  wait_nodeId :: string
  wait_kind :: wait_kind
  wait_parameters :: fields
  wait_request :: "human_input_request_spec option"
  wait_status :: wait_status
  wait_createdAt :: time
  wait_dueAt :: "time option"
  wait_satisfiedAt :: "time option"
  wait_satisfaction :: "wait_satisfaction option"

record supplemental_input =
  sup_waitId :: string
  sup_runId :: string
  sup_input :: human_input
  sup_promotedAt :: "time option"

subsection \<open>The persisted state of a graph run\<close>

datatype node_status = Succeeded | Failed_status | Skipped

record node_result =
  res_nodeId :: string
  res_attempt :: nat
  res_status :: node_status
  res_outputs :: jsval
  res_error :: "string option"
  res_startedAt :: time
  res_settledAt :: time

record domain_state =
  dom_name :: "string option"
  dom_data :: fields

datatype branch_status = BranchPending | BranchActive | BranchSucceeded | BranchFailed

record fan_out_branch =
  br_key :: string
  br_childRunId :: "string option"
  br_status :: branch_status
  br_outputs :: "fields option"

record fan_out_state =
  fan_nodeId :: string
  fan_branches :: "fan_out_branch list"

record run_graph_state =
  gs_runId :: string
  gs_snapshotId :: string
  activeNodeIds :: "string list"
  waitingNodeIds :: "string list"
  nodeResults :: "node_result record_of"
  resultHistory :: "node_result list"
  loopCounters :: "nat record_of"
  activations :: "nat record_of"
  retries :: "nat record_of option"
  gs_domain :: domain_state
  fanOuts :: "fan_out_state record_of"
  variables :: fields
  specRevision :: int
  gs_updatedAt :: time

definition initialRunGraphState :: "string \<Rightarrow> string \<Rightarrow> fields \<Rightarrow> run_graph_state" where
  "initialRunGraphState runId snapshotId vars = \<lparr>
     gs_runId = runId, gs_snapshotId = snapshotId, activeNodeIds = [], waitingNodeIds = [],
     nodeResults = [], resultHistory = [], loopCounters = [], activations = [],
     retries = Some [], gs_domain = \<lparr>dom_name = None, dom_data = []\<rparr>, fanOuts = [],
     variables = vars, specRevision = 1, gs_updatedAt = 0\<rparr>"

end
