(* ===== verification/GraphValidate.thy ===== *)
theory GraphValidate
  imports Graph
begin

section \<open>Structural validation of workflow graphs\<close>

text \<open>
  \<open>packages/core/src/graph-validate.ts\<close>. The two breadth-first searches terminate on every
  graph and compute reachability; \<open>validateGraph\<close> reports nothing exactly for the graphs that
  are well formed in the declarative sense of \<open>well_formed\<close>.
\<close>

datatype graph_issue =
  DuplicateNodeId string | EntryMissing string | DuplicateTransitionId string
| UnknownSource string string | UnknownTarget string string | LoopBoundBelowOne string
| Unreachable string | NoReachableTerminal | TerminalHasOutgoing string
| JoinInCycle string join_mode | MinJoinWithoutN string | UnboundedCycle string

type_synonym adjacency = "string list record_of"

subsection \<open>The searches\<close>

function reach_loop :: "adjacency \<Rightarrow> string list \<Rightarrow> string list \<Rightarrow> string list" where
  "reach_loop outgoing reachable queue =
     (case queue of
        [] \<Rightarrow> reachable
      | current # rest \<Rightarrow>
          if current \<in> set reachable then reach_loop outgoing reachable rest
          else reach_loop outgoing (reachable @ [current]) (rest @ lookup_list outgoing current))"
  by pat_completeness auto

text \<open>What a search may still visit: the targets and the queue, less what it has seen.\<close>

definition frontier :: "adjacency \<Rightarrow> string list \<Rightarrow> string list \<Rightarrow> string set" where
  "frontier outgoing seen queue = (set (concat (map snd outgoing)) \<union> set queue) - set seen"

lemma finite_frontier [simp]: "finite (frontier outgoing seen queue)"
  by (simp add: frontier_def)

lemma frontier_skip: "frontier outgoing seen rest \<subseteq> frontier outgoing seen (c # rest)"
  by (auto simp: frontier_def)

lemma frontier_visit:
  "c \<notin> set seen \<Longrightarrow>
   frontier outgoing (seen @ [c]) (rest @ lookup_list outgoing c) \<subset> frontier outgoing seen (c # rest)"
  using lookup_list_subset [of outgoing c] by (auto simp: frontier_def)

lemma frontier_skip_measure:
  "card (frontier outgoing seen rest) < card (frontier outgoing seen (c # rest)) \<or>
   card (frontier outgoing seen rest) = card (frontier outgoing seen (c # rest))"
  using card_mono [OF finite_frontier frontier_skip] by (auto simp: le_less)

lemma frontier_visit_measure:
  "c \<notin> set seen \<Longrightarrow> card (frontier outgoing (seen @ [c]) (rest @ lookup_list outgoing c)) <
     card (frontier outgoing seen (c # rest))"
  by (rule psubset_card_mono [OF finite_frontier frontier_visit])

termination reach_loop
  by (relation "measures [\<lambda>(m, seen, queue). card (frontier m seen queue),
                          \<lambda>(m, seen, queue). length queue]")
    (use frontier_skip_measure frontier_visit_measure in auto)

declare reach_loop.simps [simp del]

function reachesBack_loop :: "adjacency \<Rightarrow> string \<Rightarrow> string list \<Rightarrow> string list \<Rightarrow> bool" where
  "reachesBack_loop outgoing target seen queue =
     (case queue of
        [] \<Rightarrow> False
      | current # rest \<Rightarrow>
          if current \<in> set seen then reachesBack_loop outgoing target seen rest
          else if current = target then True
          else reachesBack_loop outgoing target (seen @ [current])
                 (rest @ lookup_list outgoing current))"
  by pat_completeness auto

termination reachesBack_loop
  by (relation "measures [\<lambda>(m, t, seen, queue). card (frontier m seen queue),
                          \<lambda>(m, t, seen, queue). length queue]")
    (use frontier_skip_measure frontier_visit_measure in auto)

declare reachesBack_loop.simps [simp del]

definition reachesBack :: "string \<Rightarrow> string \<Rightarrow> adjacency \<Rightarrow> bool" where
  "reachesBack from target outgoing = reachesBack_loop outgoing target [] [from]"

subsection \<open>What the searches compute\<close>

definition edges :: "adjacency \<Rightarrow> (string \<times> string) set" where
  "edges outgoing = {(x, y). y \<in> set (lookup_list outgoing x)}"

lemma reach_loop_keeps: "set seen \<union> set queue \<subseteq> set (reach_loop m seen queue)"
proof (induction m seen queue rule: reach_loop.induct)
  case (1 m seen queue)
  then show ?case
    by (subst reach_loop.simps) (auto split: list.splits if_splits)
qed

lemma reach_loop_sound:
  "set (reach_loop m seen queue) \<subseteq> set seen \<union> (edges m)\<^sup>* `` set queue"
proof (induction m seen queue rule: reach_loop.induct)
  case (1 m seen queue)
  show ?case
  proof (cases queue)
    case (Cons c rest)
    have step: "(edges m)\<^sup>* `` set (lookup_list m c) \<subseteq> (edges m)\<^sup>* `` {c}"
      by (auto simp: edges_def intro: converse_rtrancl_into_rtrancl)
    show ?thesis
    proof (cases "c \<in> set seen")
      case True
      with 1(1) [OF Cons True] Cons show ?thesis
        by (subst reach_loop.simps) auto
    next
      case False
      with 1(2) [OF Cons False] Cons step show ?thesis
        by (subst reach_loop.simps) (auto simp: Image_Un)
    qed
  qed (simp add: reach_loop.simps)
qed

lemma reach_loop_closed:
  assumes "\<forall>x \<in> set seen. set (lookup_list m x) \<subseteq> set seen \<union> set queue"
  shows "\<forall>x \<in> set (reach_loop m seen queue).
    set (lookup_list m x) \<subseteq> set (reach_loop m seen queue)"
  using assms
proof (induction m seen queue rule: reach_loop.induct)
  case (1 m seen queue)
  show ?case
  proof (cases queue)
    case (Cons c rest)
    show ?thesis
    proof (cases "c \<in> set seen")
      case True
      with 1(1) [OF Cons True] Cons 1(3) show ?thesis
        by (subst (1 2) reach_loop.simps) auto
    next
      case False
      with 1(2) [OF Cons False] Cons 1(3) show ?thesis
        by (subst (1 2) reach_loop.simps) auto
    qed
  qed (use 1(3) in \<open>simp add: reach_loop.simps\<close>)
qed

lemma reach_loop_reachable: "set (reach_loop m [] [x]) = {y. (x, y) \<in> (edges m)\<^sup>*}"
proof
  show "set (reach_loop m [] [x]) \<subseteq> {y. (x, y) \<in> (edges m)\<^sup>*}"
    using reach_loop_sound [of m "[]" "[x]"] by auto
  have "y \<in> set (reach_loop m [] [x])" if "(x, y) \<in> (edges m)\<^sup>*" for y
    using that
  proof (induction rule: rtrancl_induct)
    case base
    then show ?case using reach_loop_keeps [of "[]" "[x]" m] by auto
  next
    case (step y z)
    then show ?case
      using reach_loop_closed [of "[]" m "[x]"] by (auto simp: edges_def)
  qed
  then show "{y. (x, y) \<in> (edges m)\<^sup>*} \<subseteq> set (reach_loop m [] [x])" by auto
qed

lemma reachesBack_loop_eq:
  "target \<notin> set seen \<Longrightarrow>
   reachesBack_loop m target seen queue \<longleftrightarrow> target \<in> set (reach_loop m seen queue)"
proof (induction m target seen queue rule: reachesBack_loop.induct)
  case (1 m target seen queue)
  show ?case
  proof (cases queue)
    case (Cons c rest)
    consider "c \<in> set seen" | "c \<notin> set seen" "c = target" | "c \<notin> set seen" "c \<noteq> target"
      by blast
    then show ?thesis
    proof cases
      case 1
      with "1.IH"(1) [OF Cons 1] Cons "1.prems" show ?thesis
        by (simp add: reachesBack_loop.simps [of m target seen "c # rest"]
              reach_loop.simps [of m seen "c # rest"])
    next
      case 2
      then show ?thesis
        using Cons reach_loop_keeps [of seen queue m] by (auto simp: reachesBack_loop.simps)
    next
      case 3
      with "1.IH"(2) [OF Cons 3] Cons "1.prems" show ?thesis
        by (simp add: reachesBack_loop.simps [of m target seen "c # rest"]
              reach_loop.simps [of m seen "c # rest"])
    qed
  qed (use "1.prems" in \<open>simp add: reachesBack_loop.simps reach_loop.simps\<close>)
qed

lemma reachesBack_iff [simp]: "reachesBack x y m \<longleftrightarrow> (x, y) \<in> (edges m)\<^sup>*"
  using reachesBack_loop_eq [of y "[]" m "[x]"] reach_loop_reachable [of m x]
  by (simp add: reachesBack_def)

subsection \<open>The validator\<close>

definition report :: "bool \<Rightarrow> graph_issue \<Rightarrow> graph_issue list" where
  "report found issue = (if found then [issue] else [])"

lemma report_Nil [simp]: "report found issue = [] \<longleftrightarrow> \<not> found"
  by (simp add: report_def)

definition node_ids :: "workflow_graph \<Rightarrow> string list" where
  "node_ids g = map node_id (graph_nodes g)"

fun node_id_issues :: "string list \<Rightarrow> graph_node list \<Rightarrow> graph_issue list" where
  "node_id_issues nodeIds [] = []"
| "node_id_issues nodeIds (node # rest) =
     report (node_id node \<in> set nodeIds) (DuplicateNodeId (node_id node)) @
     node_id_issues (nodeIds @ [node_id node]) rest"

definition loop_bound_below_one :: "graph_transition \<Rightarrow> bool" where
  "loop_bound_below_one t = (case loopBound t of None \<Rightarrow> False | Some b \<Rightarrow> b < 1)"

fun transition_issues ::
  "string list \<Rightarrow> string list \<Rightarrow> graph_transition list \<Rightarrow> graph_issue list" where
  "transition_issues nodeIds transitionIds [] = []"
| "transition_issues nodeIds transitionIds (t # rest) =
     report (tr_id t \<in> set transitionIds) (DuplicateTransitionId (tr_id t)) @
     report (tr_from t \<notin> set nodeIds) (UnknownSource (tr_id t) (tr_from t)) @
     report (tr_to t \<notin> set nodeIds) (UnknownTarget (tr_id t) (tr_to t)) @
     report (loop_bound_below_one t) (LoopBoundBelowOne (tr_id t)) @
     transition_issues nodeIds (transitionIds @ [tr_id t]) rest"

definition referential_issues :: "workflow_graph \<Rightarrow> graph_issue list" where
  "referential_issues g =
     node_id_issues [] (graph_nodes g) @
     report (graph_entry g \<notin> set (node_ids g)) (EntryMissing (graph_entry g)) @
     transition_issues (node_ids g) [] (graph_transitions g)"

definition outgoing_of :: "workflow_graph \<Rightarrow> adjacency" where
  "outgoing_of g = group_by tr_from tr_to (graph_transitions g)"

definition join_issues :: "adjacency \<Rightarrow> graph_node \<Rightarrow> graph_issue list" where
  "join_issues outgoing node =
     (let inCycle = list_ex (\<lambda>nxt. reachesBack nxt (node_id node) outgoing)
                      (lookup_list outgoing (node_id node)) in
      case node_join node of
        None \<Rightarrow> []
      | Some j \<Rightarrow>
          report (join_mode j \<noteq> JoinAny \<and> inCycle) (JoinInCycle (node_id node) (join_mode j)) @
          report (join_mode j = JoinMin \<and> (case join_n j of None \<Rightarrow> True | Some n \<Rightarrow> n < 1))
            (MinJoinWithoutN (node_id node)))"

definition structural_issues :: "workflow_graph \<Rightarrow> graph_issue list" where
  "structural_issues g =
     (let outgoing = outgoing_of g;
          reachable = reach_loop outgoing [] [graph_entry g] in
      concat (map (\<lambda>n. report (node_id n \<notin> set reachable) (Unreachable (node_id n)))
        (graph_nodes g)) @
      report (\<not> list_ex (\<lambda>n. is_terminal_node n \<and> node_id n \<in> set reachable) (graph_nodes g))
        NoReachableTerminal @
      concat (map (\<lambda>n.
          report (is_terminal_node n \<and> lookup_list outgoing (node_id n) \<noteq> [])
            (TerminalHasOutgoing (node_id n)))
        (graph_nodes g)) @
      concat (map (join_issues outgoing) (graph_nodes g)) @
      concat (map (\<lambda>t.
          report (loopBound t = None \<and> reachesBack (tr_to t) (tr_from t) outgoing)
            (UnboundedCycle (tr_id t)))
        (graph_transitions g)))"

definition validateGraph :: "workflow_graph \<Rightarrow> graph_issue list" where
  "validateGraph g =
     (if referential_issues g \<noteq> [] then referential_issues g else structural_issues g)"

subsection \<open>Well-formedness\<close>

text \<open>The graph's own edges, without the adjacency map.\<close>

definition graph_edges :: "workflow_graph \<Rightarrow> (string \<times> string) set" where
  "graph_edges g = {(tr_from t, tr_to t) | t. t \<in> set (graph_transitions g)}"

definition on_cycle :: "workflow_graph \<Rightarrow> string \<Rightarrow> bool" where
  "on_cycle g x \<longleftrightarrow> (x, x) \<in> (graph_edges g)\<^sup>+"

definition referentially_ok :: "workflow_graph \<Rightarrow> bool" where
  "referentially_ok g \<longleftrightarrow>
     distinct (node_ids g) \<and> graph_entry g \<in> set (node_ids g) \<and>
     distinct (map tr_id (graph_transitions g)) \<and>
     (\<forall>t \<in> set (graph_transitions g).
        tr_from t \<in> set (node_ids g) \<and> tr_to t \<in> set (node_ids g) \<and>
        (\<forall>b. loopBound t = Some b \<longrightarrow> 1 \<le> b))"

definition joins_ok :: "workflow_graph \<Rightarrow> graph_node \<Rightarrow> bool" where
  "joins_ok g n \<longleftrightarrow> (\<forall>j. node_join n = Some j \<longrightarrow>
     (join_mode j \<noteq> JoinAny \<longrightarrow> \<not> on_cycle g (node_id n)) \<and>
     (join_mode j = JoinMin \<longrightarrow> (\<exists>k. join_n j = Some k \<and> 1 \<le> k)))"

definition well_formed :: "workflow_graph \<Rightarrow> bool" where
  "well_formed g \<longleftrightarrow> referentially_ok g \<and>
     (\<forall>n \<in> set (graph_nodes g). (graph_entry g, node_id n) \<in> (graph_edges g)\<^sup>* \<and> joins_ok g n \<and>
        (is_terminal_node n \<longrightarrow> (\<forall>t \<in> set (graph_transitions g). tr_from t \<noteq> node_id n))) \<and>
     (\<exists>n \<in> set (graph_nodes g). is_terminal_node n) \<and>
     (\<forall>t \<in> set (graph_transitions g). loopBound t \<noteq> None \<or>
        (tr_to t, tr_from t) \<notin> (graph_edges g)\<^sup>*)"

lemma edges_outgoing [simp]: "edges (outgoing_of g) = graph_edges g"
  by (auto simp: edges_def outgoing_of_def graph_edges_def)

lemma outgoing_lookup [simp]:
  "lookup_list (outgoing_of g) x = map tr_to (filter (\<lambda>t. tr_from t = x) (graph_transitions g))"
  by (simp add: outgoing_of_def)

lemma graph_edge_iff:
  "(x, y) \<in> graph_edges g \<longleftrightarrow> (\<exists>t \<in> set (graph_transitions g). tr_from t = x \<and> tr_to t = y)"
  by (auto simp: graph_edges_def)

lemma node_id_issues_empty:
  "node_id_issues ids ns = [] \<longleftrightarrow> distinct (map node_id ns) \<and> set ids \<inter> node_id ` set ns = {}"
  by (induction ns arbitrary: ids) auto

lemma transition_issues_empty:
  "transition_issues ids tids ts = [] \<longleftrightarrow>
     distinct (map tr_id ts) \<and> set tids \<inter> tr_id ` set ts = {} \<and>
     (\<forall>t \<in> set ts. tr_from t \<in> set ids \<and> tr_to t \<in> set ids \<and> \<not> loop_bound_below_one t)"
  by (induction ts arbitrary: tids) auto

lemma referential_issues_empty: "referential_issues g = [] \<longleftrightarrow> referentially_ok g"
  by (auto simp: referential_issues_def referentially_ok_def node_id_issues_empty node_ids_def
      transition_issues_empty loop_bound_below_one_def not_less split: option.splits)

lemma in_cycle_iff:
  "list_ex (\<lambda>nxt. reachesBack nxt x (outgoing_of g)) (lookup_list (outgoing_of g) x) \<longleftrightarrow> on_cycle g x"
proof -
  have "on_cycle g x \<longleftrightarrow> (\<exists>y. (x, y) \<in> graph_edges g \<and> (y, x) \<in> (graph_edges g)\<^sup>*)"
    unfolding on_cycle_def by (subst trancl_unfold_left) (simp only: relcomp_unfold mem_Collect_eq prod.case)
  then show ?thesis
    by (simp add: list_ex_iff graph_edge_iff) blast
qed

lemma join_issues_empty: "join_issues (outgoing_of g) n = [] \<longleftrightarrow> joins_ok g n"
  unfolding join_issues_def in_cycle_iff joins_ok_def Let_def
  by (auto simp: not_less split: option.splits)

lemma structural_issues_empty:
  "structural_issues g = [] \<longleftrightarrow>
     (\<forall>n \<in> set (graph_nodes g). (graph_entry g, node_id n) \<in> (graph_edges g)\<^sup>* \<and> joins_ok g n \<and>
        (is_terminal_node n \<longrightarrow> (\<forall>t \<in> set (graph_transitions g). tr_from t \<noteq> node_id n))) \<and>
     (\<exists>n \<in> set (graph_nodes g). is_terminal_node n) \<and>
     (\<forall>t \<in> set (graph_transitions g). loopBound t \<noteq> None \<or>
        (tr_to t, tr_from t) \<notin> (graph_edges g)\<^sup>*)"
proof -
  let ?ns = "set (graph_nodes g)" and ?ts = "set (graph_transitions g)"
  have "structural_issues g = [] \<longleftrightarrow>
     (\<forall>n \<in> ?ns. (graph_entry g, node_id n) \<in> (graph_edges g)\<^sup>*) \<and>
     (\<exists>n \<in> ?ns. is_terminal_node n \<and> (graph_entry g, node_id n) \<in> (graph_edges g)\<^sup>*) \<and>
     (\<forall>n \<in> ?ns. is_terminal_node n \<longrightarrow> (\<forall>t \<in> ?ts. tr_from t \<noteq> node_id n)) \<and>
     (\<forall>n \<in> ?ns. joins_ok g n) \<and>
     (\<forall>t \<in> ?ts. loopBound t \<noteq> None \<or> (tr_to t, tr_from t) \<notin> (graph_edges g)\<^sup>*)"
    by (simp add: structural_issues_def Let_def reach_loop_reachable join_issues_empty list_ex_iff
        filter_empty_conv)
  then show ?thesis by blast
qed

lemma validateGraph_empty: "validateGraph g = [] \<longleftrightarrow> well_formed g"
  by (auto simp: validateGraph_def referential_issues_empty structural_issues_empty well_formed_def)

subsection \<open>Properties\<close>

text \<open>
  C4. \<open>validateGraph\<close> reports no issue exactly for the well-formed graphs: unique ids, existing
  endpoints and bounds of at least one, every node reachable from the entry, some terminal
  node and none with a way out, no counting join on a cycle, and a bound on every transition
  that lies on a cycle.
\<close>

theorem validate_iff_well_formed: "validateGraph g = [] \<longleftrightarrow> well_formed g"
  by (rule validateGraph_empty)

text \<open>A walk along declared transitions.\<close>

fun walk :: "workflow_graph \<Rightarrow> graph_transition list \<Rightarrow> bool" where
  "walk g [] \<longleftrightarrow> True"
| "walk g [t] \<longleftrightarrow> t \<in> set (graph_transitions g)"
| "walk g (t # u # ts) \<longleftrightarrow>
     t \<in> set (graph_transitions g) \<and> tr_to t = tr_from u \<and> walk g (u # ts)"

lemma walk_reaches_all:
  "walk g ts \<Longrightarrow> \<forall>t \<in> set ts. t \<in> set (graph_transitions g) \<and>
     (tr_from (hd ts), tr_from t) \<in> (graph_edges g)\<^sup>* \<and>
     (tr_to t, tr_to (last ts)) \<in> (graph_edges g)\<^sup>*"
proof (induction g ts rule: walk.induct)
  case (3 g t u ts)
  then have IH: "\<forall>v \<in> set (u # ts). v \<in> set (graph_transitions g) \<and>
      (tr_from u, tr_from v) \<in> (graph_edges g)\<^sup>* \<and>
      (tr_to v, tr_to (last (u # ts))) \<in> (graph_edges g)\<^sup>*"
    by auto
  have edge: "(tr_from t, tr_from u) \<in> graph_edges g" "(tr_from u, tr_to u) \<in> graph_edges g"
    using 3(2) IH by (auto simp: graph_edge_iff)
  have "(tr_to t, tr_to (last (u # ts))) \<in> (graph_edges g)\<^sup>*"
    using IH edge(2) 3(2) by (auto intro: converse_rtrancl_into_rtrancl)
  moreover have "(tr_from t, tr_from v) \<in> (graph_edges g)\<^sup>*" if "v \<in> set (u # ts)" for v
    using IH edge(1) that by (blast intro: converse_rtrancl_into_rtrancl)
  ultimately show ?case
    using IH 3(2) by auto
qed auto

lemmas walk_reaches = walk_reaches_all [rule_format]

text \<open>
  A validated graph bounds every loop: each transition on a closed walk declares a
  loop bound, and no closed walk passes through a terminal node.
\<close>

theorem valid_loops_bounded:
  assumes "validateGraph g = []" and "walk g ts" and "tr_to (last ts) = tr_from (hd ts)"
    and "t \<in> set ts"
  shows "loopBound t \<noteq> None \<and>
    (\<forall>n \<in> set (graph_nodes g). is_terminal_node n \<longrightarrow> node_id n \<noteq> tr_from t)"
proof -
  have "(tr_to t, tr_from t) \<in> (graph_edges g)\<^sup>*"
    using walk_reaches [OF assms(2,4)] assms(3) by (metis rtrancl_trans)
  moreover have "t \<in> set (graph_transitions g)"
    using walk_reaches [OF assms(2,4)] by simp
  ultimately show ?thesis
    using assms(1) unfolding validateGraph_empty well_formed_def by metis
qed

definition retry_graph :: workflow_graph where
  "retry_graph = \<lparr>
     graph_name = ''retry'', graph_description = None, graph_entry = ''work'',
     graph_nodes =
       [\<lparr>node_id = ''work'', node_config = CommandNode \<lparr>cn_command = ''make'', cn_cwd = None,
          cn_env = None, cn_timeoutMs = None\<rparr>, node_join = None, node_guards = None,
          onEnter = None, onExit = None, node_retry = None\<rparr>,
        \<lparr>node_id = ''done'', node_config = TerminalNode OutCompleted, node_join = None,
          node_guards = None, onEnter = None, onExit = None, node_retry = None\<rparr>],
     graph_transitions =
       [\<lparr>tr_id = ''again'', tr_from = ''work'', tr_to = ''work'',
          tr_condition = Some ''node.error'', loopBound = Some 2, tr_effects = None\<rparr>,
        \<lparr>tr_id = ''finish'', tr_from = ''work'', tr_to = ''done'',
          tr_condition = Some ''!node.error'', loopBound = None, tr_effects = None\<rparr>],
     graph_domainStates = None, graph_projection = None, graph_trigger = None,
     graph_eligibility = None, graph_defaultProfile = None, graph_variables = None,
     graph_workspace = None\<rparr>"

lemma retry_graph_valid: "validateGraph retry_graph = []"
  by code_simp

theorem valid_loops_bounded_witness:
  "loopBound (hd (graph_transitions retry_graph)) \<noteq> None"
  using valid_loops_bounded [OF retry_graph_valid, of "[hd (graph_transitions retry_graph)]"
      "hd (graph_transitions retry_graph)"]
  by (simp add: retry_graph_def)

end
