(* ===== verification/GraphEngine.thy ===== *)
theory GraphEngine
  imports ScopeExpr GraphValidate
begin

section \<open>The durable graph engine\<close>

text \<open>
  \<open>packages/workflow/src/graph-engine/engine.ts\<close>: one tick of a graph run. The tick's local
  variables and its thawed \<open>MutableState\<close> are one record, \<open>tick_state\<close>. What the tick asks of
  its surroundings is \<open>tick_env\<close>: the executors, the clock and the abort signal, each a function
  of how often it has been asked, so that an answer may differ from call to call. An expression
  that throws inside an effect or a condition makes the tick throw, \<open>Inl\<close>; a guard's exception
  and an executor's are caught and become the error of a failed result.

  The identities of the objects the tick allocates (\<open>Built\<close>) are drawn from a counter.
\<close>

subsection \<open>What goes in and out\<close>

datatype node_yield =
  YResult node_status "jsval option" "string option"
| YWait wait_spec "human_input_request_spec option"

record execution_context =
  ctx_runId :: string
  ctx_attempt :: nat
  ctx_variables :: fields
  ctx_domain :: domain_state
  ctx_nodeResults :: "node_result record_of"
  ctx_satisfaction :: "wait_satisfaction option"

record tick_env =
  has_executor :: "graph_node_kind \<Rightarrow> bool"
  execute :: "nat \<Rightarrow> graph_node \<Rightarrow> execution_context \<Rightarrow> string + node_yield"
  clock_now :: "nat \<Rightarrow> time"
  aborted :: "nat \<Rightarrow> bool"
  first_oid :: nat

record pending_wait =
  pw_nodeId :: string
  pw_spec :: wait_spec
  pw_request :: "human_input_request_spec option"

datatype engine_event =
  NodeActivated string nat
| NodeSettled string node_status nat
| TransitionTaken string string string
| WaitOpened string wait_kind
| DomainStateChanged string

datatype fatal_error =
  LoopBoundExceeded string rat
| NoMatchingTransition string string
| BackstopExceeded nat
| EngineInconsistency
| WorkflowStalled

datatype graph_run_status =
  StRunning | StWaiting | StCompleted | StFailed | StBlocked | StCancelled

record tick_outcome =
  out_state :: run_graph_state
  out_status :: graph_run_status
  out_newWaits :: "pending_wait list"
  out_projections :: "string list"
  out_terminal :: "terminal_outcome option"
  out_error :: "fatal_error option"

record tick_state =
  ms_active :: "string list"
  ms_waiting :: "string list"
  ms_results :: "node_result record_of"
  ms_history :: "node_result list"
  ms_loop :: "nat record_of"
  ms_activations :: "nat record_of"
  ms_retries :: "nat record_of"
  ms_domain :: domain_state
  ms_variables :: fields
  newWaits :: "pending_wait list"
  projections :: "string list"
  terminal :: "terminal_outcome option"
  fatalError :: "fatal_error option"
  settlements :: nat
  pendingSatisfactions :: "wait_satisfaction record_of"
  events :: "engine_event list"
  calls :: "(string \<times> wait_satisfaction option) list"
  clock_reads :: nat
  polls :: nat
  next_oid :: nat

subsection \<open>Scopes\<close>

definition set_add :: "'a \<Rightarrow> 'a list \<Rightarrow> 'a list" where
  "set_add x xs = (if x \<in> set xs then xs else xs @ [x])"

lemma set_set_add [simp]: "set (set_add x xs) = insert x (set xs)"
  by (auto simp: set_add_def)

definition status_name :: "node_status \<Rightarrow> string" where
  "status_name st = (case st of
     Succeeded \<Rightarrow> ''succeeded'' | Failed_status \<Rightarrow> ''failed'' | Skipped \<Rightarrow> ''skipped'')"

definition result_entry :: "nat \<Rightarrow> string \<times> node_result \<Rightarrow> string \<times> jsval" where
  "result_entry k p = (case p of (nodeId, r) \<Rightarrow>
     (nodeId, JObj (Built k (''results.'' @ nodeId))
       [(''status'', JStr (status_name (res_status r))),
        (''succeeded'', JBool (res_status r = Succeeded)),
        (''failed'', JBool (res_status r = Failed_status)),
        (''outputs'', res_outputs r)]))"

definition resultScope :: "nat \<Rightarrow> node_result record_of \<Rightarrow> jsval" where
  "resultScope k results = JObj (Built k ''results'') (map (result_entry k) results)"

text \<open>\<open>baseScope()\<close>; each call allocates, so it advances the counter.\<close>

definition baseScope :: "tick_env \<Rightarrow> tick_state \<Rightarrow> fields \<times> tick_state" where
  "baseScope env s =
     (let k = next_oid s;
          name = (case dom_name (ms_domain s) of None \<Rightarrow> JUndef | Some n \<Rightarrow> JStr n) in
      ([(''domain'', JObj (Built k ''domain'') (spread [(''name'', name)] (dom_data (ms_domain s)))),
        (''vars'', JObj (Built (first_oid env) ''variables'') (ms_variables s)),
        (''results'', resultScope k (ms_results s))],
       s\<lparr>next_oid := k + 1\<rparr>))"

definition scope_object :: "tick_state \<Rightarrow> fields \<Rightarrow> jsval" where
  "scope_object s fs = JObj (Built (next_oid s) ''scope'') fs"

definition emit :: "engine_event \<Rightarrow> tick_state \<Rightarrow> tick_state" where
  "emit e s = s\<lparr>events := events s @ [e]\<rparr>"

subsection \<open>Effects and activation\<close>

definition set_data :: "jsval \<Rightarrow> string \<times> string \<Rightarrow> tick_state \<Rightarrow> scope_error + tick_state" where
  "set_data scope entry s =
     bindE (evaluateScopeValue (snd entry) scope) (\<lambda>v.
       Inr (s\<lparr>ms_domain := ms_domain s\<lparr>dom_data := AList.update (fst entry) v (dom_data (ms_domain s))\<rparr>\<rparr>))"

definition applyEffect ::
  "lifecycle_effect option \<Rightarrow> jsval \<Rightarrow> tick_state \<Rightarrow> scope_error + tick_state" where
  "applyEffect eff scope s =
     (case eff of
        None \<Rightarrow> Inr s
      | Some e \<Rightarrow>
          (let s1 = (case setDomainState e of
                 None \<Rightarrow> s
               | Some name \<Rightarrow>
                   emit (DomainStateChanged name)
                     (s\<lparr>ms_domain := ms_domain s\<lparr>dom_name := Some name\<rparr>\<rparr>)) in
           bindE (case setData e of None \<Rightarrow> Inr s1 | Some d \<Rightarrow> foldE (set_data scope) d s1) (\<lambda>s2.
           Inr (case project e of
                  None \<Rightarrow> s2
                | Some p \<Rightarrow> s2\<lparr>projections := projections s2 @ [p]\<rparr>))))"

text \<open>\<open>new Map(nodes.map((node) => [node.id, node]))\<close>: the last node of an id is the one found.\<close>

definition node_by_id :: "workflow_graph \<Rightarrow> string \<Rightarrow> graph_node option" where
  "node_by_id g i = List.find (\<lambda>n. node_id n = i) (rev (graph_nodes g))"

definition count_or_one :: "nat record_of \<Rightarrow> string \<Rightarrow> nat" where
  "count_or_one m k = (case map_of m k of None \<Rightarrow> 1 | Some n \<Rightarrow> n)"

definition activate ::
  "tick_env \<Rightarrow> workflow_graph \<Rightarrow> string \<Rightarrow> tick_state \<Rightarrow> scope_error + tick_state" where
  "activate env g nodeId s =
     (case node_by_id g nodeId of
        None \<Rightarrow> Inr s
      | Some node \<Rightarrow>
          (let n = count_of (ms_activations s) nodeId + 1;
               s1 = emit (NodeActivated nodeId n)
                      (s\<lparr>ms_activations := AList.update nodeId n (ms_activations s),
                         ms_active := set_add nodeId (ms_active s),
                         ms_waiting := removeAll nodeId (ms_waiting s)\<rparr>) in
           case baseScope env s1 of (scope, s2) \<Rightarrow>
             applyEffect (onEnter node) (scope_object s1 scope) s2))"

subsection \<open>Joins\<close>

definition inbound :: "workflow_graph \<Rightarrow> string \<Rightarrow> graph_transition list" where
  "inbound g nodeId = lookup_list (group_by tr_to (\<lambda>t. t) (graph_transitions g)) nodeId"

definition outbound :: "workflow_graph \<Rightarrow> string \<Rightarrow> graph_transition list" where
  "outbound g nodeId = lookup_list (group_by tr_from (\<lambda>t. t) (graph_transitions g)) nodeId"

definition firings :: "tick_state \<Rightarrow> graph_transition \<Rightarrow> nat" where
  "firings s t = count_of (ms_loop s) (tr_id t)"

definition joinSatisfied :: "workflow_graph \<Rightarrow> graph_node \<Rightarrow> tick_state \<Rightarrow> bool" where
  "joinSatisfied g node s =
     (let ins = inbound g (node_id node);
          entryOffset = (if node_id node = graph_entry g then 1 else 0);
          acts = int (count_of (ms_activations s) (node_id node)) - entryOffset in
      case node_join node of
        None \<Rightarrow> acts < int (sum_list (map (firings s) ins))
      | Some j \<Rightarrow>
          (let firedCount = length (filter (\<lambda>t. 0 < firings s t) ins);
               maxSingle = fold (\<lambda>t m. max m (firings s t)) ins 0 in
           case join_mode j of
             JoinAny \<Rightarrow> acts < int maxSingle
           | JoinAll \<Rightarrow> firedCount = length ins \<and> acts = 0
           | JoinMin \<Rightarrow>
               (case join_n j of None \<Rightarrow> of_nat (length ins) | Some n \<Rightarrow> n) \<le> (of_nat firedCount :: rat)
               \<and> acts = 0))"

subsection \<open>Settling a node\<close>

text \<open>One pass of the loop over a node's outgoing transitions; the flag is \<open>'stop'\<close>.\<close>

definition fire_transition ::
  "tick_env \<Rightarrow> workflow_graph \<Rightarrow> graph_transition \<Rightarrow> jsval \<Rightarrow> tick_state \<Rightarrow>
   scope_error + tick_state" where
  "fire_transition env g t scope s =
     (let s1 = emit (TransitionTaken (tr_id t) (tr_from t) (tr_to t))
                 (s\<lparr>ms_loop := AList.update (tr_id t) (firings s t + 1) (ms_loop s)\<rparr>) in
      bindE (applyEffect (tr_effects t) scope s1) (\<lambda>s2.
      (case node_by_id g (tr_to t) of
         None \<Rightarrow> Inr s2
       | Some target \<Rightarrow>
           if joinSatisfied g target s2 then activate env g (node_id target) s2 else Inr s2)))"

definition bound_reached :: "tick_state \<Rightarrow> graph_transition \<Rightarrow> rat option" where
  "bound_reached s t =
     (case loopBound t of
        None \<Rightarrow> None
      | Some b \<Rightarrow> if b \<le> of_nat (firings s t) then Some b else None)"

fun fire_all ::
  "tick_env \<Rightarrow> workflow_graph \<Rightarrow> jsval \<Rightarrow> graph_transition list \<Rightarrow> nat \<Rightarrow> tick_state \<Rightarrow>
   scope_error + (bool \<times> nat \<times> tick_state)" where
  "fire_all env g scope [] fired s = Inr (False, fired, s)"
| "fire_all env g scope (t # ts) fired s =
     bindE (case tr_condition t of None \<Rightarrow> Inr True | Some c \<Rightarrow> evaluateScopeExpression c scope)
       (\<lambda>passes.
         if \<not> passes then fire_all env g scope ts fired s
         else case bound_reached s t of
           Some b \<Rightarrow> Inr (True, fired, s\<lparr>fatalError := Some (LoopBoundExceeded (tr_id t) b)\<rparr>)
         | None \<Rightarrow>
             bindE (fire_transition env g t scope s) (fire_all env g scope ts (fired + 1)))"

definition settle_scope :: "node_result \<Rightarrow> nat \<Rightarrow> fields \<Rightarrow> fields" where
  "settle_scope result k base =
     [(''outputs'', res_outputs result),
      (''node'', JObj (Built k ''node'')
         [(''status'', JStr (status_name (res_status result))),
          (''error'', JStr (case res_error result of None \<Rightarrow> [] | Some e \<Rightarrow> e))])] @ base"

definition record_result :: "graph_node \<Rightarrow> node_result \<Rightarrow> tick_state \<Rightarrow> tick_state" where
  "record_result node result s =
     emit (NodeSettled (node_id node) (res_status result) (res_attempt result))
       (s\<lparr>ms_active := removeAll (node_id node) (ms_active s),
          ms_waiting := removeAll (node_id node) (ms_waiting s),
          ms_results := AList.update (node_id node) result (ms_results s),
          ms_history := ms_history s @ [result],
          settlements := settlements s + 1\<rparr>)"

definition should_retry :: "graph_node \<Rightarrow> node_result \<Rightarrow> bool" where
  "should_retry node result \<longleftrightarrow>
     res_status result = Failed_status \<and>
     (case node_retry node of
        None \<Rightarrow> False
      | Some r \<Rightarrow> of_nat (res_attempt result) < maxAttempts r)"

definition retry_node :: "graph_node \<Rightarrow> tick_state \<Rightarrow> tick_state" where
  "retry_node node s =
     (let i = node_id node;
          s1 = s\<lparr>ms_retries := AList.update i (count_of (ms_retries s) i + 1) (ms_retries s),
                 ms_active := set_add i (ms_active s),
                 ms_waiting := removeAll i (ms_waiting s)\<rparr> in
      emit (NodeActivated i (count_or_one (ms_activations s1) i + count_of (ms_retries s1) i)) s1)"

text \<open>What follows the node's \<open>onExit\<close> effect.\<close>

definition leave_node ::
  "tick_env \<Rightarrow> workflow_graph \<Rightarrow> graph_node \<Rightarrow> node_result \<Rightarrow> jsval \<Rightarrow> tick_state \<Rightarrow>
   scope_error + (bool \<times> tick_state)" where
  "leave_node env g node result scope s =
     (case node_config node of
        TerminalNode outcome \<Rightarrow> Inr (True, s\<lparr>terminal := Some outcome\<rparr>)
      | _ \<Rightarrow>
          if should_retry node result then Inr (False, retry_node node s)
          else bindE (fire_all env g scope (outbound g (node_id node)) 0 s) (\<lambda>r.
            case r of (stop, fired, s1) \<Rightarrow>
              if stop then Inr (True, s1)
              else if fired = 0 \<and> res_status result = Failed_status then
                Inr (True, s1\<lparr>fatalError := Some (NoMatchingTransition (node_id node)
                  (case res_error result of None \<Rightarrow> ''unknown error'' | Some e \<Rightarrow> e))\<rparr>)
              else Inr (False, s1)))"

definition settleNode ::
  "tick_env \<Rightarrow> workflow_graph \<Rightarrow> graph_node \<Rightarrow> node_result \<Rightarrow> tick_state \<Rightarrow>
   scope_error + (bool \<times> tick_state)" where
  "settleNode env g node result s =
     (case baseScope env (record_result node result s) of (base, s1) \<Rightarrow>
        (let scope = scope_object s1 (settle_scope result (next_oid s1) base) in
         bindE (applyEffect (onExit node) scope (s1\<lparr>next_oid := next_oid s1 + 1\<rparr>))
           (leave_node env g node result scope)))"

subsection \<open>Executing the runnable nodes\<close>

definition read_clock :: "tick_env \<Rightarrow> tick_state \<Rightarrow> time \<times> tick_state" where
  "read_clock env s = (clock_now env (clock_reads s), s\<lparr>clock_reads := clock_reads s + 1\<rparr>)"

definition failed_yield :: "string \<Rightarrow> node_yield" where
  "failed_yield message = YResult Failed_status None (Some message)"

definition single_quoted :: "string \<Rightarrow> string" where
  "single_quoted s = CHR 0x27 # s @ [CHR 0x27]"

definition kind_name :: "graph_node_kind \<Rightarrow> string" where
  "kind_name k = (case k of
     KAgent \<Rightarrow> ''agent'' | KCommand \<Rightarrow> ''command'' | KAction \<Rightarrow> ''action'' | KGate \<Rightarrow> ''gate''
   | KHumanInput \<Rightarrow> ''human-input'' | KWait \<Rightarrow> ''wait'' | KSubworkflow \<Rightarrow> ''subworkflow''
   | KExperiment \<Rightarrow> ''experiment'' | KFanOut \<Rightarrow> ''fan-out'' | KTerminal \<Rightarrow> ''terminal'')"

text \<open>The guards in order; the error of the first that does not pass.\<close>

fun check_guards ::
  "tick_env \<Rightarrow> string list \<Rightarrow> tick_state \<Rightarrow> string option \<times> tick_state" where
  "check_guards env [] s = (None, s)"
| "check_guards env (guard # rest) s =
     (case baseScope env s of (scope, s1) \<Rightarrow>
        (case evaluateScopeExpression guard (scope_object s scope) of
           Inl err \<Rightarrow> (Some (''guard error: '' @ scope_error_message err), s1)
         | Inr False \<Rightarrow> (Some (''guard failed: '' @ guard), s1)
         | Inr True \<Rightarrow> check_guards env rest s1))"

definition consume_satisfaction ::
  "string \<Rightarrow> tick_state \<Rightarrow> wait_satisfaction option \<times> tick_state" where
  "consume_satisfaction nodeId s =
     (case map_of (pendingSatisfactions s) nodeId of
        None \<Rightarrow> (None, s)
      | Some sat \<Rightarrow>
          if nodeId \<in> set (ms_waiting s) then
            (Some sat, s\<lparr>pendingSatisfactions := AList.delete nodeId (pendingSatisfactions s),
                         ms_waiting := removeAll nodeId (ms_waiting s)\<rparr>)
          else (None, s))"

definition call_executor ::
  "tick_env \<Rightarrow> string \<Rightarrow> graph_node \<Rightarrow> nat \<Rightarrow> wait_satisfaction option \<Rightarrow> tick_state \<Rightarrow>
   node_yield \<times> tick_state" where
  "call_executor env runId node attempt sat s =
     (let ctx = \<lparr>ctx_runId = runId, ctx_attempt = attempt, ctx_variables = ms_variables s,
                 ctx_domain = ms_domain s, ctx_nodeResults = ms_results s,
                 ctx_satisfaction = sat\<rparr>;
          s1 = s\<lparr>calls := calls s @ [(node_id node, sat)]\<rparr> in
      case execute env (length (calls s)) node ctx of
        Inl message \<Rightarrow> (failed_yield message, s1)
      | Inr y \<Rightarrow> (y, s1))"

definition execute_node ::
  "tick_env \<Rightarrow> workflow_graph \<Rightarrow> string \<Rightarrow> string \<Rightarrow> tick_state \<Rightarrow>
   (string \<times> node_yield \<times> time) \<times> tick_state" where
  "execute_node env g runId nodeId s =
     (case read_clock env s of (startedAt, s1) \<Rightarrow>
      case node_by_id g nodeId of
        None \<Rightarrow>
          ((nodeId, failed_yield (''unknown node '' @ single_quoted nodeId), startedAt), s1)
      | Some node \<Rightarrow>
          (let attempt = count_or_one (ms_activations s1) nodeId + count_of (ms_retries s1) nodeId in
           case consume_satisfaction nodeId s1 of (sat, s2) \<Rightarrow>
           case check_guards env (case node_guards node of None \<Rightarrow> [] | Some gs \<Rightarrow> gs) s2 of
             (Some message, s3) \<Rightarrow> ((nodeId, failed_yield message, startedAt), s3)
           | (None, s3) \<Rightarrow>
               if \<not> has_executor env (config_kind (node_config node)) then
                 ((nodeId, failed_yield (''no executor for node kind '' @
                    single_quoted (kind_name (config_kind (node_config node)))), startedAt), s3)
               else
                 (case call_executor env runId node attempt sat s3 of (y, s4) \<Rightarrow>
                   ((nodeId, y, startedAt), s4))))"

fun execute_all ::
  "tick_env \<Rightarrow> workflow_graph \<Rightarrow> string \<Rightarrow> string list \<Rightarrow> tick_state \<Rightarrow>
   (string \<times> node_yield \<times> time) list \<times> tick_state" where
  "execute_all env g runId [] s = ([], s)"
| "execute_all env g runId (i # is) s =
     (case execute_node env g runId i s of (x, s1) \<Rightarrow>
      case execute_all env g runId is s1 of (xs, s2) \<Rightarrow> (x # xs, s2))"

subsection \<open>The loop\<close>

definition open_wait ::
  "string \<Rightarrow> wait_spec \<Rightarrow> human_input_request_spec option \<Rightarrow> tick_state \<Rightarrow> tick_state" where
  "open_wait nodeId spec request s =
     (if nodeId \<in> set (ms_waiting s) then s
      else emit (WaitOpened nodeId (ws_kind spec))
             (s\<lparr>ms_waiting := set_add nodeId (ms_waiting s),
                newWaits := filter (\<lambda>w. pw_nodeId w \<noteq> nodeId) (newWaits s) @
                  [\<lparr>pw_nodeId = nodeId, pw_spec = spec, pw_request = request\<rparr>]\<rparr>))"

definition process_execution ::
  "tick_env \<Rightarrow> workflow_graph \<Rightarrow> string \<times> node_yield \<times> time \<Rightarrow> tick_state \<Rightarrow>
   scope_error + (bool \<times> tick_state)" where
  "process_execution env g x s =
     (case x of (nodeId, y, startedAt) \<Rightarrow>
      case node_by_id g nodeId of
        None \<Rightarrow> Inr (False, s)
      | Some node \<Rightarrow>
          (case y of
             YWait spec request \<Rightarrow> Inr (False, open_wait nodeId spec request s)
           | YResult status outputs err \<Rightarrow>
               (case read_clock env s of (settledAt, s1) \<Rightarrow>
                let k = next_oid s1;
                    result = \<lparr>
                      res_nodeId = nodeId,
                      res_attempt = count_or_one (ms_activations s1) nodeId +
                                    count_of (ms_retries s1) nodeId,
                      res_status = status,
                      res_outputs = (case outputs of None \<Rightarrow> JObj (Built k ''outputs'') [] | Some v \<Rightarrow> v),
                      res_error = err,
                      res_startedAt = startedAt,
                      res_settledAt = settledAt\<rparr> in
                settleNode env g node result (s1\<lparr>next_oid := k + 1\<rparr>))))"

fun process_all ::
  "tick_env \<Rightarrow> workflow_graph \<Rightarrow> (string \<times> node_yield \<times> time) list \<Rightarrow> tick_state \<Rightarrow>
   scope_error + tick_state" where
  "process_all env g [] s = Inr s"
| "process_all env g (x # xs) s =
     bindE (process_execution env g x s) (\<lambda>(stop, s1).
       if stop then Inr s1 else process_all env g xs s1)"

definition runnable_nodes :: "tick_state \<Rightarrow> string list" where
  "runnable_nodes s =
     sort (filter (\<lambda>i. i \<notin> set (ms_waiting s) \<or> map_of (pendingSatisfactions s) i \<noteq> None)
       (ms_active s))"

definition poll :: "tick_state \<Rightarrow> tick_state" where
  "poll s = s\<lparr>polls := polls s + 1\<rparr>"

definition tick_round ::
  "tick_env \<Rightarrow> workflow_graph \<Rightarrow> string \<Rightarrow> nat \<Rightarrow> tick_state \<Rightarrow>
   tick_state + (scope_error + tick_state)" where
  "tick_round env g runId maxSettlements s =
     (let s1 = poll s in
      if aborted env (polls s) \<or> terminal s \<noteq> None \<or> fatalError s \<noteq> None then Inr (Inr s1)
      else if maxSettlements \<le> settlements s1 then
        Inr (Inr (s1\<lparr>fatalError := Some (BackstopExceeded maxSettlements)\<rparr>))
      else if runnable_nodes s1 = [] then Inr (Inr s1)
      else case execute_all env g runId (runnable_nodes s1) s1 of (executions, s2) \<Rightarrow>
        (case process_all env g executions s2 of
           Inl err \<Rightarrow> Inr (Inl err)
         | Inr s3 \<Rightarrow> Inl s3))"

definition thaw :: "tick_env \<Rightarrow> run_graph_state \<Rightarrow> wait_satisfaction record_of \<Rightarrow> tick_state" where
  "thaw env st satisfactions = \<lparr>
     ms_active = dedup (activeNodeIds st), ms_waiting = dedup (waitingNodeIds st),
     ms_results = nodeResults st, ms_history = resultHistory st, ms_loop = loopCounters st,
     ms_activations = activations st,
     ms_retries = (case retries st of None \<Rightarrow> [] | Some r \<Rightarrow> r),
     ms_domain = gs_domain st, ms_variables = variables st,
     newWaits = [], projections = [], terminal = None, fatalError = None, settlements = 0,
     pendingSatisfactions = satisfactions, events = [], calls = [],
     clock_reads = 0, polls = 0, next_oid = first_oid env + 1\<rparr>"

definition freeze :: "run_graph_state \<Rightarrow> tick_state \<Rightarrow> time \<Rightarrow> run_graph_state" where
  "freeze st s now = st\<lparr>
     activeNodeIds := sort (ms_active s), waitingNodeIds := sort (ms_waiting s),
     nodeResults := ms_results s, resultHistory := ms_history s, loopCounters := ms_loop s,
     activations := ms_activations s, retries := Some (ms_retries s), gs_domain := ms_domain s,
     variables := ms_variables s, gs_updatedAt := now\<rparr>"

text \<open>The state in which the loop starts: a fresh run has its entry node activated.\<close>

definition tick_start ::
  "tick_env \<Rightarrow> workflow_graph \<Rightarrow> run_graph_state \<Rightarrow> wait_satisfaction record_of \<Rightarrow>
   scope_error + tick_state" where
  "tick_start env g st satisfactions =
     (let s = thaw env st satisfactions in
      if ms_active s = [] \<and> ms_waiting s = [] \<and> ms_activations s = []
      then activate env g (graph_entry g) s else Inr s)"

definition tick_result :: "tick_env \<Rightarrow> run_graph_state \<Rightarrow> tick_state \<Rightarrow> tick_outcome" where
  "tick_result env st s =
     (let frozen = freeze st s (clock_now env (clock_reads s));
          outcome = (\<lambda>status term err. \<lparr>out_state = frozen, out_status = status,
            out_newWaits = newWaits s, out_projections = projections s,
            out_terminal = term, out_error = err\<rparr>) in
      if aborted env (polls s) then outcome StCancelled None None
      else case fatalError s of
        Some e \<Rightarrow> outcome StFailed None (Some e)
      | None \<Rightarrow>
          (case terminal s of
             Some t \<Rightarrow>
               outcome (case t of OutCompleted \<Rightarrow> StCompleted | OutBlocked \<Rightarrow> StBlocked
                        | OutFailed \<Rightarrow> StFailed) (Some t) None
           | None \<Rightarrow>
               if ms_waiting s \<noteq> [] then outcome StWaiting None None
               else if ms_active s \<noteq> [] then outcome StFailed None (Some EngineInconsistency)
               else outcome StFailed None (Some WorkflowStalled)))"

text \<open>\<open>GraphEngine.tick\<close>, with at most \<open>fuel\<close> rounds of its loop.\<close>

definition tick_run ::
  "nat \<Rightarrow> tick_env \<Rightarrow> workflow_graph \<Rightarrow> run_graph_state \<Rightarrow> wait_satisfaction record_of \<Rightarrow>
   nat option \<Rightarrow> (scope_error + tick_state) option" where
  "tick_run fuel env g st satisfactions maxSettlementsPerTick =
     (let limit = (case maxSettlementsPerTick of None \<Rightarrow> 1000 | Some m \<Rightarrow> m) in
      case tick_start env g st satisfactions of
        Inl err \<Rightarrow> Some (Inl err)
      | Inr s \<Rightarrow> iterate (tick_round env g (gs_runId st) limit) fuel s)"

definition tick ::
  "nat \<Rightarrow> tick_env \<Rightarrow> workflow_graph \<Rightarrow> run_graph_state \<Rightarrow> wait_satisfaction record_of \<Rightarrow>
   nat option \<Rightarrow> (scope_error + tick_outcome) option" where
  "tick fuel env g st satisfactions limit =
     map_option (map_sum (\<lambda>e. e) (tick_result env st)) (tick_run fuel env g st satisfactions limit)"

end
