(* ===== verification/GraphEngineProps.thy ===== *)
theory GraphEngineProps
  imports GraphEngine
begin

section \<open>Invariants of the graph engine\<close>

text \<open>
  A tick changes its state in nine ways. The locale \<open>tick_invariant\<close> states what a predicate
  must promise of each of them; its theorem is that the predicate then holds when the loop of
  \<open>GraphEngine.tick\<close> is left. Each invariant of the engine is an interpretation.
\<close>

subsection \<open>The part of the state invariants speak of\<close>

text \<open>The fields that bookkeeping (events, clock, identities, domain data) does not touch.\<close>

definition core :: "tick_state \<Rightarrow> tick_state" where
  "core s = s\<lparr>events := [], next_oid := 0, projections := [],
     ms_domain := \<lparr>dom_name = None, dom_data = []\<rparr>, clock_reads := 0, polls := 0\<rparr>"

lemma core_sel:
  "ms_active (core s) = ms_active s" "ms_waiting (core s) = ms_waiting s"
  "ms_results (core s) = ms_results s" "ms_history (core s) = ms_history s"
  "ms_loop (core s) = ms_loop s" "ms_activations (core s) = ms_activations s"
  "ms_retries (core s) = ms_retries s" "newWaits (core s) = newWaits s"
  "terminal (core s) = terminal s" "fatalError (core s) = fatalError s"
  "settlements (core s) = settlements s" "pendingSatisfactions (core s) = pendingSatisfactions s"
  "calls (core s) = calls s" "ms_variables (core s) = ms_variables s"
  by (simp_all add: core_def)

lemma core_eqD:
  assumes "core s = core s'"
  shows "ms_active s = ms_active s'" "ms_waiting s = ms_waiting s'"
    "ms_results s = ms_results s'" "ms_history s = ms_history s'"
    "ms_loop s = ms_loop s'" "ms_activations s = ms_activations s'"
    "ms_retries s = ms_retries s'" "newWaits s = newWaits s'"
    "terminal s = terminal s'" "fatalError s = fatalError s'"
    "settlements s = settlements s'" "pendingSatisfactions s = pendingSatisfactions s'"
    "calls s = calls s'" "ms_variables s = ms_variables s'"
  by (metis assms core_sel)+

lemma core_emit [simp]: "core (emit e s) = core s"
  by (simp add: core_def emit_def)

lemma core_updates [simp]:
  "core (s\<lparr>next_oid := k\<rparr>) = core s" "core (s\<lparr>projections := ps\<rparr>) = core s"
  "core (s\<lparr>ms_domain := d\<rparr>) = core s" "core (s\<lparr>clock_reads := k\<rparr>) = core s"
  "core (s\<lparr>polls := k\<rparr>) = core s" "core (poll s) = core s"
  by (simp_all add: core_def poll_def)

lemma core_baseScope: "baseScope env s = (scope, s') \<Longrightarrow> core s' = core s"
  by (auto simp: baseScope_def Let_def)

lemma core_foldE:
  assumes "foldE f xs s = Inr s'" and "\<And>x s s'. f x s = Inr s' \<Longrightarrow> core s' = core s"
  shows "core s' = core s"
  by (rule foldE_invariant [OF assms(1), where P = "\<lambda>u. core u = core s"])
    (use assms(2) in auto)

lemma core_applyEffect: "applyEffect eff scope s = Inr s' \<Longrightarrow> core s' = core s"
  by (auto simp: applyEffect_def set_data_def Let_def err_simps split: option.splits
      dest!: core_foldE)

lemma core_check_guards: "check_guards env gs s = (r, s') \<Longrightarrow> core s' = core s"
  by (induction env gs s rule: check_guards.induct)
    (auto split: prod.splits sum.splits bool.splits dest: core_baseScope)

lemma core_read_clock: "read_clock env s = (t, s') \<Longrightarrow> core s' = core s"
  by (auto simp: read_clock_def)

subsection \<open>The nine changes\<close>

definition activated :: "string \<Rightarrow> tick_state \<Rightarrow> tick_state" where
  "activated i s =
     s\<lparr>ms_activations := AList.update i (count_of (ms_activations s) i + 1) (ms_activations s),
       ms_active := set_add i (ms_active s), ms_waiting := removeAll i (ms_waiting s)\<rparr>"

definition fire_count :: "graph_transition \<Rightarrow> tick_state \<Rightarrow> tick_state" where
  "fire_count t s = s\<lparr>ms_loop := AList.update (tr_id t) (firings s t + 1) (ms_loop s)\<rparr>"

definition may_activate :: "workflow_graph \<Rightarrow> graph_node \<Rightarrow> tick_state \<Rightarrow> bool" where
  "may_activate g n s \<longleftrightarrow>
     joinSatisfied g n s \<or> (node_id n = graph_entry g \<and> ms_activations s = [])"

definition node_known :: "workflow_graph \<Rightarrow> graph_node \<Rightarrow> bool" where
  "node_known g n \<longleftrightarrow> node_by_id g (node_id n) = Some n"

lemma node_by_id_known: "node_by_id g i = Some n \<Longrightarrow> node_known g n \<and> node_id n = i"
  unfolding node_known_def node_by_id_def
  by (auto simp: find_Some_iff)

lemma node_known_in: "node_known g n \<Longrightarrow> n \<in> set (graph_nodes g)"
  unfolding node_known_def node_by_id_def
  by (metis find_Some_iff nth_mem set_rev)

lemma activate_cases:
  assumes "activate env g i s = Inr s'"
  obtains "node_by_id g i = None" "s' = s"
  | n where "node_by_id g i = Some n" "core s' = core (activated i s)"
proof (cases "node_by_id g i")
  case (Some n)
  let ?s1 = "emit (NodeActivated i (count_of (ms_activations s) i + 1)) (activated i s)"
  obtain scope s2 where b: "baseScope env ?s1 = (scope, s2)" by fastforce
  have "applyEffect (onEnter n) (scope_object ?s1 scope) s2 = Inr s'"
    using assms Some b by (simp add: activate_def activated_def Let_def)
  then have "core s' = core (activated i s)"
    using core_applyEffect core_baseScope [OF b] by fastforce
  with Some that(2) show ?thesis by blast
next
  case None
  with assms that(1) show ?thesis by (simp add: activate_def)
qed

lemma outbound_subset: "set (outbound g i) \<subseteq> set (graph_transitions g)"
  by (auto simp: outbound_def)

text \<open>What firing a node's transitions does to the state.\<close>

locale leaving_invariant =
  fixes g :: workflow_graph and I :: "tick_state \<Rightarrow> bool"
  assumes quiet: "I s \<Longrightarrow> core s' = core s \<Longrightarrow> I s'"
    and activation: "I s \<Longrightarrow> node_known g n \<Longrightarrow> may_activate g n s \<Longrightarrow> I (activated (node_id n) s)"
    and firing: "I s \<Longrightarrow> t \<in> set (graph_transitions g) \<Longrightarrow> bound_reached s t = None \<Longrightarrow>
      I (fire_count t s)"
    and retrying: "I s \<Longrightarrow> node_known g n \<Longrightarrow> I (retry_node n s)"
    and failing: "I s \<Longrightarrow> e \<noteq> EngineInconsistency \<Longrightarrow> I (s\<lparr>fatalError := Some e\<rparr>)"
    and ending: "I s \<Longrightarrow> node_known g n \<Longrightarrow> node_config n = TerminalNode out \<Longrightarrow>
      0 < settlements s \<Longrightarrow> ms_history s \<noteq> [] \<Longrightarrow>
      res_nodeId (last (ms_history s)) = node_id n \<Longrightarrow> I (s\<lparr>terminal := Some out\<rparr>)"
begin

lemma activate_keeps:
  assumes "activate env g i s = Inr s'" and "I s"
    and "\<And>n. node_by_id g i = Some n \<Longrightarrow> may_activate g n s"
  shows "I s'"
  using assms(1)
proof (cases rule: activate_cases)
  case (2 n)
  then have "I (activated (node_id n) s)"
    using node_by_id_known assms(2,3) by (blast intro: activation)
  with 2 show ?thesis using node_by_id_known quiet by metis
qed (use assms(2) in simp)

lemma fire_transition_keeps:
  assumes "fire_transition env g t scope s = Inr s'" and "I s"
    and "t \<in> set (graph_transitions g)" and "bound_reached s t = None"
  shows "I s'"
proof -
  let ?s1 = "emit (TransitionTaken (tr_id t) (tr_from t) (tr_to t)) (fire_count t s)"
  obtain s2 where eff: "applyEffect (tr_effects t) scope ?s1 = Inr s2"
    using assms(1) by (auto simp: fire_transition_def fire_count_def Let_def err_simps)
  have "I s2"
    using firing [OF assms(2-4)] core_applyEffect [OF eff] quiet by auto
  moreover have "(case node_by_id g (tr_to t) of None \<Rightarrow> Inr s2
      | Some n \<Rightarrow> if joinSatisfied g n s2 then activate env g (node_id n) s2 else Inr s2) = Inr s'"
    using assms(1) eff by (simp add: fire_transition_def fire_count_def Let_def)
  ultimately show ?thesis
    using node_by_id_known
    by (fastforce split: option.splits if_splits intro: activate_keeps simp: may_activate_def)
qed

lemma fire_all_keeps:
  "fire_all env g scope ts k s = Inr (stop, n, s') \<Longrightarrow> I s \<Longrightarrow>
   set ts \<subseteq> set (graph_transitions g) \<Longrightarrow> I s'"
proof (induction ts arbitrary: k s)
  case (Cons t ts)
  obtain passes
    where "(case tr_condition t of None \<Rightarrow> Inr True | Some c \<Rightarrow> evaluateScopeExpression c scope) =
      Inr passes"
    using Cons.prems(1) by (auto simp: err_simps)
  with Cons.prems(1) have run:
    "(if \<not> passes then fire_all env g scope ts k s
      else case bound_reached s t of
        Some b \<Rightarrow> Inr (True, k, s\<lparr>fatalError := Some (LoopBoundExceeded (tr_id t) b)\<rparr>)
      | None \<Rightarrow> bindE (fire_transition env g t scope s) (fire_all env g scope ts (k + 1))) =
     Inr (stop, n, s')"
    by simp
  consider "\<not> passes" | b where "passes" "bound_reached s t = Some b"
    | "passes" "bound_reached s t = None"
    by blast
  then show ?case
  proof cases
    case 1
    with run Cons.IH Cons.prems show ?thesis by auto
  next
    case 2
    with run failing Cons.prems(2) show ?thesis by auto
  next
    case 3
    with run obtain s1 where "fire_transition env g t scope s = Inr s1"
      "fire_all env g scope ts (k + 1) s1 = Inr (stop, n, s')"
      by (auto simp: err_simps)
    with 3 fire_transition_keeps Cons show ?thesis by fastforce
  qed
qed simp

lemma leave_node_keeps:
  assumes "leave_node env g n r scope s = Inr (stop, s')" and "I s" and "node_known g n"
    and "0 < settlements s" and "ms_history s \<noteq> []"
    and "res_nodeId (last (ms_history s)) = node_id n"
  shows "I s'"
proof (cases "is_terminal_node n")
  case True
  then obtain out where "node_config n = TerminalNode out" by (auto simp: is_terminal_node_iff)
  with assms ending show ?thesis by (auto simp: leave_node_def)
next
  case False
  then have "leave_node env g n r scope s =
    (if should_retry n r then Inr (False, retry_node n s)
     else bindE (fire_all env g scope (outbound g (node_id n)) 0 s) (\<lambda>q.
       case q of (stop, k, s1) \<Rightarrow>
         if stop then Inr (True, s1)
         else if k = 0 \<and> res_status r = Failed_status then
           Inr (True, s1\<lparr>fatalError := Some (NoMatchingTransition (node_id n)
             (case res_error r of None \<Rightarrow> ''unknown error'' | Some e \<Rightarrow> e))\<rparr>)
         else Inr (False, s1)))"
    by (simp add: leave_node_def is_terminal_node_iff split: graph_node_config.splits)
  with assms(1) retrying [OF assms(2,3)] fire_all_keeps [OF _ assms(2) outbound_subset]
  show ?thesis by (auto simp: err_simps split: if_splits intro: failing)
qed

end

lemma settleNode_phases:
  assumes "settleNode env g n r s = Inr (stop, s')"
  obtains scope s3 where "core s3 = core (record_result n r s)"
    and "leave_node env g n r scope s3 = Inr (stop, s')"
proof -
  obtain base s1 where b: "baseScope env (record_result n r s) = (base, s1)" by fastforce
  let ?scope = "scope_object s1 (settle_scope r (next_oid s1) base)"
  obtain s3 where eff: "applyEffect (onExit n) ?scope (s1\<lparr>next_oid := next_oid s1 + 1\<rparr>) = Inr s3"
    and rest: "leave_node env g n r ?scope s3 = Inr (stop, s')"
    using assms b by (auto simp: settleNode_def Let_def err_simps)
  have "core s3 = core (record_result n r s)"
    using core_applyEffect [OF eff] core_baseScope [OF b] by simp
  with rest that show thesis by blast
qed

lemma record_result_history:
  assumes "core s3 = core (record_result n r s)"
  shows "ms_history s3 = ms_history s @ [r]" "0 < settlements s3"
  using core_eqD(4,11) [OF assms] by (simp_all add: record_result_def emit_def)

text \<open>Whatever a node does when it settles, the other active nodes stay active.\<close>

interpretation stays: leaving_invariant g "\<lambda>s. j \<in> set (ms_active s)" for g j
proof unfold_locales
  fix s s'
  show "j \<in> set (ms_active s) \<Longrightarrow> core s' = core s \<Longrightarrow> j \<in> set (ms_active s')"
    using core_eqD(1) by metis
qed (auto simp: activated_def fire_count_def retry_node_def emit_def Let_def)

lemma process_keeps_others:
  assumes "process_execution env g (i, y, t) s = Inr (stop, s')"
    and "j \<in> set (ms_active s)" and "j \<noteq> i"
  shows "j \<in> set (ms_active s')"
proof (cases "node_by_id g i")
  case (Some n)
  then have n: "node_known g n" "node_id n = i" using node_by_id_known by auto
  show ?thesis
  proof (cases y)
    case (YWait spec request)
    with assms Some show ?thesis
      by (auto simp: process_execution_def open_wait_def emit_def split: if_splits)
  next
    case (YResult st outputs err)
    with assms(1) Some obtain r s1 where set: "settleNode env g n r s1 = Inr (stop, s')"
      and "core s1 = core s" "res_nodeId r = i"
      by (force simp: process_execution_def read_clock_def Let_def)
    then obtain scope s3 where s3: "core s3 = core (record_result n r s1)"
      and leave: "leave_node env g n r scope s3 = Inr (stop, s')"
      by (auto elim: settleNode_phases)
    have "j \<in> set (ms_active s3)"
      using core_eqD(1) [OF s3] core_eqD(1) [OF \<open>core s1 = core s\<close>] assms(2,3) n
      by (simp add: record_result_def emit_def)
    from stays.leave_node_keeps [OF leave this n(1)] record_result_history [OF s3] n
      \<open>res_nodeId r = i\<close>
    show ?thesis by simp
  qed
qed (use assms in \<open>auto simp: process_execution_def\<close>)

lemma consume_active: "consume_satisfaction i s = (sat, s') \<Longrightarrow> ms_active s' = ms_active s"
  by (auto simp: consume_satisfaction_def split: option.splits if_splits)

lemma call_executor_eq:
  "\<exists>y. call_executor env runId n attempt sat s =
     (y, s\<lparr>calls := calls s @ [(node_id n, sat)]\<rparr>)"
  by (auto simp: call_executor_def Let_def split: sum.splits)

text \<open>Executing a node: its satisfaction is consumed, then its executor may be called.\<close>

lemma execute_node_cases [consumes 1, case_names unknown known]:
  assumes "execute_node env g runId i s = ((i', y, t), s')"
  obtains "node_by_id g i = None" "i' = i" "core s' = core s"
  | n sat s1 s2 where "node_known g n" "node_id n = i" "i' = i" "core s2 = core s1"
      "\<exists>s0. core s0 = core s \<and> consume_satisfaction i s0 = (sat, s1)"
      "s' = s2 \<or> s' = s2\<lparr>calls := calls s2 @ [(node_id n, sat)]\<rparr>"
proof (cases "node_by_id g i")
  case None
  with assms have "i' = i \<and> core s' = core s"
    by (simp add: execute_node_def read_clock_def) (metis core_updates(4))
  with None that(1) show ?thesis by blast
next
  case (Some n)
  obtain now s0 where clk: "read_clock env s = (now, s0)" by fastforce
  obtain sat s1 where sat: "consume_satisfaction i s0 = (sat, s1)" by fastforce
  obtain r s2 where gds:
    "check_guards env (case node_guards n of None \<Rightarrow> [] | Some gs \<Rightarrow> gs) s1 = (r, s2)" by fastforce
  obtain y2 where call: "call_executor env runId n
      (count_or_one (ms_activations s0) i + count_of (ms_retries s0) i) sat s2 =
      (y2, s2\<lparr>calls := calls s2 @ [(node_id n, sat)]\<rparr>)"
    using call_executor_eq by blast
  have "i' = i \<and> (s' = s2 \<or> s' = s2\<lparr>calls := calls s2 @ [(node_id n, sat)]\<rparr>)"
    using assms Some
    by (cases r) (simp_all add: execute_node_def clk sat gds call Let_def split: if_splits)
  with that(2) [of n s2 s1 sat] Some sat core_read_clock [OF clk] core_check_guards [OF gds]
    node_by_id_known [OF Some]
  show ?thesis by blast
qed

lemma execute_node_active:
  assumes "execute_node env g runId i s = ((i', y, t), s')"
  shows "ms_active s' = ms_active s" "i' = i"
  using assms by (cases rule: execute_node_cases; force dest: consume_active core_eqD(1))+

lemma execute_all_active:
  "execute_all env g runId is s = (xs, s') \<Longrightarrow> ms_active s' = ms_active s \<and> map fst xs = is"
proof (induction "is" arbitrary: s xs)
  case (Cons i "is")
  then obtain x s1 ys where "execute_node env g runId i s = (x, s1)"
    "execute_all env g runId is s1 = (ys, s')" "xs = x # ys"
    by (auto split: prod.splits)
  with Cons.IH show ?case by (cases x) (auto dest: execute_node_active)
qed simp

text \<open>What a whole round does to the state.\<close>

locale tick_invariant = leaving_invariant +
  assumes settling: "I s \<Longrightarrow> node_known g n \<Longrightarrow> node_id n \<in> set (ms_active s) \<Longrightarrow>
      res_nodeId r = node_id n \<Longrightarrow> I (record_result n r s)"
    and delivering: "I s \<Longrightarrow> node_known g n \<Longrightarrow> node_id n \<in> set (ms_active s) \<Longrightarrow>
      consume_satisfaction (node_id n) s = (sat, s1) \<Longrightarrow> core s2 = core s1 \<Longrightarrow>
      I s1 \<and> I (s2\<lparr>calls := calls s2 @ [(node_id n, sat)]\<rparr>)"
    and suspending: "I s \<Longrightarrow> node_known g n \<Longrightarrow> node_id n \<in> set (ms_active s) \<Longrightarrow>
      I (open_wait (node_id n) spec request s)"
begin

lemma settleNode_keeps:
  assumes "settleNode env g n r s = Inr (stop, s')" and "I s" and "node_known g n"
    and "node_id n \<in> set (ms_active s)" and "res_nodeId r = node_id n"
  shows "I s'"
  using assms(1)
proof (cases rule: settleNode_phases)
  case (1 scope s3)
  have "I s3"
    using settling [OF assms(2-5)] quiet 1(1) by blast
  moreover have "ms_history s3 = ms_history s @ [r]" "0 < settlements s3"
    by (rule record_result_history [OF 1(1)])+
  ultimately show ?thesis
    using leave_node_keeps [OF 1(2) _ assms(3)] assms(5) by simp
qed

lemma process_keeps:
  assumes "process_execution env g (i, y, t) s = Inr (stop, s')" and "I s"
    and "i \<in> set (ms_active s)"
  shows "I s'"
proof (cases "node_by_id g i")
  case (Some n)
  then have n: "node_known g n" "node_id n = i" using node_by_id_known by auto
  show ?thesis
  proof (cases y)
    case (YWait spec request)
    with assms Some n show ?thesis
      using suspending [of s n] by (auto simp: process_execution_def)
  next
    case (YResult st outputs err)
    with assms(1) Some obtain r s1 where set: "settleNode env g n r s1 = Inr (stop, s')"
      and same: "core s1 = core s" and "res_nodeId r = i"
      by (force simp: process_execution_def read_clock_def Let_def)
    then show ?thesis
      using settleNode_keeps [OF set _ n(1)] quiet [OF assms(2) same] core_eqD(1) [OF same]
        assms(3) n(2) by simp
  qed
qed (use assms in \<open>auto simp: process_execution_def\<close>)

lemma process_all_keeps:
  "process_all env g xs s = Inr s' \<Longrightarrow> I s \<Longrightarrow> distinct (map fst xs) \<Longrightarrow>
   fst ` set xs \<subseteq> set (ms_active s) \<Longrightarrow> I s'"
proof (induction xs arbitrary: s)
  case (Cons x xs)
  obtain i y t where x: "x = (i, y, t)" by (cases x)
  from Cons.prems(1) obtain stop s1 where p: "process_execution env g (i, y, t) s = Inr (stop, s1)"
    and rest: "(if stop then Inr s1 else process_all env g xs s1) = Inr s'"
    by (auto simp: err_simps x)
  have "I s1"
    using process_keeps [OF p Cons.prems(2)] Cons.prems(4) x by simp
  moreover have "fst ` set xs \<subseteq> set (ms_active s1)"
  proof
    fix j
    assume "j \<in> fst ` set xs"
    then have "j \<noteq> i" "j \<in> set (ms_active s)"
      using Cons.prems(3,4) by (auto simp: x)
    then show "j \<in> set (ms_active s1)"
      by (intro process_keeps_others [OF p])
  qed
  ultimately show ?case
    using rest Cons.IH [of s1] Cons.prems(3) by (cases stop) simp_all
qed simp

lemma execute_node_keeps:
  assumes "execute_node env g runId i s = ((i', y, t), s')" and "I s" and "i \<in> set (ms_active s)"
  shows "I s'"
  using assms(1)
proof (cases rule: execute_node_cases)
  case unknown
  with assms(2) quiet show ?thesis by blast
next
  case (known n sat s1 s2)
  obtain s0 where s0: "core s0 = core s" "consume_satisfaction i s0 = (sat, s1)"
    using known by blast
  have "I s0" "i \<in> set (ms_active s0)"
    using quiet [OF assms(2) s0(1)] core_eqD(1) [OF s0(1)] assms(3) by simp_all
  with known s0(2) delivering [of s0 n sat s1 s2] show ?thesis
    using quiet by auto
qed

lemma execute_all_keeps:
  "execute_all env g runId is s = (xs, s') \<Longrightarrow> I s \<Longrightarrow> set is \<subseteq> set (ms_active s) \<Longrightarrow> I s'"
proof (induction "is" arbitrary: s xs)
  case (Cons i "is")
  obtain i' y t s1 where x: "execute_node env g runId i s = ((i', y, t), s1)"
    by (metis prod_cases3 surj_pair)
  obtain ys where "execute_all env g runId is s1 = (ys, s')"
    using Cons.prems(1) x by (auto split: prod.splits)
  with Cons.IH execute_node_keeps [OF x] execute_node_active [OF x] Cons.prems show ?case by simp
qed simp

end

subsection \<open>The loop\<close>

lemma set_runnable: "set (runnable_nodes s) \<subseteq> set (ms_active s)"
  by (auto simp: runnable_nodes_def)

lemma runnable_poll [simp]: "runnable_nodes (poll s) = runnable_nodes s"
  by (simp add: runnable_nodes_def poll_def)

lemma tick_round_InlE:
  assumes "tick_round env g runId limit s = Inl s'"
  obtains xs s2 where "\<not> aborted env (polls s)" "terminal s = None" "fatalError s = None"
    "settlements s < limit" "runnable_nodes s \<noteq> []"
    "execute_all env g runId (runnable_nodes s) (poll s) = (xs, s2)"
    "process_all env g xs s2 = Inr s'"
proof -
  obtain xs s2 where ex: "execute_all env g runId (runnable_nodes s) (poll s) = (xs, s2)"
    by fastforce
  have settled: "settlements (poll s) = settlements s" by (simp add: poll_def)
  show thesis
    using assms that [OF _ _ _ _ _ ex]
    by (auto simp: tick_round_def Let_def ex settled split: if_splits sum.splits)
qed

lemma tick_round_InrE:
  assumes "tick_round env g runId limit s = Inr r"
  obtains (left) "r = Inr (poll s)" "aborted env (polls s) \<or> terminal s \<noteq> None \<or>
      fatalError s \<noteq> None \<or> runnable_nodes s = []"
  | (backstop) "r = Inr ((poll s)\<lparr>fatalError := Some (BackstopExceeded limit)\<rparr>)"
      "terminal s = None" "fatalError s = None" "limit \<le> settlements s"
  | (thrown) e where "r = Inl e"
proof -
  obtain xs s2 where ex: "execute_all env g runId (runnable_nodes s) (poll s) = (xs, s2)"
    by fastforce
  have settled: "settlements (poll s) = settlements s" by (simp add: poll_def)
  show thesis
  proof (cases "aborted env (polls s) \<or> terminal s \<noteq> None \<or> fatalError s \<noteq> None")
    case True
    with assms left show thesis by (auto simp: tick_round_def Let_def)
  next
    case active: False
    show thesis
    proof (cases "limit \<le> settlements s")
      case True
      with active assms backstop show thesis by (simp add: tick_round_def Let_def settled)
    next
      case within: False
      show thesis
      proof (cases "runnable_nodes s = []")
        case True
        with active within assms left show thesis by (simp add: tick_round_def Let_def settled)
      next
        case False
        with active within assms have "\<exists>e. r = Inl e"
          by (cases "process_all env g xs s2") (auto simp: tick_round_def Let_def ex settled)
        with thrown show thesis by blast
      qed
    qed
  qed
qed

lemma distinct_set_add [simp]: "distinct (set_add x xs) \<longleftrightarrow> distinct xs"
  by (auto simp: set_add_def)

interpretation active_distinct: tick_invariant g "\<lambda>s. distinct (ms_active s)" for g
proof unfold_locales
  fix s s' :: tick_state
  show "distinct (ms_active s) \<Longrightarrow> core s' = core s \<Longrightarrow> distinct (ms_active s')"
    using core_eqD(1) by metis
next
  fix s s1 s2 n sat
  assume "distinct (ms_active s)" and "consume_satisfaction (node_id n) s = (sat, s1)"
    and same: "core s2 = core s1"
  then show "distinct (ms_active s1) \<and>
      distinct (ms_active (s2\<lparr>calls := calls s2 @ [(node_id n, sat)]\<rparr>))"
    by (simp add: consume_active core_eqD(1) [OF same])
qed (auto simp: activated_def fire_count_def retry_node_def record_result_def open_wait_def
      emit_def Let_def distinct_removeAll)

context tick_invariant
begin

lemma round_keeps:
  assumes "tick_round env g runId limit s = Inl s'" and "I s" and "distinct (ms_active s)"
  shows "I s'"
  using assms(1)
proof (cases rule: tick_round_InlE)
  case (1 xs s2)
  have "I (poll s)" and sub: "set (runnable_nodes s) \<subseteq> set (ms_active (poll s))"
    using quiet [OF assms(2)] set_runnable by (auto simp: poll_def core_def)
  then have "I s2"
    using execute_all_keeps [OF 1(6)] by blast
  moreover have "distinct (map fst xs)" "fst ` set xs \<subseteq> set (ms_active s2)"
    using execute_all_active [OF 1(6)] sub assms(3)
    by (auto simp: runnable_nodes_def simp flip: set_map)
  ultimately show ?thesis
    using process_all_keeps [OF 1(7)] by blast
qed

end

context tick_invariant
begin

theorem loop_keeps:
  assumes "iterate (tick_round env g runId limit) fuel s = Some (Inr s')"
    and "I s" and "distinct (ms_active s)"
  shows "I s'"
proof -
  let ?J = "\<lambda>s. I s \<and> distinct (ms_active s)"
  have "\<forall>s'. r = Inr s' \<longrightarrow> I s'"
    if "iterate (tick_round env g runId limit) fuel s = Some r" for r
  proof (rule iterate_invariant [OF that, where I = ?J])
    show "?J s" using assms by simp
  next
    fix s s'
    assume "?J s" "tick_round env g runId limit s = Inl s'"
    then show "?J s'"
      using round_keeps active_distinct.round_keeps by blast
  next
    fix s r
    assume J: "?J s" and final: "tick_round env g runId limit s = Inr r"
    have "I (poll s)"
      using J quiet [of s "poll s"] by simp
    from final show "\<forall>s'. r = Inr s' \<longrightarrow> I s'"
      by (cases rule: tick_round_InrE) (simp_all add: \<open>I (poll s)\<close> failing)
  qed
  with assms(1) show ?thesis by blast
qed

lemma start_keeps:
  assumes "tick_start env g st sats = Inr s" and "I (thaw env st sats)"
  shows "I s" "distinct (ms_active s)"
proof -
  have "I s \<and> distinct (ms_active s)"
  proof (cases "ms_active (thaw env st sats) = [] \<and> ms_waiting (thaw env st sats) = [] \<and>
      ms_activations (thaw env st sats) = []")
    case True
    then have act: "activate env g (graph_entry g) (thaw env st sats) = Inr s"
      using assms(1) by (simp add: tick_start_def Let_def)
    have "may_activate g n (thaw env st sats)" if "node_by_id g (graph_entry g) = Some n" for n
      using True node_by_id_known [OF that] by (simp add: may_activate_def)
    with True act assms(2) show ?thesis
      by (auto intro: activate_keeps active_distinct.activate_keeps)
  next
    case False
    with assms show ?thesis
      by (auto simp: tick_start_def Let_def thaw_def)
  qed
  then show "I s" "distinct (ms_active s)" by simp_all
qed

lemma run_keeps:
  assumes "tick_run fuel env g st sats limit = Some (Inr s')" and "I (thaw env st sats)"
  shows "I s'"
proof -
  obtain s where start: "tick_start env g st sats = Inr s"
    and loop: "iterate (tick_round env g (gs_runId st) (case limit of None \<Rightarrow> 1000 | Some m \<Rightarrow> m))
      fuel s = Some (Inr s')"
    using assms(1) by (auto simp: tick_run_def Let_def split: sum.splits)
  show ?thesis
    using loop_keeps [OF loop] start_keeps [OF start assms(2)] by blast
qed

end

end
