(* ===== verification/GraphEngineSafety.thy ===== *)
theory GraphEngineSafety
  imports GraphEngineProps
begin

section \<open>What every tick keeps\<close>

text \<open>The invariants of the engine, each an interpretation of \<open>tick_invariant\<close>.\<close>

lemmas change_defs = activated_def fire_count_def retry_node_def record_result_def open_wait_def
  emit_def Let_def

lemma consume_disj:
  "consume_satisfaction i s = (sat, s1) \<Longrightarrow>
     (sat = None \<and> s1 = s) \<or>
     (\<exists>w. sat = Some w \<and> map_of (pendingSatisfactions s) i = Some w \<and> i \<in> set (ms_waiting s) \<and>
        s1 = s\<lparr>pendingSatisfactions := AList.delete i (pendingSatisfactions s),
               ms_waiting := removeAll i (ms_waiting s)\<rparr>)"
  by (auto simp: consume_satisfaction_def split: option.splits if_splits)

lemma consume_cases:
  assumes "consume_satisfaction i s = (sat, s1)"
  obtains (none) "sat = None" "s1 = s"
  | (some) w where "sat = Some w" "map_of (pendingSatisfactions s) i = Some w"
      "i \<in> set (ms_waiting s)"
      "s1 = s\<lparr>pendingSatisfactions := AList.delete i (pendingSatisfactions s),
              ms_waiting := removeAll i (ms_waiting s)\<rparr>"
  using consume_disj [OF assms] by blast

subsection \<open>Waiting nodes are active\<close>

definition waits_active :: "tick_state \<Rightarrow> bool" where
  "waits_active s \<longleftrightarrow> set (ms_waiting s) \<subseteq> set (ms_active s) \<and> distinct (ms_waiting s)"

interpretation waits_active: tick_invariant g waits_active for g
proof unfold_locales
  fix s s'
  show "waits_active s \<Longrightarrow> core s' = core s \<Longrightarrow> waits_active s'"
    using core_eqD(1,2) [of s' s] by (simp add: waits_active_def)
next
  fix s s1 s2 n sat
  assume "waits_active s" and c: "consume_satisfaction (node_id n) s = (sat, s1)"
    and same: "core s2 = core s1"
  from c have "waits_active s1"
    by (cases rule: consume_cases)
      (use \<open>waits_active s\<close> in \<open>auto simp: waits_active_def distinct_removeAll\<close>)
  then show "waits_active s1 \<and> waits_active (s2\<lparr>calls := calls s2 @ [(node_id n, sat)]\<rparr>)"
    using core_eqD(1,2) [OF same] by (simp add: waits_active_def)
qed (auto simp: waits_active_def change_defs distinct_removeAll)

subsection \<open>The history grows by what is settled\<close>

definition grows_from :: "workflow_graph \<Rightarrow> node_result list \<Rightarrow> tick_state \<Rightarrow> bool" where
  "grows_from g h s \<longleftrightarrow> (\<exists>rs. ms_history s = h @ rs \<and> length rs = settlements s \<and>
     (\<forall>out. terminal s = Some out \<longrightarrow>
       (\<exists>n r. node_known g n \<and> node_config n = TerminalNode out \<and>
          r \<in> set rs \<and> res_nodeId r = node_id n)))"

interpretation grows: tick_invariant g "grows_from g h" for g h
proof unfold_locales
  fix s s'
  show "grows_from g h s \<Longrightarrow> core s' = core s \<Longrightarrow> grows_from g h s'"
    using core_eqD(4,9,11) [of s' s] by (simp add: grows_from_def)
next
  fix s n out
  assume g: "grows_from g h s" and n: "node_known g n" "node_config n = TerminalNode out"
    and l: "0 < settlements s" "res_nodeId (last (ms_history s)) = node_id n"
  from g obtain rs where rs: "ms_history s = h @ rs" "length rs = settlements s"
    by (auto simp: grows_from_def)
  then have "rs \<noteq> []" using l(1) by auto
  with rs l have "last rs \<in> set rs" "res_nodeId (last rs) = node_id n" by auto
  with rs n show "grows_from g h (s\<lparr>terminal := Some out\<rparr>)"
    by (auto simp: grows_from_def)
next
  fix s n r
  assume "grows_from g h s"
  then obtain rs where rs: "ms_history s = h @ rs" "length rs = settlements s"
    and t: "\<forall>out. terminal s = Some out \<longrightarrow>
      (\<exists>n r. node_known g n \<and> node_config n = TerminalNode out \<and> r \<in> set rs \<and> res_nodeId r = node_id n)"
    by (auto simp: grows_from_def)
  then show "grows_from g h (record_result n r s)"
    unfolding grows_from_def
    by (intro exI [of _ "rs @ [r]"]) (fastforce simp: record_result_def emit_def)
next
  fix s s1 s2 n sat
  assume "grows_from g h s" and c: "consume_satisfaction (node_id n) s = (sat, s1)"
    and same: "core s2 = core s1"
  from c have "grows_from g h s1"
    by (cases rule: consume_cases) (use \<open>grows_from g h s\<close> in \<open>simp_all add: grows_from_def\<close>)
  then show "grows_from g h s1 \<and> grows_from g h (s2\<lparr>calls := calls s2 @ [(node_id n, sat)]\<rparr>)"
    using core_eqD(4,9,11) [OF same] by (simp add: grows_from_def)
qed (simp_all add: grows_from_def activated_def fire_count_def retry_node_def open_wait_def
      emit_def Let_def)

subsection \<open>Loop counters stay within their bounds\<close>

definition within_bounds :: "workflow_graph \<Rightarrow> tick_state \<Rightarrow> bool" where
  "within_bounds g s \<longleftrightarrow> distinct (map tr_id (graph_transitions g)) \<longrightarrow>
     (\<forall>t \<in> set (graph_transitions g). \<forall>b. loopBound t = Some b \<longrightarrow>
        (of_nat (firings s t) :: rat) < max 0 b + 1)"

lemma firings_fire_count:
  "firings (fire_count t s) u = (if tr_id u = tr_id t then firings s t + 1 else firings s u)"
  by (simp add: firings_def fire_count_def)

lemma distinct_id_eq:
  "distinct (map f xs) \<Longrightarrow> x \<in> set xs \<Longrightarrow> y \<in> set xs \<Longrightarrow> f x = f y \<Longrightarrow> x = y"
  by (auto simp: distinct_map dest: inj_onD)

interpretation within_bounds: tick_invariant g "within_bounds g" for g
proof unfold_locales
  fix s s'
  assume "within_bounds g s" and same: "core s' = core s"
  then show "within_bounds g s'"
    by (simp add: within_bounds_def firings_def core_eqD(5) [OF same])
next
  fix s t
  assume w: "within_bounds g s" and t: "t \<in> set (graph_transitions g)"
    and free: "bound_reached s t = None"
  show "within_bounds g (fire_count t s)"
    unfolding within_bounds_def
  proof (intro impI ballI allI)
    fix u b
    assume d: "distinct (map tr_id (graph_transitions g))" and u: "u \<in> set (graph_transitions g)"
      and b: "loopBound u = Some b"
    show "of_nat (firings (fire_count t s) u) < max 0 b + 1"
    proof (cases "tr_id u = tr_id t")
      case True
      then have "u = t" using distinct_id_eq [OF d u t] by simp
      have "\<not> b \<le> of_nat (firings s t)"
        using free b unfolding \<open>u = t\<close> by (simp add: bound_reached_def split: if_splits)
      then show ?thesis
        unfolding \<open>u = t\<close> by (simp add: firings_fire_count)
    next
      case False
      with w d u b show ?thesis by (simp add: within_bounds_def firings_fire_count)
    qed
  qed
next
  fix s s1 s2 n sat
  assume w: "within_bounds g s" and c: "consume_satisfaction (node_id n) s = (sat, s1)"
    and same: "core s2 = core s1"
  from c have "within_bounds g s1"
    by (cases rule: consume_cases) (use w in \<open>simp_all add: within_bounds_def firings_def\<close>)
  then show "within_bounds g s1 \<and> within_bounds g (s2\<lparr>calls := calls s2 @ [(node_id n, sat)]\<rparr>)"
    using core_eqD(5) [OF same] by (simp add: within_bounds_def firings_def)
qed (simp_all add: within_bounds_def firings_def activated_def retry_node_def record_result_def
      open_wait_def emit_def Let_def)

subsection \<open>A satisfaction is delivered at most once\<close>

fun deliveries :: "(string \<times> wait_satisfaction option) list \<Rightarrow> string \<Rightarrow> wait_satisfaction list" where
  "deliveries [] i = []"
| "deliveries ((j, sat) # cs) i =
     (case sat of Some w \<Rightarrow> if j = i then [w] else [] | None \<Rightarrow> []) @ deliveries cs i"

lemma deliveries_append [simp]: "deliveries (cs @ ds) i = deliveries cs i @ deliveries ds i"
  by (induction cs i rule: deliveries.induct) auto

text \<open>A satisfaction not delivered is still pending or was dropped, and never both.\<close>

definition delivered_once :: "wait_satisfaction record_of \<Rightarrow> tick_state \<Rightarrow> bool" where
  "delivered_once sats s \<longleftrightarrow> (\<forall>i.
     (deliveries (calls s) i = [] \<and>
        (\<forall>w. map_of (pendingSatisfactions s) i = Some w \<longrightarrow> map_of sats i = Some w)) \<or>
     (map_of (pendingSatisfactions s) i = None \<and>
        (\<exists>w. deliveries (calls s) i = [w] \<and> map_of sats i = Some w)))"

lemma delivered_once_fields:
  "pendingSatisfactions s' = pendingSatisfactions s \<Longrightarrow> calls s' = calls s \<Longrightarrow>
   delivered_once sats s \<Longrightarrow> delivered_once sats s'"
  by (simp add: delivered_once_def)

interpretation delivered_once: tick_invariant g "delivered_once sats" for g sats
proof unfold_locales
  fix s s'
  show "delivered_once sats s \<Longrightarrow> core s' = core s \<Longrightarrow> delivered_once sats s'"
    using core_eqD(12,13) [of s' s] delivered_once_fields by blast
next
  fix s s1 s2 n sat
  let ?i = "node_id n"
  assume d: "delivered_once sats s" and c: "consume_satisfaction ?i s = (sat, s1)"
    and same: "core s2 = core s1"
  note fields = core_eqD(12,13) [OF same]
  from c show "delivered_once sats s1 \<and>
      delivered_once sats (s2\<lparr>calls := calls s2 @ [(?i, sat)]\<rparr>)"
  proof (cases rule: consume_cases)
    case none
    with d fields show ?thesis by (simp add: delivered_once_def)
  next
    case (some w)
    have "deliveries (calls s) ?i = [] \<and> map_of sats ?i = Some w"
      using d [unfolded delivered_once_def, rule_format, of ?i] some(2) by auto
    with d some fields show ?thesis
      by (simp add: delivered_once_def delete_conv')
  qed
qed (simp_all add: delivered_once_def activated_def fire_count_def
      retry_node_def record_result_def open_wait_def emit_def Let_def)

subsection \<open>Every wait opened is reported\<close>

definition waits_reported :: "string set \<Rightarrow> tick_state \<Rightarrow> bool" where
  "waits_reported W s \<longleftrightarrow> set (ms_waiting s) \<subseteq> W \<union> pw_nodeId ` set (newWaits s) \<and>
     distinct (map pw_nodeId (newWaits s))"

lemma distinct_map_filter': "distinct (map f xs) \<Longrightarrow> distinct (map f (filter P xs))"
  by (simp add: distinct_map inj_on_def)

interpretation waits_reported: tick_invariant g "waits_reported W" for g W
proof unfold_locales
  fix s s'
  assume "waits_reported W s" and same: "core s' = core s"
  then show "waits_reported W s'"
    by (simp add: waits_reported_def core_eqD(2,8) [OF same])
next
  fix s n spec request
  assume "waits_reported W s"
  then show "waits_reported W (open_wait (node_id n) spec request s)"
    by (auto simp: waits_reported_def open_wait_def emit_def distinct_map_filter')
next
  fix s s1 s2 n sat
  assume w: "waits_reported W s" and c: "consume_satisfaction (node_id n) s = (sat, s1)"
    and same: "core s2 = core s1"
  from c have "waits_reported W s1"
    by (cases rule: consume_cases) (use w in \<open>auto simp: waits_reported_def\<close>)
  then show "waits_reported W s1 \<and> waits_reported W (s2\<lparr>calls := calls s2 @ [(node_id n, sat)]\<rparr>)"
    by (simp add: waits_reported_def core_eqD(2,8) [OF same])
qed (auto simp: waits_reported_def activated_def fire_count_def retry_node_def record_result_def
      emit_def Let_def)

subsection \<open>Join accounting\<close>

text \<open>
  How often a node has been activated by a transition, and what its join has seen: an implicit
  join never exceeds the firings of its incoming transitions, \<open>any\<close> never the most frequent of
  them, and \<open>all\<close> and \<open>min\<close> activate once, when enough of them have fired.
\<close>

definition join_activations :: "workflow_graph \<Rightarrow> nat record_of \<Rightarrow> graph_node \<Rightarrow> int" where
  "join_activations g acts n =
     int (count_of acts (node_id n)) - (if node_id n = graph_entry g then 1 else 0)"

definition fired_of :: "workflow_graph \<Rightarrow> nat record_of \<Rightarrow> graph_node \<Rightarrow> graph_transition list" where
  "fired_of g loops n = filter (\<lambda>t. 0 < count_of loops (tr_id t)) (inbound g (node_id n))"

definition join_respected ::
  "workflow_graph \<Rightarrow> nat record_of \<Rightarrow> nat record_of \<Rightarrow> graph_node \<Rightarrow> bool" where
  "join_respected g acts loops n \<longleftrightarrow>
     (case node_join n of
        None \<Rightarrow> join_activations g acts n \<le>
                  int (\<Sum>t\<leftarrow>inbound g (node_id n). count_of loops (tr_id t))
      | Some j \<Rightarrow>
          (case join_mode j of
             JoinAny \<Rightarrow> join_activations g acts n \<le> 0 \<or>
               (\<exists>t \<in> set (inbound g (node_id n)). join_activations g acts n \<le> int (count_of loops (tr_id t)))
           | JoinAll \<Rightarrow> join_activations g acts n \<le> 1 \<and>
               (join_activations g acts n = 1 \<longrightarrow> fired_of g loops n = inbound g (node_id n))
           | JoinMin \<Rightarrow> join_activations g acts n \<le> 1 \<and>
               (join_activations g acts n = 1 \<longrightarrow>
                  (case join_n j of None \<Rightarrow> of_nat (length (inbound g (node_id n))) | Some k \<Rightarrow> k)
                  \<le> (of_nat (length (fired_of g loops n)) :: rat))))"

definition joins_respected :: "workflow_graph \<Rightarrow> tick_state \<Rightarrow> bool" where
  "joins_respected g s \<longleftrightarrow>
     (\<forall>n. node_known g n \<longrightarrow> join_respected g (ms_activations s) (ms_loop s) n)"

lemma fold_max_attained:
  "fold (\<lambda>t m. max m (f t)) ts (a :: nat) = a \<or>
   (\<exists>t \<in> set ts. fold (\<lambda>t m. max m (f t)) ts a = f t)"
proof (induction ts arbitrary: a)
  case (Cons t ts)
  from Cons [of "max a (f t)"] show ?case by (auto simp: max_def)
qed simp

lemma fired_of_all: "fired_of g loops n = inbound g (node_id n) \<longleftrightarrow>
    (\<forall>t \<in> set (inbound g (node_id n)). 0 < count_of loops (tr_id t))"
  by (auto simp: fired_of_def filter_id_conv)

lemma join_activations_update:
  "join_activations g (AList.update i k acts) n =
     (if node_id n = i then int k - (if i = graph_entry g then 1 else 0) else join_activations g acts n)"
  by (simp add: join_activations_def)

lemma join_respected_cong:
  "join_activations g acts n = join_activations g acts' n \<Longrightarrow>
   join_respected g acts loops n = join_respected g acts' loops n"
  by (simp only: join_respected_def)

lemma fresh_entry_respected:
  assumes "node_id n = graph_entry g"
  shows "join_respected g (AList.update (node_id n) 1 acts) loops n"
  using assms
  by (simp add: join_respected_def join_activations_update sum_list_nonneg
      split: option.splits join_mode.splits)

lemma joined_respected:
  assumes "joinSatisfied g n s"
  shows "join_respected g (AList.update (node_id n) (count_of (ms_activations s) (node_id n) + 1)
           (ms_activations s)) (ms_loop s) n"
proof -
  let ?ins = "inbound g (node_id n)" and ?acts = "join_activations g (ms_activations s) n"
  have new: "join_activations g (AList.update (node_id n)
      (Suc (count_of (ms_activations s) (node_id n))) (ms_activations s)) n = ?acts + 1"
    by (simp add: join_activations_def)
  note joined = assms [unfolded joinSatisfied_def Let_def firings_def, folded join_activations_def]
  show ?thesis
  proof (cases "node_join n")
    case None
    with joined show ?thesis by (simp add: join_respected_def new firings_def [abs_def])
  next
    case (Some j)
    show ?thesis
    proof (cases "join_mode j")
      case JoinAny
      then show ?thesis
        using joined Some fold_max_attained [of "firings s" ?ins 0]
        by (auto simp: join_respected_def new firings_def add1_zle_eq)
    next
      case JoinAll
      then have "length (fired_of g (ms_loop s) n) = length ?ins" "?acts = 0"
        using joined Some by (simp_all add: fired_of_def firings_def)
      then have "fired_of g (ms_loop s) n = ?ins"
        unfolding fired_of_def by (metis filter_True length_filter_less less_irrefl)
      with \<open>?acts = 0\<close> JoinAll Some show ?thesis
        by (simp add: join_respected_def new)
    next
      case JoinMin
      then show ?thesis
        using joined Some by (simp add: join_respected_def new fired_of_def firings_def)
    qed
  qed
qed

lemma length_filter_mono: "(\<And>x. P x \<Longrightarrow> Q x) \<Longrightarrow> length (filter P xs) \<le> length (filter Q xs)"
  by (induction xs) auto

lemma firing_respects:
  assumes "join_respected g acts loops n" and more: "\<And>k. count_of loops k \<le> count_of loops' k"
  shows "join_respected g acts loops' n"
proof -
  let ?ins = "inbound g (node_id n)"
  have sum: "(\<Sum>t\<leftarrow>?ins. count_of loops (tr_id t)) \<le> (\<Sum>t\<leftarrow>?ins. count_of loops' (tr_id t))"
    by (rule sum_list_mono) (rule more)
  have len: "length (fired_of g loops n) \<le> length (fired_of g loops' n)"
    unfolding fired_of_def by (rule length_filter_mono) (metis more less_le_trans)
  have every: "0 < count_of loops k \<Longrightarrow> 0 < count_of loops' k" for k
    using more [of k] by simp
  show ?thesis
  proof (cases "node_join n")
    case None
    with assms(1) sum show ?thesis by (simp add: join_respected_def)
  next
    case (Some j)
    show ?thesis
    proof (cases "join_mode j")
      case JoinAny
      have "x \<le> int (count_of loops' k)" if "x \<le> int (count_of loops k)" for x k
        using that more [of k] by linarith
      with JoinAny Some assms(1) show ?thesis by (auto simp: join_respected_def)
    next
      case JoinAll
      with Some assms(1) every show ?thesis by (auto simp: join_respected_def fired_of_all)
    next
      case JoinMin
      have "x \<le> of_nat (length (fired_of g loops' n))" if "x \<le> of_nat (length (fired_of g loops n))"
        for x :: rat
        using that len by (meson of_nat_mono order_trans)
      with JoinMin Some assms(1) show ?thesis by (auto simp: join_respected_def)
    qed
  qed
qed


interpretation joins_respected: tick_invariant g "joins_respected g" for g
proof unfold_locales
  fix s s'
  assume "joins_respected g s" and same: "core s' = core s"
  then show "joins_respected g s'"
    by (simp add: joins_respected_def core_eqD(5,6) [OF same])
next
  fix s n
  assume r: "joins_respected g s" and n: "node_known g n" and may: "may_activate g n s"
  have own: "join_respected g (AList.update (node_id n) (count_of (ms_activations s) (node_id n) + 1)
      (ms_activations s)) (ms_loop s) n"
    using may joined_respected [of g n s] fresh_entry_respected [of n g "[]" "ms_loop s"]
    by (auto simp: may_activate_def)
  have "join_respected g (AList.update (node_id n) k (ms_activations s)) (ms_loop s) m"
    if "node_known g m" "m \<noteq> n" for m k
  proof -
    have "node_id m \<noteq> node_id n" using that n by (auto simp: node_known_def)
    then have "join_activations g (AList.update (node_id n) k (ms_activations s)) m =
        join_activations g (ms_activations s) m"
      by (simp add: join_activations_update)
    from join_respected_cong [OF this] r that(1) show ?thesis
      by (simp add: joins_respected_def)
  qed
  with own show "joins_respected g (activated (node_id n) s)"
    by (auto simp: joins_respected_def activated_def)
next
  fix s t
  assume "joins_respected g s"
  then show "joins_respected g (fire_count t s)"
    by (auto simp: joins_respected_def fire_count_def firings_def intro: firing_respects)
next
  fix s s1 s2 n sat
  assume r: "joins_respected g s" and c: "consume_satisfaction (node_id n) s = (sat, s1)"
    and same: "core s2 = core s1"
  from c have "joins_respected g s1"
    by (cases rule: consume_cases) (use r in \<open>simp_all add: joins_respected_def\<close>)
  then show "joins_respected g s1 \<and> joins_respected g (s2\<lparr>calls := calls s2 @ [(node_id n, sat)]\<rparr>)"
    by (simp add: joins_respected_def core_eqD(5,6) [OF same])
qed (simp_all add: joins_respected_def retry_node_def record_result_def open_wait_def emit_def Let_def)

subsection \<open>Measures: settlements grow, pending satisfactions shrink, active nodes are known\<close>

interpretation settles: tick_invariant g "\<lambda>s. k \<le> settlements s" for g k
proof unfold_locales
  fix s s' :: tick_state
  assume "k \<le> settlements s" and same: "core s' = core s"
  then show "k \<le> settlements s'" by (simp add: core_eqD(11) [OF same])
next
  fix s s1 s2 n sat
  assume k: "k \<le> settlements s" and c: "consume_satisfaction (node_id n) s = (sat, s1)"
    and same: "core s2 = core s1"
  from c have "k \<le> settlements s1"
    by (cases rule: consume_cases) (use k in simp_all)
  then show "k \<le> settlements s1 \<and> k \<le> settlements (s2\<lparr>calls := calls s2 @ [(node_id n, sat)]\<rparr>)"
    by (simp add: core_eqD(11) [OF same])
qed (simp_all add: change_defs)

interpretation pends: tick_invariant g "\<lambda>s. dom (map_of (pendingSatisfactions s)) \<subseteq> D" for g D
proof unfold_locales
  fix s s' :: tick_state
  assume "dom (map_of (pendingSatisfactions s)) \<subseteq> D" and same: "core s' = core s"
  then show "dom (map_of (pendingSatisfactions s')) \<subseteq> D" by (simp add: core_eqD(12) [OF same])
next
  fix s s1 s2 n sat
  assume k: "dom (map_of (pendingSatisfactions s)) \<subseteq> D"
    and c: "consume_satisfaction (node_id n) s = (sat, s1)"
    and same: "core s2 = core s1"
  from c have "dom (map_of (pendingSatisfactions s1)) \<subseteq> D"
    by (cases rule: consume_cases) (use k in \<open>auto simp: delete_conv' split: if_splits\<close>)
  then show "dom (map_of (pendingSatisfactions s1)) \<subseteq> D \<and>
      dom (map_of (pendingSatisfactions (s2\<lparr>calls := calls s2 @ [(node_id n, sat)]\<rparr>))) \<subseteq> D"
    by (simp add: core_eqD(12) [OF same])
qed (simp_all add: change_defs)

definition known_active :: "workflow_graph \<Rightarrow> tick_state \<Rightarrow> bool" where
  "known_active g s \<longleftrightarrow> (\<forall>i \<in> set (ms_active s). node_by_id g i \<noteq> None)"

interpretation known_active: tick_invariant g "known_active g" for g
proof unfold_locales
  fix s s'
  assume "known_active g s" and same: "core s' = core s"
  then show "known_active g s'" by (simp add: known_active_def core_eqD(1) [OF same])
next
  fix s s1 s2 n sat
  assume k: "known_active g s" and c: "consume_satisfaction (node_id n) s = (sat, s1)"
    and same: "core s2 = core s1"
  from c have "known_active g s1"
    by (cases rule: consume_cases) (use k in \<open>simp_all add: known_active_def\<close>)
  then show "known_active g s1 \<and> known_active g (s2\<lparr>calls := calls s2 @ [(node_id n, sat)]\<rparr>)"
    by (simp add: known_active_def core_eqD(1) [OF same])
qed (auto simp: known_active_def change_defs node_known_def)

interpretation no_inconsistency: tick_invariant g "\<lambda>s. fatalError s \<noteq> Some EngineInconsistency" for g
proof unfold_locales
  fix s s' :: tick_state
  assume "fatalError s \<noteq> Some EngineInconsistency" and same: "core s' = core s"
  then show "fatalError s' \<noteq> Some EngineInconsistency" by (simp add: core_eqD(10) [OF same])
next
  fix s s1 s2 n sat
  assume k: "fatalError s \<noteq> Some EngineInconsistency"
    and c: "consume_satisfaction (node_id n) s = (sat, s1)" and same: "core s2 = core s1"
  from c have "fatalError s1 \<noteq> Some EngineInconsistency"
    by (cases rule: consume_cases) (use k in simp_all)
  then show "fatalError s1 \<noteq> Some EngineInconsistency \<and>
      fatalError (s2\<lparr>calls := calls s2 @ [(node_id n, sat)]\<rparr>) \<noteq> Some EngineInconsistency"
    by (simp add: core_eqD(10) [OF same])
qed (simp_all add: change_defs)

end
