(* ===== verification/GraphEngineLoop.thy ===== *)
theory GraphEngineLoop
  imports GraphEngineSafety
begin

section \<open>Termination of a tick\<close>

text \<open>
  Every round of the loop either settles a node, delivers a pending satisfaction or turns an
  active node into a waiting one, provided the active nodes exist in the graph. An active node
  the graph does not have is executed and skipped in every round: then the loop never ends.
\<close>

subsection \<open>A round that settles nothing\<close>

lemma process_settled:
  assumes "process_execution env g (i, YResult st outputs err, t) s = Inr (stop, s')"
    and "node_by_id g i \<noteq> None"
  shows "settlements s < settlements s'"
proof -
  obtain n where n: "node_by_id g i = Some n" using assms(2) by blast
  then have known: "node_known g n" "node_id n = i" using node_by_id_known by auto
  from assms(1) n obtain r s1 where set: "settleNode env g n r s1 = Inr (stop, s')"
    and same: "core s1 = core s" and r: "res_nodeId r = i"
    by (force simp: process_execution_def read_clock_def Let_def)
  from set show ?thesis
  proof (cases rule: settleNode_phases)
    case (1 scope s3)
    have "settlements s + 1 \<le> settlements s3"
      using core_eqD(11) [OF 1(1)] core_eqD(11) [OF same] by (simp add: record_result_def emit_def)
    then show ?thesis
      using settles.leave_node_keeps [OF 1(2) _ known(1), of "settlements s3"]
        record_result_history [OF 1(1)] r known(2)
      by simp
  qed
qed

lemma process_waited:
  assumes "process_execution env g (i, YWait spec request, t) s = Inr (stop, s')"
    and "node_by_id g i \<noteq> None"
  shows "\<not> stop" "ms_active s' = ms_active s" "set (ms_waiting s') = insert i (set (ms_waiting s))"
    "pendingSatisfactions s' = pendingSatisfactions s" "settlements s' = settlements s"
proof -
  have s': "s' = open_wait i spec request s" "\<not> stop"
    using assms by (auto simp: process_execution_def)
  then show "\<not> stop" by simp
  show "ms_active s' = ms_active s" "set (ms_waiting s') = insert i (set (ms_waiting s))"
    "pendingSatisfactions s' = pendingSatisfactions s" "settlements s' = settlements s"
    by (simp_all add: s'(1) open_wait_def emit_def insert_absorb)
qed

lemma process_all_waited:
  "process_all env g xs s = Inr s' \<Longrightarrow> settlements s' = settlements s \<Longrightarrow>
   distinct (map fst xs) \<Longrightarrow> fst ` set xs \<subseteq> set (ms_active s) \<Longrightarrow>
   \<forall>i \<in> fst ` set xs. node_by_id g i \<noteq> None \<Longrightarrow>
   ms_active s' = ms_active s \<and> pendingSatisfactions s' = pendingSatisfactions s \<and>
   set (ms_waiting s') = set (ms_waiting s) \<union> fst ` set xs"
proof (induction xs arbitrary: s)
  case (Cons x xs)
  obtain i y t where x: "x = (i, y, t)" by (cases x)
  from Cons.prems(1) obtain stop s1 where p: "process_execution env g (i, y, t) s = Inr (stop, s1)"
    and rest: "(if stop then Inr s1 else process_all env g xs s1) = Inr s'"
    by (auto simp: err_simps x)
  have known: "node_by_id g i \<noteq> None" using Cons.prems(5) x by simp
  have later: "fst ` set xs \<subseteq> set (ms_active s1)"
  proof
    fix j
    assume "j \<in> fst ` set xs"
    then have "j \<noteq> i" "j \<in> set (ms_active s)" using Cons.prems(3,4) by (auto simp: x)
    then show "j \<in> set (ms_active s1)" by (intro process_keeps_others [OF p])
  qed
  show ?case
  proof (cases y)
    case (YResult st outputs err)
    have "settlements s < settlements s1"
      using process_settled [OF p [unfolded YResult] known] .
    moreover have "settlements s1 \<le> settlements s'"
      using rest later Cons.prems(3) settles.process_all_keeps [of env g xs s1 s' "settlements s1"]
      by (cases stop) (simp_all add: x)
    ultimately show ?thesis using Cons.prems(2) by simp
  next
    case (YWait spec request)
    note w = process_waited [OF p [unfolded YWait] known]
    have "process_all env g xs s1 = Inr s'" using rest w(1) by simp
    with Cons.IH [of s1] Cons.prems w later show ?thesis by (auto simp: x)
  qed
qed simp

text \<open>What executing the runnable nodes does to the waiting and the pending.\<close>

definition no_more_pending :: "tick_state \<Rightarrow> tick_state \<Rightarrow> bool" where
  "no_more_pending s s' \<longleftrightarrow>
     dom (map_of (pendingSatisfactions s')) \<subseteq> dom (map_of (pendingSatisfactions s))"

lemma no_more_pending_trans:
  "no_more_pending s s' \<Longrightarrow> no_more_pending s' s'' \<Longrightarrow> no_more_pending s s''"
  by (auto simp: no_more_pending_def)

lemma execute_node_effect:
  assumes "execute_node env g runId i s = ((i', y, t), s')"
  shows "set (ms_waiting s) - {i} \<subseteq> set (ms_waiting s') \<and> no_more_pending s s' \<and>
    settlements s' = settlements s \<and>
    (node_by_id g i \<noteq> None \<and> i \<in> set (ms_waiting s) \<and>
      map_of (pendingSatisfactions s) i \<noteq> None \<longrightarrow> map_of (pendingSatisfactions s') i = None)"
  using assms
proof (cases rule: execute_node_cases)
  case unknown
  with core_eqD(2,11,12) [OF unknown(3)] show ?thesis by (auto simp: no_more_pending_def)
next
  case (known n sat s1 s2)
  then obtain s0 where same: "core s0 = core s" and c: "consume_satisfaction i s0 = (sat, s1)"
    by blast
  have s': "ms_waiting s' = ms_waiting s1" "pendingSatisfactions s' = pendingSatisfactions s1"
    "settlements s' = settlements s1"
    using known(6) core_eqD(2,11,12) [OF known(4)] by auto
  from c show ?thesis
    by (cases rule: consume_cases)
      (use core_eqD(2,11,12) [OF same] c in
        \<open>auto simp: s' no_more_pending_def delete_conv' consume_satisfaction_def split: if_splits\<close>)
qed

lemma execute_all_effect:
  "execute_all env g runId is s = (xs, s') \<Longrightarrow>
   set (ms_waiting s) - set is \<subseteq> set (ms_waiting s') \<and> no_more_pending s s' \<and>
   settlements s' = settlements s"
proof (induction "is" arbitrary: s xs)
  case (Cons i "is")
  obtain i' y t s1 where x: "execute_node env g runId i s = ((i', y, t), s1)"
    by (metis prod_cases3 surj_pair)
  obtain ys where "execute_all env g runId is s1 = (ys, s')"
    using Cons.prems x by (auto split: prod.splits)
  then have "set (ms_waiting s1) - set is \<subseteq> set (ms_waiting s') \<and> no_more_pending s1 s' \<and>
      settlements s' = settlements s1"
    by (rule Cons.IH)
  with execute_node_effect [OF x] show ?case
    by (auto intro: no_more_pending_trans)
qed (simp add: no_more_pending_def)

lemma execute_all_delivers:
  assumes "execute_all env g runId (i # is) s = (xs, s')" and "node_by_id g i \<noteq> None"
    and "i \<in> set (ms_waiting s)" and "map_of (pendingSatisfactions s) i \<noteq> None"
  shows "dom (map_of (pendingSatisfactions s')) \<subset> dom (map_of (pendingSatisfactions s))"
proof -
  obtain i' y t s1 where x: "execute_node env g runId i s = ((i', y, t), s1)"
    by (metis prod_cases3 surj_pair)
  obtain ys where rest: "execute_all env g runId is s1 = (ys, s')"
    using assms(1) x by (auto split: prod.splits)
  have "i \<notin> dom (map_of (pendingSatisfactions s1))" "no_more_pending s s1" "no_more_pending s1 s'"
    using execute_node_effect [OF x] execute_all_effect [OF rest] assms(2-4) by auto
  moreover have "i \<in> dom (map_of (pendingSatisfactions s))"
    using assms(4) by auto
  ultimately show ?thesis
    unfolding no_more_pending_def by blast
qed

subsection \<open>The measure\<close>

definition node_count :: "workflow_graph \<Rightarrow> nat" where
  "node_count g = card (node_id ` set (graph_nodes g))"

definition unsettled :: "tick_state \<Rightarrow> nat" where
  "unsettled s = card (set (ms_active s) - set (ms_waiting s))"

definition undelivered :: "tick_state \<Rightarrow> nat" where
  "undelivered s = card (dom (map_of (pendingSatisfactions s)))"

definition tick_ok :: "workflow_graph \<Rightarrow> nat \<Rightarrow> tick_state \<Rightarrow> bool" where
  "tick_ok g P s \<longleftrightarrow> known_active g s \<and> distinct (ms_active s) \<and> undelivered s \<le> P"

definition tick_measure :: "workflow_graph \<Rightarrow> nat \<Rightarrow> nat \<Rightarrow> tick_state \<Rightarrow> nat" where
  "tick_measure g P limit s =
     (limit - settlements s) * ((P + 1) * (node_count g + 1)) +
     undelivered s * (node_count g + 1) + unsettled s"

lemma unsettled_le: "known_active g s \<Longrightarrow> unsettled s \<le> node_count g"
  unfolding unsettled_def node_count_def
proof (rule card_mono)
  show "finite (node_id ` set (graph_nodes g))" by simp
  assume "known_active g s"
  then show "set (ms_active s) - set (ms_waiting s) \<subseteq> node_id ` set (graph_nodes g)"
    using node_by_id_known node_known_in by (fastforce simp: known_active_def)
qed

lemma measure_descends:
  fixes a b c a' b' c' P N :: nat
  assumes "b \<le> P" "b' \<le> P" "c \<le> N" "c' \<le> N"
    and "a' < a \<or> (a' = a \<and> (b' < b \<or> (b' = b \<and> c' < c)))"
  shows "a' * ((P + 1) * (N + 1)) + b' * (N + 1) + c' < a * ((P + 1) * (N + 1)) + b * (N + 1) + c"
proof -
  have inner: "b' * (N + 1) + c' < (P + 1) * (N + 1)"
  proof -
    have "b' * (N + 1) \<le> P * (N + 1)" using assms(2) by (rule mult_le_mono1)
    with assms(4) show ?thesis by simp
  qed
  consider "a' < a" | "a' = a" "b' < b" | "a' = a" "b' = b" "c' < c" using assms(5) by blast
  then show ?thesis
  proof cases
    case 1
    then have "(a' + 1) * ((P + 1) * (N + 1)) \<le> a * ((P + 1) * (N + 1))" by (intro mult_le_mono1) simp
    with inner show ?thesis by (simp add: algebra_simps)
  next
    case 2
    then have "(b' + 1) * (N + 1) \<le> b * (N + 1)" by (intro mult_le_mono1) simp
    with 2 assms(4) show ?thesis by (simp add: algebra_simps)
  qed simp
qed

lemma round_progress:
  assumes round: "tick_round env g runId limit s = Inl s'" and ok: "tick_ok g P s"
  shows "settlements s < settlements s' \<and> settlements s < limit \<or>
    settlements s' = settlements s \<and>
      (undelivered s' < undelivered s \<or> undelivered s' = undelivered s \<and> unsettled s' < unsettled s)"
  using round
proof (cases rule: tick_round_InlE)
  case (1 xs s2)
  let ?run = "runnable_nodes s"
  have act: "ms_active s2 = ms_active s" "map fst xs = ?run"
    using execute_all_active [OF 1(6)] by (simp_all add: poll_def)
  have dist: "distinct (map fst xs)" and sub: "fst ` set xs \<subseteq> set (ms_active s2)"
    using ok act set_runnable [of s] by (auto simp: tick_ok_def runnable_nodes_def simp flip: set_map)
  have known: "\<forall>i \<in> fst ` set xs. node_by_id g i \<noteq> None"
    using ok sub act(1) by (auto simp: tick_ok_def known_active_def)
  have eff: "set (ms_waiting s) - set ?run \<subseteq> set (ms_waiting s2)" "no_more_pending s s2"
    "settlements s2 = settlements s"
    using execute_all_effect [OF 1(6)] by (auto simp: poll_def no_more_pending_def)
  have ids: "fst ` set xs = set ?run" using act(2) by (metis set_map)
  show ?thesis
  proof (cases "settlements s' = settlements s")
    case False
    have "settlements s2 \<le> settlements s'"
      using settles.process_all_keeps [OF 1(7) _ dist sub, of "settlements s2"] by simp
    with False eff(3) 1(4) show ?thesis by simp
  next
    case True
    have w: "ms_active s' = ms_active s" "pendingSatisfactions s' = pendingSatisfactions s2"
      "set (ms_waiting s') = set (ms_waiting s2) \<union> set ?run"
      using process_all_waited [OF 1(7) _ dist sub known] True eff(3) act(1) ids by simp_all
    have pend: "dom (map_of (pendingSatisfactions s')) \<subseteq> dom (map_of (pendingSatisfactions s))"
      using eff(2) by (simp add: w(2) no_more_pending_def)
    then have le: "undelivered s' \<le> undelivered s"
      unfolding undelivered_def by (intro card_mono) (auto simp: finite_dom_map_of)
    show ?thesis
    proof (cases "\<exists>i \<in> set ?run. i \<notin> set (ms_waiting s)")
      case True
      then obtain i where i: "i \<in> set ?run" "i \<notin> set (ms_waiting s)" by blast
      have "set (ms_active s') - set (ms_waiting s') \<subset> set (ms_active s) - set (ms_waiting s)"
      proof
        show "set (ms_active s') - set (ms_waiting s') \<subseteq> set (ms_active s) - set (ms_waiting s)"
          unfolding w(1,3) using eff(1) by auto
        show "set (ms_active s') - set (ms_waiting s') \<noteq> set (ms_active s) - set (ms_waiting s)"
          unfolding w(1,3) using i set_runnable [of s] by auto
      qed
      then have "unsettled s' < unsettled s"
        unfolding unsettled_def by (intro psubset_card_mono) simp_all
      with le \<open>settlements s' = settlements s\<close> show ?thesis by auto
    next
      case False
      obtain i "is" where run: "?run = i # is" using 1(5) by (cases ?run) auto
      have "i \<in> set (runnable_nodes s)" by (simp add: run)
      then have "i \<in> set (ms_waiting s)" "map_of (pendingSatisfactions s) i \<noteq> None"
        using False by (auto simp: runnable_nodes_def)
      moreover have "node_by_id g i \<noteq> None" using known ids run by auto
      ultimately have "dom (map_of (pendingSatisfactions s2)) \<subset> dom (map_of (pendingSatisfactions s))"
        using execute_all_delivers [OF 1(6) [unfolded run]] by (simp add: poll_def)
      then have "undelivered s' < undelivered s"
        unfolding undelivered_def w(2) by (intro psubset_card_mono) (auto simp: finite_dom_map_of)
      with True show ?thesis by simp
    qed
  qed
qed

lemma round_ok:
  assumes "tick_round env g runId limit s = Inl s'" and "tick_ok g P s"
  shows "tick_ok g P s'"
proof -
  have "dom (map_of (pendingSatisfactions s')) \<subseteq> dom (map_of (pendingSatisfactions s))"
    using pends.round_keeps [OF assms(1)] assms(2) by (auto simp: tick_ok_def)
  then have "undelivered s' \<le> undelivered s"
    unfolding undelivered_def by (intro card_mono) (auto simp: finite_dom_map_of)
  with assms known_active.round_keeps [OF assms(1)] active_distinct.round_keeps [OF assms(1)]
  show ?thesis by (simp add: tick_ok_def)
qed

interpretation tick_loop: bounded_loop "tick_round env g runId limit" "tick_ok g P"
  "tick_measure g P limit" for env g runId limit P
proof unfold_locales
  fix s s'
  assume ok: "tick_ok g P s" and round: "tick_round env g runId limit s = Inl s'"
  show ok': "tick_ok g P s'" by (rule round_ok [OF round ok])
  have "limit - settlements s' < limit - settlements s \<or>
      limit - settlements s' = limit - settlements s \<and>
      (undelivered s' < undelivered s \<or> undelivered s' = undelivered s \<and> unsettled s' < unsettled s)"
    using round_progress [OF round ok] by auto
  then show "tick_measure g P limit s' < tick_measure g P limit s"
    unfolding tick_measure_def
    by (intro measure_descends) (use ok ok' unsettled_le in \<open>auto simp: tick_ok_def\<close>)
qed

text \<open>Enough rounds for a tick, from what the tick is given.\<close>

definition tick_limit :: "nat option \<Rightarrow> nat" where
  "tick_limit limit = (case limit of None \<Rightarrow> 1000 | Some m \<Rightarrow> m)"

definition tick_fuel ::
  "workflow_graph \<Rightarrow> wait_satisfaction record_of \<Rightarrow> nat option \<Rightarrow> nat" where
  "tick_fuel g sats limit =
     (tick_limit limit + 1) * ((length sats + 1) * (length (graph_nodes g) + 1))"

lemma measure_below_fuel:
  assumes "tick_ok g (length sats) s"
  shows "tick_measure g (length sats) (tick_limit limit) s < tick_fuel g sats limit"
proof -
  let ?P = "length sats" and ?N = "node_count g" and ?L = "tick_limit limit"
  have N: "?N \<le> length (graph_nodes g)"
    unfolding node_count_def using card_length [of "map node_id (graph_nodes g)"] by simp
  have "tick_measure g ?P ?L s < (?L + 1) * ((?P + 1) * (?N + 1))"
    unfolding tick_measure_def
    using measure_descends [of 0 ?P "undelivered s" 0 ?N "unsettled s" "?L - settlements s" "?L + 1"]
      assms unsettled_le [of g s] by (simp add: tick_ok_def)
  also have "\<dots> \<le> tick_fuel g sats limit"
    unfolding tick_fuel_def using N by (intro mult_le_mono) simp_all
  finally show ?thesis .
qed

lemma tick_enough:
  assumes "\<forall>i \<in> set (activeNodeIds st). node_by_id g i \<noteq> None" and "tick_fuel g sats limit \<le> fuel"
  shows "\<exists>r. tick fuel env g st sats limit = Some r"
proof (cases "tick_start env g st sats")
  case (Inl e)
  then show ?thesis by (simp add: tick_def tick_run_def Let_def)
next
  case (Inr s)
  have "known_active g s"
    by (rule known_active.start_keeps [OF Inr]) (use assms(1) in \<open>simp add: known_active_def thaw_def\<close>)
  moreover have "distinct (ms_active s)"
    by (rule active_distinct.start_keeps [OF Inr]) (simp add: thaw_def)
  moreover have "undelivered s \<le> length sats"
  proof -
    have "dom (map_of (pendingSatisfactions s)) \<subseteq> dom (map_of sats)"
      by (rule pends.start_keeps [OF Inr]) (simp add: thaw_def)
    then have "undelivered s \<le> card (dom (map_of sats))"
      unfolding undelivered_def by (intro card_mono) (auto simp: finite_dom_map_of)
    also have "\<dots> \<le> length sats"
      using card_length [of "map fst sats"] by (simp add: dom_map_of_conv_image_fst)
    finally show ?thesis .
  qed
  ultimately have ok: "tick_ok g (length sats) s" by (simp add: tick_ok_def)
  obtain r where "iterate (tick_round env g (gs_runId st) (tick_limit limit)) fuel s = Some r"
    using tick_loop.enough_fuel [OF ok] measure_below_fuel [OF ok, of limit] assms(2)
    by (meson less_le_trans)
  with Inr show ?thesis by (simp add: tick_def tick_run_def tick_limit_def Let_def)
qed

subsection \<open>The states a run can have\<close>

inductive reachable_run :: "workflow_graph \<Rightarrow> run_graph_state \<Rightarrow> bool" for g where
  start: "reachable_run g (initialRunGraphState runId snapshotId vars)"
| tick: "reachable_run g st \<Longrightarrow> tick fuel env g st sats limit = Some (Inr out) \<Longrightarrow>
    reachable_run g (out_state out)"

lemma tick_elim:
  assumes "tick fuel env g st sats limit = Some (Inr out)"
  obtains s where "tick_run fuel env g st sats limit = Some (Inr s)" "out = tick_result env st s"
proof -
  from assms obtain z where "tick_run fuel env g st sats limit = Some z"
    "map_sum (\<lambda>e. e) (tick_result env st) z = Inr out"
    by (auto simp: tick_def)
  with that show thesis by (cases z) auto
qed

lemma out_state_result:
  "out_state (tick_result env st s) = freeze st s (clock_now env (clock_reads s))"
  by (simp add: tick_result_def Let_def split: option.splits terminal_outcome.splits)

definition run_state_ok :: "workflow_graph \<Rightarrow> run_graph_state \<Rightarrow> bool" where
  "run_state_ok g st \<longleftrightarrow>
     set (waitingNodeIds st) \<subseteq> set (activeNodeIds st) \<and>
     distinct (activeNodeIds st) \<and> distinct (waitingNodeIds st) \<and>
     (\<forall>i \<in> set (activeNodeIds st). node_by_id g i \<noteq> None)"

lemma reachable_run_ok: "reachable_run g st \<Longrightarrow> run_state_ok g st"
proof (induction rule: reachable_run.induct)
  case (start runId snapshotId vars)
  show ?case by (simp add: run_state_ok_def initialRunGraphState_def)
next
  case (tick st fuel env sats limit out)
  from tick.hyps(2) obtain s where s: "tick_run fuel env g st sats limit = Some (Inr s)"
    and out: "out = tick_result env st s" by (rule tick_elim)
  have "waits_active s" "distinct (ms_active s)" "known_active g s"
    by (rule waits_active.run_keeps [OF s] active_distinct.run_keeps [OF s]
        known_active.run_keeps [OF s];
        use tick.IH in \<open>simp add: thaw_def waits_active_def known_active_def run_state_ok_def\<close>)+
  then show ?case
    by (simp add: out out_state_result freeze_def run_state_ok_def waits_active_def known_active_def)
qed

lemma reachable_within_bounds:
  "reachable_run g st \<Longrightarrow> distinct (map tr_id (graph_transitions g)) \<Longrightarrow>
   t \<in> set (graph_transitions g) \<Longrightarrow> loopBound t = Some b \<Longrightarrow>
   (of_nat (count_of (loopCounters st) (tr_id t)) :: rat) < max 0 b + 1"
proof (induction arbitrary: t b rule: reachable_run.induct)
  case (start runId snapshotId vars)
  show ?case by (simp add: initialRunGraphState_def)
next
  case (tick st fuel env sats limit out)
  from tick.hyps(2) obtain s where s: "tick_run fuel env g st sats limit = Some (Inr s)"
    and out: "out = tick_result env st s" by (rule tick_elim)
  have "within_bounds g (thaw env st sats)"
    using tick.IH by (simp add: within_bounds_def firings_def thaw_def)
  from within_bounds.run_keeps [OF s this] tick.prems show ?case
    by (simp add: within_bounds_def firings_def out out_state_result freeze_def)
qed

lemma reachable_joins:
  "reachable_run g st \<Longrightarrow> node_known g n \<Longrightarrow>
   join_respected g (activations st) (loopCounters st) n"
proof (induction arbitrary: n rule: reachable_run.induct)
  case (start runId snapshotId vars)
  show ?case
    by (simp add: initialRunGraphState_def join_respected_def join_activations_def sum_list_nonneg
        split: option.splits join_mode.splits)
next
  case (tick st fuel env sats limit out)
  from tick.hyps(2) obtain s where s: "tick_run fuel env g st sats limit = Some (Inr s)"
    and out: "out = tick_result env st s" by (rule tick_elim)
  have "joins_respected g (thaw env st sats)"
    using tick.IH by (simp add: joins_respected_def thaw_def)
  from joins_respected.run_keeps [OF s this] tick.prems show ?case
    by (simp add: joins_respected_def out out_state_result freeze_def)
qed

subsection \<open>How a tick ends\<close>

text \<open>An \<open>AbortSignal\<close> that has been aborted stays aborted.\<close>

definition abort_monotone :: "tick_env \<Rightarrow> bool" where
  "abort_monotone env \<longleftrightarrow> (\<forall>k. aborted env k \<longrightarrow> aborted env (k + 1))"

lemma loop_exit:
  assumes "iterate (tick_round env g runId limit) fuel s = Some (Inr s')"
  shows "\<exists>k. polls s' = k + 1 \<and> (aborted env k \<or> terminal s' \<noteq> None \<or> fatalError s' \<noteq> None \<or>
    runnable_nodes s' = [])"
proof -
  have "\<forall>s'. r = Inr s' \<longrightarrow> (\<exists>k. polls s' = k + 1 \<and>
      (aborted env k \<or> terminal s' \<noteq> None \<or> fatalError s' \<noteq> None \<or> runnable_nodes s' = []))"
    if "iterate (tick_round env g runId limit) fuel s = Some r" for r
  proof (rule iterate_invariant [OF that, where I = "\<lambda>_. True"])
    fix s r
    assume "tick_round env g runId limit s = Inr r"
    then show "\<forall>s'. r = Inr s' \<longrightarrow> (\<exists>k. polls s' = k + 1 \<and>
        (aborted env k \<or> terminal s' \<noteq> None \<or> fatalError s' \<noteq> None \<or> runnable_nodes s' = []))"
      by (cases rule: tick_round_InrE) (simp_all add: poll_def runnable_nodes_def)
  qed simp_all
  from this [OF assms] show ?thesis by simp
qed

lemma tick_exit:
  assumes "tick_run fuel env g st sats limit = Some (Inr s)"
  shows "\<exists>k. polls s = k + 1 \<and> (aborted env k \<or> terminal s \<noteq> None \<or> fatalError s \<noteq> None \<or>
    runnable_nodes s = [])"
proof (cases "tick_start env g st sats")
  case (Inr s0)
  with assms have "iterate (tick_round env g (gs_runId st) (case limit of None \<Rightarrow> 1000 | Some m \<Rightarrow> m))
      fuel s0 = Some (Inr s)"
    by (simp add: tick_run_def Let_def)
  then show ?thesis by (rule loop_exit)
qed (use assms in \<open>simp add: tick_run_def Let_def\<close>)

lemma no_runnable:
  "runnable_nodes s = [] \<longleftrightarrow> set (ms_active s) \<subseteq> set (ms_waiting s) \<and>
     (\<forall>i \<in> set (ms_active s). map_of (pendingSatisfactions s) i = None)"
  unfolding runnable_nodes_def set_empty [symmetric] set_sort set_filter by auto

subsection \<open>A run whose tick is computed\<close>

definition retry_env :: tick_env where
  "retry_env = \<lparr>
     has_executor = (\<lambda>k. k \<noteq> KExperiment),
     execute = (\<lambda>k n ctx. if k < 2 then Inr (YResult Failed_status None (Some ''boom''))
                         else Inr (YResult Succeeded None None)),
     clock_now = int, aborted = (\<lambda>_. False), first_oid = 0\<rparr>"

definition retry_start :: run_graph_state where
  "retry_start = initialRunGraphState ''run-1'' ''snap-1'' []"

definition retry_outcome :: tick_outcome where
  "retry_outcome = projr (the (tick 12 retry_env retry_graph retry_start [] None))"

lemma retry_runs: "tick 12 retry_env retry_graph retry_start [] None = Some (Inr retry_outcome) \<and>
  out_status retry_outcome = StCompleted"
proof -
  have "case tick 12 retry_env retry_graph retry_start [] None of
      Some (Inr out) \<Rightarrow> out_status out = StCompleted | _ \<Rightarrow> False"
    by code_simp
  then show ?thesis by (simp add: retry_outcome_def split: option.splits sum.splits)
qed

lemmas retry_tick = retry_runs [THEN conjunct1]

lemma retry_reachable: "reachable_run retry_graph (out_state retry_outcome)"
  using reachable_run.tick [OF reachable_run.start retry_tick [unfolded retry_start_def]] .

subsection \<open>Properties\<close>

text \<open>
  C1. A tick always ends: from every state a run can have, with the fuel \<open>tick_fuel\<close>, the loop
  is left and the tick returns an outcome or throws, whatever the executors, the clock and the
  abort signal answer.
\<close>

theorem tick_terminates:
  assumes "reachable_run g st"
  shows "\<exists>r. tick (tick_fuel g sats limit) env g st sats limit = Some r"
  using tick_enough reachable_run_ok [OF assms] by (auto simp: run_state_ok_def)

theorem tick_terminates_witness:
  "\<exists>r. tick (tick_fuel retry_graph [] None) retry_env retry_graph (out_state retry_outcome) [] None = Some r"
  by (rule tick_terminates [OF retry_reachable])

text \<open>
  C6. In every state a run can have, the waiting nodes are active, no id is listed twice, and
  every active node exists in the graph.
\<close>

theorem run_states_consistent:
  assumes "reachable_run g st"
  shows "set (waitingNodeIds st) \<subseteq> set (activeNodeIds st) \<and>
    distinct (activeNodeIds st) \<and> distinct (waitingNodeIds st) \<and>
    (\<forall>i \<in> set (activeNodeIds st). node_by_id g i \<noteq> None)"
  using reachable_run_ok [OF assms] by (simp add: run_state_ok_def)

theorem run_states_consistent_witness:
  "set (waitingNodeIds (out_state retry_outcome)) \<subseteq> set (activeNodeIds (out_state retry_outcome))"
  using run_states_consistent [OF retry_reachable] by simp

text \<open>
  C2. The bounded-cycle rule holds at run time: in every state a run can have, however many
  ticks it took, a transition with a loop bound has fired at most the bound (rounded up) times.
\<close>

theorem loop_bound_respected:
  assumes "reachable_run g st" and "validateGraph g = []" and "t \<in> set (graph_transitions g)"
    and "loopBound t = Some b"
  shows "(of_nat (count_of (loopCounters st) (tr_id t)) :: rat) < b + 1"
proof -
  have ok: "referentially_ok g"
    using assms(2) by (simp add: validateGraph_empty well_formed_def)
  then have "1 \<le> b" "distinct (map tr_id (graph_transitions g))"
    using assms(3,4) by (auto simp: referentially_ok_def)
  with reachable_within_bounds [OF assms(1) _ assms(3,4)] show ?thesis by simp
qed

theorem loop_bound_respected_witness:
  "(of_nat (count_of (loopCounters (out_state retry_outcome)) ''again'') :: rat) < 2 + 1"
  using loop_bound_respected [OF retry_reachable retry_graph_valid,
      of "hd (graph_transitions retry_graph)" 2]
  by (simp add: retry_graph_def)

text \<open>
  C3. Joins count correctly across ticks: in every state a run can have, a node without a join
  has been activated at most once per firing of its incoming transitions (its initial
  activation as the entry apart), an \<open>any\<close> join at most as often as one of them, and an \<open>all\<close>
  or \<open>min\<close> join at most once and only after all, respectively \<open>n\<close>, of them have fired.
\<close>

theorem joins_count_correctly:
  assumes "reachable_run g st" and "node_known g n"
  shows "join_respected g (activations st) (loopCounters st) n"
  by (rule reachable_joins [OF assms])

theorem joins_count_correctly_witness:
  "join_respected retry_graph (activations (out_state retry_outcome))
     (loopCounters (out_state retry_outcome)) (hd (graph_nodes retry_graph))"
  by (rule joins_count_correctly [OF retry_reachable])
    (simp add: node_known_def node_by_id_def retry_graph_def)

text \<open>
  C5. A tick leaves its loop for a reason: from a consistent state and with an abort signal
  that stays aborted, the outcome is never the engine's internal inconsistency, and when it is
  \<open>waiting\<close> then at least one node is active and every active node waits.
\<close>

theorem waiting_means_all_wait:
  assumes "tick fuel env g st sats limit = Some (Inr out)" and "run_state_ok g st"
    and "abort_monotone env"
  shows "out_error out \<noteq> Some EngineInconsistency \<and>
    (out_status out = StWaiting \<longrightarrow> activeNodeIds (out_state out) \<noteq> [] \<and>
       set (activeNodeIds (out_state out)) = set (waitingNodeIds (out_state out)))"
proof -
  from assms(1) obtain s where s: "tick_run fuel env g st sats limit = Some (Inr s)"
    and out: "out = tick_result env st s" by (rule tick_elim)
  have w: "waits_active s"
    by (rule waits_active.run_keeps [OF s])
      (use assms(2) in \<open>simp add: thaw_def waits_active_def run_state_ok_def\<close>)
  from tick_exit [OF s] obtain k where k: "polls s = k + 1"
    and exit: "aborted env k \<or> terminal s \<noteq> None \<or> fatalError s \<noteq> None \<or> runnable_nodes s = []"
    by blast
  consider "aborted env (polls s)" | "terminal s \<noteq> None" | "fatalError s \<noteq> None"
    | "set (ms_active s) = set (ms_waiting s)"
    using exit k assms(3) w no_runnable [of s] by (auto simp: abort_monotone_def waits_active_def)
  moreover have "fatalError s \<noteq> Some EngineInconsistency"
    by (rule no_inconsistency.run_keeps [OF s]) (simp add: thaw_def)
  ultimately show ?thesis
    unfolding out tick_result_def Let_def
    by cases (auto simp: freeze_def split: option.splits terminal_outcome.splits)
qed

theorem waiting_means_all_wait_witness:
  "out_error retry_outcome \<noteq> Some EngineInconsistency"
  using waiting_means_all_wait [OF retry_tick]
  by (simp add: run_state_ok_def retry_start_def initialRunGraphState_def abort_monotone_def
      retry_env_def)

text \<open>
  The history is append-only, and a run completes only through a terminal node: a tick
  extends the result history, and when its status is \<open>completed\<close> one of the added results is
  that of a node of the graph whose configuration is a terminal with outcome \<open>completed\<close>.
\<close>

theorem completed_by_terminal:
  assumes "tick fuel env g st sats limit = Some (Inr out)"
  shows "\<exists>rs. resultHistory (out_state out) = resultHistory st @ rs \<and>
    (out_status out = StCompleted \<longrightarrow>
       (\<exists>n \<in> set (graph_nodes g). node_config n = TerminalNode OutCompleted \<and>
          (\<exists>r \<in> set rs. res_nodeId r = node_id n)))"
proof -
  from assms obtain s where s: "tick_run fuel env g st sats limit = Some (Inr s)"
    and out: "out = tick_result env st s" by (rule tick_elim)
  have "grows_from g (resultHistory st) s"
    by (rule grows.run_keeps [OF s]) (simp add: thaw_def grows_from_def)
  then obtain rs where rs: "ms_history s = resultHistory st @ rs"
    and ended: "terminal s = Some x \<Longrightarrow> \<exists>n r. node_known g n \<and> node_config n = TerminalNode x \<and>
      r \<in> set rs \<and> res_nodeId r = node_id n" for x
    by (auto simp: grows_from_def)
  have "terminal s = Some OutCompleted" if "out_status out = StCompleted"
    using that unfolding out tick_result_def Let_def
    by (auto split: option.splits terminal_outcome.splits if_splits)
  then have "out_status out = StCompleted \<longrightarrow>
      (\<exists>n \<in> set (graph_nodes g). node_config n = TerminalNode OutCompleted \<and>
         (\<exists>r \<in> set rs. res_nodeId r = node_id n))"
    using ended [of OutCompleted] node_known_in by blast
  moreover have "resultHistory (out_state out) = resultHistory st @ rs"
    using rs by (simp add: out out_state_result freeze_def)
  ultimately show ?thesis by blast
qed

theorem completed_by_terminal_witness:
  "\<exists>rs. resultHistory (out_state retry_outcome) = resultHistory retry_start @ rs \<and>
    (\<exists>n \<in> set (graph_nodes retry_graph). node_config n = TerminalNode OutCompleted \<and>
       (\<exists>r \<in> set rs. res_nodeId r = node_id n))"
  using completed_by_terminal [OF retry_tick] retry_runs [THEN conjunct2] by blast

text \<open>
  C7. Satisfactions are delivered exactly as the tick was given them and at most once: over a
  whole tick the executors of a node are called with no satisfaction, or once with the one the
  tick's input holds for that node.
\<close>

theorem satisfaction_delivered_once:
  assumes "tick_run fuel env g st sats limit = Some (Inr s)"
  shows "deliveries (calls s) i = [] \<or>
    (\<exists>w. deliveries (calls s) i = [w] \<and> map_of sats i = Some w)"
proof -
  have "delivered_once sats s"
    by (rule delivered_once.run_keeps [OF assms]) (simp add: thaw_def delivered_once_def)
  then show ?thesis by (auto simp: delivered_once_def)
qed

definition woken_env :: tick_env where
  "woken_env = retry_env\<lparr>execute := (\<lambda>k n ctx. Inr (YResult Succeeded None None))\<rparr>"

definition woken_start :: run_graph_state where
  "woken_start = retry_start\<lparr>activeNodeIds := [''work''], waitingNodeIds := [''work''],
     activations := [(''work'', 1)]\<rparr>"

definition woken_satisfaction :: wait_satisfaction where
  "woken_satisfaction = \<lparr>sat_kind = WTime, sat_at = 5, sat_input = None, sat_event = None\<rparr>"

definition woken_final :: tick_state where
  "woken_final = projr (the (tick_run 4 woken_env retry_graph woken_start
     [(''work'', woken_satisfaction)] None))"

lemma woken_run:
  "tick_run 4 woken_env retry_graph woken_start [(''work'', woken_satisfaction)] None =
     Some (Inr woken_final)"
proof -
  have "case tick_run 4 woken_env retry_graph woken_start [(''work'', woken_satisfaction)] None of
      Some (Inr s) \<Rightarrow> True | _ \<Rightarrow> False"
    by code_simp
  then show ?thesis by (simp add: woken_final_def split: option.splits sum.splits)
qed

theorem satisfaction_delivered_once_witness:
  "deliveries (calls woken_final) ''work'' = [] \<or>
   deliveries (calls woken_final) ''work'' = [woken_satisfaction]"
  using satisfaction_delivered_once [OF woken_run, of "''work''"] by simp

text \<open>
  No wait is lost: each node that waits when a tick ends, and did not already wait when it
  began, has its wait among the tick's new waits, which name every node at most once.
\<close>

theorem new_waits_reported:
  assumes "tick fuel env g st sats limit = Some (Inr out)"
  shows "set (waitingNodeIds (out_state out)) \<subseteq>
      set (waitingNodeIds st) \<union> pw_nodeId ` set (out_newWaits out) \<and>
    distinct (map pw_nodeId (out_newWaits out))"
proof -
  from assms obtain s where s: "tick_run fuel env g st sats limit = Some (Inr s)"
    and out: "out = tick_result env st s" by (rule tick_elim)
  have "waits_reported (set (waitingNodeIds st)) s"
    by (rule waits_reported.run_keeps [OF s]) (simp add: thaw_def waits_reported_def)
  moreover have "out_newWaits out = newWaits s"
    by (simp add: out tick_result_def Let_def split: option.splits terminal_outcome.splits)
  ultimately show ?thesis
    by (simp add: waits_reported_def out out_state_result freeze_def)
qed

theorem new_waits_reported_witness:
  "distinct (map pw_nodeId (out_newWaits retry_outcome))"
  using new_waits_reported [OF retry_tick] by simp

text \<open>
  An active node the graph does not have makes the tick loop forever: its execution is
  skipped without settling it, so not even the settlement backstop is reached and no amount of
  fuel leads out of the loop.
\<close>

theorem unknown_active_node_diverges:
  assumes "activeNodeIds st = [i]" and "waitingNodeIds st = []" and "node_by_id g i = None"
    and "\<And>k. \<not> aborted env k" and "0 < tick_limit limit"
  shows "tick fuel env g st sats limit = None"
proof -
  let ?I = "\<lambda>s. ms_active s = [i] \<and> ms_waiting s = [] \<and> terminal s = None \<and> fatalError s = None \<and>
    settlements s = 0"
  have step: "\<exists>s'. tick_round env g runId (tick_limit limit) s = Inl s' \<and> ?I s'" if "?I s" for s runId
  proof -
    have "runnable_nodes (poll s) = [i]" using that by (simp add: runnable_nodes_def poll_def)
    then show ?thesis
      using that assms(3-5)
      by (simp add: tick_round_def poll_def execute_node_def read_clock_def process_execution_def)
  qed
  have "tick_start env g st sats = Inr (thaw env st sats)"
    using assms(1) by (simp add: tick_start_def thaw_def Let_def)
  moreover have "iterate (tick_round env g (gs_runId st) (tick_limit limit)) fuel (thaw env st sats) = None"
    by (rule iterate_diverges [where I = ?I])
      (use assms(1,2) step in \<open>auto simp: thaw_def\<close>)
  ultimately show ?thesis
    by (simp add: tick_def tick_run_def tick_limit_def Let_def)
qed

theorem unknown_active_node_diverges_witness:
  "tick 500 retry_env retry_graph (woken_start\<lparr>activeNodeIds := [''gone''], waitingNodeIds := []\<rparr>)
     [] None = None"
  by (rule unknown_active_node_diverges [where i = "''gone''"])
    (simp_all add: woken_start_def node_by_id_def retry_graph_def retry_env_def tick_limit_def)

end
