(* ===== verification/Definitions.thy ===== *)
theory Definitions
  imports Prelude
begin

section \<open>Versioned definitions\<close>

text \<open>
  \<open>packages/core/src/definitions.ts\<close> and \<open>InMemoryDefinitionStore\<close> of
  \<open>packages/persistence/src/in-memory-persistence-provider.ts\<close>: content-addressed versions, the
  lifecycle table and the pinned snapshots. The SHA-256 of the canonicalized document is a
  parameter, \<open>contentHashOf\<close>; the key sorting that canonicalizes is \<open>sortValue\<close>.
\<close>

datatype definition_kind =
  DkWorkflow | DkGateSet | DkRubric | DkAgentProfile | DkExperiment | DkTemplate
| DkMappingRuleSet | DkLane | DkSchedule

datatype definition_lifecycle = LcDraft | LcEnabled | LcDisabled

record definition_version =
  dv_kind :: definition_kind
  dv_name :: string
  dv_version :: nat
  dv_contentHash :: string
  dv_document :: fields
  dv_createdAt :: time

record definition_status =
  ds_kind :: definition_kind
  ds_name :: string
  ds_lifecycle :: definition_lifecycle
  ds_latestVersion :: nat

record resolved_snapshot =
  snap_id :: string
  snap_root_name :: string
  snap_root_version :: nat
  snap_definitions :: "definition_version list"
  snap_createdAt :: time

definition kind_text :: "definition_kind \<Rightarrow> string" where
  "kind_text k = (case k of
     DkWorkflow \<Rightarrow> ''workflow'' | DkGateSet \<Rightarrow> ''gate-set'' | DkRubric \<Rightarrow> ''rubric''
   | DkAgentProfile \<Rightarrow> ''agent-profile'' | DkExperiment \<Rightarrow> ''experiment''
   | DkTemplate \<Rightarrow> ''template'' | DkMappingRuleSet \<Rightarrow> ''mapping-rule-set'' | DkLane \<Rightarrow> ''lane''
   | DkSchedule \<Rightarrow> ''schedule'')"

definition snapshotKey :: "definition_kind \<Rightarrow> string \<Rightarrow> nat \<Rightarrow> string" where
  "snapshotKey kind name version = kind_text kind @ '':'' @ name @ ''@'' @ show_nat version"

definition findInSnapshot ::
  "resolved_snapshot \<Rightarrow> definition_kind \<Rightarrow> string \<Rightarrow> nat option \<Rightarrow> definition_version option" where
  "findInSnapshot snapshot kind name version =
     (case version of
        Some v \<Rightarrow> List.find (\<lambda>d. dv_kind d = kind \<and> dv_name d = name \<and> dv_version d = v)
                     (snap_definitions snapshot)
      | None \<Rightarrow> List.find (\<lambda>d. dv_kind d = kind \<and> dv_name d = name) (snap_definitions snapshot))"

subsection \<open>Canonical documents\<close>

text \<open>
  \<open>sortValue\<close>: the keys of every object in ascending order (integer-like keys, which a
  JavaScript object lists first, are not told apart).
\<close>

fun insert_key :: "string \<times> jsval \<Rightarrow> fields \<Rightarrow> fields" where
  "insert_key kv [] = [kv]"
| "insert_key kv (e # es) = (if fst kv \<le> fst e then kv # e # es else e # insert_key kv es)"

definition sort_keys :: "fields \<Rightarrow> fields" where
  "sort_keys fs = foldr insert_key fs []"

fun sortValue :: "jsval \<Rightarrow> jsval" where
  "sortValue (JArr i vs) = JArr i (map sortValue vs)"
| "sortValue (JObj i fs) = JObj i (sort_keys (map (\<lambda>(k, v). (k, sortValue v)) fs))"
| "sortValue v = v"

lemma set_insert_key [simp]: "set (insert_key kv es) = insert kv (set es)"
  by (induction es) auto

lemma set_sort_keys [simp]: "set (sort_keys fs) = set fs"
  by (induction fs) (auto simp: sort_keys_def)

lemma sorted_insert_key:
  "sorted (map fst es) \<Longrightarrow> sorted (map fst (insert_key kv es))"
  by (induction es) (auto simp: not_le)

lemma sorted_sort_keys: "sorted (map fst (sort_keys fs))"
  by (induction fs) (auto simp: sort_keys_def sorted_insert_key)

lemma insert_key_sorted:
  "sorted (map fst (kv # es)) \<Longrightarrow> insert_key kv es = kv # es"
  by (cases es) auto

lemma sort_keys_sorted: "sorted (map fst fs) \<Longrightarrow> sort_keys fs = fs"
proof (induction fs)
  case (Cons kv fs)
  then have "sort_keys fs = fs" by simp
  then show ?case using insert_key_sorted [OF Cons.prems] by (simp add: sort_keys_def)
qed (simp add: sort_keys_def)

lemma insert_key_map:
  "map (\<lambda>(k, v). (k, f v)) (insert_key kv es) =
     insert_key (case kv of (k, v) \<Rightarrow> (k, f v)) (map (\<lambda>(k, v). (k, f v)) es)"
  by (induction es) (auto split: prod.splits)

lemma sort_keys_map:
  "map (\<lambda>(k, v). (k, f v)) (sort_keys fs) = sort_keys (map (\<lambda>(k, v). (k, f v)) fs)"
  by (induction fs) (auto simp: sort_keys_def insert_key_map)

lemma sort_keys_idem [simp]: "sort_keys (sort_keys fs) = sort_keys fs"
  by (rule sort_keys_sorted) (rule sorted_sort_keys)

lemma sortValue_idem: "sortValue (sortValue v) = sortValue v"
proof (induction v rule: sortValue.induct)
  case (2 i fs)
  have "map (\<lambda>(k, v). (k, sortValue v)) (map (\<lambda>(k, v). (k, sortValue v)) fs) =
      map (\<lambda>(k, v). (k, sortValue v)) fs"
    using 2 by (auto split: prod.splits)
  then show ?case by (simp add: sort_keys_map del: map_map)
qed (auto split: prod.splits)

text \<open>Two listings of the same fields canonicalize to the same document.\<close>

lemma sorted_fields_unique:
  "sorted (map fst fs) \<Longrightarrow> sorted (map fst gs) \<Longrightarrow> distinct (map fst fs) \<Longrightarrow> distinct (map fst gs) \<Longrightarrow>
   set fs = set gs \<Longrightarrow> fs = gs"
  by (rule map_sorted_distinct_set_unique [of fst]) (auto simp: distinct_map inj_on_def)

lemma distinct_insert_key:
  "distinct (map fst (insert_key kv es)) \<longleftrightarrow> fst kv \<notin> fst ` set es \<and> distinct (map fst es)"
  by (induction es) auto

lemma distinct_sort_keys [simp]: "distinct (map fst (sort_keys fs)) \<longleftrightarrow> distinct (map fst fs)"
proof (induction fs)
  case (Cons kv fs)
  have "sort_keys (kv # fs) = insert_key kv (sort_keys fs)" by (simp add: sort_keys_def)
  with Cons show ?case by (simp add: distinct_insert_key)
qed (simp add: sort_keys_def)

lemma sortValue_order_irrelevant:
  assumes "set fs = set gs" and "distinct (map fst fs)" and "distinct (map fst gs)"
  shows "sortValue (JObj i fs) = sortValue (JObj i gs)"
proof -
  let ?h = "map (\<lambda>(k, v). (k, sortValue v))"
  have keys: "map fst (?h xs) = map fst xs" for xs :: fields
    by (induction xs) auto
  have "sort_keys (?h fs) = sort_keys (?h gs)"
    by (rule sorted_fields_unique) (use assms in \<open>simp_all add: sorted_sort_keys keys del: map_map\<close>)
  then show ?thesis by simp
qed

subsection \<open>The store\<close>

text \<open>\<open>InMemoryDefinitionStore\<close>: the versions of each \<open>(kind, name)\<close> oldest first.\<close>

type_synonym definition_key = "definition_kind \<times> string"

record definition_store =
  st_versions :: "(definition_key \<times> definition_version list) list"
  st_lifecycles :: "(definition_key \<times> definition_lifecycle) list"
  st_snapshots :: "(string \<times> resolved_snapshot) list"

definition empty_definitions :: definition_store where
  "empty_definitions = \<lparr>st_versions = [], st_lifecycles = [], st_snapshots = []\<rparr>"

definition versions_of :: "definition_store \<Rightarrow> definition_kind \<Rightarrow> string \<Rightarrow> definition_version list" where
  "versions_of st kind name =
     (case map_of (st_versions st) (kind, name) of None \<Rightarrow> [] | Some vs \<Rightarrow> vs)"

definition save_definition ::
  "(fields \<Rightarrow> string) \<Rightarrow> time \<Rightarrow> definition_kind \<Rightarrow> string \<Rightarrow> fields \<Rightarrow> definition_store \<Rightarrow>
   definition_version \<times> definition_store" where
  "save_definition contentHashOf now kind name document st =
     (let hash = contentHashOf document; existing = versions_of st kind name in
      if existing \<noteq> [] \<and> dv_contentHash (last existing) = hash then (last existing, st)
      else
        (let v = \<lparr>dv_kind = kind, dv_name = name,
                  dv_version = (if existing = [] then 0 else dv_version (last existing)) + 1,
                  dv_contentHash = hash, dv_document = document, dv_createdAt = now\<rparr> in
         (v, st\<lparr>st_versions := AList.update (kind, name) (existing @ [v]) (st_versions st)\<rparr>)))"

definition get_definition ::
  "definition_kind \<Rightarrow> string \<Rightarrow> nat option \<Rightarrow> definition_store \<Rightarrow> definition_version option" where
  "get_definition kind name version st =
     (let vs = versions_of st kind name in
      case version of
        Some n \<Rightarrow> List.find (\<lambda>d. dv_version d = n) vs
      | None \<Rightarrow> if vs = [] then None else Some (last vs))"

definition getLifecycle :: "definition_kind \<Rightarrow> string \<Rightarrow> definition_store \<Rightarrow> definition_lifecycle" where
  "getLifecycle kind name st =
     (case map_of (st_lifecycles st) (kind, name) of None \<Rightarrow> LcDraft | Some l \<Rightarrow> l)"

definition setLifecycle ::
  "definition_kind \<Rightarrow> string \<Rightarrow> definition_lifecycle \<Rightarrow> definition_store \<Rightarrow> definition_store" where
  "setLifecycle kind name l st =
     st\<lparr>st_lifecycles := AList.update (kind, name) l (st_lifecycles st)\<rparr>"

text \<open>\<open>list\<close>; \<open>localeCompare\<close> is taken to order names by their code units.\<close>

definition status_of :: "definition_kind \<Rightarrow> definition_store \<Rightarrow> definition_version list \<Rightarrow>
    definition_status list" where
  "status_of kind st vs =
     (if vs = [] \<or> dv_kind (last vs) \<noteq> kind then []
      else [\<lparr>ds_kind = kind, ds_name = dv_name (last vs),
             ds_lifecycle = getLifecycle kind (dv_name (last vs)) st,
             ds_latestVersion = dv_version (last vs)\<rparr>])"

definition list_definitions :: "definition_kind \<Rightarrow> definition_store \<Rightarrow> definition_status list" where
  "list_definitions kind st =
     sort_key ds_name (concat (map (status_of kind st \<circ> snd) (st_versions st)))"

definition saveSnapshot :: "resolved_snapshot \<Rightarrow> definition_store \<Rightarrow> definition_store" where
  "saveSnapshot snap st = st\<lparr>st_snapshots := AList.update (snap_id snap) snap (st_snapshots st)\<rparr>"

definition getSnapshot :: "string \<Rightarrow> definition_store \<Rightarrow> resolved_snapshot option" where
  "getSnapshot i st = map_of (st_snapshots st) i"

subsection \<open>Versions are dense, immutable and content-addressed\<close>

definition dense :: "definition_version list \<Rightarrow> bool" where
  "dense vs \<longleftrightarrow> map dv_version vs = map Suc [0..<length vs]"

lemma dense_Nil [simp]: "dense []"
  by (simp add: dense_def)

lemma dense_append: "dense vs \<Longrightarrow> dv_version v = Suc (length vs) \<Longrightarrow> dense (vs @ [v])"
  by (simp add: dense_def)

lemma dense_last: "dense vs \<Longrightarrow> vs \<noteq> [] \<Longrightarrow> dv_version (last vs) = length vs"
  unfolding dense_def by (metis One_nat_def Suc_pred last_map last_upt length_greater_0_conv
      list.map_disc_iff upt_eq_Nil_conv not_less0 less_eq_nat.simps(1))

definition versions_ok :: "definition_store \<Rightarrow> bool" where
  "versions_ok st \<longleftrightarrow> (\<forall>kind name. dense (versions_of st kind name) \<and>
     (\<forall>d \<in> set (versions_of st kind name). dv_kind d = kind \<and> dv_name d = name))"

lemma versions_of_update [simp]:
  "versions_of (st\<lparr>st_versions := AList.update (k, n) vs (st_versions st)\<rparr>) k' n' =
     (if k' = k \<and> n' = n then vs else versions_of st k' n')"
  by (simp add: versions_of_def update_conv')

text \<open>What a save stores: nothing, or one version on top of the others.\<close>

lemma save_definition_cases:
  assumes "versions_ok st"
  obtains (same) "versions_of st kind name \<noteq> []"
      "dv_contentHash (last (versions_of st kind name)) = h doc"
      "save_definition h now kind name doc st = (last (versions_of st kind name), st)"
  | (new) v where "dv_version v = Suc (length (versions_of st kind name))" "dv_kind v = kind"
      "dv_name v = name" "dv_document v = doc" "dv_contentHash v = h doc"
      "save_definition h now kind name doc st =
        (v, st\<lparr>st_versions := AList.update (kind, name) (versions_of st kind name @ [v]) (st_versions st)\<rparr>)"
proof (cases "versions_of st kind name \<noteq> [] \<and> dv_contentHash (last (versions_of st kind name)) = h doc")
  case True
  then show thesis by (intro same) (simp_all add: save_definition_def Let_def)
next
  case False
  have "(if versions_of st kind name = [] then 0 else dv_version (last (versions_of st kind name))) =
      length (versions_of st kind name)"
    using assms dense_last by (simp add: versions_ok_def)
  with False show thesis
    by (intro new [of "fst (save_definition h now kind name doc st)"])
      (auto simp: save_definition_def Let_def)
qed

lemma save_keeps_ok:
  assumes "versions_ok st"
  shows "versions_ok (snd (save_definition h now kind name doc st))"
  by (rule save_definition_cases [OF assms, of kind name h doc now])
    (use assms dense_append in \<open>auto simp: versions_ok_def\<close>)

lemma save_extends:
  assumes "versions_ok st"
  shows "\<exists>new. versions_of (snd (save_definition h now kind name doc st)) k n =
    versions_of st k n @ new"
  by (rule save_definition_cases [OF assms, of kind name h doc now]) auto

lemma find_version:
  assumes "dense vs" and "v \<in> set vs"
  shows "List.find (\<lambda>d. dv_version d = dv_version v) vs = Some v"
proof -
  have "distinct (map dv_version vs)"
    using assms(1) by (simp add: dense_def distinct_map)
  with assms(2) show ?thesis
    by (induction vs) (auto simp: image_iff)
qed

text \<open>A document stored under a version is what that version reads back, whatever is saved later.\<close>

inductive saved_later :: "definition_store \<Rightarrow> definition_store \<Rightarrow> bool" where
  now: "saved_later st st"
| save: "saved_later st st' \<Longrightarrow> saved_later st (snd (save_definition h t kind name doc st'))"
| lifecycle: "saved_later st st' \<Longrightarrow> saved_later st (setLifecycle kind name l st')"
| snapshot: "saved_later st st' \<Longrightarrow> saved_later st (saveSnapshot snap st')"

lemma versions_of_other [simp]:
  "versions_of (setLifecycle kind name l st) = versions_of st"
  "versions_of (saveSnapshot snap st) = versions_of st"
  by (simp_all add: fun_eq_iff versions_of_def setLifecycle_def saveSnapshot_def)

lemma versions_ok_other [simp]:
  "versions_ok (setLifecycle kind name l st) = versions_ok st"
  "versions_ok (saveSnapshot snap st) = versions_ok st"
  by (simp_all add: versions_ok_def)

lemma saved_version:
  assumes "versions_ok st" and "save_definition h now kind name doc st = (v, st1)"
  shows "v \<in> set (versions_of st1 kind name) \<and> dv_contentHash v = h doc"
  by (rule save_definition_cases [OF assms(1), of kind name h doc now]) (use assms(2) in auto)

lemma saved_later_extends:
  "saved_later st st' \<Longrightarrow> versions_ok st \<Longrightarrow>
   versions_ok st' \<and> (\<forall>k n. \<exists>new. versions_of st' k n = versions_of st k n @ new)"
proof (induction rule: saved_later.induct)
  case (save st st' h t kind name doc)
  then show ?case using save_keeps_ok save_extends by (metis append_assoc)
qed simp_all

lemma get_stored:
  "versions_ok st \<Longrightarrow> v \<in> set (versions_of st kind name) \<Longrightarrow>
   get_definition kind name (Some (dv_version v)) st = Some v"
  by (simp add: get_definition_def Let_def versions_ok_def find_version)

text \<open>
  Versions are immutable: the version a save returns carries the saved document's hash and
  is what \<open>get\<close> answers for its number, at once and after any later saves, lifecycle changes
  and snapshots.
\<close>

theorem saved_version_immutable:
  assumes "versions_ok st" and "save_definition h now kind name doc st = (v, st1)"
    and "saved_later st1 st2"
  shows "get_definition kind name (Some (dv_version v)) st2 = Some v \<and> dv_contentHash v = h doc"
proof -
  have ok: "versions_ok st1"
    using save_keeps_ok [OF assms(1), of h now kind name doc] assms(2) by simp
  have v: "v \<in> set (versions_of st1 kind name)" "dv_contentHash v = h doc"
    using saved_version [OF assms(1,2)] by simp_all
  from saved_later_extends [OF assms(3) ok] obtain new
    where "versions_ok st2" "versions_of st2 kind name = versions_of st1 kind name @ new" by blast
  with v show ?thesis by (simp add: get_stored)
qed

theorem saved_version_immutable_witness:
  "get_definition DkLane ''main'' (Some 1)
     (snd (save_definition (\<lambda>d. ''h2'') 2 DkLane ''main'' [(''a'', JNull)]
       (snd (save_definition (\<lambda>d. ''h1'') 1 DkLane ''main'' [] empty_definitions)))) =
   Some \<lparr>dv_kind = DkLane, dv_name = ''main'', dv_version = 1, dv_contentHash = ''h1'',
         dv_document = [], dv_createdAt = 1\<rparr>"
proof -
  let ?v = "\<lparr>dv_kind = DkLane, dv_name = ''main'', dv_version = 1, dv_contentHash = ''h1'',
         dv_document = [], dv_createdAt = 1\<rparr>"
  have "versions_ok empty_definitions" by (simp add: versions_ok_def versions_of_def empty_definitions_def)
  moreover have "save_definition (\<lambda>d. ''h1'') 1 DkLane ''main'' [] empty_definitions =
      (?v, snd (save_definition (\<lambda>d. ''h1'') 1 DkLane ''main'' [] empty_definitions))"
    by (simp add: save_definition_def versions_of_def empty_definitions_def Let_def)
  ultimately show ?thesis
    using saved_version_immutable saved_later.save [OF saved_later.now] by fastforce
qed

end
