(* ===== verification/Budget.thy ===== *)
theory Budget
  imports Prelude
begin

section \<open>Budgets and usage accounting\<close>

text \<open>
  \<open>packages/core/src/budget.ts\<close>: usage records, budget limits and the tracker that accumulates
  consumption and reports the dimensions that are exhausted or close to it. Amounts are exact
  rationals.
\<close>

record token_usage =
  inputTokens :: rat
  outputTokens :: rat
  cacheReadTokens :: "rat option"
  cacheWriteTokens :: "rat option"

definition or_zero :: "rat option \<Rightarrow> rat" where
  "or_zero x = (case x of None \<Rightarrow> 0 | Some v \<Rightarrow> v)"

lemma or_zero_simps [simp]: "or_zero None = 0" "or_zero (Some v) = v"
  by (simp_all add: or_zero_def)

definition emptyTokenUsage :: token_usage where
  "emptyTokenUsage = \<lparr>inputTokens = 0, outputTokens = 0, cacheReadTokens = None,
     cacheWriteTokens = None\<rparr>"

definition addTokenUsage :: "token_usage \<Rightarrow> token_usage \<Rightarrow> token_usage" where
  "addTokenUsage a b = \<lparr>
     inputTokens = inputTokens a + inputTokens b,
     outputTokens = outputTokens a + outputTokens b,
     cacheReadTokens = Some (or_zero (cacheReadTokens a) + or_zero (cacheReadTokens b)),
     cacheWriteTokens = Some (or_zero (cacheWriteTokens a) + or_zero (cacheWriteTokens b))\<rparr>"

record usage_record =
  us_provider :: string
  us_model :: "string option"
  us_tokens :: token_usage
  us_estimatedCostUsd :: "rat option"
  us_subscriptionRequests :: "rat option"
  us_durationMs :: int
  us_turns :: nat
  us_subagents :: nat

record budget_limits =
  maxConcurrentAgents :: "rat option"
  maxSubagentsPerRun :: "rat option"
  maxIterations :: "rat option"
  maxWallClockMs :: "rat option"
  maxTokens :: "rat option"
  maxEstimatedCostUsd :: "rat option"
  maxSubscriptionRequests :: "rat option"
  bl_providerQuotas :: "rat record_of option"

datatype budget_period = PerRun | PerDay | PerWeek | PerMonth

record budget =
  budget_id :: string
  budget_period :: budget_period
  budget_limits :: budget_limits

datatype budget_dimension =
  DTokens | DCost | DRequests | DIterations | DWallClock | DQuota string

record budget_status =
  bs_budgetId :: string
  bs_exhausted :: bool
  bs_exhaustedDimensions :: "budget_dimension list"
  bs_warningDimensions :: "budget_dimension list"

record budget_consumption =
  bc_tokens :: "rat option"
  bc_estimatedCostUsd :: "rat option"
  bc_subscriptionRequests :: "rat option"
  bc_iterations :: "rat option"
  bc_wallClockMs :: "rat option"
  bc_providerQuotas :: "rat record_of option"

text \<open>\<open>BudgetTracker\<close>: its private fields, and the two it is constructed with.\<close>

record budget_tracker =
  bt_tokens :: rat
  bt_costUsd :: rat
  bt_requests :: rat
  bt_iterations :: rat
  bt_wallClockMs :: rat
  bt_quotas :: "rat record_of"
  bt_budget :: budget
  bt_warningRatio :: rat

definition new_tracker :: "budget \<Rightarrow> rat option \<Rightarrow> budget_tracker" where
  "new_tracker b ratio = \<lparr>
     bt_tokens = 0, bt_costUsd = 0, bt_requests = 0, bt_iterations = 0, bt_wallClockMs = 0,
     bt_quotas = [], bt_budget = b,
     bt_warningRatio = (case ratio of None \<Rightarrow> 4 / 5 | Some r \<Rightarrow> r)\<rparr>"

definition quota_of :: "rat record_of \<Rightarrow> string \<Rightarrow> rat" where
  "quota_of m k = or_zero (map_of m k)"

definition add_quota :: "string \<times> rat \<Rightarrow> rat record_of \<Rightarrow> rat record_of" where
  "add_quota kv m = AList.update (fst kv) (quota_of m (fst kv) + snd kv) m"

definition entries_of :: "rat record_of option \<Rightarrow> rat record_of" where
  "entries_of m = (case m of None \<Rightarrow> [] | Some kvs \<Rightarrow> kvs)"

definition record_delta :: "budget_consumption \<Rightarrow> budget_tracker \<Rightarrow> budget_tracker" where
  "record_delta d t = t\<lparr>
     bt_tokens := bt_tokens t + or_zero (bc_tokens d),
     bt_costUsd := bt_costUsd t + or_zero (bc_estimatedCostUsd d),
     bt_requests := bt_requests t + or_zero (bc_subscriptionRequests d),
     bt_iterations := bt_iterations t + or_zero (bc_iterations d),
     bt_wallClockMs := max (bt_wallClockMs t) (or_zero (bc_wallClockMs d)),
     bt_quotas := fold add_quota (entries_of (bc_providerQuotas d)) (bt_quotas t)\<rparr>"

text \<open>The checks of \<open>status()\<close> in order: a dimension, what is used of it and its limit.\<close>

definition budget_checks :: "budget_tracker \<Rightarrow> (budget_dimension \<times> rat \<times> rat option) list" where
  "budget_checks t =
     (let limits = budget_limits (bt_budget t) in
      [(DTokens, bt_tokens t, maxTokens limits),
       (DCost, bt_costUsd t, maxEstimatedCostUsd limits),
       (DRequests, bt_requests t, maxSubscriptionRequests limits),
       (DIterations, bt_iterations t, maxIterations limits),
       (DWallClock, bt_wallClockMs t, maxWallClockMs limits)] @
      map (\<lambda>(key, limit). (DQuota key, quota_of (bt_quotas t) key, Some limit))
        (entries_of (bl_providerQuotas limits)))"

fun check_dimension ::
  "rat \<Rightarrow> budget_dimension \<times> rat \<times> rat option \<Rightarrow>
   budget_dimension list \<times> budget_dimension list \<Rightarrow> budget_dimension list \<times> budget_dimension list" where
  "check_dimension ratio (dm, used, limit) (exhausted, warning) =
     (case limit of
        None \<Rightarrow> (exhausted, warning)
      | Some l \<Rightarrow>
          if l \<le> used then (exhausted @ [dm], warning)
          else if l * ratio \<le> used then (exhausted, warning @ [dm])
          else (exhausted, warning))"

definition budget_status_of :: "budget_tracker \<Rightarrow> budget_status" where
  "budget_status_of t =
     (case fold (check_dimension (bt_warningRatio t)) (budget_checks t) ([], []) of
        (exhausted, warning) \<Rightarrow>
          \<lparr>bs_budgetId = budget_id (bt_budget t), bs_exhausted = exhausted \<noteq> [],
           bs_exhaustedDimensions = exhausted, bs_warningDimensions = warning\<rparr>)"

definition record_consumption ::
  "budget_consumption \<Rightarrow> budget_tracker \<Rightarrow> budget_status \<times> budget_tracker" where
  "record_consumption d t = (let t' = record_delta d t in (budget_status_of t', t'))"

subsection \<open>What the tracker has accumulated\<close>

lemma quota_of_update [simp]:
  "quota_of (AList.update k v m) k' = (if k' = k then v else quota_of m k')"
  by (simp add: quota_of_def)

lemma quota_fold:
  "quota_of (fold add_quota kvs m) k = quota_of m k + (\<Sum>kv\<leftarrow>kvs. if fst kv = k then snd kv else 0)"
  by (induction kvs arbitrary: m) (auto simp: add_quota_def)

definition used_after :: "budget_consumption list \<Rightarrow> budget_dimension \<Rightarrow> rat" where
  "used_after ds dm = (case dm of
     DTokens \<Rightarrow> (\<Sum>d\<leftarrow>ds. or_zero (bc_tokens d))
   | DCost \<Rightarrow> (\<Sum>d\<leftarrow>ds. or_zero (bc_estimatedCostUsd d))
   | DRequests \<Rightarrow> (\<Sum>d\<leftarrow>ds. or_zero (bc_subscriptionRequests d))
   | DIterations \<Rightarrow> (\<Sum>d\<leftarrow>ds. or_zero (bc_iterations d))
   | DWallClock \<Rightarrow> foldr (\<lambda>d m. max (or_zero (bc_wallClockMs d)) m) ds 0
   | DQuota k \<Rightarrow>
       (\<Sum>d\<leftarrow>ds. \<Sum>kv\<leftarrow>entries_of (bc_providerQuotas d). if fst kv = k then snd kv else 0))"

definition limit_of :: "budget_limits \<Rightarrow> budget_dimension \<Rightarrow> rat set" where
  "limit_of l dm = (case dm of
     DTokens \<Rightarrow> set_option (maxTokens l)
   | DCost \<Rightarrow> set_option (maxEstimatedCostUsd l)
   | DRequests \<Rightarrow> set_option (maxSubscriptionRequests l)
   | DIterations \<Rightarrow> set_option (maxIterations l)
   | DWallClock \<Rightarrow> set_option (maxWallClockMs l)
   | DQuota k \<Rightarrow> {v. (k, v) \<in> set (entries_of (bl_providerQuotas l))})"

definition used_of :: "budget_tracker \<Rightarrow> budget_dimension \<Rightarrow> rat" where
  "used_of t dm = (case dm of
     DTokens \<Rightarrow> bt_tokens t | DCost \<Rightarrow> bt_costUsd t | DRequests \<Rightarrow> bt_requests t
   | DIterations \<Rightarrow> bt_iterations t | DWallClock \<Rightarrow> bt_wallClockMs t
   | DQuota k \<Rightarrow> quota_of (bt_quotas t) k)"

lemma used_of_record:
  "used_of (record_delta d t) dm =
     (if dm = DWallClock then max (used_of t dm) (or_zero (bc_wallClockMs d))
      else used_of t dm + used_after [d] dm)"
  by (cases dm) (simp_all add: used_of_def record_delta_def used_after_def quota_fold)

lemma used_after_Cons:
  "dm \<noteq> DWallClock \<Longrightarrow> used_after (d # ds) dm = used_after [d] dm + used_after ds dm"
  by (cases dm) (simp_all add: used_after_def)

lemma used_after_wall:
  "used_after (d # ds) DWallClock = max (or_zero (bc_wallClockMs d)) (used_after ds DWallClock)"
  by (simp add: used_after_def)

lemma used_after_Nil [simp]: "used_after [] dm = 0"
  by (cases dm) (simp_all add: used_after_def)

lemma used_of_recorded:
  "used_of (fold record_delta ds t) dm =
     (if dm = DWallClock then max (used_of t dm) (used_after ds dm) else used_of t dm + used_after ds dm)"
  if "0 \<le> bt_wallClockMs t"
  using that
proof (induction ds arbitrary: t)
  case Nil
  then show ?case by (simp add: used_of_def)
next
  case (Cons d ds)
  have "0 \<le> bt_wallClockMs (record_delta d t)"
    using Cons.prems by (simp add: record_delta_def)
  from Cons.IH [OF this] show ?case
    by (cases "dm = DWallClock")
      (simp_all add: used_of_record used_after_wall used_after_Cons [of dm d ds] max.assoc)
qed

lemma budget_fold [simp]:
  "bt_budget (fold record_delta ds t) = bt_budget t"
  "bt_warningRatio (fold record_delta ds t) = bt_warningRatio t"
  by (induction ds arbitrary: t) (simp_all add: record_delta_def)

lemma new_tracker_sel [simp]:
  "bt_budget (new_tracker b ratio) = b" "bt_wallClockMs (new_tracker b ratio) = 0"
  "bt_warningRatio (new_tracker b ratio) = (case ratio of None \<Rightarrow> 4 / 5 | Some r \<Rightarrow> r)"
  by (simp_all add: new_tracker_def)

lemma used_of_new [simp]: "used_of (new_tracker b ratio) dm = 0"
  by (cases dm) (simp_all add: used_of_def new_tracker_def quota_of_def)

subsection \<open>The status\<close>

lemma check_one:
  "set (fst (check_dimension r (d, u, lo) acc)) =
     set (fst acc) \<union> {x. x = d \<and> (\<exists>l. lo = Some l \<and> l \<le> u)}"
  "set (snd (check_dimension r (d, u, lo) acc)) =
     set (snd acc) \<union> {x. x = d \<and> (\<exists>l. lo = Some l \<and> u < l \<and> l * r \<le> u)}"
  by (cases acc; cases lo; auto simp: not_le)+

lemma check_fold:
  "set (fst (fold (check_dimension r) cs acc)) =
     set (fst acc) \<union> {d. \<exists>u l. (d, u, Some l) \<in> set cs \<and> l \<le> u}"
  "set (snd (fold (check_dimension r) cs acc)) =
     set (snd acc) \<union> {d. \<exists>u l. (d, u, Some l) \<in> set cs \<and> u < l \<and> l * r \<le> u}"
proof (induction cs arbitrary: acc)
  case (Cons c cs)
  obtain d u lo where c: "c = (d, u, lo)" by (cases c)
  { case 1 show ?case using Cons(1) by (auto simp: c check_one) }
  { case 2 show ?case using Cons(2) by (auto simp: c check_one) }
qed simp_all

lemma budget_checks_mem:
  "(d, u, Some l) \<in> set (budget_checks t) \<longleftrightarrow> u = used_of t d \<and> l \<in> limit_of (budget_limits (bt_budget t)) d"
  by (cases d) (auto simp: budget_checks_def Let_def used_of_def limit_of_def)

lemma exhausted_iff:
  "d \<in> set (bs_exhaustedDimensions (budget_status_of t)) \<longleftrightarrow>
     (\<exists>l \<in> limit_of (budget_limits (bt_budget t)) d. l \<le> used_of t d)"
  using check_fold(1) [of "bt_warningRatio t" "budget_checks t" "([], [])"]
  by (auto simp: budget_status_of_def budget_checks_mem split: prod.splits)

lemma warning_iff:
  "d \<in> set (bs_warningDimensions (budget_status_of t)) \<longleftrightarrow>
     (\<exists>l \<in> limit_of (budget_limits (bt_budget t)) d.
        used_of t d < l \<and> l * bt_warningRatio t \<le> used_of t d)"
  using check_fold(2) [of "bt_warningRatio t" "budget_checks t" "([], [])"]
  by (auto simp: budget_status_of_def budget_checks_mem split: prod.splits)

lemma wall_clock_nonneg: "0 \<le> used_after ds DWallClock"
  by (induction ds) (simp_all add: used_after_def le_max_iff_disj)

text \<open>
  The tracker reports what was consumed: after any sequence of recorded deltas a dimension
  is exhausted exactly when some limit on it is at most the sum of the deltas (for wall-clock
  time, the largest of them); it is in the warning list exactly when it is below such a limit
  but has reached the warning ratio of it; and the budget is exhausted exactly when some
  dimension is.
\<close>

theorem budget_status_correct:
  "let st = budget_status_of (fold record_delta ds (new_tracker b ratio));
       used = used_after ds; limits = limit_of (budget_limits b);
       r = (case ratio of None \<Rightarrow> 4 / 5 | Some r \<Rightarrow> r) in
   set (bs_exhaustedDimensions st) = {d. \<exists>l \<in> limits d. l \<le> used d} \<and>
   set (bs_warningDimensions st) = {d. \<exists>l \<in> limits d. used d < l \<and> l * r \<le> used d} \<and>
   bs_exhausted st = (\<exists>d. \<exists>l \<in> limits d. l \<le> used d)"
proof -
  let ?t = "fold record_delta ds (new_tracker b ratio)"
  have used: "used_of ?t d = used_after ds d" for d
    using used_of_recorded [of "new_tracker b ratio" ds d] wall_clock_nonneg [of ds]
    by (auto simp: max_def)
  have "bs_exhausted (budget_status_of ?t) \<longleftrightarrow> bs_exhaustedDimensions (budget_status_of ?t) \<noteq> []"
    by (simp add: budget_status_of_def split: prod.splits)
  also have "\<dots> \<longleftrightarrow> (\<exists>d. d \<in> set (bs_exhaustedDimensions (budget_status_of ?t)))"
    by (cases "bs_exhaustedDimensions (budget_status_of ?t)") auto
  finally show ?thesis
    by (simp add: set_eq_iff Let_def exhausted_iff warning_iff used)
qed

end
