(* ===== verification/RunState.thy ===== *)
theory RunState
  imports Budget
begin

section \<open>The run state machine\<close>

text \<open>
  \<open>packages/core/src/run.ts\<close>: the states of an orchestration run, the table of legal
  transitions and the run entity with its audit history.
\<close>

datatype run_state =
  Queued | Preparing | Running | Waiting | WaitingForTool | WaitingForSubagent
| WaitingForHuman | Verifying | Completed | Failed | Blocked | Cancelled

definition TERMINAL_RUN_STATES :: "run_state list" where
  "TERMINAL_RUN_STATES = [Completed, Failed, Blocked, Cancelled]"

definition ACTIVE :: "run_state list" where
  "ACTIVE = [Running, Waiting, WaitingForTool, WaitingForSubagent, WaitingForHuman, Verifying]"

fun RUN_TRANSITIONS :: "run_state \<Rightarrow> run_state list" where
  "RUN_TRANSITIONS Queued = [Preparing, Cancelled, Failed]"
| "RUN_TRANSITIONS Preparing = [Running, Failed, Cancelled]"
| "RUN_TRANSITIONS Running =
     [Waiting, WaitingForTool, WaitingForSubagent, WaitingForHuman, Verifying,
      Completed, Failed, Blocked, Cancelled]"
| "RUN_TRANSITIONS Waiting = [Running, WaitingForHuman, Blocked, Failed, Cancelled]"
| "RUN_TRANSITIONS WaitingForTool = [Running, Failed, Cancelled]"
| "RUN_TRANSITIONS WaitingForSubagent = [Running, Failed, Cancelled]"
| "RUN_TRANSITIONS WaitingForHuman = [Running, Waiting, Blocked, Cancelled]"
| "RUN_TRANSITIONS Verifying = [Running, Completed, Failed, Cancelled]"
| "RUN_TRANSITIONS Completed = []"
| "RUN_TRANSITIONS Failed = [Queued]"
| "RUN_TRANSITIONS Blocked = [Queued, Cancelled]"
| "RUN_TRANSITIONS Cancelled = [Queued]"

text \<open>The categories of an \<open>OrchestratorError\<close>, of \<open>packages/core/src/errors.ts\<close>.\<close>

datatype error_category =
  CatNetwork | CatRateLimit | CatAuthExpired | CatQuotaExhausted | CatTimeout
| CatProviderOutage | CatInvalidInput | CatConflict | CatPolicy | CatCapabilityMismatch
| CatCorruptResponse | CatInternal

datatype transition_error = IllegalTransition run_state run_state

definition isTerminal :: "run_state \<Rightarrow> bool" where
  "isTerminal s \<longleftrightarrow> s \<in> set TERMINAL_RUN_STATES"

definition isActive :: "run_state \<Rightarrow> bool" where
  "isActive s \<longleftrightarrow> s \<in> set ACTIVE"

definition canTransition :: "run_state \<Rightarrow> run_state \<Rightarrow> bool" where
  "canTransition from to \<longleftrightarrow> to \<in> set (RUN_TRANSITIONS from)"

definition assertTransition :: "run_state \<Rightarrow> run_state \<Rightarrow> transition_error + unit" where
  "assertTransition from to = (if \<not> canTransition from to then Inl (IllegalTransition from to) else Inr ())"

datatype agent_outcome =
  GOAL_COMPLETED | GOAL_BLOCKED | HUMAN_INPUT_REQUIRED | BUDGET_EXHAUSTED
| POLICY_BLOCKED | CANCELLED | FATAL_FAILURE

fun runStateForOutcome :: "agent_outcome \<Rightarrow> run_state" where
  "runStateForOutcome GOAL_COMPLETED = Completed"
| "runStateForOutcome CANCELLED = Cancelled"
| "runStateForOutcome HUMAN_INPUT_REQUIRED = WaitingForHuman"
| "runStateForOutcome GOAL_BLOCKED = Blocked"
| "runStateForOutcome POLICY_BLOCKED = Blocked"
| "runStateForOutcome BUDGET_EXHAUSTED = Failed"
| "runStateForOutcome FATAL_FAILURE = Failed"

record run_state_change =
  rc_from :: run_state
  rc_to :: run_state
  rc_at :: time
  rc_reason :: "string option"

record run =
  run_id :: string
  run_workItemId :: string
  run_workflowName :: string
  run_state :: run_state
  run_currentStepId :: "string option"
  run_workspaceId :: "string option"
  run_sessionIds :: "string list"
  run_usage :: "usage_record option"
  run_outcome :: "agent_outcome option"
  run_error :: "string option"
  run_createdAt :: time
  run_updatedAt :: time
  run_history :: "run_state_change list"

end
