(* ===== verification/Stores.thy ===== *)
theory Stores
  imports Definitions Graph RunState
begin

section \<open>The in-memory persistence provider\<close>

text \<open>
  \<open>packages/persistence/src/in-memory-persistence-provider.ts\<close>: one group of definitions per
  repository. A \<open>Map\<close> is an association list in insertion order and an append-only array a
  list; deep clones make every stored value a value, as it is here. \<open>localeCompare\<close> on ids is
  taken to order them by their code units. The locale \<open>repository\<close> is the contract the
  keyed repositories share, \<open>claim_store\<close> and \<open>wait_store\<close> those of the two stores that
  decide who wins.
\<close>

subsection \<open>Keyed repositories\<close>

locale repository =
  fixes save :: "'v \<Rightarrow> 's \<Rightarrow> 's" and get :: "'k \<Rightarrow> 's \<Rightarrow> 'v option" and key :: "'v \<Rightarrow> 'k"
  assumes get_save: "get k (save v s) = (if k = key v then Some v else get k s)"
begin

lemma get_saved [simp]: "get (key v) (save v s) = Some v"
  by (simp add: get_save)

lemma get_other: "k \<noteq> key v \<Longrightarrow> get k (save v s) = get k s"
  by (simp add: get_save)

lemma last_save_wins: "key w = key v \<Longrightarrow> get (key v) (save w (save v s)) = Some w"
  by (simp add: get_save)

lemma saves_commute:
  "key v \<noteq> key w \<Longrightarrow> get k (save v (save w s)) = get k (save w (save v s))"
  by (simp add: get_save)

end

definition put_row :: "('v \<Rightarrow> 'k) \<Rightarrow> 'v \<Rightarrow> ('k \<times> 'v) list \<Rightarrow> ('k \<times> 'v) list" where
  "put_row key v rows = AList.update (key v) v rows"

lemma map_of_put_row [simp]:
  "map_of (put_row key v rows) k = (if k = key v then Some v else map_of rows k)"
  by (simp add: put_row_def update_conv')

definition rows_of :: "('k \<times> 'v) list \<Rightarrow> 'v list" where
  "rows_of rows = map snd rows"

definition slice_limit :: "nat option \<Rightarrow> 'a list \<Rightarrow> 'a list" where
  "slice_limit limit xs = (case limit of None \<Rightarrow> xs | Some n \<Rightarrow> take n xs)"

subsection \<open>Runs\<close>

type_synonym run_rows = "(string \<times> run) list"

definition save_run :: "run \<Rightarrow> run_rows \<Rightarrow> run_rows" where
  "save_run = put_row run_id"

definition get_run :: "string \<Rightarrow> run_rows \<Rightarrow> run option" where
  "get_run i rows = map_of rows i"

definition list_runs ::
  "run_state list option \<Rightarrow> string option \<Rightarrow> nat option \<Rightarrow> run_rows \<Rightarrow> run list" where
  "list_runs states workItem limit rows =
     (let r1 = (case states of None \<Rightarrow> rows_of rows
                | Some ss \<Rightarrow> filter (\<lambda>r. run_state r \<in> set ss) (rows_of rows));
          r2 = (case workItem of None \<Rightarrow> r1 | Some w \<Rightarrow> filter (\<lambda>r. run_workItemId r = w) r1) in
      slice_limit limit (sort_key (\<lambda>r. - run_createdAt r) r2))"

interpretation runs: repository save_run get_run run_id
  by unfold_locales (simp add: save_run_def get_run_def)

subsection \<open>Sessions\<close>

text \<open>The messages of a session are left abstract.\<close>

record 'm session_snapshot =
  ss_sessionId :: string
  ss_runId :: string
  ss_provider :: string
  ss_model :: "string option"
  ss_systemPrompt :: "string option"
  ss_messages :: "'m list"
  ss_providerSessionId :: "string option"
  ss_updatedAt :: time

type_synonym 'm session_rows = "(string \<times> 'm session_snapshot) list"

definition save_session :: "'m session_snapshot \<Rightarrow> 'm session_rows \<Rightarrow> 'm session_rows" where
  "save_session = put_row ss_sessionId"

definition get_session :: "string \<Rightarrow> 'm session_rows \<Rightarrow> 'm session_snapshot option" where
  "get_session i rows = map_of rows i"

definition list_sessions_for_run :: "string \<Rightarrow> 'm session_rows \<Rightarrow> 'm session_snapshot list" where
  "list_sessions_for_run runId rows =
     sort_key ss_updatedAt (filter (\<lambda>s. ss_runId s = runId) (rows_of rows))"

interpretation sessions: repository save_session get_session ss_sessionId
  by unfold_locales (simp add: save_session_def get_session_def)

subsection \<open>The event log\<close>

record ('t, 'p) logged_event =
  ev_id :: string
  ev_at :: time
  ev_runId :: "string option"
  ev_type :: 't
  ev_payload :: 'p

definition append_event ::
  "('t, 'p) logged_event \<Rightarrow> ('t, 'p) logged_event list \<Rightarrow> ('t, 'p) logged_event list" where
  "append_event e rows = rows @ [e]"

text \<open>\<open>findIndex\<close> and \<open>slice(index + 1)\<close>: what follows the first event of that id.\<close>

fun after_event :: "string \<Rightarrow> ('t, 'p) logged_event list \<Rightarrow> ('t, 'p) logged_event list option" where
  "after_event i [] = None"
| "after_event i (e # es) = (if ev_id e = i then Some es else after_event i es)"

definition list_events_for_run ::
  "string \<Rightarrow> string option \<Rightarrow> ('t, 'p) logged_event list \<Rightarrow> ('t, 'p) logged_event list" where
  "list_events_for_run runId afterId rows =
     (let es = filter (\<lambda>e. ev_runId e = Some runId) rows in
      case afterId of
        None \<Rightarrow> es
      | Some i \<Rightarrow> if i = [] then es
                  else (case after_event i es of None \<Rightarrow> es | Some rest \<Rightarrow> rest))"

definition list_events ::
  "'t list option \<Rightarrow> nat option \<Rightarrow> ('t, 'p) logged_event list \<Rightarrow> ('t, 'p) logged_event list" where
  "list_events types limit rows =
     slice_limit limit
       (case types of None \<Rightarrow> rev rows | Some ts \<Rightarrow> filter (\<lambda>e. ev_type e \<in> set ts) (rev rows))"

lemma resume_event_log:
  assumes "distinct (map ev_id rows)" and "ev_runId e = Some runId" and "ev_id e \<noteq> []"
    and "rows = before @ e # later"
  shows "list_events_for_run runId (Some (ev_id e)) rows =
    list_events_for_run runId None later"
proof -
  have "after_event (ev_id e) (es @ e # later') = Some later'" if "ev_id e \<notin> ev_id ` set es"
    for es later'
    using that by (induction es) auto
  moreover have "ev_id e \<notin> ev_id ` set (filter P before)" for P
    using assms(1,4) by auto
  ultimately show ?thesis
    using assms(2,3) by (simp add: list_events_for_run_def Let_def assms(4))
qed

subsection \<open>Claims\<close>

record stored_claim =
  sc_runId :: string
  sc_releasedAt :: "time option"

type_synonym claim_rows = "(string \<times> stored_claim) list"

definition tryClaim :: "string \<Rightarrow> string \<Rightarrow> claim_rows \<Rightarrow> bool \<times> claim_rows" where
  "tryClaim workItem runId rows =
     (case map_of rows workItem of
        None \<Rightarrow> (True, AList.update workItem \<lparr>sc_runId = runId, sc_releasedAt = None\<rparr> rows)
      | Some c \<Rightarrow>
          if sc_releasedAt c \<noteq> None
          then (True, AList.update workItem \<lparr>sc_runId = runId, sc_releasedAt = None\<rparr> rows)
          else (sc_runId c = runId, rows))"

definition release_claim :: "time \<Rightarrow> string \<Rightarrow> string \<Rightarrow> claim_rows \<Rightarrow> claim_rows" where
  "release_claim now workItem runId rows =
     (case map_of rows workItem of
        None \<Rightarrow> rows
      | Some c \<Rightarrow>
          if sc_runId c = runId \<and> sc_releasedAt c = None
          then AList.update workItem \<lparr>sc_runId = runId, sc_releasedAt = Some now\<rparr> rows
          else rows)"

definition activeClaim :: "string \<Rightarrow> claim_rows \<Rightarrow> string option" where
  "activeClaim workItem rows =
     (case map_of rows workItem of
        None \<Rightarrow> None
      | Some c \<Rightarrow> if sc_releasedAt c = None then Some (sc_runId c) else None)"

definition list_active_claims :: "claim_rows \<Rightarrow> (string \<times> string) list" where
  "list_active_claims rows =
     map (\<lambda>(w, c). (w, sc_runId c)) (filter (\<lambda>(w, c). sc_releasedAt c = None) rows)"

text \<open>
  The contract of a claim store: at most one run holds an item, a claim is answered by whether
  the claimant holds the item afterwards, and only the holder can release it.
\<close>

locale claim_store =
  fixes claim :: "'w \<Rightarrow> 'r \<Rightarrow> 's \<Rightarrow> bool \<times> 's" and release :: "'w \<Rightarrow> 'r \<Rightarrow> 's \<Rightarrow> 's"
    and holder :: "'w \<Rightarrow> 's \<Rightarrow> 'r option"
  assumes claim_holder: "holder w (snd (claim w r s)) = (case holder w s of None \<Rightarrow> Some r | Some q \<Rightarrow> Some q)"
    and claim_answer: "fst (claim w r s) \<longleftrightarrow> holder w (snd (claim w r s)) = Some r"
    and claim_frame: "v \<noteq> w \<Longrightarrow> holder v (snd (claim w r s)) = holder v s"
    and release_holder: "holder w (release w r s) = (if holder w s = Some r then None else holder w s)"
    and release_frame: "v \<noteq> w \<Longrightarrow> holder v (release w r s) = holder v s"
begin

text \<open>A claim fails exactly while another run holds the item, and never changes the holder.\<close>

lemma claim_exclusive:
  "holder w s = Some q \<Longrightarrow> q \<noteq> r \<Longrightarrow> \<not> fst (claim w r s) \<and> holder w (snd (claim w r s)) = Some q"
  by (simp add: claim_answer claim_holder)

lemma claim_idempotent: "fst (claim w r (snd (claim w r s))) = fst (claim w r s)"
  by (simp add: claim_answer claim_holder split: option.splits)

lemma claim_after_release: "holder w s = Some r \<Longrightarrow> fst (claim w q (release w r s))"
  by (simp add: claim_answer claim_holder release_holder)

lemma release_by_other: "holder w s \<noteq> Some r \<Longrightarrow> holder w (release w r s) = holder w s"
  by (simp add: release_holder)

end

interpretation claims: claim_store tryClaim "release_claim now" activeClaim for now
  by unfold_locales
    (auto simp: tryClaim_def release_claim_def activeClaim_def split: option.splits)

subsection \<open>Usage and configuration\<close>

record stored_usage =
  su_runId :: string
  su_recordedAt :: time
  su_usage :: usage_record

definition record_usage ::
  "time \<Rightarrow> string \<Rightarrow> usage_record \<Rightarrow> stored_usage list \<Rightarrow> stored_usage list" where
  "record_usage now runId usage rows =
     rows @ [\<lparr>su_runId = runId, su_recordedAt = now, su_usage = usage\<rparr>]"

definition totalsForPeriod :: "time \<Rightarrow> time \<Rightarrow> stored_usage list \<Rightarrow> usage_record list" where
  "totalsForPeriod periodStart periodEnd rows =
     map su_usage (sort_key su_recordedAt
       (filter (\<lambda>u. periodStart \<le> su_recordedAt u \<and> su_recordedAt u < periodEnd) rows))"

type_synonym config_rows = "(string \<times> jsval) list"

definition config_key :: "string \<Rightarrow> string \<Rightarrow> string" where
  "config_key namespace key = namespace @ CHR 0x00 # key"

definition get_config :: "string \<Rightarrow> string \<Rightarrow> config_rows \<Rightarrow> jsval option" where
  "get_config namespace key rows = map_of rows (config_key namespace key)"

definition set_config :: "string \<Rightarrow> string \<Rightarrow> jsval \<Rightarrow> config_rows \<Rightarrow> config_rows" where
  "set_config namespace key v rows = AList.update (config_key namespace key) v rows"

definition delete_config :: "string \<Rightarrow> string \<Rightarrow> config_rows \<Rightarrow> config_rows" where
  "delete_config namespace key rows = AList.delete (config_key namespace key) rows"

definition list_config :: "string \<Rightarrow> config_rows \<Rightarrow> fields" where
  "list_config namespace rows =
     fold (\<lambda>(k, v) acc.
         if starts_with k (config_key namespace [])
         then AList.update (drop (length (config_key namespace [])) k) v acc else acc)
       rows []"

lemma config_key_inj:
  "CHR 0x00 \<notin> set n \<Longrightarrow> CHR 0x00 \<notin> set n' \<Longrightarrow> config_key n k = config_key n' k' \<longleftrightarrow> n = n' \<and> k = k'"
proof -
  assume n: "CHR 0x00 \<notin> set n" "CHR 0x00 \<notin> set n'"
  have split: "takeWhile (\<lambda>c. c \<noteq> CHR 0x00) (m @ CHR 0x00 # r) = m \<and>
      dropWhile (\<lambda>c. c \<noteq> CHR 0x00) (m @ CHR 0x00 # r) = CHR 0x00 # r" if "CHR 0x00 \<notin> set m" for m r
    using that by (induction m) auto
  show ?thesis
    using split [OF n(1), of k] split [OF n(2), of k'] by (auto simp: config_key_def)
qed

subsection \<open>Waits\<close>

record wait_store =
  ws_conditions :: "(string \<times> wait_condition) list"
  ws_supplementals :: "supplemental_input list"

definition save_wait :: "wait_condition \<Rightarrow> wait_store \<Rightarrow> wait_store" where
  "save_wait c st = st\<lparr>ws_conditions := put_row wait_id c (ws_conditions st)\<rparr>"

definition get_wait :: "string \<Rightarrow> wait_store \<Rightarrow> wait_condition option" where
  "get_wait i st = map_of (ws_conditions st) i"

text \<open>\<open>sort((a, b) => a.createdAt - b.createdAt || a.id.localeCompare(b.id))\<close>.\<close>

definition sort_waits :: "wait_condition list \<Rightarrow> wait_condition list" where
  "sort_waits cs = sort_key wait_createdAt (sort_key wait_id cs)"

definition listOpen ::
  "string option \<Rightarrow> wait_kind option \<Rightarrow> time option \<Rightarrow> wait_store \<Rightarrow> wait_condition list" where
  "listOpen runId kind dueBefore st =
     sort_waits (filter (\<lambda>c.
         wait_status c = WaitOpen \<and>
         (case runId of None \<Rightarrow> True | Some r \<Rightarrow> wait_runId c = r) \<and>
         (case kind of None \<Rightarrow> True | Some k \<Rightarrow> wait_kind c = k) \<and>
         (case dueBefore of None \<Rightarrow> True
          | Some d \<Rightarrow> (case wait_dueAt c of None \<Rightarrow> False | Some t \<Rightarrow> t < d)))
       (rows_of (ws_conditions st)))"

definition satisfied_with :: "wait_satisfaction \<Rightarrow> wait_condition \<Rightarrow> wait_condition" where
  "satisfied_with sat c =
     c\<lparr>wait_status := WaitSatisfied, wait_satisfiedAt := Some (sat_at sat),
       wait_satisfaction := Some sat\<rparr>"

definition trySatisfy :: "string \<Rightarrow> wait_satisfaction \<Rightarrow> wait_store \<Rightarrow> bool \<times> wait_store" where
  "trySatisfy i sat st =
     (case map_of (ws_conditions st) i of
        None \<Rightarrow> (False, st)
      | Some c \<Rightarrow>
          if wait_status c \<noteq> WaitOpen then (False, st)
          else (True, st\<lparr>ws_conditions := AList.update i (satisfied_with sat c) (ws_conditions st)\<rparr>))"

definition cancel_if_open :: "string \<Rightarrow> wait_condition \<Rightarrow> wait_condition" where
  "cancel_if_open runId c =
     (if wait_runId c = runId \<and> wait_status c = WaitOpen then c\<lparr>wait_status := WaitCancelled\<rparr> else c)"

definition cancelForRun :: "string \<Rightarrow> wait_store \<Rightarrow> wait_store" where
  "cancelForRun runId st =
     st\<lparr>ws_conditions := map (\<lambda>(i, c). (i, cancel_if_open runId c)) (ws_conditions st)\<rparr>"

definition listWaitsForRun :: "string \<Rightarrow> wait_store \<Rightarrow> wait_condition list" where
  "listWaitsForRun runId st =
     sort_waits (filter (\<lambda>c. wait_runId c = runId) (rows_of (ws_conditions st)))"

definition addSupplemental :: "supplemental_input \<Rightarrow> wait_store \<Rightarrow> wait_store" where
  "addSupplemental e st = st\<lparr>ws_supplementals := ws_supplementals st @ [e]\<rparr>"

definition listSupplemental :: "string \<Rightarrow> wait_store \<Rightarrow> supplemental_input list" where
  "listSupplemental runId st = filter (\<lambda>e. sup_runId e = runId) (ws_supplementals st)"

definition markSupplementalPromoted :: "string \<Rightarrow> time \<Rightarrow> wait_store \<Rightarrow> wait_store" where
  "markSupplementalPromoted waitId t st =
     st\<lparr>ws_supplementals := map (\<lambda>e. if sup_waitId e = waitId then e\<lparr>sup_promotedAt := Some t\<rparr> else e)
          (ws_supplementals st)\<rparr>"

text \<open>
  The contract of a wait store: a wait is satisfied once, by the first satisfaction to arrive
  while it is open, and nothing that happens afterwards changes it.
\<close>

locale wait_contract =
  fixes satisfy :: "'i \<Rightarrow> 'w \<Rightarrow> 's \<Rightarrow> bool \<times> 's" and is_open :: "'i \<Rightarrow> 's \<Rightarrow> bool"
    and satisfied :: "'i \<Rightarrow> 's \<Rightarrow> 'w option" and cancel :: "'r \<Rightarrow> 's \<Rightarrow> 's"
  assumes satisfy_answer: "fst (satisfy i w s) = is_open i s"
    and satisfy_stores: "is_open i s \<Longrightarrow> satisfied i (snd (satisfy i w s)) = Some w"
    and satisfy_closes: "\<not> is_open i (snd (satisfy i w s))"
    and satisfy_lost: "\<not> is_open i s \<Longrightarrow> snd (satisfy i w s) = s"
    and satisfy_frame: "j \<noteq> i \<Longrightarrow> satisfied j (snd (satisfy i w s)) = satisfied j s \<and>
          is_open j (snd (satisfy i w s)) = is_open j s"
    and cancel_satisfied: "satisfied i (cancel r s) = satisfied i s"
    and cancel_open: "is_open i (cancel r s) \<Longrightarrow> is_open i s"
begin

lemma first_wins:
  "fst (satisfy i w s) \<Longrightarrow> \<not> fst (satisfy i v (snd (satisfy i w s))) \<and>
     satisfied i (snd (satisfy i v (snd (satisfy i w s)))) = Some w"
  by (simp add: satisfy_answer satisfy_closes satisfy_lost satisfy_stores)

text \<open>A wait that was answered stays answered, whatever is tried or cancelled after it.\<close>

lemma answer_kept:
  assumes "satisfied i s = Some w \<and> \<not> is_open i s"
  shows "satisfied i (snd (satisfy j v s)) = Some w \<and> \<not> is_open i (snd (satisfy j v s))"
    and "satisfied i (cancel r s) = Some w \<and> \<not> is_open i (cancel r s)"
  using assms cancel_open by (cases "j = i", auto simp: satisfy_lost satisfy_frame cancel_satisfied)

lemma answer_stored:
  "fst (satisfy i w s) \<Longrightarrow> satisfied i (snd (satisfy i w s)) = Some w \<and> \<not> is_open i (snd (satisfy i w s))"
  by (simp add: satisfy_answer satisfy_closes satisfy_stores)

end

definition wait_open :: "string \<Rightarrow> wait_store \<Rightarrow> bool" where
  "wait_open i st =
     (case get_wait i st of None \<Rightarrow> False | Some c \<Rightarrow> wait_status c = WaitOpen)"

text \<open>The satisfaction of a satisfied wait; an open one has none that counts.\<close>

definition wait_answer :: "string \<Rightarrow> wait_store \<Rightarrow> wait_satisfaction option" where
  "wait_answer i st =
     (case get_wait i st of
        None \<Rightarrow> None
      | Some c \<Rightarrow> if wait_status c = WaitSatisfied then wait_satisfaction c else None)"

lemma get_cancelForRun [simp]:
  "get_wait i (cancelForRun r st) = map_option (cancel_if_open r) (get_wait i st)"
  by (simp add: get_wait_def cancelForRun_def map_of_map)

interpretation waits: wait_contract trySatisfy wait_open wait_answer cancelForRun
  by unfold_locales
    (auto simp: trySatisfy_def wait_open_def wait_answer_def satisfied_with_def cancel_if_open_def
      get_wait_def cancelForRun_def map_of_map update_conv' split: option.splits if_splits)

interpretation wait_rows: repository save_wait get_wait wait_id
  by unfold_locales (simp add: save_wait_def get_wait_def)

subsection \<open>Graph states, specifications and checkpoints\<close>

type_synonym graph_rows = "(string \<times> run_graph_state) list"

definition save_graph_state :: "run_graph_state \<Rightarrow> graph_rows \<Rightarrow> graph_rows" where
  "save_graph_state = put_row gs_runId"

definition get_graph_state :: "string \<Rightarrow> graph_rows \<Rightarrow> run_graph_state option" where
  "get_graph_state i rows = map_of rows i"

definition delete_graph_state :: "string \<Rightarrow> graph_rows \<Rightarrow> graph_rows" where
  "delete_graph_state i rows = AList.delete i rows"

interpretation run_graphs: repository save_graph_state get_graph_state gs_runId
  by unfold_locales (simp add: save_graph_state_def get_graph_state_def)

record spec_instruction =
  si_source :: string
  si_scope :: string
  si_path :: string
  si_contentHash :: string
  si_applied :: bool

record repository_reference =
  rr_locator :: string
  rr_defaultBranch :: "string option"
  rr_scmProviderId :: "string option"

record spec_repository =
  sr_repository :: repository_reference
  sr_role :: string
  sr_resolvedBy :: string

record execution_spec =
  es_runId :: string
  es_revision :: nat
  es_createdAt :: time
  es_reason :: string
  es_goal :: string
  es_acceptanceCriteria :: "string list"
  es_workItemId :: string
  es_relatedWorkItemIds :: "string list"
  es_repositories :: "spec_repository list"
  es_instructions :: "spec_instruction list"
  es_promotedContext :: "string list"
  es_snapshotId :: string
  es_profileName :: "string option"
  es_completionCriteria :: "string list"
  es_metadata :: fields

text \<open>
  \<open>specsMateriallyDiffer\<close> compares the JSON text of the material fields; two such texts are equal
  exactly when the fields are.
\<close>

definition material ::
  "execution_spec \<Rightarrow> string \<times> string list \<times> string \<times> string list \<times> spec_repository list \<times>
     (string \<times> string \<times> bool) list \<times> string list \<times> string \<times> string option \<times> string list" where
  "material s = (es_goal s, es_acceptanceCriteria s, es_workItemId s, es_relatedWorkItemIds s,
     es_repositories s, map (\<lambda>i. (si_path i, si_contentHash i, si_applied i)) (es_instructions s),
     es_promotedContext s, es_snapshotId s, es_profileName s, es_completionCriteria s)"

definition specsMateriallyDiffer :: "execution_spec \<Rightarrow> execution_spec \<Rightarrow> bool" where
  "specsMateriallyDiffer a b \<longleftrightarrow> material a \<noteq> material b"

type_synonym spec_rows = "((string \<times> nat) \<times> execution_spec) list"

definition spec_key :: "execution_spec \<Rightarrow> string \<times> nat" where
  "spec_key s = (es_runId s, es_revision s)"

definition save_spec :: "execution_spec \<Rightarrow> spec_rows \<Rightarrow> spec_rows" where
  "save_spec = put_row spec_key"

definition get_spec :: "string \<times> nat \<Rightarrow> spec_rows \<Rightarrow> execution_spec option" where
  "get_spec k rows = map_of rows k"

definition listRevisions :: "string \<Rightarrow> spec_rows \<Rightarrow> execution_spec list" where
  "listRevisions runId rows =
     sort_key es_revision (filter (\<lambda>s. es_runId s = runId) (rows_of rows))"

definition latest_spec :: "string \<Rightarrow> spec_rows \<Rightarrow> execution_spec option" where
  "latest_spec runId rows =
     (let rs = listRevisions runId rows in if rs = [] then None else Some (last rs))"

interpretation specs: repository save_spec get_spec spec_key
  by unfold_locales (simp add: save_spec_def get_spec_def)

record checkpoint =
  ck_id :: string
  ck_runId :: string
  ck_nodeId :: string
  ck_strategy :: string
  ck_createdAt :: time
  ck_coordinates :: fields
  ck_summary :: string
  ck_specRevision :: int

definition save_checkpoint :: "checkpoint \<Rightarrow> checkpoint list \<Rightarrow> checkpoint list" where
  "save_checkpoint c rows = rows @ [c]"

definition list_checkpoints :: "string \<Rightarrow> checkpoint list \<Rightarrow> checkpoint list" where
  "list_checkpoints runId rows = sort_key ck_createdAt (filter (\<lambda>c. ck_runId c = runId) rows)"

definition latest_checkpoint :: "string \<Rightarrow> checkpoint list \<Rightarrow> checkpoint option" where
  "latest_checkpoint runId rows =
     (let cs = list_checkpoints runId rows in if cs = [] then None else Some (last cs))"

subsection \<open>Schedules\<close>

record schedule_firing =
  sf_scheduleName :: string
  sf_dueAt :: time
  sf_firedAt :: "time option"
  sf_runId :: "string option"

definition recordFiring :: "schedule_firing \<Rightarrow> schedule_firing list \<Rightarrow> schedule_firing list" where
  "recordFiring f rows = rows @ [f]"

definition lastFiring :: "string \<Rightarrow> schedule_firing list \<Rightarrow> schedule_firing option" where
  "lastFiring name rows =
     (let fs = sort_key sf_dueAt (filter (\<lambda>f. sf_scheduleName f = name) rows) in
      if fs = [] then None else Some (last fs))"

text \<open>The last element of a sorted list is a largest one, and of the equal ones the latest.\<close>

lemma sorted_last: "sorted xs \<Longrightarrow> x \<in> set xs \<Longrightarrow> x \<le> last xs"
  by (induction xs) (auto simp: last_in_set)

lemma last_sort_key:
  assumes "xs \<noteq> []"
  shows "last (sort_key f xs) \<in> set xs" and "\<forall>x \<in> set xs. f x \<le> f (last (sort_key f xs))"
proof -
  show "last (sort_key f xs) \<in> set xs"
    using assms last_in_set [of "sort_key f xs"] by simp
  show "\<forall>x \<in> set xs. f x \<le> f (last (sort_key f xs))"
    using sorted_last [OF sorted_sort_key [of f xs]] assms by (simp add: last_map)
qed

lemma latest_spec_maximal:
  "latest_spec runId rows = Some s \<Longrightarrow>
   s \<in> set (rows_of rows) \<and> es_runId s = runId \<and>
   (\<forall>t \<in> set (rows_of rows). es_runId t = runId \<longrightarrow> es_revision t \<le> es_revision s)"
  using last_sort_key [of "filter (\<lambda>s. es_runId s = runId) (rows_of rows)" es_revision]
  by (auto simp: latest_spec_def listRevisions_def Let_def split: if_splits)

lemma lastFiring_maximal:
  "lastFiring name rows = Some f \<Longrightarrow>
   f \<in> set rows \<and> sf_scheduleName f = name \<and>
   (\<forall>h \<in> set rows. sf_scheduleName h = name \<longrightarrow> sf_dueAt h \<le> sf_dueAt f)"
  using last_sort_key [of "filter (\<lambda>f. sf_scheduleName f = name) rows" sf_dueAt]
  by (auto simp: lastFiring_def Let_def split: if_splits)

subsection \<open>Properties\<close>

text \<open>
  C11. Claims are exclusive and only the holder gives one up: claiming an item succeeds exactly
  when the claimant holds it afterwards, which it does unless another run held it; a release by
  anyone but the holder changes nothing; and other items are not touched.
\<close>

theorem claims_exclusive:
  "(fst (tryClaim w r rows) \<longleftrightarrow> activeClaim w (snd (tryClaim w r rows)) = Some r) \<and>
   activeClaim w (snd (tryClaim w r rows)) =
     (case activeClaim w rows of None \<Rightarrow> Some r | Some q \<Rightarrow> Some q) \<and>
   activeClaim w (release_claim now w q rows) =
     (if activeClaim w rows = Some q then None else activeClaim w rows) \<and>
   (v = w \<or> activeClaim v (snd (tryClaim w r rows)) = activeClaim v rows \<and>
     activeClaim v (release_claim now w q rows) = activeClaim v rows)"
  by (cases "v = w")
    (simp_all add: claims.claim_answer claims.claim_holder claims.release_holder
      claims.claim_frame claims.release_frame)

text \<open>
  The states that a wait store can be in later, as long as the wait \<open>i\<close> is not saved anew: any
  number of calls, in any order, of every operation of the repository that changes it.
\<close>

inductive wait_later :: "string \<Rightarrow> wait_store \<Rightarrow> wait_store \<Rightarrow> bool" for i where
  same: "wait_later i st st"
| saved: "wait_later i st st' \<Longrightarrow> wait_id c \<noteq> i \<Longrightarrow> wait_later i st (save_wait c st')"
| tried: "wait_later i st st' \<Longrightarrow> wait_later i st (snd (trySatisfy j v st'))"
| cancelled: "wait_later i st st' \<Longrightarrow> wait_later i st (cancelForRun r st')"
| supplemented: "wait_later i st st' \<Longrightarrow> wait_later i st (addSupplemental e st')"
| promoted: "wait_later i st st' \<Longrightarrow> wait_later i st (markSupplementalPromoted j t st')"

lemma wait_frames:
  "wait_id c \<noteq> i \<Longrightarrow> get_wait i (save_wait c st) = get_wait i st"
  "get_wait i (addSupplemental e st) = get_wait i st"
  "get_wait i (markSupplementalPromoted j t st) = get_wait i st"
  by (simp_all add: wait_rows.get_save) (simp_all add: addSupplemental_def markSupplementalPromoted_def get_wait_def)

lemma wait_answer_kept:
  "wait_later i st st' \<Longrightarrow> wait_answer i st = Some w \<and> \<not> wait_open i st \<Longrightarrow>
   wait_answer i st' = Some w \<and> \<not> wait_open i st'"
proof (induction rule: wait_later.induct)
  case (tried st st' j v)
  then show ?case using waits.answer_kept(1) by blast
next
  case (cancelled st st' r)
  then show ?case using waits.answer_kept(2) by blast
qed (simp_all add: wait_answer_def wait_open_def wait_frames)

text \<open>
  C10. The first valid response wins a wait: after a \<open>trySatisfy\<close> that answered true, and whatever
  operations of the repository follow, in any number and order, the wait is satisfied by that
  first response and every further \<open>trySatisfy\<close> of it answers false, until a \<open>save\<close> under the id of
  this very wait writes it anew.
\<close>

theorem first_response_final:
  assumes "fst (trySatisfy i w st)" and "wait_later i (snd (trySatisfy i w st)) st'"
  shows "wait_answer i st' = Some w \<and> \<not> wait_open i st' \<and> \<not> fst (trySatisfy i v st')"
  using wait_answer_kept [OF assms(2) waits.answer_stored [OF assms(1)]]
  by (simp add: waits.satisfy_answer)

definition one_wait :: wait_store where
  "one_wait = save_wait \<lparr>wait_id = ''w1'', wait_runId = ''r1'', wait_nodeId = ''ask'',
     wait_kind = WApproval, wait_parameters = [], wait_request = None, wait_status = WaitOpen,
     wait_createdAt = 0, wait_dueAt = None, wait_satisfiedAt = None, wait_satisfaction = None\<rparr>
     \<lparr>ws_conditions = [], ws_supplementals = []\<rparr>"

definition other_wait :: wait_condition where
  "other_wait = \<lparr>wait_id = ''w2'', wait_runId = ''r1'', wait_nodeId = ''ask'',
     wait_kind = WApproval, wait_parameters = [], wait_request = None, wait_status = WaitOpen,
     wait_createdAt = 1, wait_dueAt = None, wait_satisfiedAt = None, wait_satisfaction = None\<rparr>"

definition approval_at :: "time \<Rightarrow> wait_satisfaction" where
  "approval_at t = \<lparr>sat_kind = WApproval, sat_at = t, sat_input = None, sat_event = None\<rparr>"

theorem first_response_final_witness:
  "wait_answer ''w1'' (cancelForRun ''r1'' (snd (trySatisfy ''w1'' (approval_at 9)
     (save_wait other_wait (snd (trySatisfy ''w1'' (approval_at 5) one_wait)))))) = Some (approval_at 5)"
proof -
  have first: "fst (trySatisfy ''w1'' (approval_at 5) one_wait)"
    by (simp add: trySatisfy_def one_wait_def save_wait_def put_row_def)
  have "wait_id other_wait \<noteq> ''w1''" by (simp add: other_wait_def)
  from first_response_final [OF first wait_later.cancelled [OF wait_later.tried [OF wait_later.saved [OF wait_later.same this]]]]
  show ?thesis by blast
qed

end
