(* ===== verification/Snapshots.thy ===== *)
theory Snapshots
  imports Definitions GraphValidate
begin

section \<open>Snapshot resolution\<close>

text \<open>
  \<open>packages/orchestrator/src/graph/snapshot.ts\<close>: the walk that collects every definition a
  workflow refers to and pins one version of each. The documents are read through two parameters,
  \<open>graph_of\<close> (a workflow document as a graph) and \<open>compose_of\<close> (the fragments of an agent
  profile). The recursion over sub-workflows takes fuel; \<open>RecursionLimit\<close> stands for running
  out of it and is proved never to be the answer.
\<close>

datatype snapshot_error =
  DefinitionNotFound definition_kind string "nat option"
| NotEnabled definition_kind string definition_lifecycle
| InvalidWorkflow string nat "graph_issue list"
| ProfileTooDeep string
| RecursionLimit

type_synonym collected = "(definition_key \<times> definition_version) list"

record documents =
  graph_of :: "fields \<Rightarrow> workflow_graph"
  compose_of :: "fields \<Rightarrow> string list"

definition def_key :: "definition_version \<Rightarrow> definition_key" where
  "def_key d = (dv_kind d, dv_name d)"

definition pin :: "definition_version \<Rightarrow> collected \<Rightarrow> collected" where
  "pin d col = AList.update (def_key d) d col"

definition require ::
  "definition_store \<Rightarrow> definition_kind \<Rightarrow> string \<Rightarrow> nat option \<Rightarrow> snapshot_error + definition_version" where
  "require st kind name version =
     (case get_definition kind name version st of
        None \<Rightarrow> Inl (DefinitionNotFound kind name version)
      | Some d \<Rightarrow>
          if version = None \<and> getLifecycle kind name st \<noteq> LcEnabled
          then Inl (NotEnabled kind name (getLifecycle kind name st))
          else Inr d)"

definition collect ::
  "definition_store \<Rightarrow> definition_kind \<Rightarrow> definition_ref \<Rightarrow> collected \<Rightarrow>
   snapshot_error + (definition_version \<times> collected)" where
  "collect st kind ref col =
     (case map_of col (kind, ref_name ref) of
        Some d \<Rightarrow> Inr (d, col)
      | None \<Rightarrow> bindE (require st kind (ref_name ref) (ref_version ref)) (\<lambda>d. Inr (d, pin d col)))"

text \<open>\<open>collectProfile\<close> at depth \<open>11 - n\<close>.\<close>

fun collectProfile ::
  "documents \<Rightarrow> definition_store \<Rightarrow> nat \<Rightarrow> definition_ref \<Rightarrow> collected \<Rightarrow> snapshot_error + collected" where
  "collectProfile docs st 0 ref col = Inl (ProfileTooDeep (ref_name ref))"
| "collectProfile docs st (Suc n) ref col =
     (if map_of col (DkAgentProfile, ref_name ref) \<noteq> None then Inr col
      else bindE (collect st DkAgentProfile ref col) (\<lambda>r.
        foldE (\<lambda>fragment. collectProfile docs st n \<lparr>ref_name = fragment, ref_version = None\<rparr>)
          (compose_of docs (dv_document (fst r))) (snd r)))"

definition profile_ref :: "documents \<Rightarrow> definition_store \<Rightarrow> definition_ref option \<Rightarrow> collected \<Rightarrow>
    snapshot_error + collected" where
  "profile_ref docs st ref col =
     (case ref of None \<Rightarrow> Inr col | Some r \<Rightarrow> collectProfile docs st 11 r col)"

text \<open>\<open>config.rubric ?? { name: experiment.document.rubric ?? '' }\<close>.\<close>

definition rubric_ref :: "experiment_node_config \<Rightarrow> definition_version \<Rightarrow> definition_ref" where
  "rubric_ref c e =
     (case en_rubric c of
        Some r \<Rightarrow> r
      | None \<Rightarrow> \<lparr>ref_name = (case map_of (dv_document e) ''rubric'' of Some (JStr s) \<Rightarrow> s | _ \<Rightarrow> []),
                ref_version = None\<rparr>)"

definition collect_experiment :: "definition_store \<Rightarrow> experiment_node_config \<Rightarrow> collected \<Rightarrow>
    snapshot_error + collected" where
  "collect_experiment st c col =
     bindE (collect st DkExperiment (en_experiment c) col) (\<lambda>r.
       let ref = rubric_ref c (fst r) in
       if ref_name ref = [] then Inr (snd r)
       else bindE (collect st DkRubric ref (snd r)) (\<lambda>q. Inr (snd q)))"

text \<open>The cases of the \<open>switch\<close> over the nodes; \<open>walk_child\<close> is the recursive call.\<close>

definition collect_child ::
  "definition_store \<Rightarrow> (definition_version \<Rightarrow> collected \<Rightarrow> snapshot_error + collected) \<Rightarrow>
   definition_ref \<Rightarrow> collected \<Rightarrow> snapshot_error + collected" where
  "collect_child st walk_child ref col =
     bindE (require st DkWorkflow (ref_name ref) (ref_version ref)) (\<lambda>child. walk_child child col)"

definition collect_node ::
  "documents \<Rightarrow> definition_store \<Rightarrow> (definition_version \<Rightarrow> collected \<Rightarrow> snapshot_error + collected) \<Rightarrow>
   graph_node_config \<Rightarrow> collected \<Rightarrow> snapshot_error + collected" where
  "collect_node docs st walk_child cfg col =
     (case cfg of
        AgentNode a \<Rightarrow> profile_ref docs st (an_profile a) col
      | GateNode a \<Rightarrow>
          bindE (collect st DkGateSet (gn_gateSet a) col) (\<lambda>r.
            profile_ref docs st (gn_remediationProfile a) (snd r))
      | ExperimentNode a \<Rightarrow> collect_experiment st a col
      | SubworkflowNode a \<Rightarrow> collect_child st walk_child (sn_workflow a) col
      | FanOutNode a \<Rightarrow> collect_child st walk_child (fo_workflow a) col
      | _ \<Rightarrow> Inr col)"

fun collectWorkflow ::
  "documents \<Rightarrow> definition_store \<Rightarrow> nat \<Rightarrow> definition_version \<Rightarrow> collected \<Rightarrow> snapshot_error + collected"
where
  "collectWorkflow docs st 0 d col = Inl RecursionLimit"
| "collectWorkflow docs st (Suc n) d col =
     (if map_of col (def_key d) \<noteq> None then Inr col
      else
        let graph = graph_of docs (dv_document d) in
        if validateGraph graph \<noteq> [] then
          Inl (InvalidWorkflow (dv_name d) (dv_version d) (validateGraph graph))
        else
          bindE (profile_ref docs st (graph_defaultProfile graph) (pin d col)) (\<lambda>col1.
          foldE (\<lambda>node. collect_node docs st (\<lambda>child c. collectWorkflow docs st n child c) (node_config node))
            (graph_nodes graph) col1))"

definition resolve_fuel :: "definition_store \<Rightarrow> nat" where
  "resolve_fuel st = length (st_versions st) + 1"

definition resolve ::
  "documents \<Rightarrow> definition_store \<Rightarrow> string \<Rightarrow> time \<Rightarrow> string \<Rightarrow> nat option \<Rightarrow>
   snapshot_error + resolved_snapshot" where
  "resolve docs st snapshotId now rootName rootVersion =
     bindE (require st DkWorkflow rootName rootVersion) (\<lambda>root.
     bindE (collectWorkflow docs st (resolve_fuel st) root []) (\<lambda>col.
     Inr \<lparr>snap_id = snapshotId, snap_root_name = dv_name root, snap_root_version = dv_version root,
          snap_definitions = map snd col, snap_createdAt = now\<rparr>))"

subsection \<open>What it means for a collection to be complete\<close>

definition pins :: "collected \<Rightarrow> definition_kind \<Rightarrow> string \<Rightarrow> bool" where
  "pins col kind name \<longleftrightarrow> map_of col (kind, name) \<noteq> None"

definition pins_ref :: "collected \<Rightarrow> definition_kind \<Rightarrow> definition_ref option \<Rightarrow> bool" where
  "pins_ref col kind ref = (case ref of None \<Rightarrow> True | Some r \<Rightarrow> pins col kind (ref_name r))"

definition node_pinned :: "collected \<Rightarrow> graph_node_config \<Rightarrow> bool" where
  "node_pinned col cfg = (case cfg of
     AgentNode a \<Rightarrow> pins_ref col DkAgentProfile (an_profile a)
   | GateNode a \<Rightarrow> pins col DkGateSet (ref_name (gn_gateSet a)) \<and>
                   pins_ref col DkAgentProfile (gn_remediationProfile a)
   | ExperimentNode a \<Rightarrow>
       (\<exists>e. map_of col (DkExperiment, ref_name (en_experiment a)) = Some e \<and>
          (ref_name (rubric_ref a e) = [] \<or> pins col DkRubric (ref_name (rubric_ref a e))))
   | SubworkflowNode a \<Rightarrow> pins col DkWorkflow (ref_name (sn_workflow a))
   | FanOutNode a \<Rightarrow> pins col DkWorkflow (ref_name (fo_workflow a))
   | _ \<Rightarrow> True)"

definition complete_in :: "documents \<Rightarrow> collected \<Rightarrow> definition_version \<Rightarrow> bool" where
  "complete_in docs col d = (case dv_kind d of
     DkWorkflow \<Rightarrow>
       (let g = graph_of docs (dv_document d) in
        validateGraph g = [] \<and> pins_ref col DkAgentProfile (graph_defaultProfile g) \<and>
        (\<forall>n \<in> set (graph_nodes g). node_pinned col (node_config n)))
   | DkAgentProfile \<Rightarrow> (\<forall>f \<in> set (compose_of docs (dv_document d)). pins col DkAgentProfile f)
   | _ \<Rightarrow> True)"

lemma pins_mono: "map_of col \<subseteq>\<^sub>m map_of col' \<Longrightarrow> pins col k n \<Longrightarrow> pins col' k n"
  by (auto simp: pins_def map_le_def dom_def)

lemma pins_ref_mono: "map_of col \<subseteq>\<^sub>m map_of col' \<Longrightarrow> pins_ref col k r \<Longrightarrow> pins_ref col' k r"
  by (auto simp: pins_ref_def pins_mono split: option.splits)

lemma node_pinned_mono:
  assumes le: "map_of col \<subseteq>\<^sub>m map_of col'" and "node_pinned col cfg"
  shows "node_pinned col' cfg"
proof (cases cfg)
  case (ExperimentNode a)
  with assms(2) obtain e where e: "map_of col (DkExperiment, ref_name (en_experiment a)) = Some e"
    "ref_name (rubric_ref a e) = [] \<or> pins col DkRubric (ref_name (rubric_ref a e))"
    by (auto simp: node_pinned_def)
  have "map_of col' (DkExperiment, ref_name (en_experiment a)) = Some e"
    using le e(1) unfolding map_le_def by (metis domI)
  with e(2) pins_mono [OF le] ExperimentNode show ?thesis by (auto simp: node_pinned_def)
qed (use assms pins_mono [OF le] pins_ref_mono [OF le] in \<open>simp_all add: node_pinned_def\<close>)

lemma complete_in_mono:
  assumes "map_of col \<subseteq>\<^sub>m map_of col'" and "complete_in docs col d"
  shows "complete_in docs col' d"
  using assms pins_mono [OF assms(1)] pins_ref_mono [OF assms(1)] node_pinned_mono [OF assms(1)]
  by (cases "dv_kind d") (simp_all add: complete_in_def Let_def)

text \<open>A collection grown to another: nothing is replaced, and what is new is complete.\<close>

definition pinned_well ::
  "documents \<Rightarrow> definition_store \<Rightarrow> collected \<Rightarrow> definition_key \<Rightarrow> definition_version \<Rightarrow> bool" where
  "pinned_well docs st col k d \<longleftrightarrow>
     def_key d = k \<and> d \<in> set (versions_of st (fst k) (snd k)) \<and> complete_in docs col d"

definition grown :: "documents \<Rightarrow> definition_store \<Rightarrow> collected \<Rightarrow> collected \<Rightarrow> bool" where
  "grown docs st col col' \<longleftrightarrow> map_of col \<subseteq>\<^sub>m map_of col' \<and>
     (distinct (map fst col) \<longrightarrow> distinct (map fst col')) \<and>
     (\<forall>k d. map_of col' k = Some d \<longrightarrow> map_of col k = Some d \<or> pinned_well docs st col' k d)"

lemma grownI:
  "map_of col \<subseteq>\<^sub>m map_of col' \<Longrightarrow>
   (distinct (map fst col) \<Longrightarrow> distinct (map fst col')) \<Longrightarrow>
   (\<And>k d. map_of col' k = Some d \<Longrightarrow> map_of col k \<noteq> Some d \<Longrightarrow> pinned_well docs st col' k d) \<Longrightarrow>
   grown docs st col col'"
  unfolding grown_def by blast

lemma grown_new:
  "grown docs st col col' \<Longrightarrow> map_of col' k = Some d \<Longrightarrow> map_of col k \<noteq> Some d \<Longrightarrow>
   pinned_well docs st col' k d"
  unfolding grown_def by blast

lemma grown_distinct:
  "grown docs st col col' \<Longrightarrow> distinct (map fst col) \<Longrightarrow> distinct (map fst col')"
  unfolding grown_def by blast

lemma grown_le: "grown docs st col col' \<Longrightarrow> map_of col \<subseteq>\<^sub>m map_of col'"
  unfolding grown_def by blast

lemma grown_refl [simp]: "grown docs st col col"
  by (rule grownI) simp_all

lemma pinned_well_mono:
  "map_of col \<subseteq>\<^sub>m map_of col' \<Longrightarrow> pinned_well docs st col k d \<Longrightarrow> pinned_well docs st col' k d"
  unfolding pinned_well_def using complete_in_mono by blast

lemma map_le_Some: "m \<subseteq>\<^sub>m m' \<Longrightarrow> m k = Some v \<Longrightarrow> m' k = Some v"
  unfolding map_le_def by (metis domI)

lemma grown_trans:
  assumes ab: "grown docs st a b" and bc: "grown docs st b c"
  shows "grown docs st a c"
proof (rule grownI)
  show "map_of a \<subseteq>\<^sub>m map_of c" by (rule map_le_trans [OF grown_le [OF ab] grown_le [OF bc]])
  show "distinct (map fst c)" if "distinct (map fst a)"
    using that grown_distinct [OF ab] grown_distinct [OF bc] by blast
  fix k d
  assume d: "map_of c k = Some d" "map_of a k \<noteq> Some d"
  show "pinned_well docs st c k d"
  proof (cases "map_of b k = Some d")
    case True
    from pinned_well_mono [OF grown_le [OF bc] grown_new [OF ab this d(2)]] show ?thesis .
  qed (rule grown_new [OF bc d(1)])
qed

lemma foldE_grown:
  assumes "foldE f xs c = Inr c'"
    and "\<And>x c c'. x \<in> set xs \<Longrightarrow> f x c = Inr c' \<Longrightarrow> grown docs st c c' \<and> P x c'"
    and mono: "\<And>x c c'. map_of c \<subseteq>\<^sub>m map_of c' \<Longrightarrow> P x c \<Longrightarrow> P x c'"
  shows "grown docs st c c' \<and> (\<forall>x \<in> set xs. P x c')"
  using assms(1,2)
proof (induction xs arbitrary: c)
  case (Cons x xs)
  from Cons.prems(1) obtain c1 where c1: "f x c = Inr c1" "foldE f xs c1 = Inr c'"
    by (auto simp: err_simps)
  have first: "grown docs st c c1 \<and> P x c1"
    using Cons.prems(2) [of x c c1] c1(1) by simp
  have rest: "grown docs st c1 c' \<and> (\<forall>x \<in> set xs. P x c')"
    by (rule Cons.IH [OF c1(2)]) (rule Cons.prems(2), simp_all)
  have "P x c'" using mono [OF grown_le] first rest by blast
  with first rest grown_trans show ?case by auto
qed simp

lemma require_version:
  assumes "versions_ok st" and "require st kind name version = Inr d"
  shows "d \<in> set (versions_of st kind name)" "def_key d = (kind, name)"
proof -
  have "get_definition kind name version st = Some d"
    using assms(2) by (auto simp: require_def split: option.splits if_splits)
  then show d: "d \<in> set (versions_of st kind name)"
    by (auto simp: get_definition_def Let_def find_Some_iff split: option.splits if_splits)
  with assms(1) show "def_key d = (kind, name)"
    by (simp add: versions_ok_def def_key_def)
qed

lemma pin_grown:
  assumes key: "def_key d = k" and free: "map_of col k = None"
    and stored: "d \<in> set (versions_of st (fst k) (snd k))"
    and g: "grown docs st (pin d col) col'" and complete: "complete_in docs col' d"
  shows "grown docs st col col'"
proof (rule grownI)
  have le: "map_of (pin d col) \<subseteq>\<^sub>m map_of col'" by (rule grown_le [OF g])
  show "map_of col \<subseteq>\<^sub>m map_of col'"
    using le key free by (auto simp: map_le_def pin_def update_conv' dom_def split: if_splits)
  show "distinct (map fst col')" if "distinct (map fst col)"
    using grown_distinct [OF g] that by (simp add: pin_def distinct_update)
  have at: "map_of col' k = Some d"
    by (rule map_le_Some [OF le]) (simp add: pin_def key)
  fix j e
  assume e: "map_of col' j = Some e" "map_of col j \<noteq> Some e"
  show "pinned_well docs st col' j e"
  proof (cases "j = k")
    case True
    with e at key stored complete show ?thesis by (simp add: pinned_well_def)
  next
    case False
    then have "map_of (pin d col) j \<noteq> Some e"
      using e(2) key by (simp add: pin_def)
    from grown_new [OF g e(1) this] show ?thesis .
  qed
qed

subsection \<open>The walk keeps what it promises\<close>

lemma collect_grown:
  assumes ok: "versions_ok st" and run: "collect st kind ref col = Inr (d, col')"
    and leaf: "kind \<noteq> DkWorkflow" "kind \<noteq> DkAgentProfile"
  shows "grown docs st col col' \<and> map_of col' (kind, ref_name ref) = Some d"
proof (cases "map_of col (kind, ref_name ref)")
  case None
  with run obtain e where e: "require st kind (ref_name ref) (ref_version ref) = Inr e"
    "d = e" "col' = pin e col"
    by (auto simp: collect_def err_simps)
  note at = require_version [OF ok e(1)]
  have k: "dv_kind e = kind" using at(2) by (simp add: def_key_def)
  have "complete_in docs (pin e col) e"
    using leaf k by (cases kind) (simp_all add: complete_in_def)
  with pin_grown [OF at(2) None] at e show ?thesis by (simp add: pin_def)
qed (use run in \<open>simp add: collect_def\<close>)

lemma collectProfile_grown:
  assumes "versions_ok st" and "collectProfile docs st n ref col = Inr col'"
  shows "grown docs st col col' \<and> pins col' DkAgentProfile (ref_name ref)"
  using assms(2)
proof (induction n arbitrary: ref col col')
  case (Suc n)
  show ?case
  proof (cases "map_of col (DkAgentProfile, ref_name ref)")
    case None
    with Suc.prems obtain d where d: "require st DkAgentProfile (ref_name ref) (ref_version ref) = Inr d"
      and loop: "foldE (\<lambda>fragment. collectProfile docs st n \<lparr>ref_name = fragment, ref_version = None\<rparr>)
        (compose_of docs (dv_document d)) (pin d col) = Inr col'"
      by (auto simp: collect_def err_simps)
    note at = require_version [OF assms(1) d]
    have all: "grown docs st (pin d col) col' \<and>
        (\<forall>f \<in> set (compose_of docs (dv_document d)). pins col' DkAgentProfile f)"
      by (rule foldE_grown [OF loop]) (use Suc.IH pins_mono in fastforce)+
    have k: "dv_kind d = DkAgentProfile" using at(2) by (simp add: def_key_def)
    with all have "complete_in docs col' d" by (simp add: complete_in_def)
    with pin_grown [OF at(2) None] at all have "grown docs st col col'" by simp
    moreover have "map_of col' (DkAgentProfile, ref_name ref) = Some d"
      by (rule map_le_Some [OF grown_le]) (use all at in \<open>auto simp: pin_def\<close>)
    ultimately show ?thesis by (simp add: pins_def)
  qed (use Suc.prems in \<open>auto simp: pins_def\<close>)
qed simp

lemma profile_ref_grown:
  assumes "versions_ok st" and "profile_ref docs st ref col = Inr col'"
  shows "grown docs st col col' \<and> pins_ref col' DkAgentProfile ref"
  using assms collectProfile_grown
  by (auto simp: profile_ref_def pins_ref_def split: option.splits)

lemma collect_experiment_grown:
  assumes ok: "versions_ok st" and run: "collect_experiment st c col = Inr col'"
  shows "grown docs st col col' \<and> node_pinned col' (ExperimentNode c)"
proof -
  obtain r where r: "collect st DkExperiment (en_experiment c) col = Inr r"
    "(if ref_name (rubric_ref c (fst r)) = [] then Inr (snd r)
      else bindE (collect st DkRubric (rubric_ref c (fst r)) (snd r)) (\<lambda>q. Inr (snd q))) = Inr col'"
    using run by (auto simp only: collect_experiment_def Let_def err_simps)
  obtain d c1 where pair: "r = (d, c1)" by (cases r)
  note c1 = r(1) [unfolded pair] and rest = r(2) [unfolded pair fst_conv snd_conv]
  note first = collect_grown [OF ok c1, of docs, simplified]
  show ?thesis
  proof (cases "ref_name (rubric_ref c d) = []")
    case True
    with first rest show ?thesis by (auto simp: node_pinned_def)
  next
    case False
    with rest obtain q where q: "collect st DkRubric (rubric_ref c d) c1 = Inr (q, col')"
      by (auto simp: err_simps)
    note second = collect_grown [OF ok q, of docs, simplified]
    have "map_of col' (DkExperiment, ref_name (en_experiment c)) = Some d"
      by (rule map_le_Some [OF grown_le]) (use first second in auto)
    with first second grown_trans show ?thesis
      by (fastforce simp: node_pinned_def pins_def)
  qed
qed

lemma collect_child_grown:
  assumes ok: "versions_ok st" and run: "collect_child st w ref c = Inr c'"
    and walk: "\<And>e c c'. e \<in> set (versions_of st DkWorkflow (dv_name e)) \<Longrightarrow> dv_kind e = DkWorkflow \<Longrightarrow>
      w e c = Inr c' \<Longrightarrow> grown docs st c c' \<and> pins c' DkWorkflow (dv_name e)"
  shows "grown docs st c c' \<and> pins c' DkWorkflow (ref_name ref)"
proof -
  from run obtain e where e: "require st DkWorkflow (ref_name ref) (ref_version ref) = Inr e"
    "w e c = Inr c'"
    by (auto simp: collect_child_def err_simps)
  note at = require_version [OF ok e(1)]
  then have "dv_kind e = DkWorkflow" "dv_name e = ref_name ref"
    by (simp_all add: def_key_def)
  with walk [OF _ _ e(2)] at show ?thesis by simp
qed

lemma collect_node_grown:
  assumes ok: "versions_ok st" and run: "collect_node docs st w cfg c = Inr c'"
    and walk: "\<And>e c c'. e \<in> set (versions_of st DkWorkflow (dv_name e)) \<Longrightarrow> dv_kind e = DkWorkflow \<Longrightarrow>
      w e c = Inr c' \<Longrightarrow> grown docs st c c' \<and> pins c' DkWorkflow (dv_name e)"
  shows "grown docs st c c' \<and> node_pinned c' cfg"
proof (cases cfg)
  case (AgentNode a)
  with run profile_ref_grown [OF ok] show ?thesis by (simp add: collect_node_def node_pinned_def)
next
  case (GateNode a)
  with run obtain r where r: "collect st DkGateSet (gn_gateSet a) c = Inr r"
    "profile_ref docs st (gn_remediationProfile a) (snd r) = Inr c'"
    by (auto simp: collect_node_def err_simps)
  obtain e c1 where pair: "r = (e, c1)" by (cases r)
  note one = collect_grown [OF ok r(1) [unfolded pair], of docs, simplified]
  note two = profile_ref_grown [OF ok r(2) [unfolded pair snd_conv]]
  have "map_of c' (DkGateSet, ref_name (gn_gateSet a)) = Some e"
    by (rule map_le_Some [OF grown_le]) (use one two in auto)
  with one two grown_trans GateNode show ?thesis
    by (fastforce simp: node_pinned_def pins_def)
next
  case (ExperimentNode a)
  with run collect_experiment_grown [OF ok] show ?thesis by (simp add: collect_node_def)
next
  case (SubworkflowNode a)
  with run have "collect_child st w (sn_workflow a) c = Inr c'" by (simp add: collect_node_def)
  then have "grown docs st c c' \<and> pins c' DkWorkflow (ref_name (sn_workflow a))"
    by (rule collect_child_grown [OF ok]) (rule walk)
  with SubworkflowNode show ?thesis by (simp add: node_pinned_def)
next
  case (FanOutNode a)
  with run have "collect_child st w (fo_workflow a) c = Inr c'" by (simp add: collect_node_def)
  then have "grown docs st c c' \<and> pins c' DkWorkflow (ref_name (fo_workflow a))"
    by (rule collect_child_grown [OF ok]) (rule walk)
  with FanOutNode show ?thesis by (simp add: node_pinned_def)
qed (use run in \<open>simp_all add: collect_node_def node_pinned_def\<close>)

lemma collectWorkflow_pins:
  assumes ok: "versions_ok st"
  shows "d \<in> set (versions_of st DkWorkflow (dv_name d)) \<Longrightarrow> dv_kind d = DkWorkflow \<Longrightarrow>
    collectWorkflow docs st n d col = Inr col' \<Longrightarrow>
    (grown docs st col col' \<and> pins col' DkWorkflow (dv_name d)) \<and>
    (map_of col (def_key d) = None \<longrightarrow> map_of col' (def_key d) = Some d)"
proof (induction n arbitrary: d col col')
  case (Suc n)
  show ?case
  proof (cases "map_of col (def_key d)")
    case (Some e)
    with Suc.prems show ?thesis by (simp add: pins_def def_key_def)
  next
    case None
    define g where "g = graph_of docs (dv_document d)"
    obtain col1 where valid: "validateGraph g = []"
      and default: "profile_ref docs st (graph_defaultProfile g) (pin d col) = Inr col1"
      and loop: "foldE (\<lambda>node. collect_node docs st (\<lambda>child c. collectWorkflow docs st n child c)
          (node_config node)) (graph_nodes g) col1 = Inr col'"
      using Suc.prems(3) None
      by (auto simp: g_def Let_def err_simps simp del: foldE.simps split: if_splits)
    have nodes: "grown docs st col1 col' \<and> (\<forall>x \<in> set (graph_nodes g). node_pinned col' (node_config x))"
    proof (rule foldE_grown [OF loop])
      fix x c c'
      assume "collect_node docs st (\<lambda>child c. collectWorkflow docs st n child c) (node_config x) c = Inr c'"
      then show "grown docs st c c' \<and> node_pinned c' (node_config x)"
        by (rule collect_node_grown [OF ok]) (rule Suc.IH [THEN conjunct1])
    qed (rule node_pinned_mono)
    note first = profile_ref_grown [OF ok default]
    have g1: "grown docs st (pin d col) col'" using first nodes grown_trans by blast
    have "complete_in docs col' d"
      using valid Suc.prems(2) nodes pins_ref_mono [OF grown_le] first
      by (auto simp: complete_in_def g_def Let_def)
    with pin_grown [OF refl None _ g1] Suc.prems(1,2) have "grown docs st col col'"
      by (simp add: def_key_def)
    moreover have "map_of col' (def_key d) = Some d"
      by (rule map_le_Some [OF grown_le [OF g1]]) (simp add: pin_def)
    ultimately show ?thesis using Suc.prems(2) by (simp add: pins_def def_key_def)
  qed
qed simp

lemmas collectWorkflow_grown = collectWorkflow_pins [THEN conjunct1]

subsection \<open>The walk ends\<close>

definition free_keys :: "definition_store \<Rightarrow> collected \<Rightarrow> definition_key set" where
  "free_keys st col = {k \<in> fst ` set (st_versions st). map_of col k = None}"

lemma finite_free_keys [simp]: "finite (free_keys st col)"
  by (simp add: free_keys_def)

lemma free_keys_mono:
  assumes "map_of col \<subseteq>\<^sub>m map_of col'"
  shows "free_keys st col' \<subseteq> free_keys st col"
proof
  fix k
  assume "k \<in> free_keys st col'"
  moreover from this have "map_of col k = None"
    using map_le_Some [OF assms, of k] by (cases "map_of col k") (auto simp: free_keys_def)
  ultimately show "k \<in> free_keys st col" by (simp add: free_keys_def)
qed

lemma stored_key:
  assumes "d \<in> set (versions_of st kind name)"
  shows "(kind, name) \<in> fst ` set (st_versions st)"
proof -
  obtain vs where "map_of (st_versions st) (kind, name) = Some vs"
    using assms by (cases "map_of (st_versions st) (kind, name)") (simp_all add: versions_of_def)
  from map_of_SomeD [OF this] show ?thesis by force
qed

lemma free_keys_pin:
  assumes "def_key d \<in> fst ` set (st_versions st)" and "map_of col (def_key d) = None"
    and "map_of (pin d col) \<subseteq>\<^sub>m map_of col'"
  shows "card (free_keys st col') < card (free_keys st col)"
proof (rule psubset_card_mono)
  have "map_of col' (def_key d) = Some d"
    by (rule map_le_Some [OF assms(3)]) (simp add: pin_def)
  then have "def_key d \<notin> free_keys st col'" by (simp add: free_keys_def)
  moreover have "def_key d \<in> free_keys st col" using assms(1,2) by (simp add: free_keys_def)
  moreover have "map_of col \<subseteq>\<^sub>m map_of (pin d col)"
    using assms(2) by (auto simp: map_le_def pin_def)
  ultimately show "free_keys st col' \<subset> free_keys st col"
    using free_keys_mono [OF map_le_trans [OF _ assms(3)]] by blast
qed simp

text \<open>Only the recursion over workflows takes fuel of its own.\<close>

lemma require_limit [simp]: "require st kind name version \<noteq> Inl RecursionLimit"
  by (auto simp: require_def split: option.splits)

lemma collect_limit [simp]: "collect st kind ref col \<noteq> Inl RecursionLimit"
  by (auto simp: collect_def err_simps split: option.splits)

lemma collect_experiment_limit [simp]: "collect_experiment st c col \<noteq> Inl RecursionLimit"
  by (auto simp: collect_experiment_def Let_def err_simps)

lemma foldE_no_limit:
  assumes "I c"
    and "\<And>x c. x \<in> set xs \<Longrightarrow> I c \<Longrightarrow> f x c \<noteq> Inl RecursionLimit"
    and "\<And>x c c'. x \<in> set xs \<Longrightarrow> I c \<Longrightarrow> f x c = Inr c' \<Longrightarrow> I c'"
  shows "foldE f xs c \<noteq> Inl RecursionLimit"
  using assms
proof (induction xs arbitrary: c)
  case (Cons x xs)
  have "foldE f xs c1 \<noteq> Inl RecursionLimit" if "f x c = Inr c1" for c1
  proof (rule Cons.IH)
    show "I c1" using Cons.prems(1) Cons.prems(3) [of x c c1] that by simp
  next
    fix y c c'
    assume "y \<in> set xs" "I c"
    then show "f y c \<noteq> Inl RecursionLimit" using Cons.prems(2) by simp
    assume "f y c = Inr c'"
    with \<open>y \<in> set xs\<close> \<open>I c\<close> show "I c'" using Cons.prems(3) [of y c c'] by simp
  qed
  with Cons.prems(1) Cons.prems(2) [of x c] show ?case by (cases "f x c") simp_all
qed simp

lemma collectProfile_limit [simp]: "collectProfile docs st n ref col \<noteq> Inl RecursionLimit"
proof (induction n arbitrary: ref col)
  case (Suc n)
  have "foldE (\<lambda>fragment. collectProfile docs st n \<lparr>ref_name = fragment, ref_version = None\<rparr>) xs c
      \<noteq> Inl RecursionLimit" for xs c
    by (rule foldE_no_limit [where I = "\<lambda>_. True"]) (simp_all add: Suc.IH)
  then show ?case by (auto simp: err_simps)
qed simp

lemma profile_ref_limit [simp]: "profile_ref docs st ref col \<noteq> Inl RecursionLimit"
  by (auto simp: profile_ref_def split: option.splits)

lemma collect_child_limit:
  "collect_child st w ref c = Inl RecursionLimit \<Longrightarrow>
   \<exists>e. require st DkWorkflow (ref_name ref) (ref_version ref) = Inr e \<and> w e c = Inl RecursionLimit"
  by (auto simp: collect_child_def err_simps)

lemma collect_node_limit:
  assumes "collect_node docs st w cfg c = Inl RecursionLimit"
  shows "\<exists>(ref :: definition_ref) e. require st DkWorkflow (ref_name ref) (ref_version ref) = Inr e \<and>
    w e c = Inl RecursionLimit"
proof -
  have "\<exists>ref. collect_child st w ref c = Inl RecursionLimit"
    using assms by (cases cfg) (auto simp: collect_node_def err_simps)
  with collect_child_limit show ?thesis by blast
qed

lemma collectWorkflow_no_limit:
  assumes ok: "versions_ok st"
  shows "d \<in> set (versions_of st DkWorkflow (dv_name d)) \<Longrightarrow> dv_kind d = DkWorkflow \<Longrightarrow>
    card (free_keys st col) < n \<Longrightarrow> collectWorkflow docs st n d col \<noteq> Inl RecursionLimit"
proof (induction n arbitrary: d col)
  case (Suc n)
  let ?body = "\<lambda>node. collect_node docs st (\<lambda>child c. collectWorkflow docs st n child c) (node_config node)"
  have loop: "foldE ?body ns col1 \<noteq> Inl RecursionLimit"
    if new: "map_of col (def_key d) = None" and le: "map_of (pin d col) \<subseteq>\<^sub>m map_of col1" for ns col1
  proof (rule foldE_no_limit [where I = "\<lambda>c. map_of (pin d col) \<subseteq>\<^sub>m map_of c"])
    fix x c
    assume c: "map_of (pin d col) \<subseteq>\<^sub>m map_of c"
    have "def_key d \<in> fst ` set (st_versions st)"
      using stored_key [OF Suc.prems(1)] Suc.prems(2) by (simp add: def_key_def)
    then have less: "card (free_keys st c) < n"
      using free_keys_pin [OF _ new c] Suc.prems(3) by fastforce
    show "?body x c \<noteq> Inl RecursionLimit"
    proof
      assume "?body x c = Inl RecursionLimit"
      from collect_node_limit [OF this] obtain ref :: definition_ref and e
        where e: "require st DkWorkflow (ref_name ref) (ref_version ref) = Inr e"
          "collectWorkflow docs st n e c = Inl RecursionLimit" by blast
      note at = require_version [OF ok e(1)]
      then have "dv_kind e = DkWorkflow" "dv_name e = ref_name ref"
        by (simp_all add: def_key_def)
      with Suc.IH [of e c] at less e(2) show False by simp
    qed
    fix c'
    assume "?body x c = Inr c'"
    from collect_node_grown [OF ok this] have "grown docs st c c'"
      using collectWorkflow_grown [OF ok] by simp
    from map_le_trans [OF c grown_le [OF this]] show "map_of (pin d col) \<subseteq>\<^sub>m map_of c'" .
  qed (rule le)
  have "map_of (pin d col) \<subseteq>\<^sub>m map_of col1"
    if "profile_ref docs st r (pin d col) = Inr col1" for r col1
    using profile_ref_grown [OF ok that] grown_le by blast
  with loop show ?case by (auto simp: Let_def err_simps simp del: foldE.simps)
qed simp

lemma free_keys_bound: "card (free_keys st col) < resolve_fuel st"
proof -
  have "card (free_keys st col) \<le> card (fst ` set (st_versions st))"
    by (rule card_mono) (auto simp: free_keys_def)
  also have "\<dots> \<le> length (st_versions st)"
    using card_image_le [OF finite_set] card_length le_trans by blast
  finally show ?thesis by (simp add: resolve_fuel_def)
qed

lemma resolve_walk:
  assumes ok: "versions_ok st" and run: "resolve docs st i now name ver = Inr snap"
  obtains d col where "require st DkWorkflow name ver = Inr d"
    "snap_definitions snap = map snd col" "grown docs st [] col" "map_of col (def_key d) = Some d"
    "snap_root_name snap = dv_name d" "snap_root_version snap = dv_version d"
proof -
  from run obtain d col where d: "require st DkWorkflow name ver = Inr d"
    and col: "collectWorkflow docs st (resolve_fuel st) d [] = Inr col"
    and snap: "snap = \<lparr>snap_id = i, snap_root_name = dv_name d, snap_root_version = dv_version d,
      snap_definitions = map snd col, snap_createdAt = now\<rparr>"
    by (auto simp: resolve_def err_simps)
  note at = require_version [OF ok d]
  then have "dv_kind d = DkWorkflow" "dv_name d = name" by (simp_all add: def_key_def)
  with at(1) have stored: "d \<in> set (versions_of st DkWorkflow (dv_name d))" "dv_kind d = DkWorkflow"
    by simp_all
  note pinned = collectWorkflow_pins [OF ok stored col]
  have g: "grown docs st [] col" using pinned by blast
  have c: "map_of col (def_key d) = Some d" by (rule pinned [THEN conjunct2, rule_format]) simp
  show thesis
    by (rule that [OF d _ g c]; simp only: snap resolved_snapshot.simps)
qed

lemma find_unique:
  assumes "x \<in> set xs" and "P x" and only: "\<And>y. y \<in> set xs \<Longrightarrow> P y \<Longrightarrow> y = x"
  shows "List.find P xs = Some x"
proof (cases "List.find P xs")
  case None
  with assms(1,2) show ?thesis by (auto simp: find_None_iff)
next
  case (Some y)
  then have "y \<in> set xs" "P y" by (auto simp: find_Some_iff)
  from only [OF this] Some show ?thesis by simp
qed

text \<open>The collection as it reads back from the list of definitions of a snapshot.\<close>

definition pinned_map :: "resolved_snapshot \<Rightarrow> collected" where
  "pinned_map snap = map (\<lambda>d. (def_key d, d)) (snap_definitions snap)"

lemma collected_from_values:
  assumes "grown docs st [] col"
  shows "map (\<lambda>d. (def_key d, d)) (map snd col) = col \<and> distinct (map fst col) \<and>
    (\<forall>d \<in> set (map snd col). d \<in> set (versions_of st (dv_kind d) (dv_name d)) \<and> complete_in docs col d)"
proof -
  have distinct: "distinct (map fst col)" using grown_distinct [OF assms] by simp
  have well: "pinned_well docs st col k d" if "(k, d) \<in> set col" for k d
    using grown_new [OF assms map_of_is_SomeI [OF distinct that]] by simp
  have "map (\<lambda>p. (def_key (snd p), snd p)) col = col"
  proof (rule map_idI)
    fix p
    assume "p \<in> set col"
    then show "(def_key (snd p), snd p) = p"
      using well [of "fst p" "snd p"] by (simp add: pinned_well_def prod_eq_iff)
  qed
  then have "map (\<lambda>d. (def_key d, d)) (map snd col) = col" by (simp add: o_def)
  moreover have "d \<in> set (versions_of st (dv_kind d) (dv_name d)) \<and> complete_in docs col d"
    if "(k, d) \<in> set col" for k d
    using well [OF that] by (auto simp: pinned_well_def def_key_def)
  ultimately show ?thesis using distinct by auto
qed

lemma collected_keys:
  assumes "grown docs st [] col"
  shows "map def_key (map snd col) = map fst col \<and> inj_on def_key (set (map snd col))"
proof -
  note all = collected_from_values [OF assms]
  have keys: "map def_key (map snd col) = map fst col"
    using arg_cong [OF all [THEN conjunct1], of "map fst"] by (simp add: o_def)
  then have "distinct (map def_key (map snd col))" using all by (simp only:)
  with keys show ?thesis by (metis distinct_map)
qed

text \<open>
  C12. Resolution always ends with an answer: the walk of the workflows a root refers to, cyclic
  references included, never exhausts its recursion, and a snapshot it yields is closed. Each
  definition it pins is a stored version, is the only one pinned under its kind and name, and
  what a workflow or a profile refers to by kind and name (profiles and the fragments they compose,
  gate sets, experiments and their rubrics, sub-workflows) is pinned as well, but not the sets that a
  gate set extends; every pinned workflow has
  passed validation, and the root is pinned in the version the lookup gave.
\<close>

theorem resolve_closed:
  assumes ok: "versions_ok st"
  shows "resolve docs st i now name ver \<noteq> Inl RecursionLimit \<and>
    (\<forall>snap. resolve docs st i now name ver = Inr snap \<longrightarrow>
       distinct (map def_key (snap_definitions snap)) \<and>
       (\<forall>d \<in> set (snap_definitions snap). d \<in> set (versions_of st (dv_kind d) (dv_name d)) \<and>
          complete_in docs (pinned_map snap) d) \<and>
       findInSnapshot snap DkWorkflow name (Some (snap_root_version snap)) =
         get_definition DkWorkflow name ver st)"
proof (intro conjI allI impI)
  show "resolve docs st i now name ver \<noteq> Inl RecursionLimit"
  proof
    assume "resolve docs st i now name ver = Inl RecursionLimit"
    then obtain d where d: "require st DkWorkflow name ver = Inr d"
      "collectWorkflow docs st (resolve_fuel st) d [] = Inl RecursionLimit"
      by (auto simp: resolve_def err_simps)
    note at = require_version [OF ok d(1)]
    then have "dv_kind d = DkWorkflow" "dv_name d = name" by (simp_all add: def_key_def)
    with collectWorkflow_no_limit [OF ok _ _ free_keys_bound] at d(2) show False by simp
  qed
  fix snap
  assume "resolve docs st i now name ver = Inr snap"
  from resolve_walk [OF ok this] obtain d col where d: "require st DkWorkflow name ver = Inr d"
    and snap: "snap_definitions snap = map snd col" "snap_root_version snap = dv_version d"
    and g: "grown docs st [] col" and col: "map_of col (def_key d) = Some d" by metis
  note all = collected_from_values [OF g]
  then have pm: "pinned_map snap = col" by (simp add: pinned_map_def snap)
  have keys: "map def_key (snap_definitions snap) = map fst col"
    and inj: "inj_on def_key (set (snap_definitions snap))"
    using collected_keys [OF g] by (simp_all only: snap)
  with all show "distinct (map def_key (snap_definitions snap))" by simp
  show "\<forall>d \<in> set (snap_definitions snap). d \<in> set (versions_of st (dv_kind d) (dv_name d)) \<and>
          complete_in docs (pinned_map snap) d"
    using all by (simp add: pm snap)
  note at = require_version [OF ok d]
  have "d \<in> set (snap_definitions snap)"
    using map_of_SomeD [OF col] by (force simp: snap)
  moreover have "e = d" if "e \<in> set (snap_definitions snap)" "dv_kind e = DkWorkflow" "dv_name e = name" for e
  proof -
    have "def_key e = def_key d" using that at(2) by (simp add: def_key_def)
    from inj_onD [OF inj this] that(1) \<open>d \<in> set (snap_definitions snap)\<close> show ?thesis by blast
  qed
  moreover have "dv_kind d = DkWorkflow \<and> dv_name d = name \<and> dv_version d = snap_root_version snap"
    using at(2) snap(2) by (simp add: def_key_def)
  ultimately have "findInSnapshot snap DkWorkflow name (Some (snap_root_version snap)) = Some d"
    unfolding findInSnapshot_def option.case by (intro find_unique) blast+
  also have "\<dots> = get_definition DkWorkflow name ver st"
    using d by (auto simp: require_def split: option.splits if_splits)
  finally show "findInSnapshot snap DkWorkflow name (Some (snap_root_version snap)) =
      get_definition DkWorkflow name ver st" .
qed

text \<open>
  A snapshot pins one version per kind and name: when a workflow refers to two versions of
  the same definition, the version that is not pinned is not in the snapshot, so the node that
  refers to it cannot be resolved from it.
\<close>

theorem one_version_per_name:
  assumes ok: "versions_ok st" and run: "resolve docs st i now name ver = Inr snap"
    and found: "findInSnapshot snap kind n (Some v) = Some d" and other: "v' \<noteq> v"
  shows "findInSnapshot snap kind n (Some v') = None"
proof -
  obtain col where snap: "snap_definitions snap = map snd col" and g: "grown docs st [] col"
    using resolve_walk [OF ok run] by metis
  have inj: "inj_on def_key (set (snap_definitions snap))"
    using collected_keys [OF g] by (simp only: snap)
  have d: "d \<in> set (snap_definitions snap)" "dv_kind d = kind" "dv_name d = n" "dv_version d = v"
    using found by (auto simp: findInSnapshot_def find_Some_iff)
  have False if "e \<in> set (snap_definitions snap)" "dv_kind e = kind" "dv_name e = n" "dv_version e = v'" for e
    using inj_onD [OF inj _ that(1) d(1)] that d other by (auto simp: def_key_def)
  then show ?thesis
    unfolding findInSnapshot_def option.case find_None_iff by blast
qed

subsection \<open>A store to resolve in\<close>

text \<open>A workflow whose two nodes call two versions of one sub-workflow.\<close>

definition simple_graph :: "string \<Rightarrow> graph_node list \<Rightarrow> graph_transition list \<Rightarrow> workflow_graph" where
  "simple_graph entry nodes ts = \<lparr>
     graph_name = ''g'', graph_description = None, graph_entry = entry, graph_nodes = nodes,
     graph_transitions = ts, graph_domainStates = None, graph_projection = None,
     graph_trigger = None, graph_eligibility = None, graph_defaultProfile = None,
     graph_variables = None, graph_workspace = None\<rparr>"

definition plain_node :: "string \<Rightarrow> graph_node_config \<Rightarrow> graph_node" where
  "plain_node i cfg = \<lparr>node_id = i, node_config = cfg, node_join = None, node_guards = None,
     onEnter = None, onExit = None, node_retry = None\<rparr>"

definition plain_edge :: "string \<Rightarrow> string \<Rightarrow> string \<Rightarrow> graph_transition" where
  "plain_edge i a b = \<lparr>tr_id = i, tr_from = a, tr_to = b, tr_condition = None, loopBound = None,
     tr_effects = None\<rparr>"

definition child_call :: "nat \<Rightarrow> graph_node_config" where
  "child_call v = SubworkflowNode
     \<lparr>sn_workflow = \<lparr>ref_name = ''child'', ref_version = Some v\<rparr>, sn_inputs = None\<rparr>"

definition two_calls :: documents where
  "two_calls = \<lparr>
     graph_of = (\<lambda>doc. if doc = [] then
         simple_graph ''a''
           [plain_node ''a'' (child_call 1), plain_node ''b'' (child_call 2),
            plain_node ''end'' (TerminalNode OutCompleted)]
           [plain_edge ''ab'' ''a'' ''b'', plain_edge ''be'' ''b'' ''end'']
       else simple_graph ''end'' [plain_node ''end'' (TerminalNode OutCompleted)] []),
     compose_of = (\<lambda>_. [])\<rparr>"

definition two_versions :: definition_store where
  "two_versions =
     (let save = (\<lambda>name doc st. snd (save_definition (\<lambda>d. concat (map fst d)) 0 DkWorkflow name doc st)) in
      setLifecycle DkWorkflow ''parent'' LcEnabled
        (save ''parent'' [] (save ''child'' [(''y'', JNull)] (save ''child'' [(''x'', JNull)] empty_definitions))))"

lemma two_versions_ok: "versions_ok two_versions"
proof -
  have "versions_ok empty_definitions" by (simp add: versions_ok_def versions_of_def empty_definitions_def)
  then show ?thesis by (simp add: two_versions_def Let_def save_keeps_ok)
qed

lemma two_calls_resolved:
  "map (\<lambda>d. (dv_name d, dv_version d)) (case resolve two_calls two_versions ''s'' 0 ''parent'' None of
     Inr snap \<Rightarrow> snap_definitions snap | Inl _ \<Rightarrow> []) = [(''parent'', 1), (''child'', 1)]"
  by code_simp

lemma two_calls_lookup:
  "(case resolve two_calls two_versions ''s'' 0 ''parent'' None of
     Inr snap \<Rightarrow> (findInSnapshot snap DkWorkflow ''child'' (Some 1) \<noteq> None) | Inl _ \<Rightarrow> False)"
  by code_simp

theorem resolve_closed_witness:
  "resolve two_calls two_versions ''s'' 0 ''parent'' None \<noteq> Inl RecursionLimit"
  using resolve_closed [OF two_versions_ok] by blast

theorem one_version_per_name_witness:
  "\<exists>snap. resolve two_calls two_versions ''s'' 0 ''parent'' None = Inr snap \<and>
     findInSnapshot snap DkWorkflow ''child'' (Some 2) = None"
proof -
  obtain snap d where "resolve two_calls two_versions ''s'' 0 ''parent'' None = Inr snap"
    "findInSnapshot snap DkWorkflow ''child'' (Some 1) = Some d"
    using two_calls_lookup by (auto split: sum.splits)
  then show ?thesis
    using one_version_per_name [OF two_versions_ok, where v = 1 and v' = 2 and n = "''child''"] by fastforce
qed

end
