(* ===== verification/Text.thy ===== *)
theory Text
  imports Prelude
begin

section \<open>Searching and trimming strings\<close>

text \<open>
  \<open>s.indexOf(p)\<close> and \<open>s.lastIndexOf(p)\<close> for a string \<open>p\<close> (\<open>None\<close> for \<open>-1\<close>),
  \<open>s.slice\<close>, \<open>s.trim()\<close> and \<open>s.toLowerCase()\<close>, with the facts on concatenations that the
  components that splice texts share.
\<close>

fun str_index :: "string \<Rightarrow> string \<Rightarrow> nat option" where
  "str_index p [] = (if p = [] then Some 0 else None)"
| "str_index p (c # cs) =
     (if starts_with (c # cs) p then Some 0 else map_option Suc (str_index p cs))"

fun str_last_index :: "string \<Rightarrow> string \<Rightarrow> nat option" where
  "str_last_index p [] = (if p = [] then Some 0 else None)"
| "str_last_index p (c # cs) =
     (case str_last_index p cs of
        Some k \<Rightarrow> Some (Suc k)
      | None \<Rightarrow> if starts_with (c # cs) p then Some 0 else None)"

definition slice :: "nat \<Rightarrow> nat \<Rightarrow> string \<Rightarrow> string" where
  "slice a b s = take (b - a) (drop a s)"

definition trim :: "string \<Rightarrow> string" where
  "trim s = rev (dropWhile is_space (rev (dropWhile is_space s)))"

text \<open>\<open>toLowerCase\<close> on code units below 256 (the letters of ASCII and of Latin-1).\<close>

definition lower_char :: "char \<Rightarrow> char" where
  "lower_char c =
     (let n = (of_char c :: nat) in
      if is_upper c \<or> (192 \<le> n \<and> n \<le> 222 \<and> n \<noteq> 215) then char_of (n + 32) else c)"

definition to_lower :: "string \<Rightarrow> string" where
  "to_lower s = map lower_char s"

subsection \<open>Where a text occurs\<close>

lemma str_index_Some:
  "str_index p s = Some k \<Longrightarrow> s = take k s @ p @ drop (k + length p) s \<and> k + length p \<le> length s"
proof (induction p s arbitrary: k rule: str_index.induct)
  case (2 p c cs)
  show ?case
  proof (cases "starts_with (c # cs) p")
    case True
    then obtain t where "c # cs = p @ t" by (auto simp: starts_with_iff)
    moreover from True 2(2) have "k = 0" by simp
    ultimately show ?thesis by simp
  next
    case False
    with 2(2) obtain j where "str_index p cs = Some j" "k = Suc j" by auto
    with 2(1) [OF False, of j] show ?thesis by simp
  qed
qed (auto split: if_splits)

lemma starts_with_take:
  "starts_with (take n s) p \<Longrightarrow> starts_with s p"
  by (metis append.assoc append_take_drop_id starts_with_iff)

lemma str_index_take:
  "str_index p s = Some k \<Longrightarrow> j \<le> k \<Longrightarrow> p \<noteq> [] \<Longrightarrow> str_index p (take j s) = None"
proof (induction p s arbitrary: k j rule: str_index.induct)
  case (2 p c cs)
  show ?case
  proof (cases j)
    case (Suc i)
    with "2.prems" obtain k' where "k = Suc k'" "str_index p cs = Some k'" "\<not> starts_with (c # cs) p"
      by (cases k) (auto split: if_splits)
    moreover have "\<not> starts_with (c # take i cs) p"
      using starts_with_take [of "Suc i" "c # cs" p] calculation(3) by auto
    ultimately show ?thesis using "2.IH" [of k' i] "2.prems" Suc by simp
  qed (use "2.prems" in simp)
qed (auto split: if_splits)

text \<open>
  A text cannot contain a character that is not its own, and one that starts with a character it
  does not repeat cannot run across that character: searches split there.
\<close>

lemma starts_with_barrier:
  "y \<notin> set p \<Longrightarrow> starts_with (u @ y # w) p = starts_with u p"
  by (induction u p rule: starts_with.induct) auto

lemma starts_with_lone:
  "x \<notin> set p \<Longrightarrow> u \<noteq> [] \<Longrightarrow> starts_with (u @ x # w) (x # p) = starts_with u (x # p)"
  by (cases u) (auto simp: starts_with_barrier)

lemma str_index_barrier:
  assumes "y \<notin> set p" and "p \<noteq> []"
  shows "str_index p (u @ y # w) =
    (case str_index p u of
       Some k \<Rightarrow> Some k
     | None \<Rightarrow> map_option (\<lambda>k. Suc (length u + k)) (str_index p w))"
proof (induction u)
  case Nil
  have "\<not> starts_with (y # w) p" using assms by (cases p) auto
  then show ?case using assms(2) by simp
next
  case (Cons c u)
  have "starts_with (c # u @ y # w) p = starts_with (c # u) p"
    using starts_with_barrier [OF assms(1), of "c # u" w] by simp
  then show ?case using Cons by (simp add: option.map_comp o_def split: option.splits)
qed

lemma str_index_lone:
  assumes "x \<notin> set p"
  shows "str_index (x # p) (u @ x # w) =
    (case str_index (x # p) u of
       Some k \<Rightarrow> Some k
     | None \<Rightarrow> map_option (\<lambda>k. length u + k) (str_index (x # p) (x # w)))"
proof (induction u)
  case Nil
  have "map_option ((+) 0) r = (r :: nat option)" for r by (cases r) auto
  then show ?case by (simp del: str_index.simps(2))
next
  case (Cons c u)
  have "starts_with (c # u @ x # w) (x # p) = starts_with (c # u) (x # p)"
    using starts_with_lone [OF assms, of "c # u" w] by simp
  then show ?case using Cons
    by (simp add: option.map_comp o_def split: option.splits del: starts_with.simps)
qed

text \<open>A marker starts with a character it does not repeat.\<close>

definition is_marker :: "string \<Rightarrow> bool" where
  "is_marker p \<longleftrightarrow> p \<noteq> [] \<and> hd p \<notin> set (tl p)"

lemma is_markerE:
  assumes "is_marker p"
  obtains x q where "p = x # q" "x \<notin> set q"
  using assms by (cases p) (auto simp: is_marker_def)

lemma str_index_self [simp]: "str_index p (p @ s) = Some 0"
proof (cases "p @ s")
  case (Cons c cs)
  then have "starts_with (c # cs) p" unfolding starts_with_iff by metis
  with Cons show ?thesis by simp
qed simp

text \<open>A search that finds nothing before a marker goes on at it, the marker's own ends there.\<close>

lemma str_index_past:
  assumes "is_marker p" and "q \<noteq> []" and "hd q = hd p" and "str_index p u = None"
  shows "str_index p (u @ q @ s) = map_option (\<lambda>k. length u + k) (str_index p (q @ s))"
proof -
  obtain x p' where p: "p = x # p'" "x \<notin> set p'" using assms(1) by (rule is_markerE)
  moreover obtain q' where "q = x # q'" using assms(2,3) p(1) by (cases q) auto
  ultimately show ?thesis using str_index_lone [OF p(2), of u "q' @ s"] assms(4) by simp
qed

lemma str_index_marker:
  "is_marker p \<Longrightarrow> str_index p u = None \<Longrightarrow> str_index p (u @ p @ s) = Some (length u)"
  using str_index_past [of p p u s] by (auto simp: is_marker_def)

lemma str_index_skip:
  "x \<notin> set q \<Longrightarrow> str_index (x # p) (q @ s) = map_option (\<lambda>k. length q + k) (str_index (x # p) s)"
  by (induction q; cases "str_index (x # p) s") auto

text \<open>A search passes over another marker.\<close>

lemma str_index_past_marker:
  assumes "is_marker p" and "is_marker q" and "hd p = hd q" and "\<not> starts_with (q @ s) p"
    and "str_index p u = None"
  shows "str_index p (u @ q @ s) = map_option (\<lambda>k. length u + length q + k) (str_index p s)"
proof -
  obtain x p' where p: "p = x # p'" using assms(1) by (rule is_markerE)
  obtain y q' where q: "q = y # q'" "y \<notin> set q'" using assms(2) by (rule is_markerE)
  have "str_index p (q @ s) = map_option (\<lambda>k. length q + k) (str_index p s)"
    using assms(3,4) str_index_skip [of y q' p' s] q
    by (cases "str_index p s") (auto simp: p)
  with str_index_past [OF assms(1) _ _ assms(5), of q s] assms(3) q(1) show ?thesis
    by (simp add: option.map_comp o_def add.assoc)
qed

text \<open>A text without an occurrence has none in its parts.\<close>

lemma starts_with_append: "starts_with s p \<Longrightarrow> starts_with (s @ t) p"
  unfolding starts_with_iff by auto

lemma str_index_append_None:
  "p \<noteq> [] \<Longrightarrow> str_index p (u @ v) = None \<Longrightarrow> str_index p u = None \<and> str_index p v = None"
proof (induction u)
  case (Cons c u)
  have "\<not> starts_with (c # u) p"
    using Cons.prems starts_with_append [of "c # u" p v] by (auto split: if_splits)
  with Cons show ?case by (auto split: if_splits)
qed simp

lemma str_last_index_None: "str_last_index p s = None \<longleftrightarrow> str_index p s = None"
  by (induction p s rule: str_index.induct) (auto split: option.splits)

lemma str_last_index_append:
  "str_last_index p v = Some k \<Longrightarrow> str_last_index p (u @ v) = Some (length u + k)"
  by (induction u) auto

lemma str_index_part:
  "p \<noteq> [] \<Longrightarrow> str_index p m \<noteq> None \<Longrightarrow> str_index p (u @ m @ v) \<noteq> None"
  using str_index_append_None [of p u "m @ v"] str_index_append_None [of p m v] by argo

text \<open>The last occurrence of a marker is the one after which there is none.\<close>

lemma str_last_index_marker:
  assumes "is_marker p" and "str_index p s = None"
  shows "str_last_index p (u @ p @ s) = Some (length u)"
proof -
  obtain x q where p: "p = x # q" "x \<notin> set q" using assms(1) by (rule is_markerE)
  have "str_last_index p (q @ s) = None"
    using str_index_skip [OF p(2)] assms(2) p(1) by (simp add: str_last_index_None)
  moreover have "starts_with (p @ s) p" by (auto simp: starts_with_iff)
  ultimately have "str_last_index p (p @ s) = Some 0" by (simp add: p(1))
  from str_last_index_append [OF this] show ?thesis by simp
qed

lemma str_last_index_later:
  assumes "str_index p s \<noteq> None"
  obtains k where "str_last_index p (u @ s) = Some k" "length u \<le> k"
proof -
  obtain j where "str_last_index p s = Some j"
    using assms str_last_index_None [of p s] by (cases "str_last_index p s") auto
  from str_last_index_append [OF this, of u] show thesis by (rule that) simp
qed

subsection \<open>Trimming\<close>

lemma trim_split: "\<exists>a b. s = a @ trim s @ b \<and> (\<forall>c \<in> set a \<union> set b. is_space c)"
proof -
  let ?t = "dropWhile is_space s"
  have "s = takeWhile is_space s @ ?t" by simp
  moreover have "?t = trim s @ rev (takeWhile is_space (rev ?t))"
    unfolding trim_def by (metis rev_append rev_rev_ident takeWhile_dropWhile_id)
  moreover have "\<forall>c \<in> set (takeWhile is_space s) \<union> set (rev (takeWhile is_space (rev ?t))). is_space c"
    by (auto dest: set_takeWhileD)
  ultimately show ?thesis by metis
qed

lemma trim_space_left: "is_space c \<Longrightarrow> trim (c # s) = trim s"
  by (simp add: trim_def)

lemma trim_space_right: "is_space c \<Longrightarrow> trim (s @ [c]) = trim s"
proof (induction s)
  case (Cons d s)
  then show ?case by (cases "is_space d") (simp_all add: trim_def)
qed (simp add: trim_def)

lemma hd_dropWhile_not: "dropWhile P s \<noteq> [] \<Longrightarrow> \<not> P (hd (dropWhile P s))"
  by (rule hd_dropWhile)

lemma trim_idem [simp]: "trim (trim s) = trim s"
proof -
  have last: "trim s \<noteq> [] \<Longrightarrow> \<not> is_space (last (trim s))"
    unfolding trim_def by (simp add: last_rev hd_dropWhile)
  have first: "trim s \<noteq> [] \<Longrightarrow> \<not> is_space (hd (trim s))"
  proof -
    assume "trim s \<noteq> []"
    obtain b where b: "dropWhile is_space s = trim s @ b"
      unfolding trim_def by (metis rev_append rev_rev_ident takeWhile_dropWhile_id)
    with \<open>trim s \<noteq> []\<close> have "hd (trim s) = hd (dropWhile is_space s)" "dropWhile is_space s \<noteq> []"
      by simp_all
    then show ?thesis using hd_dropWhile by metis
  qed
  show ?thesis
  proof (cases "trim s")
    case (Cons c cs)
    have "dropWhile is_space (trim s) = trim s" using first Cons by simp
    moreover have "dropWhile is_space (rev (trim s)) = rev (trim s)"
      using last by (cases "rev (trim s)") (auto simp: last_rev simp flip: hd_rev)
    ultimately show ?thesis by (subst trim_def) simp
  next
    case Nil
    then show ?thesis by (simp only: Nil) (simp add: trim_def)
  qed
qed

end
