(* ===== verification/ManagedSection.thy ===== *)
theory ManagedSection
  imports Text Stores
begin

section \<open>The managed section of a work item\<close>

text \<open>
  \<open>upsertManagedSection\<close> and \<open>readManagedSection\<close> of \<open>packages/core/src/checkpoints.ts\<close>
  and the checkpoint strategy built on them,
  \<open>packages/checkpoints/src/work-item-section-strategy.ts\<close>. The work provider is the tracker's
  own record of the item: \<open>updateDescription\<close> replaces its body and \<open>getDescription\<close>
  returns it. SHA-256, the random id and the ISO timestamp are parameters.
\<close>

definition MANAGED_SECTION_BEGIN :: string where
  "MANAGED_SECTION_BEGIN = ''<!-- overture:managed:begin -->''"

definition MANAGED_SECTION_END :: string where
  "MANAGED_SECTION_END = ''<!-- overture:managed:end -->''"

record upsert_result =
  up_body :: string
  up_applied :: bool
  up_reason :: "string option"

definition managed_section :: "string \<Rightarrow> string" where
  "managed_section managedContent =
     MANAGED_SECTION_BEGIN @ CHR 0x0A # trim managedContent @ CHR 0x0A # MANAGED_SECTION_END"

definition refused :: "string \<Rightarrow> string \<Rightarrow> upsert_result" where
  "refused body reason = \<lparr>up_body = body, up_applied = False, up_reason = Some reason\<rparr>"

definition spliced :: "string \<Rightarrow> upsert_result" where
  "spliced body = \<lparr>up_body = body, up_applied = True, up_reason = None\<rparr>"

definition upsertManagedSection :: "string \<Rightarrow> string \<Rightarrow> upsert_result" where
  "upsertManagedSection body managedContent =
     (let section' = managed_section managedContent in
      case (str_index MANAGED_SECTION_BEGIN body, str_index MANAGED_SECTION_END body) of
        (None, None) \<Rightarrow>
          spliced (body @ (if trim body \<noteq> [] then [CHR 0x0A, CHR 0x0A] else []) @ section')
      | (Some begin', Some end') \<Rightarrow>
          if end' < begin' then
            refused body ''managed-section delimiters are damaged; refusing to modify the body''
          else if str_last_index MANAGED_SECTION_BEGIN body \<noteq> Some begin' \<or>
                  str_last_index MANAGED_SECTION_END body \<noteq> Some end' then
            refused body ''managed-section delimiters are duplicated; refusing to modify the body''
          else
            spliced (slice 0 begin' body @ section' @
              drop (end' + length MANAGED_SECTION_END) body)
      | _ \<Rightarrow> refused body ''managed-section delimiters are damaged; refusing to modify the body'')"

definition readManagedSection :: "string \<Rightarrow> string option" where
  "readManagedSection body =
     (case (str_index MANAGED_SECTION_BEGIN body, str_index MANAGED_SECTION_END body) of
        (Some begin', Some end') \<Rightarrow>
          if end' < begin' then None
          else Some (trim (slice (begin' + length MANAGED_SECTION_BEGIN) end' body))
      | _ \<Rightarrow> None)"

subsection \<open>What a splice looks like\<close>

lemmas marker_defs = MANAGED_SECTION_BEGIN_def MANAGED_SECTION_END_def

lemma markers [simp]:
  "is_marker MANAGED_SECTION_BEGIN" "is_marker MANAGED_SECTION_END"
  "hd MANAGED_SECTION_BEGIN = hd MANAGED_SECTION_END"
  "MANAGED_SECTION_BEGIN \<noteq> []" "MANAGED_SECTION_END \<noteq> []"
  "CHR 0x0A \<notin> set MANAGED_SECTION_BEGIN" "CHR 0x0A \<notin> set MANAGED_SECTION_END"
  by (simp_all add: is_marker_def marker_defs)

lemma marker_free_begin [simp]:
  "str_index MANAGED_SECTION_END MANAGED_SECTION_BEGIN = None"
  by (simp add: marker_defs)

text \<open>Content that holds no marker is found again between the markers of a section.\<close>

definition marker_free :: "string \<Rightarrow> bool" where
  "marker_free s \<longleftrightarrow> str_index MANAGED_SECTION_BEGIN s = None \<and> str_index MANAGED_SECTION_END s = None"

lemma end_in_section:
  assumes "str_index MANAGED_SECTION_END t = None"
  shows "str_index MANAGED_SECTION_END
      (MANAGED_SECTION_BEGIN @ CHR 0x0A # t @ CHR 0x0A # MANAGED_SECTION_END @ s) =
    Some (length MANAGED_SECTION_BEGIN + length t + 2)"
  using assms by (simp add: str_index_barrier)

lemma read_spliced:
  assumes "str_index MANAGED_SECTION_BEGIN u = None" and "str_index MANAGED_SECTION_END u = None"
    and "str_index MANAGED_SECTION_END (trim c) = None"
  shows "readManagedSection (u @ managed_section c @ s) = Some (trim c)"
proof -
  let ?t = "CHR 0x0A # trim c @ [CHR 0x0A]"
  let ?b = "u @ MANAGED_SECTION_BEGIN @ ?t @ MANAGED_SECTION_END @ s"
  have body: "u @ managed_section c @ s = ?b" by (simp add: managed_section_def)
  have b: "str_index MANAGED_SECTION_BEGIN ?b = Some (length u)"
    by (rule str_index_marker) (simp_all add: assms(1))
  have e: "str_index MANAGED_SECTION_END ?b =
      Some (length u + length MANAGED_SECTION_BEGIN + length ?t)"
    using end_in_section [OF assms(3), of s]
    by (subst str_index_past) (simp_all add: assms(2))
  have "trim ?t = trim c"
    by (simp add: trim_space_left trim_space_right is_space_def)
  moreover have "slice (length u + length MANAGED_SECTION_BEGIN)
      (length u + length MANAGED_SECTION_BEGIN + length ?t) ?b = ?t"
    by (simp add: slice_def)
  ultimately show ?thesis
    unfolding body readManagedSection_def b e by simp
qed

subsection \<open>Which bodies are accepted\<close>

text \<open>One intact section: a single pair of markers, in order.\<close>

definition intact :: "string \<Rightarrow> string \<Rightarrow> string \<Rightarrow> string \<Rightarrow> bool" where
  "intact body u m v \<longleftrightarrow> body = u @ MANAGED_SECTION_BEGIN @ m @ MANAGED_SECTION_END @ v \<and>
     marker_free u \<and> marker_free m \<and> marker_free v"

lemma not_the_other [simp]:
  "\<not> starts_with (MANAGED_SECTION_END @ s) MANAGED_SECTION_BEGIN"
  "\<not> starts_with (MANAGED_SECTION_BEGIN @ s) MANAGED_SECTION_END"
  by (simp_all add: marker_defs)

lemmas pass_end = str_index_past_marker [OF markers(1,2) markers(3) not_the_other(1)]
lemmas pass_begin = str_index_past_marker [OF markers(2,1) markers(3) [symmetric] not_the_other(2)]

lemma intact_indices:
  assumes "intact body u m v"
  shows "str_index MANAGED_SECTION_BEGIN body = Some (length u)"
    and "str_index MANAGED_SECTION_END body =
      Some (length u + length MANAGED_SECTION_BEGIN + length m)"
    and "str_last_index MANAGED_SECTION_BEGIN body = Some (length u)"
    and "str_last_index MANAGED_SECTION_END body =
      Some (length u + length MANAGED_SECTION_BEGIN + length m)"
proof -
  have body: "body = u @ MANAGED_SECTION_BEGIN @ m @ MANAGED_SECTION_END @ v"
    and free: "marker_free u" "marker_free m" "marker_free v"
    using assms by (simp_all add: intact_def)
  show "str_index MANAGED_SECTION_BEGIN body = Some (length u)"
    unfolding body by (rule str_index_marker) (use free in \<open>simp_all add: marker_free_def\<close>)
  show "str_index MANAGED_SECTION_END body =
      Some (length u + length MANAGED_SECTION_BEGIN + length m)"
    unfolding body using free by (simp add: pass_begin str_index_marker marker_free_def)
  show "str_last_index MANAGED_SECTION_BEGIN body = Some (length u)"
    unfolding body
    by (rule str_last_index_marker) (use free in \<open>simp_all add: pass_end marker_free_def\<close>)
  show "str_last_index MANAGED_SECTION_END body =
      Some (length u + length MANAGED_SECTION_BEGIN + length m)"
    using str_last_index_marker [of MANAGED_SECTION_END v "u @ MANAGED_SECTION_BEGIN @ m"] free
    by (simp add: body marker_free_def)
qed

lemma intact_accepted:
  assumes "intact body u m v"
  shows "upsertManagedSection body c = spliced (u @ managed_section c @ v)"
  using intact_indices [OF assms] assms
  by (simp add: upsertManagedSection_def slice_def intact_def)

lemma accepted_intact:
  assumes "up_applied (upsertManagedSection body c)" and "\<not> marker_free body"
  shows "\<exists>u m v. intact body u m v"
proof -
  obtain b e where b: "str_index MANAGED_SECTION_BEGIN body = Some b"
    and e: "str_index MANAGED_SECTION_END body = Some e" and le: "b \<le> e"
    and once: "str_last_index MANAGED_SECTION_BEGIN body = Some b"
      "str_last_index MANAGED_SECTION_END body = Some e"
    using assms by (auto simp: upsertManagedSection_def marker_free_def refused_def Let_def
        split: option.splits if_splits)
  define u where "u = take b body"
  define w where "w = drop (b + length MANAGED_SECTION_BEGIN) body"
  have body: "body = u @ MANAGED_SECTION_BEGIN @ w"
    using str_index_Some [OF b] by (simp add: u_def w_def)
  have len: "length u = b" using str_index_Some [OF b] by (simp add: u_def)
  have u: "marker_free u"
    using str_index_take [OF b] str_index_take [OF e le] by (simp add: marker_free_def u_def)
  then have "str_index MANAGED_SECTION_END w \<noteq> None"
    using e by (auto simp: body pass_begin marker_free_def)
  then obtain i where i: "str_index MANAGED_SECTION_END w = Some i" by auto
  define m where "m = take i w"
  define v where "v = drop (i + length MANAGED_SECTION_END) w"
  have w: "w = m @ MANAGED_SECTION_END @ v" and len': "length m = i"
    using str_index_Some [OF i] by (simp_all add: m_def v_def)
  have m: "str_index MANAGED_SECTION_END m = None"
    using str_index_take [OF i] by (simp add: m_def)
  have e': "e = length u + length MANAGED_SECTION_BEGIN + length m"
    using e i u by (simp add: body pass_begin marker_free_def len')
  have "str_index MANAGED_SECTION_END v = None"
  proof (rule ccontr)
    assume "str_index MANAGED_SECTION_END v \<noteq> None"
    from str_last_index_later [OF this, of "u @ MANAGED_SECTION_BEGIN @ m @ MANAGED_SECTION_END"]
    show False using once(2) by (auto simp: body w e' marker_defs)
  qed
  moreover have "str_index MANAGED_SECTION_BEGIN w = None"
  proof (rule ccontr)
    assume "str_index MANAGED_SECTION_BEGIN w \<noteq> None"
    from str_last_index_later [OF this, of "u @ MANAGED_SECTION_BEGIN"]
    show False using once(1) by (auto simp: body len marker_defs)
  qed
  then have "str_index MANAGED_SECTION_BEGIN m = None \<and> str_index MANAGED_SECTION_BEGIN v = None"
    using str_index_append_None [of MANAGED_SECTION_BEGIN m "MANAGED_SECTION_END @ v"]
      str_index_append_None [of MANAGED_SECTION_BEGIN MANAGED_SECTION_END v] by (simp add: w)
  ultimately have "intact body u m v"
    using u m by (simp add: intact_def marker_free_def body w)
  then show ?thesis by blast
qed

definition separator :: "string \<Rightarrow> string" where
  "separator body = (if trim body \<noteq> [] then [CHR 0x0A, CHR 0x0A] else [])"

lemma marker_free_accepted:
  "marker_free body \<Longrightarrow>
   upsertManagedSection body c = spliced ((body @ separator body) @ managed_section c)"
  by (simp add: upsertManagedSection_def marker_free_def separator_def)

lemma marker_free_separated:
  "marker_free body \<Longrightarrow> marker_free (body @ separator body)"
  using str_index_barrier [of "CHR 0x0A" MANAGED_SECTION_BEGIN body "[CHR 0x0A]"]
    str_index_barrier [of "CHR 0x0A" MANAGED_SECTION_END body "[CHR 0x0A]"]
  by (auto simp: marker_free_def separator_def marker_defs)

lemma refused_unchanged:
  "\<not> up_applied (upsertManagedSection body c) \<Longrightarrow>
   up_body (upsertManagedSection body c) = body \<and> up_reason (upsertManagedSection body c) \<noteq> None"
  by (auto simp: upsertManagedSection_def refused_def spliced_def Let_def
      split: option.splits if_splits)

text \<open>An accepted update: what stands before and after the section, and is kept.\<close>

lemma accepted_splice:
  assumes "up_applied (upsertManagedSection body c)"
  obtains u v where "up_body (upsertManagedSection body c) = u @ managed_section c @ v"
    "marker_free u" "marker_free v"
proof (cases "marker_free body")
  case True
  have "marker_free []" by (simp add: marker_free_def)
  with True marker_free_separated [OF True] show thesis
    by (intro that [of "body @ separator body" "[]"]) (simp_all add: marker_free_accepted spliced_def)
next
  case False
  then obtain u m v where i: "intact body u m v" using accepted_intact [OF assms] by blast
  then have "marker_free u" "marker_free v" by (simp_all add: intact_def)
  with intact_accepted [OF i, of c] show thesis by (intro that [of u v]) (simp_all add: spliced_def)
qed

lemma section_intact:
  assumes "marker_free u" and "marker_free v" and "marker_free (trim c)"
  shows "intact (u @ managed_section c @ v) u (CHR 0x0A # trim c @ [CHR 0x0A]) v"
proof -
  have "marker_free (CHR 0x0A # trim c @ [CHR 0x0A])"
    using assms(3) str_index_barrier [of "CHR 0x0A" MANAGED_SECTION_BEGIN "trim c" "[]"]
      str_index_barrier [of "CHR 0x0A" MANAGED_SECTION_END "trim c" "[]"]
    by (auto simp: marker_free_def) (simp_all add: marker_defs)
  with assms show ?thesis by (simp add: intact_def managed_section_def)
qed

text \<open>
  C16. Human text survives: an update of a body without markers appends a section; of a body
  with one pair of markers in order and no other it replaces what stands between them and keeps
  every character before and after; any other body is refused, left alone, with a reason.
\<close>

theorem upsert_preserves_human_text:
  "let r = upsertManagedSection body c in
   (marker_free body \<longrightarrow> r = spliced (body @ separator body @ managed_section c)) \<and>
   (\<forall>u m v. intact body u m v \<longrightarrow> r = spliced (u @ managed_section c @ v)) \<and>
   (\<not> marker_free body \<and> (\<nexists>u m v. intact body u m v) \<longrightarrow>
      \<not> up_applied r \<and> up_body r = body \<and> up_reason r \<noteq> None)"
  using marker_free_accepted [of body c] intact_accepted [of body _ _ _ c]
    accepted_intact [of body c] refused_unchanged [of body c]
  by (cases "up_applied (upsertManagedSection body c)") (auto simp: Let_def)

theorem upsert_preserves_human_text_witness:
  "upsertManagedSection ''Human'' ''Status'' = spliced (''Human'' @ [CHR 0x0A, CHR 0x0A] @ managed_section ''Status'')"
proof -
  have "marker_free ''Human''" by (simp add: marker_free_def marker_defs)
  with upsert_preserves_human_text [of "''Human''" "''Status''"] show ?thesis
    by (simp add: Let_def separator_def trim_def is_space_def)
qed

text \<open>Content without markers reads back, and the section stays updatable.\<close>

lemma section_roundtrip:
  assumes "up_applied (upsertManagedSection body c)" and "marker_free (trim c)"
  shows "readManagedSection (up_body (upsertManagedSection body c)) = Some (trim c) \<and>
    up_applied (upsertManagedSection (up_body (upsertManagedSection body c)) c')"
proof -
  obtain u v where uv: "up_body (upsertManagedSection body c) = u @ managed_section c @ v"
    "marker_free u" "marker_free v" by (rule accepted_splice [OF assms(1)])
  then show ?thesis
    using read_spliced [of u c v] intact_accepted [OF section_intact [OF uv(2,3) assms(2)], of c'] assms(2)
    by (simp add: marker_free_def spliced_def)
qed

lemma repeated_refused:
  "str_index MANAGED_SECTION_BEGIN w = Some a \<Longrightarrow> str_last_index MANAGED_SECTION_BEGIN w = Some k \<Longrightarrow>
   a \<noteq> k \<Longrightarrow> \<not> up_applied (upsertManagedSection w c)"
  by (simp add: upsertManagedSection_def refused_def Let_def split: option.splits)

text \<open>
  Content that holds a begin marker locks the item: the update that writes it is accepted,
  and every later update of the resulting body is refused.
\<close>

theorem marker_in_content_blocks:
  assumes "up_applied (upsertManagedSection body c)"
    and "str_index MANAGED_SECTION_BEGIN (trim c) \<noteq> None"
  shows "\<not> up_applied (upsertManagedSection (up_body (upsertManagedSection body c)) c')"
proof -
  obtain u v where uv: "up_body (upsertManagedSection body c) = u @ managed_section c @ v"
    "marker_free u" "marker_free v" by (rule accepted_splice [OF assms(1)])
  let ?rest = "CHR 0x0A # trim c @ CHR 0x0A # MANAGED_SECTION_END @ v"
  have body: "u @ managed_section c @ v = u @ MANAGED_SECTION_BEGIN @ ?rest"
    by (simp add: managed_section_def)
  have "str_index MANAGED_SECTION_BEGIN ?rest \<noteq> None"
    using str_index_part [OF markers(4) assms(2), of "[CHR 0x0A]" "CHR 0x0A # MANAGED_SECTION_END @ v"]
    by (simp only: append.simps not_False_eq_True)
  from str_last_index_later [OF this, of "u @ MANAGED_SECTION_BEGIN"] obtain k
    where k: "str_last_index MANAGED_SECTION_BEGIN (u @ MANAGED_SECTION_BEGIN @ ?rest) = Some k"
      "length (u @ MANAGED_SECTION_BEGIN) \<le> k" by auto
  have first: "str_index MANAGED_SECTION_BEGIN (u @ MANAGED_SECTION_BEGIN @ ?rest) = Some (length u)"
    by (rule str_index_marker) (use uv in \<open>simp_all add: marker_free_def\<close>)
  have "length u \<noteq> k" using k(2) by (simp add: marker_defs)
  then show ?thesis
    unfolding uv(1) body by (rule repeated_refused [OF first k(1)])
qed

theorem marker_in_content_blocks_witness:
  "\<not> up_applied (upsertManagedSection (up_body (upsertManagedSection ''Human'' MANAGED_SECTION_BEGIN)) ''ok'')"
proof (rule marker_in_content_blocks)
  show "up_applied (upsertManagedSection ''Human'' MANAGED_SECTION_BEGIN)" by code_simp
  show "str_index MANAGED_SECTION_BEGIN (trim MANAGED_SECTION_BEGIN) \<noteq> None" by code_simp
qed

subsection \<open>The checkpoint strategy\<close>

record checkpoint_context =
  cx_runId :: string
  cx_nodeId :: string
  cx_specRevision :: int
  cx_workspacePath :: "string option"
  cx_branch :: "string option"
  cx_workItemId :: "string option"
  cx_summary :: string

text \<open>
  The item at its provider: its body, the copy of it the resolved item carries, which of the two
  optional operations the provider has, and the comments posted on it.
\<close>

record hosted_item =
  hi_provider :: string
  hi_body :: string
  hi_description :: "string option"
  hi_can_get :: bool
  hi_can_update :: bool
  hi_comments :: "string list"

record checkpoint_env =
  ce_uuid :: string
  ce_now :: time
  ce_iso :: "time \<Rightarrow> string"
  ce_sha256 :: "string \<Rightarrow> string"

datatype checkpoint_error =
  NoWorkItemId | WorkItemNotFound string | NoDescriptionUpdates string | MissingCoordinate string

type_synonym hosted_items = "(string \<times> hosted_item) list"

definition resolve_item :: "hosted_items \<Rightarrow> string \<Rightarrow> checkpoint_error + hosted_item" where
  "resolve_item items i = (case map_of items i of None \<Rightarrow> Inl (WorkItemNotFound i) | Some h \<Rightarrow> Inr h)"

definition fetchBody :: "hosted_item \<Rightarrow> string" where
  "fetchBody h =
     (if hi_can_get h then hi_body h else case hi_description h of None \<Rightarrow> [] | Some d \<Rightarrow> d)"

definition renderStatusBlock :: "(time \<Rightarrow> string) \<Rightarrow> checkpoint_context \<Rightarrow> time \<Rightarrow> string" where
  "renderStatusBlock toISO cx now = join_with [CHR 0x0A]
     [''### Overture checkpoint'', [], trim (cx_summary cx), [],
      ''- Spec revision: '' @ show_int (cx_specRevision cx),
      ''- Updated: '' @ toISO now, ''- run: '' @ cx_runId cx]"

definition checkpoint_base :: "checkpoint_env \<Rightarrow> checkpoint_context \<Rightarrow> fields \<Rightarrow> checkpoint" where
  "checkpoint_base env cx coordinates =
     \<lparr>ck_id = ''cp-'' @ ce_uuid env, ck_runId = cx_runId cx, ck_nodeId = cx_nodeId cx,
      ck_strategy = ''work-item-section'', ck_createdAt = ce_now env, ck_coordinates = coordinates,
      ck_summary = cx_summary cx, ck_specRevision = cx_specRevision cx\<rparr>"

definition refusal_comment :: "string \<Rightarrow> checkpoint_context \<Rightarrow> string" where
  "refusal_comment reason cx =
     ''Overture checkpoint: could not update this item's description ('' @ reason @
     ''). Latest status: '' @ cx_summary cx"

definition take_checkpoint ::
  "checkpoint_env \<Rightarrow> checkpoint_context \<Rightarrow> hosted_items \<Rightarrow>
   checkpoint_error + (checkpoint \<times> hosted_items)" where
  "take_checkpoint env cx items =
     (case cx_workItemId cx of
        None \<Rightarrow> Inl NoWorkItemId
      | Some i \<Rightarrow>
          if i = [] then Inl NoWorkItemId
          else bindE (resolve_item items i) (\<lambda>h.
            if \<not> hi_can_update h then Inl (NoDescriptionUpdates (hi_provider h))
            else
              let content = renderStatusBlock (ce_iso env) cx (ce_now env);
                  r = upsertManagedSection (fetchBody h) content in
              if \<not> up_applied r then
                let reason = (case up_reason r of None \<Rightarrow> ''managed-section delimiters are damaged''
                              | Some x \<Rightarrow> x) in
                Inr (checkpoint_base env cx
                       [(''workItemId'', JStr i), (''applied'', JBool False), (''reason'', JStr reason)],
                     AList.update i (h\<lparr>hi_comments := hi_comments h @ [refusal_comment reason cx]\<rparr>) items)
              else
                Inr (checkpoint_base env cx
                       [(''workItemId'', JStr i), (''contentHash'', JStr (ce_sha256 env content)),
                        (''applied'', JBool True)],
                     AList.update i (h\<lparr>hi_body := up_body r\<rparr>) items)))"

definition restore_checkpoint :: "hosted_items \<Rightarrow> checkpoint \<Rightarrow> checkpoint_error + string option" where
  "restore_checkpoint items cp =
     (case map_of (ck_coordinates cp) ''workItemId'' of
        Some (JStr i) \<Rightarrow>
          if i = [] then Inl (MissingCoordinate (ck_id cp))
          else bindE (resolve_item items i) (\<lambda>h. Inr (readManagedSection (fetchBody h)))
      | _ \<Rightarrow> Inl (MissingCoordinate (ck_id cp)))"

text \<open>
  C17. A checkpoint restores under three conditions: the write was applied (the managed section
  of the item was not damaged), every item is on a provider that serves its live description, and
  the status block, with the whitespace around it removed, holds no marker of a managed section.
  Then restoring the checkpoint returns that status block; no other item is touched and no comment
  is posted. A summary with a marker in it is not covered: the block is cut off at the marker.
\<close>

theorem checkpoint_restores:
  assumes run: "take_checkpoint env cx items = Inr (cp, items')"
    and applied: "map_of (ck_coordinates cp) ''applied'' = Some (JBool True)"
    and live: "\<forall>h \<in> snd ` set items. hi_can_get h"
    and clean: "marker_free (trim (renderStatusBlock (ce_iso env) cx (ce_now env)))"
  shows "restore_checkpoint items' cp =
      Inr (Some (trim (renderStatusBlock (ce_iso env) cx (ce_now env)))) \<and>
    (\<forall>j. Some j \<noteq> cx_workItemId cx \<longrightarrow> map_of items' j = map_of items j) \<and>
    map_option hi_comments \<circ> map_of items' = map_option hi_comments \<circ> map_of items"
proof -
  let ?c = "renderStatusBlock (ce_iso env) cx (ce_now env)"
  from run applied obtain i h where i: "cx_workItemId cx = Some i" "i \<noteq> []"
    and h: "map_of items i = Some h"
    and r: "up_applied (upsertManagedSection (fetchBody h) ?c)"
    and cp: "map_of (ck_coordinates cp) ''workItemId'' = Some (JStr i)"
    and items': "items' = AList.update i (h\<lparr>hi_body := up_body (upsertManagedSection (fetchBody h) ?c)\<rparr>) items"
    by (auto simp: take_checkpoint_def resolve_item_def checkpoint_base_def Let_def
        split: option.splits if_splits)
  have "hi_can_get h" using live map_of_SomeD [OF h] by force
  with section_roundtrip [OF r clean] i cp h show ?thesis
    by (auto simp: restore_checkpoint_def resolve_item_def items' fetchBody_def fun_eq_iff update_conv')
qed

definition example_env :: checkpoint_env where
  "example_env = \<lparr>ce_uuid = ''1'', ce_now = 0, ce_iso = (\<lambda>_. ''1970''), ce_sha256 = (\<lambda>_. ''h'')\<rparr>"

definition example_context :: checkpoint_context where
  "example_context = \<lparr>cx_runId = ''run-1'', cx_nodeId = ''n'', cx_specRevision = 2,
     cx_workspacePath = None, cx_branch = None, cx_workItemId = Some ''gh:1'', cx_summary = ''Half done''\<rparr>"

definition example_items :: hosted_items where
  "example_items = [(''gh:1'', \<lparr>hi_provider = ''github'', hi_body = ''Human'', hi_description = None,
     hi_can_get = True, hi_can_update = True, hi_comments = []\<rparr>)]"

lemma example_checkpoint:
  "take_checkpoint example_env example_context example_items =
     Inr (projr (take_checkpoint example_env example_context example_items)) \<and>
   map_of (ck_coordinates (fst (projr (take_checkpoint example_env example_context example_items)))) ''applied'' =
     Some (JBool True)"
  by code_simp

theorem checkpoint_restores_witness:
  "restore_checkpoint (snd (projr (take_checkpoint example_env example_context example_items)))
     (fst (projr (take_checkpoint example_env example_context example_items))) =
   Inr (Some (trim (renderStatusBlock (\<lambda>_. ''1970'') example_context 0)))"
proof -
  let ?r = "projr (take_checkpoint example_env example_context example_items)"
  have run: "take_checkpoint example_env example_context example_items = Inr (fst ?r, snd ?r)"
    using example_checkpoint by simp
  have clean: "marker_free (trim (renderStatusBlock (ce_iso example_env) example_context (ce_now example_env)))"
    by code_simp
  have "\<forall>h \<in> snd ` set example_items. hi_can_get h" by (simp add: example_items_def)
  from checkpoint_restores [OF run _ this clean] example_checkpoint show ?thesis
    by (simp add: example_env_def)
qed

end
