(* ===== verification/Policy.thy ===== *)
theory Policy
  imports Prelude
begin

section \<open>Permissions\<close>

text \<open>
  \<open>packages/core/src/permissions.ts\<close> and the rule engine and approval gateways of
  \<open>packages/policy/src\<close>. A target pattern is compiled to a regular expression; here it is
  compiled to the list of its atoms, with the matching of JavaScript's regular expressions:
  \<open>.\<close> is any character but a line terminator and \<open>[^/]\<close> any but a slash.
\<close>

datatype permission_capability =
  FilesystemRead | FilesystemWrite | ProcessExecute | NetworkConnect | GitRead | GitWrite
| IssueRead | IssueWrite | SecretRead | BrowserUse | ComputerUse | ContainerUse

datatype policy_effect = Allow | Deny | Ask | SandboxOnly

record permission_request =
  pr_capability :: permission_capability
  pr_target :: "string option"
  pr_runId :: "string option"
  pr_toolName :: "string option"

record policy_decision =
  pd_effect :: policy_effect
  pd_reason :: "string option"
  pd_ruleId :: "string option"

record permission_rule =
  rule_id :: string
  rule_capability :: permission_capability
  rule_target :: "string option"
  rule_effect :: policy_effect

subsection \<open>Target patterns\<close>

datatype regexp_atom = AnyRun | SegmentRun | Literal char

fun globToRegExp :: "string \<Rightarrow> regexp_atom list" where
  "globToRegExp [] = []"
| "globToRegExp [c] = [if c = CHR ''*'' then SegmentRun else Literal c]"
| "globToRegExp (c # d # cs) =
     (if c = CHR ''*'' then
        if d = CHR ''*'' then AnyRun # globToRegExp cs
        else SegmentRun # globToRegExp (d # cs)
      else Literal c # globToRegExp (d # cs))"

definition line_terminator :: "char \<Rightarrow> bool" where
  "line_terminator c \<longleftrightarrow> c = CHR 0x0A \<or> c = CHR 0x0D"

fun regexp_test :: "regexp_atom list \<Rightarrow> string \<Rightarrow> bool" where
  "regexp_test [] s = (s = [])"
| "regexp_test (Literal c # as) s = (case s of [] \<Rightarrow> False | d # ds \<Rightarrow> d = c \<and> regexp_test as ds)"
| "regexp_test (AnyRun # as) s =
     (regexp_test as s \<or>
      (case s of [] \<Rightarrow> False | d # ds \<Rightarrow> \<not> line_terminator d \<and> regexp_test (AnyRun # as) ds))"
| "regexp_test (SegmentRun # as) s =
     (regexp_test as s \<or>
      (case s of [] \<Rightarrow> False | d # ds \<Rightarrow> d \<noteq> CHR ''/'' \<and> regexp_test (SegmentRun # as) ds))"

subsection \<open>The rule engine\<close>

record compiled_rule =
  cr_id :: string
  cr_capability :: permission_capability
  cr_matcher :: "regexp_atom list option"
  cr_effect :: policy_effect

definition compileRule :: "permission_rule \<Rightarrow> compiled_rule" where
  "compileRule r = \<lparr>cr_id = rule_id r, cr_capability = rule_capability r,
     cr_matcher = map_option globToRegExp (rule_target r), cr_effect = rule_effect r\<rparr>"

record policy_engine =
  pe_rules :: "compiled_rule list"
  pe_defaultEffect :: policy_effect

definition new_policy_engine :: "permission_rule list \<Rightarrow> policy_effect option \<Rightarrow> policy_engine" where
  "new_policy_engine rules defaultEffect =
     \<lparr>pe_rules = map compileRule rules,
      pe_defaultEffect = (case defaultEffect of None \<Rightarrow> Deny | Some e \<Rightarrow> e)\<rparr>"

fun evaluate_rules :: "policy_effect \<Rightarrow> permission_request \<Rightarrow> compiled_rule list \<Rightarrow> policy_decision" where
  "evaluate_rules d q [] =
     \<lparr>pd_effect = d, pd_reason = Some ''no matching rule'', pd_ruleId = None\<rparr>"
| "evaluate_rules d q (r # rs) =
     (if cr_capability r \<noteq> pr_capability q then evaluate_rules d q rs
      else if (case cr_matcher r of
                 None \<Rightarrow> False
               | Some m \<Rightarrow> \<not> regexp_test m (case pr_target q of None \<Rightarrow> [] | Some t \<Rightarrow> t))
      then evaluate_rules d q rs
      else \<lparr>pd_effect = cr_effect r, pd_reason = Some (''rule '' @ cr_id r), pd_ruleId = Some (cr_id r)\<rparr>)"

definition evaluate_policy :: "policy_engine \<Rightarrow> permission_request \<Rightarrow> policy_decision" where
  "evaluate_policy e q = evaluate_rules (pe_defaultEffect e) q (pe_rules e)"

definition simple_rule :: "string \<Rightarrow> permission_capability \<Rightarrow> permission_rule" where
  "simple_rule i c = \<lparr>rule_id = i, rule_capability = c, rule_target = None, rule_effect = Allow\<rparr>"

definition workspaceCodingRules :: "permission_rule list" where
  "workspaceCodingRules =
     [simple_rule ''fs-read'' FilesystemRead, simple_rule ''fs-write'' FilesystemWrite,
      simple_rule ''exec'' ProcessExecute, simple_rule ''git-read'' GitRead,
      simple_rule ''git-write'' GitWrite, simple_rule ''issue-read'' IssueRead,
      simple_rule ''issue-write'' IssueWrite]"

subsection \<open>Approval gateways\<close>

text \<open>
  The headless gateway records what it denies. The callback gateway races the answer of its
  callback, here the time it takes and what it says (\<open>None\<close> when it never comes), with a
  timeout that answers no; at the same instant the answer, scheduled first, wins.
\<close>

definition deny_all_approval ::
  "permission_request \<Rightarrow> permission_request list \<Rightarrow> bool \<times> permission_request list" where
  "deny_all_approval q denied = (False, denied @ [q])"

definition callback_approval :: "nat option \<Rightarrow> (nat \<times> bool) option \<Rightarrow> bool" where
  "callback_approval timeoutMs callback =
     (case callback of
        None \<Rightarrow> False
      | Some (t, yes) \<Rightarrow> t \<le> (case timeoutMs of None \<Rightarrow> 10 * 60 * 1000 | Some ms \<Rightarrow> ms) \<and> yes)"

subsection \<open>What a pattern means\<close>

text \<open>
  The pattern language as its comment documents it: a star stands for any text within a
  segment, two stars for any text, every other character for itself.
\<close>

inductive glob :: "string \<Rightarrow> string \<Rightarrow> bool" where
  glob_end: "glob [] []"
| glob_char: "c \<noteq> CHR ''*'' \<Longrightarrow> glob p s \<Longrightarrow> glob (c # p) (c # s)"
| glob_star: "(\<And>q. p \<noteq> CHR ''*'' # q) \<Longrightarrow> CHR ''/'' \<notin> set u \<Longrightarrow> glob p s \<Longrightarrow> glob (CHR ''*'' # p) (u @ s)"
| glob_stars: "glob p s \<Longrightarrow> glob (CHR ''*'' # CHR ''*'' # p) (u @ s)"

inductive_cases glob_NilE: "glob [] s"
inductive_cases glob_ConsE: "glob (c # p) s"

lemma regexp_test_any:
  "regexp_test (AnyRun # as) s \<longleftrightarrow>
     (\<exists>u v. s = u @ v \<and> (\<forall>c \<in> set u. \<not> line_terminator c) \<and> regexp_test as v)"
proof (induction s)
  case (Cons d ds)
  show ?case (is "?l \<longleftrightarrow> ?r")
  proof
    assume ?l
    then consider "regexp_test as (d # ds)" | "\<not> line_terminator d" "regexp_test (AnyRun # as) ds"
      by auto
    then show ?r
    proof cases
      case 2
      with Cons obtain u v where "ds = u @ v" "\<forall>c \<in> set u. \<not> line_terminator c" "regexp_test as v"
        by blast
      with 2 show ?thesis by (intro exI [of _ "d # u"] exI [of _ v]) simp
    qed (intro exI [of _ "[]"] exI [of _ "d # ds"], simp)
  next
    assume ?r
    then obtain u v where u: "d # ds = u @ v" "\<forall>c \<in> set u. \<not> line_terminator c" "regexp_test as v"
      by blast
    show ?l
    proof (cases u)
      case (Cons e es)
      with u Cons.IH show ?thesis by auto
    qed (use u in simp)
  qed
qed simp

lemma regexp_test_segment:
  "regexp_test (SegmentRun # as) s \<longleftrightarrow>
     (\<exists>u v. s = u @ v \<and> CHR ''/'' \<notin> set u \<and> regexp_test as v)"
proof (induction s)
  case (Cons d ds)
  show ?case (is "?l \<longleftrightarrow> ?r")
  proof
    assume ?l
    then consider "regexp_test as (d # ds)" | "d \<noteq> CHR ''/''" "regexp_test (SegmentRun # as) ds"
      by auto
    then show ?r
    proof cases
      case 2
      with Cons obtain u v where "ds = u @ v" "CHR ''/'' \<notin> set u" "regexp_test as v"
        by blast
      with 2 show ?thesis by (intro exI [of _ "d # u"] exI [of _ v]) simp
    qed (intro exI [of _ "[]"] exI [of _ "d # ds"], simp)
  next
    assume ?r
    then obtain u v where u: "d # ds = u @ v" "CHR ''/'' \<notin> set u" "regexp_test as v"
      by blast
    show ?l
    proof (cases u)
      case (Cons e es)
      with u Cons.IH show ?thesis by auto
    qed (use u in simp)
  qed
qed simp

declare regexp_test.simps(3,4) [simp del]

lemma glob_Nil [simp]: "glob [] s \<longleftrightarrow> s = []"
  by (auto intro: glob_end elim: glob_NilE)

lemma glob_literal: "c \<noteq> CHR ''*'' \<Longrightarrow> glob (c # p) s \<longleftrightarrow> (\<exists>t. s = c # t \<and> glob p t)"
  by (auto intro: glob_char elim: glob_ConsE)

lemma glob_one_star:
  "(\<And>q. p \<noteq> CHR ''*'' # q) \<Longrightarrow>
   glob (CHR ''*'' # p) s \<longleftrightarrow> (\<exists>u v. s = u @ v \<and> CHR ''/'' \<notin> set u \<and> glob p v)"
  by (auto intro: glob_star elim!: glob_ConsE)

lemma glob_two_stars: "glob (CHR ''*'' # CHR ''*'' # p) s \<longleftrightarrow> (\<exists>u v. s = u @ v \<and> glob p v)"
  by (auto intro: glob_stars elim!: glob_ConsE)

lemma regexp_glob:
  "\<forall>c \<in> set s. \<not> line_terminator c \<Longrightarrow> regexp_test (globToRegExp p) s \<longleftrightarrow> glob p s"
proof (induction p arbitrary: s rule: globToRegExp.induct)
  case (2 c)
  show ?case
  proof (cases "c = CHR ''*''")
    case True
    then show ?thesis using glob_one_star [of "[]" s] by (simp add: regexp_test_segment)
  next
    case False
    then show ?thesis by (cases s) (auto simp: glob_literal)
  qed
next
  case (3 c d cs)
  consider "c \<noteq> CHR ''*''" | "c = CHR ''*''" "d = CHR ''*''" | "c = CHR ''*''" "d \<noteq> CHR ''*''" by blast
  then show ?case
  proof cases
    case 1
    with 3 show ?thesis by (cases s) (auto simp: glob_literal)
  next
    case 2
    have sub: "regexp_test (globToRegExp cs) v \<longleftrightarrow> glob cs v" if "s = u @ v" for u v
      using "3.IH"(1) [OF 2] "3.prems" that by simp
    have "(\<exists>u v. s = u @ v \<and> (\<forall>c \<in> set u. \<not> line_terminator c) \<and> regexp_test (globToRegExp cs) v) \<longleftrightarrow>
        (\<exists>u v. s = u @ v \<and> glob cs v)"
      using sub "3.prems" by (metis Un_iff set_append)
    with 2 show ?thesis by (simp add: regexp_test_any glob_two_stars)
  next
    case 3
    have sub: "regexp_test (globToRegExp (d # cs)) v \<longleftrightarrow> glob (d # cs) v" if "s = u @ v" for u v
      using "3.IH"(2) [OF 3] "3.prems" that by simp
    have "glob (CHR ''*'' # d # cs) s \<longleftrightarrow> (\<exists>u v. s = u @ v \<and> CHR ''/'' \<notin> set u \<and> glob (d # cs) v)"
      using 3 by (intro glob_one_star) simp
    with 3 sub show ?thesis by (auto simp: regexp_test_segment)
  qed
qed simp

subsection \<open>Properties\<close>

definition request_target :: "permission_request \<Rightarrow> string" where
  "request_target q = (case pr_target q of None \<Rightarrow> [] | Some t \<Rightarrow> t)"

definition rule_applies :: "permission_request \<Rightarrow> permission_rule \<Rightarrow> bool" where
  "rule_applies q r \<longleftrightarrow> rule_capability r = pr_capability q \<and>
     (case rule_target r of None \<Rightarrow> True | Some p \<Rightarrow> glob p (request_target q))"

lemma compiled_applies:
  assumes "\<forall>c \<in> set (request_target q). \<not> line_terminator c"
  shows "rule_applies q r \<longleftrightarrow>
    \<not> (cr_capability (compileRule r) \<noteq> pr_capability q) \<and>
    \<not> (case cr_matcher (compileRule r) of
         None \<Rightarrow> False
       | Some m \<Rightarrow> \<not> regexp_test m (case pr_target q of None \<Rightarrow> [] | Some t \<Rightarrow> t))"
  using regexp_glob [OF assms]
  by (auto simp: rule_applies_def compileRule_def request_target_def split: option.splits)

text \<open>
  The first rule that applies decides, by the documented meaning of its pattern, and
  when none does the answer is the default, which is to deny unless configured otherwise; for
  every target without line breaks.
\<close>

theorem policy_first_match:
  assumes "\<forall>c \<in> set (request_target q). \<not> line_terminator c"
  shows "evaluate_policy (new_policy_engine rules d) q =
    (case List.find (rule_applies q) rules of
       Some r \<Rightarrow> \<lparr>pd_effect = rule_effect r, pd_reason = Some (''rule '' @ rule_id r), pd_ruleId = Some (rule_id r)\<rparr>
     | None \<Rightarrow> \<lparr>pd_effect = (case d of None \<Rightarrow> Deny | Some e \<Rightarrow> e),
                pd_reason = Some ''no matching rule'', pd_ruleId = None\<rparr>)"
proof (induction rules)
  case (Cons r rs)
  show ?case
  proof (cases "rule_applies q r")
    case True
    with compiled_applies [OF assms, of r] show ?thesis
      by (simp add: evaluate_policy_def new_policy_engine_def) (simp add: compileRule_def)
  next
    case False
    with compiled_applies [OF assms, of r] Cons show ?thesis
      by (simp add: evaluate_policy_def new_policy_engine_def)
  qed
qed (simp add: evaluate_policy_def new_policy_engine_def)

definition shell_request :: "string \<Rightarrow> permission_request" where
  "shell_request t = \<lparr>pr_capability = ProcessExecute, pr_target = Some t, pr_runId = None, pr_toolName = None\<rparr>"

definition no_rm :: "permission_rule list" where
  "no_rm = [\<lparr>rule_id = ''no-rm'', rule_capability = ProcessExecute, rule_target = Some ''rm **'',
     rule_effect = Deny\<rparr>, simple_rule ''exec'' ProcessExecute]"

theorem policy_first_match_witness:
  "pd_effect (evaluate_policy (new_policy_engine no_rm None) (shell_request ''rm -rf /'')) = Deny"
proof -
  have "\<forall>c \<in> set (request_target (shell_request ''rm -rf /'')). \<not> line_terminator c"
    by (simp add: request_target_def shell_request_def line_terminator_def)
  moreover have "rule_applies (shell_request ''rm -rf /'') (hd no_rm)"
  proof -
    have "glob ''**'' ''-rf /''" using glob_stars [OF glob_end, of "''-rf /''"] by simp
    then have "glob ''rm **'' ''rm -rf /''" by (simp add: glob_literal)
    then show ?thesis by (simp add: rule_applies_def no_rm_def request_target_def shell_request_def)
  qed
  ultimately show ?thesis
    using policy_first_match [of "shell_request ''rm -rf /''" no_rm None] by (simp add: no_rm_def)
qed

text \<open>
  Two stars stop at a line break: a rule with the pattern \<open>prefix**\<close> applies to a target
  that starts with the prefix exactly when the rest of the target holds no line break, so a
  target with one escapes it.
\<close>

lemma globToRegExp_literals:
  "CHR ''*'' \<notin> set p \<Longrightarrow> globToRegExp (p @ q) = map Literal p @ globToRegExp q"
proof (induction p)
  case (Cons c p)
  then show ?case by (cases "p @ q") auto
qed simp

lemma regexp_test_literals: "regexp_test (map Literal p @ as) (p @ s) \<longleftrightarrow> regexp_test as s"
  by (induction p) simp_all

theorem double_star_stops_at_newline:
  assumes "CHR ''*'' \<notin> set p"
  shows "regexp_test (globToRegExp (p @ ''**'')) (p @ s) \<longleftrightarrow> (\<forall>c \<in> set s. \<not> line_terminator c)"
  by (auto simp: globToRegExp_literals [OF assms] regexp_test_literals regexp_test_any)

theorem double_star_stops_at_newline_witness:
  "pd_effect (evaluate_policy (new_policy_engine no_rm None)
     (shell_request (''rm -rf '' @ CHR 0x0A # ''/''))) = Allow"
proof -
  have "\<not> regexp_test (globToRegExp (''rm '' @ ''**'')) (''rm '' @ (''-rf '' @ CHR 0x0A # ''/''))"
    by (subst double_star_stops_at_newline) (simp_all add: line_terminator_def)
  then show ?thesis
    by (simp add: evaluate_policy_def new_policy_engine_def no_rm_def compileRule_def simple_rule_def
        shell_request_def del: regexp_test.simps globToRegExp.simps)
qed

end
