(* ===== verification/WorkItems.thy ===== *)
theory WorkItems
  imports Stores
begin

section \<open>Work items, eligibility and human input\<close>

text \<open>
  The canonical work item of \<open>packages/core/src/work.ts\<close>, the trigger and eligibility rules of
  \<open>packages/orchestrator/src/eligibility.ts\<close> and the validation of human input of
  \<open>packages/core/src/waits.ts\<close>.
\<close>

record identity =
  idn_id :: string
  idn_displayName :: "string option"
  idn_email :: "string option"

datatype work_relationship_kind =
  Blocks | BlockedBy | RelatesTo | ParentOf | ChildOf | Duplicates

record work_relationship =
  rel_kind :: work_relationship_kind
  rel_target :: string

record work_item =
  wi_id :: string
  wi_provider :: string
  wi_externalId :: string
  wi_title :: string
  wi_description :: "string option"
  wi_state :: string
  wi_type :: "string option"
  wi_priority :: "string option"
  wi_labels :: "string list"
  wi_assignees :: "identity list"
  wi_relationships :: "work_relationship list"
  wi_repository :: "repository_reference option"
  wi_metadata :: fields
  wi_url :: "string option"
  wi_updatedAt :: "time option"

subsection \<open>Eligibility\<close>

datatype ineligible =
  StateNotTriggered string | NoTriggerLabel | MissingLabel string | ExcludedLabel string
| TypeNotEligible "string option" | AlreadyAssigned

text \<open>What \<open>evaluateEligibility\<close> reads of a workflow.\<close>

record workflow_rule =
  wf_name :: string
  wf_trigger :: "workflow_trigger option"
  wf_eligibility :: "workflow_eligibility option"

definition listed :: "string list option \<Rightarrow> string list" where
  "listed xs = (case xs of None \<Rightarrow> [] | Some l \<Rightarrow> l)"

definition trigger_issue :: "work_item \<Rightarrow> workflow_trigger option \<Rightarrow> ineligible option" where
  "trigger_issue item trigger =
     (case trigger of
        None \<Rightarrow> None
      | Some t \<Rightarrow>
          if listed (trg_states t) \<noteq> [] \<and> wi_state item \<notin> set (listed (trg_states t))
          then Some (StateNotTriggered (wi_state item))
          else if listed (trg_labels t) \<noteq> [] \<and>
                  \<not> list_ex (\<lambda>l. l \<in> set (wi_labels item)) (listed (trg_labels t))
          then Some NoTriggerLabel
          else None)"

definition type_eligible :: "string option \<Rightarrow> string list \<Rightarrow> bool" where
  "type_eligible ty types \<longleftrightarrow> types = [] \<or>
     (case ty of None \<Rightarrow> False | Some t \<Rightarrow> t \<noteq> [] \<and> t \<in> set types)"

definition eligibility_issue :: "work_item \<Rightarrow> workflow_eligibility option \<Rightarrow> ineligible option" where
  "eligibility_issue item eligibility =
     (case eligibility of
        None \<Rightarrow> None
      | Some e \<Rightarrow>
          (case List.find (\<lambda>l. l \<notin> set (wi_labels item)) (listed (labelsInclude e)) of
             Some l \<Rightarrow> Some (MissingLabel l)
           | None \<Rightarrow>
               (case List.find (\<lambda>l. l \<in> set (wi_labels item)) (listed (labelsExclude e)) of
                  Some l \<Rightarrow> Some (ExcludedLabel l)
                | None \<Rightarrow>
                    if \<not> type_eligible (wi_type item) (listed (elig_types e))
                    then Some (TypeNotEligible (wi_type item))
                    else if elig_assignee e = Some ''unassigned'' \<and> wi_assignees item \<noteq> []
                    then Some AlreadyAssigned
                    else None)))"

text \<open>\<open>evaluateEligibility\<close>: the reason an item is not eligible, or \<open>None\<close>.\<close>

definition evaluateEligibility :: "work_item \<Rightarrow> workflow_rule \<Rightarrow> ineligible option" where
  "evaluateEligibility item d =
     (case trigger_issue item (wf_trigger d) of
        Some r \<Rightarrow> Some r
      | None \<Rightarrow> eligibility_issue item (wf_eligibility d))"

definition selectWorkflow :: "work_item \<Rightarrow> workflow_rule list \<Rightarrow> workflow_rule option" where
  "selectWorkflow item ds = List.find (\<lambda>d. evaluateEligibility item d = None) ds"

text \<open>The rules as a condition on the item.\<close>

definition triggered :: "work_item \<Rightarrow> workflow_trigger \<Rightarrow> bool" where
  "triggered item t \<longleftrightarrow>
     (listed (trg_states t) = [] \<or> wi_state item \<in> set (listed (trg_states t))) \<and>
     (listed (trg_labels t) = [] \<or> set (listed (trg_labels t)) \<inter> set (wi_labels item) \<noteq> {})"

definition qualifies :: "work_item \<Rightarrow> workflow_eligibility \<Rightarrow> bool" where
  "qualifies item e \<longleftrightarrow>
     set (listed (labelsInclude e)) \<subseteq> set (wi_labels item) \<and>
     set (listed (labelsExclude e)) \<inter> set (wi_labels item) = {} \<and>
     type_eligible (wi_type item) (listed (elig_types e)) \<and>
     (elig_assignee e = Some ''unassigned'' \<longrightarrow> wi_assignees item = [])"

lemma trigger_issue_None:
  "trigger_issue item t = None \<longleftrightarrow> (case t of None \<Rightarrow> True | Some t \<Rightarrow> triggered item t)"
  by (auto simp: trigger_issue_def triggered_def list_ex_iff split: option.splits)

lemma find_case_None:
  "(case List.find P xs of None \<Rightarrow> r | Some x \<Rightarrow> Some (f x)) = None \<longleftrightarrow>
     (\<forall>x \<in> set xs. \<not> P x) \<and> r = None"
  by (induction xs) auto

lemma eligibility_issue_None:
  "eligibility_issue item e = None \<longleftrightarrow> (case e of None \<Rightarrow> True | Some e \<Rightarrow> qualifies item e)"
  by (cases e) (auto simp: eligibility_issue_def qualifies_def find_case_None)

lemma evaluateEligibility_None:
  "evaluateEligibility item d = None \<longleftrightarrow>
     (case wf_trigger d of None \<Rightarrow> True | Some t \<Rightarrow> triggered item t) \<and>
     (case wf_eligibility d of None \<Rightarrow> True | Some e \<Rightarrow> qualifies item e)"
  using trigger_issue_None [of item "wf_trigger d"] eligibility_issue_None [of item "wf_eligibility d"]
  by (auto simp: evaluateEligibility_def split: option.splits)

subsection \<open>Human input\<close>

definition input_type_text :: "human_input_type \<Rightarrow> string" where
  "input_type_text t = (case t of
     HText \<Rightarrow> ''text'' | HBoolean \<Rightarrow> ''boolean'' | HSingleChoice \<Rightarrow> ''single-choice''
   | HMultipleChoice \<Rightarrow> ''multiple-choice'' | HApproval \<Rightarrow> ''approval'' | HSecret \<Rightarrow> ''secret''
   | HFileReference \<Rightarrow> ''file-reference'' | HFreeForm \<Rightarrow> ''free-form'')"

fun nonempty_string :: "jsval \<Rightarrow> bool" where
  "nonempty_string (JStr s) = (s \<noteq> [])"
| "nonempty_string _ = False"

fun is_bool :: "jsval \<Rightarrow> bool" where
  "is_bool (JBool b) = True"
| "is_bool _ = False"

fun string_in :: "string list \<Rightarrow> jsval \<Rightarrow> bool" where
  "string_in choices (JStr s) = (s \<in> set choices)"
| "string_in choices _ = False"

fun choice_list :: "string list \<Rightarrow> jsval \<Rightarrow> bool" where
  "choice_list choices (JArr _ vs) = (vs \<noteq> [] \<and> list_all (string_in choices) vs)"
| "choice_list choices _ = False"

definition input_check :: "bool \<Rightarrow> string \<Rightarrow> string + unit" where
  "input_check ok message = (if ok then Inr () else Inl message)"

text \<open>\<open>validateHumanInputValue\<close>: \<open>Inl\<close> the message of the failure it throws.\<close>

definition validateHumanInputValue :: "human_input_request_spec \<Rightarrow> jsval \<Rightarrow> string + unit" where
  "validateHumanInputValue spec v =
     (let choices = listed (hr_choices spec); name = input_type_text (hr_type spec) in
      case hr_type spec of
        HText \<Rightarrow> input_check (nonempty_string v) (name @ '' response requires a non-empty string'')
      | HFreeForm \<Rightarrow> input_check (nonempty_string v) (name @ '' response requires a non-empty string'')
      | HFileReference \<Rightarrow>
          input_check (nonempty_string v) (name @ '' response requires a non-empty string'')
      | HSecret \<Rightarrow>
          input_check (nonempty_string v) ''secret response must be the stored secret name''
      | HBoolean \<Rightarrow> input_check (is_bool v) (name @ '' response requires true or false'')
      | HApproval \<Rightarrow> input_check (is_bool v) (name @ '' response requires true or false'')
      | HSingleChoice \<Rightarrow>
          input_check (string_in choices v)
            (''response must be one of: '' @ join_with '', '' choices)
      | HMultipleChoice \<Rightarrow>
          input_check (choice_list choices v)
            (''response must be a non-empty subset of: '' @ join_with '', '' choices))"

text \<open>The values a request of each type admits.\<close>

definition admissible :: "human_input_request_spec \<Rightarrow> jsval set" where
  "admissible spec =
     (if hr_type spec \<in> {HText, HFreeForm, HFileReference, HSecret} then {JStr s | s. s \<noteq> []}
      else if hr_type spec \<in> {HBoolean, HApproval} then {JBool True, JBool False}
      else if hr_type spec = HSingleChoice then JStr ` set (listed (hr_choices spec))
      else {JArr i vs | i vs. vs \<noteq> [] \<and> set vs \<subseteq> JStr ` set (listed (hr_choices spec))})"

lemma validate_iff: "validateHumanInputValue spec v = Inr () \<longleftrightarrow> v \<in> admissible spec"
proof -
  have string: "nonempty_string v \<longleftrightarrow> v \<in> {JStr s | s. s \<noteq> []}" by (cases v) auto
  have bool: "is_bool v \<longleftrightarrow> v \<in> {JBool True, JBool False}" by (cases v) auto
  have one: "string_in cs w \<longleftrightarrow> w \<in> JStr ` set cs" for cs w by (cases w) auto
  have many: "choice_list cs v \<longleftrightarrow> v \<in> {JArr i vs | i vs. vs \<noteq> [] \<and> set vs \<subseteq> JStr ` set cs}" for cs
    by (cases v) (auto simp: list_all_iff one subset_iff)
  show ?thesis
    by (cases "hr_type spec")
      (simp_all add: validateHumanInputValue_def input_check_def admissible_def Let_def string bool
        one many)
qed

text \<open>
  C18. Human input is typed: a response is accepted exactly when it is a value its request
  admits, a non-empty string for the textual types and secrets, a boolean for approvals, one of
  the choices, or a non-empty list of them.
\<close>

theorem human_input_typed:
  "validateHumanInputValue spec v = Inr () \<longleftrightarrow> v \<in> admissible spec"
  by (rule validate_iff)

text \<open>
  An item is eligible for a workflow exactly when it satisfies the trigger and the
  eligibility rules the workflow declares, and the workflow selected for it is the first such.
\<close>

theorem first_eligible_selected:
  "selectWorkflow item ds = List.find (\<lambda>d.
     (case wf_trigger d of None \<Rightarrow> True | Some t \<Rightarrow> triggered item t) \<and>
     (case wf_eligibility d of None \<Rightarrow> True | Some e \<Rightarrow> qualifies item e)) ds"
  by (simp add: selectWorkflow_def evaluateEligibility_None)

end
