(* ===== verification/Effects.thy ===== *)
theory Effects
  imports Prelude
begin

section \<open>Operations on a shared state that may throw\<close>

text \<open>
  An asynchronous method over the stores: it may throw (\<open>Inl\<close>), and what it did to the stores
  before it threw stays done. \<open>hoare P m Q E\<close> says what holds after \<open>m\<close> from a state in
  which \<open>P\<close> holds: \<open>Q\<close> of the result when it returns, \<open>E\<close> when it throws.
\<close>

named_theorems hoare_rules \<open>syntax-directed rules of the program logic\<close>

type_synonym ('s, 'e, 'a) op = "'s \<Rightarrow> ('e + 'a) \<times> 's"

definition returnS :: "'a \<Rightarrow> ('s, 'e, 'a) op" where
  "returnS a = (\<lambda>s. (Inr a, s))"

definition throwS :: "'e \<Rightarrow> ('s, 'e, 'a) op" where
  "throwS e = (\<lambda>s. (Inl e, s))"

definition bindS :: "('s, 'e, 'a) op \<Rightarrow> ('a \<Rightarrow> ('s, 'e, 'b) op) \<Rightarrow> ('s, 'e, 'b) op" where
  "bindS m f = (\<lambda>s. case m s of (Inl e, s') \<Rightarrow> (Inl e, s') | (Inr a, s') \<Rightarrow> f a s')"

definition thenS :: "('s, 'e, 'a) op \<Rightarrow> ('s, 'e, 'b) op \<Rightarrow> ('s, 'e, 'b) op" where
  "thenS m n = bindS m (\<lambda>_. n)"

text \<open>\<open>try\<close> and \<open>catch\<close>: the handler runs in the state the exception left.\<close>

definition catchS :: "('s, 'e, 'a) op \<Rightarrow> ('e \<Rightarrow> ('s, 'e, 'a) op) \<Rightarrow> ('s, 'e, 'a) op" where
  "catchS m h = (\<lambda>s. case m s of (Inl e, s') \<Rightarrow> h e s' | (Inr a, s') \<Rightarrow> (Inr a, s'))"

text \<open>\<open>finally\<close>: runs after either, and its own exception replaces the outcome.\<close>

definition finallyS :: "('s, 'e, 'a) op \<Rightarrow> ('s, 'e, unit) op \<Rightarrow> ('s, 'e, 'a) op" where
  "finallyS m f = (\<lambda>s. case m s of (r, s') \<Rightarrow>
     (case f s' of (Inl e, s'') \<Rightarrow> (Inl e, s'') | (Inr _, s'') \<Rightarrow> (r, s'')))"

definition readS :: "('s \<Rightarrow> 'a) \<Rightarrow> ('s, 'e, 'a) op" where
  "readS f = (\<lambda>s. (Inr (f s), s))"

definition updateS :: "('s \<Rightarrow> 's) \<Rightarrow> ('s, 'e, unit) op" where
  "updateS f = (\<lambda>s. (Inr (), f s))"

definition liftS :: "'e + 'a \<Rightarrow> ('s, 'e, 'a) op" where
  "liftS r = (\<lambda>s. (r, s))"

fun eachS :: "('a \<Rightarrow> ('s, 'e, unit) op) \<Rightarrow> 'a list \<Rightarrow> ('s, 'e, unit) op" where
  "eachS f [] = returnS ()"
| "eachS f (x # xs) = thenS (f x) (eachS f xs)"

lemmas op_defs = returnS_def throwS_def bindS_def thenS_def catchS_def finallyS_def readS_def updateS_def liftS_def

subsection \<open>The program logic\<close>

definition hoare ::
  "('s \<Rightarrow> bool) \<Rightarrow> ('s, 'e, 'a) op \<Rightarrow> ('a \<Rightarrow> 's \<Rightarrow> bool) \<Rightarrow> ('s \<Rightarrow> bool) \<Rightarrow> bool" where
  "hoare P m Q E \<longleftrightarrow>
     (\<forall>s. P s \<longrightarrow> (case m s of (Inl e, s') \<Rightarrow> E s' | (Inr a, s') \<Rightarrow> Q a s'))"

lemma hoareI:
  "(\<And>s e s'. P s \<Longrightarrow> m s = (Inl e, s') \<Longrightarrow> E s') \<Longrightarrow>
   (\<And>s a s'. P s \<Longrightarrow> m s = (Inr a, s') \<Longrightarrow> Q a s') \<Longrightarrow> hoare P m Q E"
  by (auto simp: hoare_def split: prod.splits sum.splits)

lemma hoareD:
  assumes "hoare P m Q E" and "P s"
  shows "m s = (Inl e, s') \<Longrightarrow> E s'" and "m s = (Inr a, s') \<Longrightarrow> Q a s'"
  using assms by (auto simp: hoare_def)

lemma hoare_return [hoare_rules]: "hoare (Q a) (returnS a) Q E"
  by (simp add: hoare_def returnS_def)

lemma hoare_throw [hoare_rules]: "hoare E (throwS e) Q E"
  by (simp add: hoare_def throwS_def)

lemma hoare_read [hoare_rules]: "hoare (\<lambda>s. Q (f s) s) (readS f) Q E"
  by (simp add: hoare_def readS_def)

lemma hoare_update [hoare_rules]: "hoare (\<lambda>s. Q () (f s)) (updateS f) Q E"
  by (simp add: hoare_def updateS_def)

lemma hoare_lift [hoare_rules]:
  "hoare (\<lambda>s. case r of Inl e \<Rightarrow> E s | Inr a \<Rightarrow> Q a s) (liftS r) Q E"
  by (auto simp: hoare_def liftS_def split: sum.splits)

lemma hoare_bind:
  assumes "hoare P m R E" and "\<And>a. hoare (R a) (f a) Q E"
  shows "hoare P (bindS m f) Q E"
  using assms unfolding hoare_def bindS_def
  by (fastforce split: prod.splits sum.splits)

lemma hoare_then:
  assumes "hoare P m (\<lambda>_. R) E" and "hoare R n Q E"
  shows "hoare P (thenS m n) Q E"
  unfolding thenS_def by (rule hoare_bind [OF assms(1)]) (rule assms(2))

lemma hoare_catch:
  assumes "hoare P m Q F" and "\<And>e. hoare F (h e) Q E"
  shows "hoare P (catchS m h) Q E"
  using assms unfolding hoare_def catchS_def
  by (fastforce split: prod.splits sum.splits)

lemma hoare_weaken:
  assumes "hoare P m Q E" and "\<And>s. P' s \<Longrightarrow> P s" and "\<And>a s. Q a s \<Longrightarrow> Q' a s" and "\<And>s. E s \<Longrightarrow> E' s"
  shows "hoare P' m Q' E'"
  using assms unfolding hoare_def by (fastforce split: prod.splits sum.splits)

lemma hoare_pre: "hoare P m Q E \<Longrightarrow> (\<And>s. P' s \<Longrightarrow> P s) \<Longrightarrow> hoare P' m Q E"
  by (rule hoare_weaken)

lemma hoare_if:
  "(b \<Longrightarrow> hoare P m Q E) \<Longrightarrow> (\<not> b \<Longrightarrow> hoare P n Q E) \<Longrightarrow> hoare P (if b then m else n) Q E"
  by simp

lemma hoare_each:
  assumes "\<And>x. x \<in> set xs \<Longrightarrow> hoare I (f x) (\<lambda>_. I) E"
  shows "hoare I (eachS f xs) (\<lambda>_. I) E"
  using assms
proof (induction xs)
  case (Cons x xs)
  show ?case
    unfolding eachS.simps
    by (rule hoare_then [where R = I]) (use Cons in auto)
qed (simp add: hoare_def returnS_def)

lemma hoare_conj_pre: "(p \<Longrightarrow> hoare P m Q E) \<Longrightarrow> hoare (\<lambda>s. p \<and> P s) m Q E"
  by (auto simp: hoare_def)

subsection \<open>Invariants and what a result satisfies\<close>

text \<open>\<open>keeps I m Q\<close>: whatever happens \<open>I\<close> is kept, and a result satisfies \<open>Q\<close>.\<close>

definition keeps :: "('s \<Rightarrow> bool) \<Rightarrow> ('s, 'e, 'a) op \<Rightarrow> ('a \<Rightarrow> bool) \<Rightarrow> bool" where
  "keeps I m Q \<longleftrightarrow> hoare I m (\<lambda>a s. I s \<and> Q a) I"

named_theorems keeps_rules \<open>rules for invariants of operations\<close>

lemma keepsD:
  assumes "keeps I m Q" and "I s"
  shows "I (snd (m s))" and "m s = (Inr a, s') \<Longrightarrow> Q a"
  using assms
  by (cases "m s"; cases "fst (m s)"; force simp: keeps_def hoare_def)+

lemma keepsI:
  "(\<And>s. I s \<Longrightarrow> I (snd (m s))) \<Longrightarrow> (\<And>s a s'. I s \<Longrightarrow> m s = (Inr a, s') \<Longrightarrow> Q a) \<Longrightarrow> keeps I m Q"
  unfolding keeps_def by (rule hoareI) fastforce+

lemma keeps_return [keeps_rules]: "Q a \<Longrightarrow> keeps I (returnS a) Q"
  by (simp add: keeps_def hoare_def returnS_def)

lemma keeps_throw [keeps_rules]: "keeps I (throwS e) Q"
  by (simp add: keeps_def hoare_def throwS_def)

lemma keeps_read [keeps_rules]: "(\<And>s. I s \<Longrightarrow> Q (f s)) \<Longrightarrow> keeps I (readS f) Q"
  by (simp add: keeps_def hoare_def readS_def)

lemma keeps_update [keeps_rules]: "(\<And>s. I s \<Longrightarrow> I (f s)) \<Longrightarrow> Q () \<Longrightarrow> keeps I (updateS f) Q"
  by (simp add: keeps_def hoare_def updateS_def)

lemma keeps_lift [keeps_rules]: "(\<And>a. r = Inr a \<Longrightarrow> Q a) \<Longrightarrow> keeps I (liftS r) Q"
  by (auto simp: keeps_def hoare_def liftS_def split: sum.splits)

lemma keeps_bind:
  assumes "keeps I m R" and "\<And>a. R a \<Longrightarrow> keeps I (f a) Q"
  shows "keeps I (bindS m f) Q"
  unfolding keeps_def
proof (rule hoare_bind)
  show "hoare I m (\<lambda>a s. I s \<and> R a) I" using assms(1) by (simp add: keeps_def)
  show "hoare (\<lambda>s. I s \<and> R a) (f a) (\<lambda>a s. I s \<and> Q a) I" for a
    using assms(2) [of a] by (auto simp: keeps_def hoare_def)
qed

lemma keeps_then:
  assumes "keeps I m (\<lambda>_. True)" and "keeps I n Q"
  shows "keeps I (thenS m n) Q"
  unfolding thenS_def using assms by (intro keeps_bind)

lemma keeps_catch:
  assumes "keeps I m Q" and "\<And>e. keeps I (h e) Q"
  shows "keeps I (catchS m h) Q"
  unfolding keeps_def by (rule hoare_catch) (use assms in \<open>auto simp: keeps_def\<close>)

lemma finallyS_state: "snd (finallyS m f s) = snd (f (snd (m s)))"
proof (cases "m s")
  case (Pair r s1)
  show ?thesis
  proof (cases "f s1")
    fix q s2
    assume "f s1 = (q, s2)"
    with Pair show ?thesis by (cases q) (simp_all add: finallyS_def)
  qed
qed

lemma keeps_finally:
  assumes "keeps I m Q" and "keeps I f (\<lambda>_. True)"
  shows "keeps I (finallyS m f) Q"
proof (rule keepsI)
  fix s
  assume "I s"
  have "I (snd (f (snd (m s))))"
    by (rule keepsD(1) [OF assms(2)], rule keepsD(1) [OF assms(1) \<open>I s\<close>])
  then show "I (snd (finallyS m f s))"
    unfolding finallyS_state .
next
  fix s a s'
  assume s: "I s" "finallyS m f s = (Inr a, s')"
  obtain r s1 where m: "m s = (r, s1)" by (cases "m s")
  obtain q s2 where f: "f s1 = (q, s2)" by (cases "f s1")
  have "r = Inr a" using s(2) by (cases q) (simp_all add: finallyS_def m f)
  with m have "m s = (Inr a, s1)" by simp
  from keepsD(2) [OF assms(1) s(1) this] show "Q a" .
qed

lemma keeps_weaken: "keeps I m Q \<Longrightarrow> (\<And>a. Q a \<Longrightarrow> Q' a) \<Longrightarrow> keeps I m Q'"
  by (auto simp: keeps_def elim!: hoare_weaken)

lemma keeps_trivial: "keeps I m Q \<Longrightarrow> keeps I m (\<lambda>_. True)"
  by (rule keeps_weaken) simp_all

lemma keeps_if [keeps_rules]:
  "(b \<Longrightarrow> keeps I m Q) \<Longrightarrow> (\<not> b \<Longrightarrow> keeps I n Q) \<Longrightarrow> keeps I (if b then m else n) Q"
  by simp

lemma keeps_option [keeps_rules]:
  "(x = None \<Longrightarrow> keeps I m Q) \<Longrightarrow> (\<And>a. x = Some a \<Longrightarrow> keeps I (f a) Q) \<Longrightarrow>
   keeps I (case x of None \<Rightarrow> m | Some a \<Rightarrow> f a) Q"
  by (cases x) simp_all

lemma keeps_each:
  "(\<And>x. x \<in> set xs \<Longrightarrow> keeps I (f x) (\<lambda>_. True)) \<Longrightarrow> keeps I (eachS f xs) (\<lambda>_. True)"
  by (induction xs) (auto intro: keeps_return keeps_then)

text \<open>An operation that does not touch the part \<open>f\<close> of the state.\<close>

definition frames :: "('s \<Rightarrow> 'f) \<Rightarrow> ('s, 'e, 'a) op \<Rightarrow> bool" where
  "frames f m \<longleftrightarrow> (\<forall>s. f (snd (m s)) = f s)"

named_theorems frames_rules \<open>operations that leave a part of the state alone\<close>

lemma framesI: "(\<And>s. f (snd (m s)) = f s) \<Longrightarrow> frames f m"
  by (simp add: frames_def)

lemma framesD: "frames f m \<Longrightarrow> m s = (r, s') \<Longrightarrow> f s' = f s"
  by (metis frames_def snd_conv)

lemma frames_return [frames_rules]: "frames f (returnS a)"
  by (simp add: frames_def returnS_def)

lemma frames_throw [frames_rules]: "frames f (throwS e)"
  by (simp add: frames_def throwS_def)

lemma frames_read [frames_rules]: "frames f (readS g)"
  by (simp add: frames_def readS_def)

lemma frames_lift [frames_rules]: "frames f (liftS r)"
  by (simp add: frames_def liftS_def)

lemma frames_update [frames_rules]: "(\<And>s. f (g s) = f s) \<Longrightarrow> frames f (updateS g)"
  by (simp add: frames_def updateS_def)

lemma frames_bind [frames_rules]:
  assumes "frames f m" and "\<And>a. frames f (g a)"
  shows "frames f (bindS m g)"
proof (rule framesI)
  fix s
  obtain r s1 where m: "m s = (r, s1)" by (cases "m s")
  show "f (snd (bindS m g s)) = f s"
    using framesD [OF assms(1) m] assms(2)
    by (cases r) (simp_all add: bindS_def m frames_def)
qed

lemma frames_then [frames_rules]: "frames f m \<Longrightarrow> frames f n \<Longrightarrow> frames f (thenS m n)"
  unfolding thenS_def by (rule frames_bind)

lemma frames_catch [frames_rules]:
  assumes "frames f m" and "\<And>e. frames f (h e)"
  shows "frames f (catchS m h)"
proof (rule framesI)
  fix s
  obtain r s1 where m: "m s = (r, s1)" by (cases "m s")
  show "f (snd (catchS m h s)) = f s"
    using framesD [OF assms(1) m] assms(2)
    by (cases r) (simp_all add: catchS_def m frames_def)
qed

lemma frames_each [frames_rules]: "(\<And>x. frames f (g x)) \<Longrightarrow> frames f (eachS g xs)"
  by (induction xs) (auto intro: frames_return frames_then)

lemma frames_if [frames_rules]: "frames f m \<Longrightarrow> frames f n \<Longrightarrow> frames f (if b then m else n)"
  by simp

lemma frames_option [frames_rules]:
  "frames f m \<Longrightarrow> (\<And>a. frames f (g a)) \<Longrightarrow> frames f (case x of None \<Rightarrow> m | Some a \<Rightarrow> g a)"
  by (cases x) simp_all

text \<open>What is said of the untouched part stays true, whether the operation returns or throws.\<close>

lemma hoare_frames:
  "frames f m \<Longrightarrow> hoare (\<lambda>s. P (f s)) m (\<lambda>_ s. P (f s)) (\<lambda>s. P (f s))"
  by (rule hoareI) (auto dest: framesD)

lemma hoare_finally:
  assumes "hoare P m Q E" and "frames f n" and "\<And>a s s'. Q a s \<Longrightarrow> f s' = f s \<Longrightarrow> Q a s'"
    and "\<And>s s'. E s \<Longrightarrow> f s' = f s \<Longrightarrow> E s'" and "\<And>s. \<exists>s'. n s = (Inr (), s')"
  shows "hoare P (finallyS m n) Q E"
proof (rule hoareI)
  fix s e s'
  assume s: "P s" "finallyS m n s = (Inl e, s')"
  obtain r s1 where m: "m s = (r, s1)" by (cases "m s")
  obtain s2 where n: "n s1 = (Inr (), s2)" using assms(5) by blast
  from s(2) m n have "r = Inl e" "s2 = s'" by (simp_all add: finallyS_def)
  with hoareD(1) [OF assms(1) s(1)] m assms(4) framesD [OF assms(2) n] show "E s'" by auto
next
  fix s a s'
  assume s: "P s" "finallyS m n s = (Inr a, s')"
  obtain r s1 where m: "m s = (r, s1)" by (cases "m s")
  obtain s2 where n: "n s1 = (Inr (), s2)" using assms(5) by blast
  from s(2) m n have "r = Inr a" "s2 = s'" by (simp_all add: finallyS_def)
  with hoareD(2) [OF assms(1) s(1)] m assms(3) framesD [OF assms(2) n] show "Q a s'" by auto
qed

lemma hoare_drop: "hoare P m Q E \<Longrightarrow> hoare P m (\<lambda>_ _. True) (\<lambda>_. True)"
  by (erule hoare_weaken) simp_all

subsection \<open>Operations that do not see a part of the state\<close>

text \<open>
  \<open>commutes t m\<close>: changing the state by \<open>t\<close> before \<open>m\<close> or after it is the same, and \<open>m\<close> answers
  the same. When \<open>t\<close> overwrites a part of the state, \<open>m\<close> neither reads nor writes that part.
\<close>

named_theorems commutes_rules \<open>operations that do not see a part of the state\<close>

definition commutes :: "('s \<Rightarrow> 's) \<Rightarrow> ('s, 'e, 'a) op \<Rightarrow> bool" where
  "commutes t m \<longleftrightarrow> (\<forall>s. m (t s) = (fst (m s), t (snd (m s))))"

lemma commutesI: "(\<And>s. m (t s) = (fst (m s), t (snd (m s)))) \<Longrightarrow> commutes t m"
  by (simp add: commutes_def)

lemma commutesD: "commutes t m \<Longrightarrow> m s = (r, s') \<Longrightarrow> m (t s) = (r, t s')"
  by (simp add: commutes_def)

lemma commutes_return [commutes_rules]: "commutes t (returnS a)"
  by (simp add: commutes_def returnS_def)

lemma commutes_throw [commutes_rules]: "commutes t (throwS e)"
  by (simp add: commutes_def throwS_def)

lemma commutes_read [commutes_rules]: "(\<And>s. f (t s) = f s) \<Longrightarrow> commutes t (readS f)"
  by (simp add: commutes_def readS_def)

lemma commutes_lift [commutes_rules]: "commutes t (liftS r)"
  by (simp add: commutes_def liftS_def)

lemma commutes_update [commutes_rules]: "(\<And>s. f (t s) = t (f s)) \<Longrightarrow> commutes t (updateS f)"
  by (simp add: commutes_def updateS_def)

lemma commutes_bind [commutes_rules]:
  assumes "commutes t m" and "\<And>a. commutes t (g a)"
  shows "commutes t (bindS m g)"
proof (rule commutesI)
  fix s
  obtain r s1 where m: "m s = (r, s1)" by (cases "m s")
  show "bindS m g (t s) = (fst (bindS m g s), t (snd (bindS m g s)))"
    using commutesD [OF assms(1) m] assms(2)
    by (cases r) (simp_all add: bindS_def m commutes_def)
qed

lemma commutes_then [commutes_rules]: "commutes t m \<Longrightarrow> commutes t n \<Longrightarrow> commutes t (thenS m n)"
  unfolding thenS_def by (rule commutes_bind)

lemma commutes_catch [commutes_rules]:
  assumes "commutes t m" and "\<And>e. commutes t (h e)"
  shows "commutes t (catchS m h)"
proof (rule commutesI)
  fix s
  obtain r s1 where m: "m s = (r, s1)" by (cases "m s")
  show "catchS m h (t s) = (fst (catchS m h s), t (snd (catchS m h s)))"
    using commutesD [OF assms(1) m] assms(2)
    by (cases r) (simp_all add: catchS_def m commutes_def)
qed

lemma commutes_finally [commutes_rules]:
  assumes "commutes t m" and "commutes t n"
  shows "commutes t (finallyS m n)"
proof (rule commutesI)
  fix s
  obtain r s1 where m: "m s = (r, s1)" by (cases "m s")
  obtain q s2 where n: "n s1 = (q, s2)" by (cases "n s1")
  show "finallyS m n (t s) = (fst (finallyS m n s), t (snd (finallyS m n s)))"
    using commutesD [OF assms(1) m] commutesD [OF assms(2) n]
    by (cases q) (simp_all add: finallyS_def m n)
qed

lemma commutes_each [commutes_rules]: "(\<And>x. commutes t (g x)) \<Longrightarrow> commutes t (eachS g xs)"
  by (induction xs) (auto intro: commutes_return commutes_then)

lemma commutes_if [commutes_rules]: "commutes t m \<Longrightarrow> commutes t n \<Longrightarrow> commutes t (if b then m else n)"
  by simp

lemma commutes_option [commutes_rules]:
  "commutes t m \<Longrightarrow> (\<And>a. commutes t (g a)) \<Longrightarrow> commutes t (case x of None \<Rightarrow> m | Some a \<Rightarrow> g a)"
  by (cases x) simp_all

end
