(* ===== verification/CoordinatorProps.thy ===== *)
theory CoordinatorProps
  imports Coordinator
begin

section \<open>What the coordinator guarantees\<close>

text \<open>
  The invariant of the coordinator's stores, kept by every operation of the coordinator whatever
  the outside answers and whether the operation returns or throws: each stored run is filed
  under its id, its history is a chain of legal transitions from \<open>QUEUED\<close> to its state, and a run
  in a terminal state has no open wait. While a run is driven the last part is suspended for it.
\<close>

subsection \<open>Operations that leave runs and waits alone\<close>

definition core :: "coord_world \<Rightarrow> run_rows \<times> wait_store" where
  "core w = (w_runs w, w_waits w)"

lemma core_ask [frames_rules]: "frames core (ask f)"
  by (simp add: frames_def ask_def core_def)

lemma core_ask_outside [frames_rules]: "frames core (ask_outside f)"
  unfolding ask_outside_def by (intro frames_rules)

lemma core_now [frames_rules]: "frames core (now env)"
  unfolding now_def by (intro frames_rules)

lemma core_next_id [frames_rules]: "frames core (next_id env p)"
  unfolding next_id_def by (intro frames_rules)

lemma core_publish [frames_rules]: "frames core (publish env r p)"
  unfolding publish_def by (intro frames_rules) (simp add: core_def)

lemma core_publishEngineEvent [frames_rules]: "frames core (publishEngineEvent env r e)"
  unfolding publishEngineEvent_def by (cases e) (simp_all add: frames_rules)

lemma core_save_graph [frames_rules]: "frames core (save_graphS st)"
  unfolding save_graphS_def by (intro frames_rules) (simp add: core_def)

lemma core_release [frames_rules]: "frames core (releaseS env i r)"
  unfolding releaseS_def by (intro frames_rules) (simp add: core_def)

lemma core_prepareWorkspace [frames_rules]: "frames core (prepareWorkspace env item g r)"
  unfolding prepareWorkspace_def Let_def by (intro frames_rules)

lemma core_restoreWorkspace [frames_rules]: "frames core (restoreWorkspaceIfNeeded env r g item)"
  unfolding restoreWorkspaceIfNeeded_def Let_def
  by (intro frames_rules) (auto split: jsval.splits intro!: frames_rules)

lemma core_applyProjections [frames_rules]: "frames core (applyProjections env item ts)"
  unfolding applyProjections_def by (intro frames_rules) (simp add: core_def)

lemma core_comment [frames_rules]: "frames core (commentOnItem env item b)"
  unfolding commentOnItem_def by (intro frames_rules) (simp add: core_def)

lemma core_suspend_checkpoint [frames_rules]: "frames core (suspend_checkpoint env r item outcome ws)"
  unfolding suspend_checkpoint_def by (intro frames_rules) (simp_all add: core_def)

lemma core_start_child [frames_rules]: "frames core (start_child env item snap q)"
  unfolding start_child_def Let_def by (intro frames_rules) (simp add: core_def)

lemma core_cleanup [frames_rules]: "frames core (cleanup env ws t)"
  unfolding cleanup_def by (intro frames_rules) (simp add: core_def)

lemma core_agent_context [frames_rules]: "frames core (agent_context env item spec)"
  unfolding agent_context_def by (intro frames_rules)

lemma core_engine_tick [frames_rules]: "frames core (engine_tick env call)"
  unfolding engine_tick_def
  by (intro frames_bind frames_rules) (auto split: option.splits sum.splits intro!: frames_rules)

lemma core_reconcile_spec [frames_rules]: "frames core (reconcile_spec env r item st ws old)"
  unfolding reconcile_spec_def by (intro frames_rules) (simp add: core_def)

lemma core_prepare_run [frames_rules]: "frames core (prepare_run env item g snap r vars)"
  unfolding prepare_run_def Let_def by (intro frames_rules) (simp add: core_def)

lemma core_read_input [frames_rules]: "frames core (read_input env i rsp)"
  unfolding read_input_def by (intro frames_rules)

lemma core_seal_input [frames_rules]: "frames core (seal_input env c i)"
  unfolding seal_input_def by (intro frames_rules) (simp add: core_def)

subsection \<open>The invariant\<close>

fun legal_path :: "run_state \<Rightarrow> run_state_change list \<Rightarrow> run_state \<Rightarrow> bool" where
  "legal_path s [] t = (s = t)"
| "legal_path s (c # cs) t = (rc_from c = s \<and> canTransition s (rc_to c) \<and> legal_path (rc_to c) cs t)"

lemma legal_path_snoc:
  "legal_path s (cs @ [c]) t \<longleftrightarrow> legal_path s cs (rc_from c) \<and> canTransition (rc_from c) (rc_to c) \<and> t = rc_to c"
  by (induction cs arbitrary: s) auto

definition legal_run :: "run \<Rightarrow> bool" where
  "legal_run r \<longleftrightarrow> legal_path Queued (run_history r) (run_state r)"

definition has_open :: "string \<Rightarrow> wait_store \<Rightarrow> bool" where
  "has_open runId ws \<longleftrightarrow>
     (\<exists>(i, c) \<in> set (ws_conditions ws). wait_status c = WaitOpen \<and> wait_runId c = runId)"

definition stores_ok :: "string set \<Rightarrow> run_rows \<times> wait_store \<Rightarrow> bool" where
  "stores_ok X s \<longleftrightarrow> (\<forall>k r. get_run k (fst s) = Some r \<longrightarrow> run_id r = k \<and> legal_run r \<and>
     (isTerminal (run_state r) \<and> k \<notin> X \<longrightarrow> \<not> has_open k (snd s)))"

definition consistent :: "string set \<Rightarrow> coord_world \<Rightarrow> bool" where
  "consistent X w \<longleftrightarrow> stores_ok X (core w)"

lemma set_update_subset: "set (AList.update k v m) \<subseteq> insert (k, v) (set m)"
  by (induction m) auto

lemma stores_ok_weaken: "stores_ok X s \<Longrightarrow> X \<subseteq> Y \<Longrightarrow> stores_ok Y s"
  by (auto simp: stores_ok_def)

lemma stores_ok_close: "stores_ok {k} (rs, ws) \<Longrightarrow> \<not> has_open k ws \<Longrightarrow> stores_ok {} (rs, ws)"
  by (auto simp: stores_ok_def)

lemma stores_ok_fewer_open:
  assumes "stores_ok X (rs, ws)" and "\<And>k. has_open k ws' \<Longrightarrow> has_open k ws"
  shows "stores_ok X (rs, ws')"
  using assms by (auto simp: stores_ok_def)

lemma stores_ok_get: "stores_ok X s \<Longrightarrow> get_run i (fst s) = Some r \<Longrightarrow> run_id r = i \<and> legal_run r"
  by (auto simp: stores_ok_def)

lemma stores_ok_save_run:
  assumes "stores_ok X (rs, ws)" and "legal_run r"
    and "isTerminal (run_state r) \<Longrightarrow> run_id r \<notin> X \<Longrightarrow> \<not> has_open (run_id r) ws"
  shows "stores_ok X (save_run r rs, ws)"
  using assms by (auto simp: stores_ok_def runs.get_save)

lemma has_open_save_wait: "has_open k (save_wait c ws) \<Longrightarrow> has_open k ws \<or> k = wait_runId c"
  using set_update_subset [of "wait_id c" c "ws_conditions ws"]
  by (fastforce simp: has_open_def save_wait_def put_row_def)

lemma has_open_trySatisfy: "has_open k (snd (trySatisfy i sat ws)) \<Longrightarrow> has_open k ws"
proof -
  have "wait_status (satisfied_with sat c) \<noteq> WaitOpen" for c by (simp add: satisfied_with_def)
  then show "has_open k (snd (trySatisfy i sat ws)) \<Longrightarrow> has_open k ws"
    using set_update_subset [of i _ "ws_conditions ws"]
    by (fastforce simp: has_open_def trySatisfy_def split: option.splits if_splits)
qed

lemma has_open_cancel: "has_open k (cancelForRun r ws) \<longleftrightarrow> has_open k ws \<and> k \<noteq> r"
  by (force simp: has_open_def cancelForRun_def cancel_if_open_def split: if_splits)

lemma has_open_supplemental [simp]: "has_open k (addSupplemental e ws) = has_open k ws"
  by (simp add: has_open_def addSupplemental_def)

text \<open>Saving a run in a state that is not terminal restores the invariant for it.\<close>

lemma stores_ok_reopen:
  assumes "stores_ok {run_id r} (rs, ws)" and "legal_run r" and "\<not> isTerminal (run_state r)"
  shows "stores_ok {} (save_run r rs, ws)"
  using assms by (auto simp: stores_ok_def runs.get_save)

subsection \<open>Single effects\<close>

text \<open>\<open>good X m Q\<close>: \<open>m\<close> keeps the invariant and its result satisfies \<open>Q\<close>.\<close>

abbreviation good :: "string set \<Rightarrow> 'a coord_op \<Rightarrow> ('a \<Rightarrow> bool) \<Rightarrow> bool" where
  "good X m Q \<equiv> keeps (consistent X) m Q"

lemma hoare_consistent:
  "frames core m \<Longrightarrow> hoare (consistent X) m (\<lambda>_. consistent X) (consistent X)"
  unfolding consistent_def using hoare_frames [of core m "stores_ok X"] by simp

lemma good_frames: "frames core m \<Longrightarrow> good X m (\<lambda>_. True)"
  unfolding keeps_def consistent_def using hoare_frames [of core m "stores_ok X"] by simp

lemma core_simps [simp]:
  "core (w\<lparr>w_runs := rs\<rparr>) = (rs, w_waits w)" "core (w\<lparr>w_waits := ws\<rparr>) = (w_runs w, ws)"
  by (simp_all add: core_def)

lemma consistent_core: "consistent X w \<longleftrightarrow> stores_ok X (w_runs w, w_waits w)"
  by (simp add: consistent_def core_def)

lemma good_satisfyS: "good X (satisfyS i sat) (\<lambda>_. True)"
proof (rule keepsI)
  fix w
  assume "consistent X w"
  moreover obtain won ws where t: "trySatisfy i sat (w_waits w) = (won, ws)" by (cases "trySatisfy i sat (w_waits w)")
  ultimately have "stores_ok X (w_runs w, ws)"
    unfolding consistent_core using stores_ok_fewer_open has_open_trySatisfy by (metis snd_conv)
  then show "consistent X (snd (satisfyS i sat w))"
    by (simp add: satisfyS_def t consistent_core)
qed simp

lemma good_waits:
  assumes "\<And>ws k. has_open k (f ws) \<Longrightarrow> has_open k ws \<or> k \<in> X"
  shows "good X (update_waits f) (\<lambda>_. True)"
  unfolding update_waits_def
  by (intro keeps_update) (use assms in \<open>auto simp: consistent_core stores_ok_def\<close>)

lemma good_cancelForRun: "good X (update_waits (cancelForRun r)) (\<lambda>_. True)"
  by (rule good_waits) (simp add: has_open_cancel)

lemma good_supplemental: "good X (update_waits (addSupplemental e)) (\<lambda>_. True)"
  by (rule good_waits) simp

lemma good_save_wait: "wait_runId c \<in> X \<Longrightarrow> good X (update_waits (save_wait c)) (\<lambda>_. True)"
  by (rule good_waits) (use has_open_save_wait in auto)

subsection \<open>Transitions\<close>

lemma transition_run_cases:
  "transition_run env r to reason =
     (if canTransition (run_state r) to then
        bindS (now env) (\<lambda>t.
          let r' = r\<lparr>run_state := to, run_updatedAt := t, run_history := run_history r @
            [\<lparr>rc_from = run_state r, rc_to = to, rc_at = t, rc_reason = given reason\<rparr>]\<rparr> in
          thenS (save_runS r')
         (thenS (publish env (run_id r) (EvRunStateChanged (run_state r) to (given reason)))
         (returnS r')))
      else throwS (IllegalRunTransition (run_state r) to))"
  by (simp add: transition_run_def assertTransition_def)

definition moved :: "run \<Rightarrow> run_state \<Rightarrow> run \<Rightarrow> bool" where
  "moved r to r' \<longleftrightarrow> legal_run r' \<and> run_id r' = run_id r \<and> run_state r' = to \<and>
     run_workItemId r' = run_workItemId r"

lemma legal_step:
  assumes "legal_run r" and "canTransition (run_state r) to"
  shows "moved r to (r\<lparr>run_state := to, run_updatedAt := t, run_history := run_history r @
    [\<lparr>rc_from = run_state r, rc_to = to, rc_at = t, rc_reason = reason\<rparr>]\<rparr>)"
  using assms by (simp add: moved_def legal_run_def legal_path_snoc)

text \<open>
  A transition under any predicate \<open>P\<close> of runs and waits: it holds before, whether or not the
  transition is refused, and \<open>P'\<close> holds after the new state has been saved.
\<close>

lemma hoare_transition:
  assumes "legal_run r"
    and "\<And>rs ws r'. P (rs, ws) \<Longrightarrow> moved r to r' \<Longrightarrow> P' (save_run r' rs, ws)"
    and "\<And>s. P s \<Longrightarrow> E s"
  shows "hoare (\<lambda>w. P (core w)) (transition_run env r to reason)
    (\<lambda>r' w. P' (core w) \<and> moved r to r') (\<lambda>w. E (core w))"
proof (cases "canTransition (run_state r) to")
  case False
  then show ?thesis
    unfolding transition_run_cases using assms(3) by (simp add: hoare_def throwS_def)
next
  case True
  let ?new = "\<lambda>t. r\<lparr>run_state := to, run_updatedAt := t, run_history := run_history r @
    [\<lparr>rc_from = run_state r, rc_to = to, rc_at = t, rc_reason = given reason\<rparr>]\<rparr>"
  show ?thesis
  proof (rule hoareI)
    fix w e w'
    assume "transition_run env r to reason w = (Inl e, w')"
    then show "E (core w')"
      using True by (simp add: transition_run_cases now_def ask_def save_runS_def publish_def next_id_def op_defs Let_def)
  next
    fix w r' w'
    assume P: "P (core w)" and run: "transition_run env r to reason w = (Inr r', w')"
    from run True obtain t where "r' = ?new t" "core w' = (save_run r' (w_runs w), w_waits w)"
      by (auto simp: transition_run_cases now_def ask_def save_runS_def publish_def next_id_def
          op_defs Let_def core_def)
    with P assms(2) legal_step [OF assms(1) True]
    show "P' (core w') \<and> moved r to r'" by (simp add: core_def)
  qed
qed

lemma good_transition:
  assumes "legal_run r" and "\<not> isTerminal to \<or> run_id r \<in> X"
  shows "good X (transition_run env r to reason) (moved r to)"
  unfolding keeps_def consistent_def
  by (rule hoare_transition [OF assms(1)]) (use assms(2) in \<open>auto intro!: stores_ok_save_run simp: moved_def\<close>)

text \<open>A run whose waits are closed may end.\<close>

definition closing :: "string \<Rightarrow> coord_world \<Rightarrow> bool" where
  "closing k w \<longleftrightarrow> consistent {k} w \<and> \<not> has_open k (w_waits w)"

lemma closing_consistent: "closing k w \<Longrightarrow> consistent {} w"
  unfolding closing_def consistent_core using stores_ok_close by blast

lemma closing_frames: "frames core m \<Longrightarrow> hoare (closing k) m (\<lambda>_. closing k) (closing k)"
  using hoare_frames [of core m "\<lambda>s. stores_ok {k} s \<and> \<not> has_open k (snd s)"]
  by (simp add: closing_def [abs_def] consistent_def core_def)

lemma hoare_end:
  assumes "legal_run r" and "run_id r = k"
  shows "hoare (closing k) (transition_run env r to reason)
    (\<lambda>r' w. consistent {} w \<and> moved r to r') (closing k)"
proof -
  let ?P = "\<lambda>s. stores_ok {k} s \<and> \<not> has_open k (snd s)"
  have "hoare (\<lambda>w. ?P (core w)) (transition_run env r to reason)
    (\<lambda>r' w. stores_ok {} (core w) \<and> moved r to r') (\<lambda>w. ?P (core w))"
    by (rule hoare_transition [OF assms(1)])
      (use assms(2) in \<open>auto dest: stores_ok_close intro!: stores_ok_save_run simp: moved_def\<close>)
  then show ?thesis by (simp add: consistent_def closing_def [abs_def] core_def)
qed

lemma hoare_cancel_open:
  "hoare (consistent {k}) (update_waits (cancelForRun k)) (\<lambda>_. closing k) (closing k)"
  unfolding hoare_def update_waits_def updateS_def closing_def consistent_core
  by (auto simp: stores_ok_def has_open_cancel)

lemma hoare_reopen:
  assumes "legal_run r" and "\<not> isTerminal to"
  shows "hoare (consistent {run_id r}) (transition_run env r to reason)
    (\<lambda>r' w. consistent {} w \<and> moved r to r') (consistent {run_id r})"
  unfolding consistent_def
proof (rule hoare_transition [OF assms(1)])
  fix rs ws r'
  assume "stores_ok {run_id r} (rs, ws)" "moved r to r'"
  then show "stores_ok {} (save_run r' rs, ws)"
    using stores_ok_reopen [of r' rs ws] assms(2) by (simp add: moved_def)
qed

subsection \<open>Waiting, finishing and failing\<close>

lemma good_weaken: "good X m Q \<Longrightarrow> good X m (\<lambda>_. True)"
  by (rule keeps_trivial)

lemmas good_simple = good_frames [OF core_publish] good_frames [OF core_comment]
  good_frames [OF core_now] good_frames [OF core_next_id]

lemma good_persistWaits: "run_id r \<in> X \<Longrightarrow> good X (persistWaits env r item g outcome) (\<lambda>_. True)"
  unfolding persistWaits_def persist_wait_def Let_def
  by (intro keeps_bind [where R = "\<lambda>_. True"] keeps_then keeps_each keeps_if keeps_option good_simple
      good_save_wait keeps_read keeps_return) simp_all

lemma hoare_suspend:
  assumes "legal_run r"
  shows "hoare (consistent {run_id r}) (suspend env r item outcome ws)
    (\<lambda>r' w. consistent {} w) (consistent {run_id r})"
  unfolding suspend_def
proof (rule hoare_then)
  show "hoare (consistent {run_id r}) (suspend_checkpoint env r item outcome ws)
    (\<lambda>_. consistent {run_id r}) (consistent {run_id r})"
    using good_frames [OF core_suspend_checkpoint] by (simp add: keeps_def)
next
  show "hoare (consistent {run_id r})
    (bindS (readS (\<lambda>w. listOpen (Some (run_id r)) None None (w_waits w))) (\<lambda>opn.
       transition_run env r (if list_ex (\<lambda>c. wait_request c \<noteq> None) opn then WaitingForHuman else Waiting)
         (Some ''durable wait''))) (\<lambda>r' w. consistent {} w) (consistent {run_id r})"
  proof (rule hoare_bind)
    fix opn :: "wait_condition list"
    let ?to = "if list_ex (\<lambda>c. wait_request c \<noteq> None) opn then WaitingForHuman else Waiting"
    show "hoare (consistent {run_id r}) (transition_run env r ?to (Some ''durable wait''))
      (\<lambda>r' w. consistent {} w) (consistent {run_id r})"
      by (rule hoare_weaken [OF hoare_reopen [OF assms]]) (simp_all add: isTerminal_def TERMINAL_RUN_STATES_def)
  qed (simp add: hoare_def readS_def)
qed

text \<open>Resuming a parent is assumed to keep the invariant until the recursion is tied.\<close>

lemma good_satisfyParentWaits:
  assumes "\<And>c sat. good X (cont c sat) (\<lambda>_. True)"
  shows "good X (satisfyParentWaits env cont r) (\<lambda>_. True)"
proof -
  have one: "good X (satisfy_parent env cont r c) (\<lambda>_. True)" for c
    unfolding satisfy_parent_def Let_def
    by (auto split: jsval.splits prod.splits option.splits intro!: keeps_return keeps_if
      keeps_bind [where R = "\<lambda>_. True"] keeps_read good_satisfyS good_simple keeps_catch assms)
  show ?thesis
    unfolding satisfyParentWaits_def
    by (intro keeps_bind [where R = "\<lambda>_. True"] keeps_read keeps_each one) simp
qed

lemma consistent_mono: "consistent {} w \<Longrightarrow> consistent X w"
  unfolding consistent_def by (erule stores_ok_weaken) simp

lemma keeps_simple: "keeps I m (\<lambda>_. True) \<longleftrightarrow> hoare I m (\<lambda>_. I) I"
  by (simp add: keeps_def)

lemma hoare_of_good: "good X m (\<lambda>_. True) \<Longrightarrow> hoare (consistent X) m (\<lambda>_. consistent X) (consistent X)"
  by (simp add: keeps_def)

lemma hoare_finalize:
  assumes "legal_run r" and "\<And>c sat. good {} (cont c sat) (\<lambda>_. True)"
  shows "hoare (consistent {run_id r}) (finalize env cont r item target outcome ws)
    (\<lambda>_. consistent {}) (consistent {})"
proof -
  let ?k = "run_id r"
  have transition: "hoare (closing ?k) (transition_run env r target reason)
      (\<lambda>_. consistent {}) (consistent {})" for reason
    by (rule hoare_weaken [OF hoare_end [OF assms(1) refl]]) (auto intro: closing_consistent)
  have parents: "hoare (consistent {}) (thenS (satisfyParentWaits env cont f) (returnS f))
      (\<lambda>_. consistent {}) (consistent {})" for f
    by (intro hoare_then [OF hoare_of_good [OF good_satisfyParentWaits [OF assms(2)]]]) (rule hoare_return)
  have frame: "hoare (closing ?k) m (\<lambda>_. closing ?k) (consistent {})" if "frames core m" for m
    by (rule hoare_weaken [OF closing_frames [OF that]]) (auto intro: closing_consistent)
  have closed: "hoare (consistent {?k}) (update_waits (cancelForRun ?k)) (\<lambda>_. closing ?k) (consistent {})"
    by (rule hoare_weaken [OF hoare_cancel_open]) (auto intro: closing_consistent)
  show ?thesis
    unfolding finalize_def
    by (rule hoare_then [OF closed hoare_then [OF frame [OF core_release]
      hoare_then [OF frame [OF core_cleanup] hoare_bind [OF transition parents]]]])
qed

lemma hoare_drive_failed:
  assumes "legal_run r"
  shows "hoare (consistent {run_id r}) (drive_failed env r item e)
    (\<lambda>_. consistent {}) (consistent {})"
proof -
  let ?k = "run_id r"
  have frame: "hoare (closing ?k) m (\<lambda>_. closing ?k) (consistent {})" if "frames core m" for m
    by (rule hoare_weaken [OF closing_frames [OF that]]) (auto intro: closing_consistent)
  have closed: "hoare (consistent {?k}) (update_waits (cancelForRun ?k)) (\<lambda>_. closing ?k) (consistent {})"
    by (rule hoare_weaken [OF hoare_cancel_open]) (auto intro: closing_consistent)
  have first: "hoare (consistent {?k}) (publish env ?k p) (\<lambda>_. consistent {?k}) (consistent {})" for p
    using hoare_of_good [OF good_frames [OF core_publish]]
    by (auto simp: hoare_def publish_def next_id_def now_def ask_def op_defs)
  let ?Q = "\<lambda>c w. closing ?k w \<and> legal_run c \<and> run_id c = ?k"
  have stored: "hoare (closing ?k)
      (readS (\<lambda>w. case get_run ?k (w_runs w) of None \<Rightarrow> r | Some c \<Rightarrow> c)) ?Q (consistent {})"
    using assms by (auto simp: hoare_def readS_def closing_def consistent_core stores_ok_def split: option.splits)
  have last: "hoare (?Q c) (if run_state c \<noteq> Failed
      then catchS (transition_run env c Failed reason) (\<lambda>_. returnS c) else returnS c)
      (\<lambda>_. consistent {}) (consistent {})" for c reason
  proof (rule hoare_if)
    show "hoare (?Q c) (returnS c) (\<lambda>_. consistent {}) (consistent {})"
      by (auto simp: hoare_def returnS_def intro: closing_consistent)
    have "hoare (?Q c) (transition_run env c Failed reason) (\<lambda>_. consistent {}) (closing ?k)"
    proof (cases "legal_run c \<and> run_id c = ?k")
      case True
      then show ?thesis
        by (intro hoare_weaken [OF hoare_end [of c ?k]]) auto
    qed (auto simp: hoare_def)
    then show "hoare (?Q c) (catchS (transition_run env c Failed reason) (\<lambda>_. returnS c))
        (\<lambda>_. consistent {}) (consistent {})"
      by (rule hoare_catch) (auto simp: hoare_def returnS_def intro: closing_consistent)
  qed
  show ?thesis
    unfolding drive_failed_def
    by (rule hoare_then [OF first hoare_then [OF closed hoare_then [OF frame [OF core_release]
      hoare_bind [OF stored last]]]])
qed

lemma hoare_drive_body:
  assumes "legal_run r" and "\<And>c sat. good {} (cont c sat) (\<lambda>_. True)"
  shows "hoare (consistent {run_id r}) (drive_body env cont r item snap g st ws sats)
    (\<lambda>_. consistent {}) (consistent {run_id r})"
proof -
  let ?I = "consistent {run_id r}"
  have frame: "hoare ?I m (\<lambda>_. ?I) ?I" if "frames core m" for m
    by (rule hoare_consistent [OF that])
  have weaker: "consistent {} w \<Longrightarrow> ?I w" for w
    unfolding consistent_def by (erule stores_ok_weaken) simp
  have waits: "hoare ?I (if b then persistWaits env r item g outcome else returnS ()) (\<lambda>_. ?I) ?I"
    for b outcome
    by (intro hoare_if hoare_of_good good_persistWaits keeps_return) simp_all
  have last: "hoare ?I (if b then suspend env r item outcome ws
      else finalize env cont r item target outcome ws) (\<lambda>_. consistent {}) ?I" for b outcome target
    by (rule hoare_if [OF hoare_suspend [OF assms(1)]
      hoare_weaken [OF hoare_finalize [OF assms]]]) (auto intro: weaker)
  show ?thesis
    unfolding drive_body_def
    by (rule hoare_bind [OF frame [OF frames_read] hoare_bind [OF frame [OF core_agent_context]
      hoare_bind [OF frame [OF core_engine_tick] hoare_then [OF waits hoare_then [OF frame [OF core_save_graph]
        hoare_then [OF frame [OF core_applyProjections] last]]]]]])
qed

lemma good_drive:
  assumes "legal_run r" and "\<And>c sat. good {} (cont c sat) (\<lambda>_. True)"
  shows "good {} (drive env cont r item snap g st ws sats) (\<lambda>_. True)"
proof -
  let ?k = "run_id r"
  have set_active: "frames core (updateS (\<lambda>w. w\<lparr>w_active := f (w_active w)\<rparr>))" for f
    by (intro frames_rules) (simp add: core_def)
  have body: "hoare (consistent {?k})
      (catchS (drive_body env cont r item snap g st ws sats) (drive_failed env r item))
      (\<lambda>_. consistent {}) (consistent {})"
    by (rule hoare_catch [OF hoare_drive_body [OF assms] hoare_drive_failed [OF assms(1)]])
  have "hoare (consistent {}) (drive env cont r item snap g st ws sats) (\<lambda>_. consistent {}) (consistent {})"
    unfolding drive_def
  proof (rule hoare_then)
    show "hoare (consistent {}) (updateS (\<lambda>w. w\<lparr>w_active := set_add (run_id r) (w_active w)\<rparr>))
      (\<lambda>_. consistent {?k}) (consistent {})"
      by (rule hoare_weaken [OF hoare_consistent [OF set_active, where X = "{}"]])
        (auto simp: consistent_def elim: stores_ok_weaken)
    show "hoare (consistent {?k})
      (finallyS (catchS (drive_body env cont r item snap g st ws sats) (drive_failed env r item))
        (updateS (\<lambda>w. w\<lparr>w_active := removeAll (run_id r) (w_active w)\<rparr>)))
      (\<lambda>_. consistent {}) (consistent {})"
      by (rule hoare_finally [OF body set_active])
        (auto simp: consistent_def updateS_def)
  qed
  then show ?thesis by (simp add: keeps_def)
qed

subsection \<open>The operations of the coordinator\<close>

lemma good_continue_run:
  assumes "legal_run r" and "\<And>c sat. good {} (cont c sat) (\<lambda>_. True)"
  shows "good {} (continue_run env cont r st snap g sats item) (\<lambda>_. True)"
proof -
  have "good {} (if run_state r = Waiting \<or> run_state r = WaitingForHuman
      then transition_run env r Running (Some ''wait satisfied'') else returnS r) legal_run"
    by (intro keeps_if keeps_return keeps_weaken [OF good_transition [OF assms(1)]] assms(1))
      (auto simp: moved_def isTerminal_def TERMINAL_RUN_STATES_def)
  then show ?thesis
    unfolding continue_run_def
    by (intro keeps_bind [where R = "\<lambda>_. True", OF keeps_read]
      keeps_bind [where R = "\<lambda>_. True", OF good_frames [OF core_restoreWorkspace]]
      keeps_then [OF good_frames [OF core_reconcile_spec]] keeps_bind [where R = legal_run]
      keeps_then keeps_return TrueI good_drive assms)
qed

lemma good_resumeRunLocked:
  assumes "\<And>c sat. good {} (cont c sat) (\<lambda>_. True)"
  shows "good {} (resumeRunLocked env cont runId sats) (\<lambda>_. True)"
proof -
  have found: "good {} (resume_found env cont r st sats) (\<lambda>_. True)" if "legal_run r" for r st
    unfolding resume_found_def Let_def
    by (intro keeps_bind [where R = "\<lambda>_. True"] keeps_read keeps_option keeps_throw keeps_lift keeps_if
      good_continue_run good_frames [OF core_ask_outside] that assms TrueI)
  show ?thesis
    unfolding resumeRunLocked_def
  proof (rule keeps_bind [where R = "\<lambda>p. case fst p of None \<Rightarrow> True | Some r \<Rightarrow> legal_run r"])
    show "good {} (readS (\<lambda>w. (get_run runId (w_runs w), get_graph_state runId (w_graphs w))))
      (\<lambda>p. case fst p of None \<Rightarrow> True | Some r \<Rightarrow> legal_run r)"
      by (rule keeps_read) (auto simp: consistent_core stores_ok_def split: option.splits)
  qed (auto split: option.splits intro: keeps_throw found)
qed

lemma good_resumeRun: "good {} (resumeRun env fuel runId sats) (\<lambda>_. True)"
  by (induction env fuel runId sats rule: resumeRun.induct)
    (auto intro: keeps_throw good_resumeRunLocked)

lemma good_resume: "good {} (resume env c sat) (\<lambda>_. True)"
  unfolding resume_def by (intro keeps_bind [where R = "\<lambda>_. True"] keeps_read good_resumeRun TrueI)

lemma good_startResolved: "good {} (startResolved env (resume env) item name version snap runId vars) (\<lambda>_. True)"
proof -
  have save: "good {} (save_runS r) (\<lambda>_. True)" if "legal_run r" "\<not> isTerminal (run_state r)" for r
    unfolding save_runS_def
    by (rule keeps_update) (use that stores_ok_save_run in \<open>auto simp: consistent_core\<close>)
  have moves: "good {} (transition_run env r to None) legal_run" if "legal_run r" "\<not> isTerminal to" for r to
    by (rule keeps_weaken [OF good_transition [OF that(1)]]) (use that(2) in \<open>auto simp: moved_def\<close>)
  show ?thesis
    unfolding startResolved_def Let_def
    by (intro keeps_bind [where R = "\<lambda>_. True", OF keeps_lift] keeps_bind [where R = "\<lambda>_. True", OF good_simple(3)]
      keeps_bind [where R = legal_run, OF moves] keeps_then save)
      (auto simp: new_run_def legal_run_def isTerminal_def TERMINAL_RUN_STATES_def
        intro!: keeps_bind [where R = legal_run, OF moves] keeps_bind [where R = "\<lambda>_. True", OF good_frames [OF core_prepare_run]]
          good_drive good_resume)
qed

lemma good_start: "good {} (start env item name runId vars version) (\<lambda>_. True)"
  unfolding start_def Let_def
  by (intro keeps_bind [where R = "\<lambda>_. True", OF keeps_read] keeps_bind [where R = "\<lambda>_. True", OF keeps_lift]
    keeps_bind [where R = "\<lambda>_. True", OF good_simple(3)] keeps_bind [where R = "\<lambda>_. True", OF good_simple(4)]
    keeps_then keeps_option keeps_throw good_startResolved TrueI
    good_frames [OF frames_update]) (simp add: core_def)

lemma good_run_child: "good {} (run_child env) (\<lambda>_. True)"
  unfolding run_child_def
  by (rule keeps_bind [where R = "\<lambda>_. True", OF keeps_read])
    (auto split: list.splits simp: core_def
      intro!: keeps_return keeps_then keeps_catch good_startResolved good_frames [OF frames_update])

lemma good_settle_response: "good {} (settle_response env i c rsp input) (\<lambda>_. True)"
  unfolding settle_response_def Let_def
  by (intro keeps_bind [where R = "\<lambda>_. True"] keeps_then keeps_if keeps_option keeps_return TrueI
    good_satisfyS good_supplemental good_resume good_simple)

lemma good_satisfy: "good {} (satisfy env i rsp) (\<lambda>_. True)"
  unfolding satisfy_def
  by (intro keeps_bind [where R = "\<lambda>_. True", OF keeps_read]) 
    (auto split: option.splits sum.splits intro!: keeps_return good_settle_response
      keeps_bind [where R = "\<lambda>_. True", OF good_frames [OF core_read_input]]
      keeps_bind [where R = "\<lambda>_. True", OF good_frames [OF core_seal_input]])

lemma good_count_true:
  "(\<And>x. good {} (f x) (\<lambda>_. True)) \<Longrightarrow> good {} (count_true f xs) (\<lambda>_. True)"
  by (induction xs) (auto intro!: keeps_return keeps_bind [where R = "\<lambda>_. True"])

lemma good_fireDueTimers: "good {} (fireDueTimers env t) (\<lambda>_. True)"
  unfolding fireDueTimers_def fire_timer_def Let_def
  by (intro keeps_bind [where R = "\<lambda>_. True"] keeps_read good_count_true keeps_then keeps_if keeps_catch
    keeps_return TrueI good_satisfyS good_resume)

lemma good_reconcile: "good {} (reconcileWaitingRun env runId) (\<lambda>_. True)"
  unfolding reconcileWaitingRun_def Let_def
  by (rule keeps_bind [where R = "\<lambda>_. True", OF keeps_read])
    (auto split: option.splits prod.splits intro!: keeps_return keeps_then keeps_if
      keeps_bind [where R = "\<lambda>_. True", OF good_simple(3)] keeps_bind [where R = "\<lambda>_. True", OF keeps_read]
      good_frames [OF core_save_graph] good_resumeRun)

lemma good_recover: "good {} (recover env) (\<lambda>_. True)"
  unfolding recover_def recover_run_def releaseOrphanedClaims_def release_orphan_def
  by (intro keeps_bind [where R = "\<lambda>_. True"] keeps_read keeps_then keeps_each keeps_if keeps_catch
    keeps_return TrueI good_resumeRun good_reconcile good_frames [OF core_release])

lemma good_cancel: "good {} (cancel env runId reason) (\<lambda>_. True)"
proof -
  have waiting: "hoare (consistent {}) (thenS (update_waits (cancelForRun (run_id r)))
      (thenS (releaseS env (run_workItemId r) (run_id r))
      (thenS (transition_run env r Cancelled (Some reason)) (returnS True))))
      (\<lambda>_. consistent {}) (consistent {})" if "legal_run r" for r
  proof -
    have closed: "hoare (consistent {}) (update_waits (cancelForRun (run_id r))) (\<lambda>_. closing (run_id r)) (consistent {})"
      by (rule hoare_weaken [OF hoare_cancel_open])
        (auto intro: closing_consistent consistent_mono)
    have frame: "hoare (closing (run_id r)) (releaseS env (run_workItemId r) (run_id r)) (\<lambda>_. closing (run_id r)) (consistent {})"
      by (rule hoare_weaken [OF closing_frames [OF core_release]]) (auto intro: closing_consistent)
    have last: "hoare (closing (run_id r)) (thenS (transition_run env r Cancelled (Some reason)) (returnS True))
        (\<lambda>_. consistent {}) (consistent {})"
      by (rule hoare_then [OF hoare_weaken [OF hoare_end [OF that refl]] hoare_return])
        (auto intro: closing_consistent)
    show ?thesis by (rule hoare_then [OF closed hoare_then [OF frame last]])
  qed
  have aborting: "good {} (thenS (updateS (\<lambda>w. w\<lparr>w_aborts := f w\<rparr>)) (returnS True)) (\<lambda>_. True)" for f
    by (intro keeps_then keeps_return good_frames [OF frames_update]) (simp_all add: core_def)
  show ?thesis
    unfolding cancel_def
  proof (rule keeps_bind [where R = "\<lambda>p. case snd p of None \<Rightarrow> True | Some r \<Rightarrow> legal_run r \<and> run_id r = runId"])
    show "good {} (readS (\<lambda>w. (w_active w, get_run runId (w_runs w))))
      (\<lambda>p. case snd p of None \<Rightarrow> True | Some r \<Rightarrow> legal_run r \<and> run_id r = runId)"
      by (rule keeps_read) (auto simp: consistent_core stores_ok_def split: option.splits)
  qed (auto split: option.splits intro!: keeps_return keeps_if aborting waiting [folded keeps_simple])
qed

subsection \<open>Reachable stores\<close>

text \<open>Any number of operations, in any order, on stores that held no run to begin with.\<close>

inductive reachable_world :: "coord_env \<Rightarrow> coord_world \<Rightarrow> bool" for env where
  initial: "w_runs w = [] \<Longrightarrow> reachable_world env w"
| started: "reachable_world env w \<Longrightarrow>
    reachable_world env (snd (start env item name runId vars version w))"
| child: "reachable_world env w \<Longrightarrow> reachable_world env (snd (run_child env w))"
| answered: "reachable_world env w \<Longrightarrow> reachable_world env (snd (satisfy env waitId response w))"
| timers: "reachable_world env w \<Longrightarrow> reachable_world env (snd (fireDueTimers env t w))"
| recovered: "reachable_world env w \<Longrightarrow> reachable_world env (snd (recover env w))"
| cancelled: "reachable_world env w \<Longrightarrow> reachable_world env (snd (cancel env runId reason w))"

lemma reachable_consistent: "reachable_world env w \<Longrightarrow> consistent {} w"
proof (induction rule: reachable_world.induct)
  case (initial w)
  then show ?case by (simp add: consistent_core stores_ok_def get_run_def)
qed (auto intro: keepsD(1) good_start good_run_child good_satisfy good_fireDueTimers good_recover good_cancel)

lemma no_open_listed: "\<not> has_open k ws \<Longrightarrow> listOpen (Some k) kind due ws = []"
  by (auto simp: listOpen_def sort_waits_def has_open_def rows_of_def filter_empty_conv)

end
