(* ===== verification/CoordinatorRun.thy ===== *)
theory CoordinatorRun
  imports CoordinatorProps
begin

section \<open>Properties of the coordinator\<close>

text \<open>
  The properties of the coordinator, and a workflow that asks for an approval to apply them to.
\<close>

subsection \<open>A concrete run\<close>

definition plain_node :: "string \<Rightarrow> graph_node_config \<Rightarrow> graph_node" where
  "plain_node i c = \<lparr>node_id = i, node_config = c, node_join = None, node_guards = None,
     onEnter = None, onExit = None, node_retry = None\<rparr>"

definition approval_request :: human_input_request_spec where
  "approval_request = \<lparr>hr_type = HApproval, hr_prompt = ''Ship it?'', hr_surface = SurfaceBoth,
     hr_choices = None, hr_secretName = None, hr_timeoutMs = None\<rparr>"

definition ask_graph :: workflow_graph where
  "ask_graph = \<lparr>graph_name = ''ship'', graph_description = None, graph_entry = ''ask'',
     graph_nodes = [plain_node ''ask'' (HumanInputNode approval_request),
                    plain_node ''end'' (TerminalNode OutCompleted)],
     graph_transitions = [\<lparr>tr_id = ''go'', tr_from = ''ask'', tr_to = ''end'', tr_condition = None,
                           loopBound = None, tr_effects = None\<rparr>],
     graph_domainStates = None, graph_projection = None, graph_trigger = None,
     graph_eligibility = None, graph_defaultProfile = None, graph_variables = None,
     graph_workspace = None\<rparr>"

definition ask_engine :: "nat \<Rightarrow> tick_call \<Rightarrow> tick_env" where
  "ask_engine k call = \<lparr>has_executor = (\<lambda>_. True),
     execute = (\<lambda>_ n ctx. case node_config n of
        HumanInputNode rq \<Rightarrow>
          if tc_satisfactions call = []
          then Inr (YWait \<lparr>ws_kind = WApproval, ws_parameters = [], ws_timeoutMs = None\<rparr> (Some rq))
          else Inr (YResult Succeeded None None)
      | _ \<Rightarrow> Inr (YResult Succeeded None None)),
     clock_now = int, aborted = (\<lambda>_. False), first_oid = 0\<rparr>"

definition ship_item :: work_item where
  "ship_item = \<lparr>wi_id = ''fake:1'', wi_provider = ''fake'', wi_externalId = ''1'', wi_title = ''Ship'',
     wi_description = None, wi_state = ''open'', wi_type = None, wi_priority = None, wi_labels = [],
     wi_assignees = [], wi_relationships = [], wi_repository = None, wi_metadata = [], wi_url = None,
     wi_updatedAt = None\<rparr>"

definition ship_spec :: execution_spec where
  "ship_spec = \<lparr>es_runId = ''r1'', es_revision = 1, es_createdAt = 0, es_reason = ''initial'',
     es_goal = ''Ship'', es_acceptanceCriteria = [], es_workItemId = ''fake:1'',
     es_relatedWorkItemIds = [], es_repositories = [], es_instructions = [], es_promotedContext = [],
     es_snapshotId = ''s'', es_profileName = None, es_completionCriteria = [], es_metadata = []\<rparr>"

definition ask_env :: coord_env where
  "ask_env = \<lparr>ce_clock = int, ce_ids = (\<lambda>k p. p @ show_nat k),
     ce_docs = \<lparr>graph_of = (\<lambda>_. ask_graph), compose_of = (\<lambda>_. [])\<rparr>,
     ce_work = (\<lambda>p. p = ''fake''), ce_get_item = (\<lambda>_ _ _. Inr ship_item),
     ce_strategies = (\<lambda>_. False), ce_create_workspace = (\<lambda>_ _. Inl []),
     ce_build_spec = (\<lambda>_ _. Inr ship_spec),
     ce_select_checkpoint = (\<lambda>_ _. None), ce_for_strategy = (\<lambda>_. None),
     ce_take_checkpoint = (\<lambda>_ _ _. Inl []), ce_restore_checkpoint = (\<lambda>_ _ _. Inl []),
     ce_secretSink = True, ce_store_secret = (\<lambda>_. Inr ()), ce_buildAgentContext = None,
     ce_engine = ask_engine, ce_children = (\<lambda>_ _. []),
     ce_toISO = show_int, ce_parseDate = (\<lambda>_. None), ce_number = (\<lambda>_. []), ce_text = (\<lambda>_. []),
     ce_branchPrefix = None\<rparr>"

definition empty_world :: coord_world where
  "empty_world = \<lparr>w_runs = [], w_graphs = [], w_specs = [],
     w_waits = \<lparr>ws_conditions = [], ws_supplementals = []\<rparr>, w_claims = [],
     w_definitions = \<lparr>st_versions = [((DkWorkflow, ''ship''), [\<lparr>dv_kind = DkWorkflow, dv_name = ''ship'',
       dv_version = 1, dv_contentHash = [], dv_document = [], dv_createdAt = 0\<rparr>])],
       st_lifecycles = [((DkWorkflow, ''ship''), LcEnabled)], st_snapshots = []\<rparr>,
     w_checkpoints = [], w_secrets = [], w_events = [], w_active = [], w_aborts = [], w_children = [],
     w_projected = [], w_comments = [], w_cleaned = [], w_seq = 0\<rparr>"

definition offline_env :: coord_env where
  "offline_env = ask_env\<lparr>ce_buildAgentContext := Some (\<lambda>_ _ _. Inl ''offline'')\<rparr>"

definition failed_world :: coord_world where
  "failed_world = snd (start offline_env ship_item ''ship'' ''r1'' [] None empty_world)"

lemma bind_run: "bindS m f s = (case m s of (Inl e, s') \<Rightarrow> (Inl e, s') | (Inr a, s') \<Rightarrow> f a s')"
  by (simp add: bindS_def)

lemma catch_run: "catchS m h s = (case m s of (Inl e, s') \<Rightarrow> h e s' | (Inr a, s') \<Rightarrow> (Inr a, s'))"
  by (simp add: catchS_def)

lemma finally_run: "finallyS m f s = (case m s of (r, s') \<Rightarrow>
    (case f s' of (Inl e, s'') \<Rightarrow> (Inl e, s'') | (Inr _, s'') \<Rightarrow> (r, s'')))"
  by (simp add: finallyS_def)

lemma lazy_congs:
  "s = s' \<Longrightarrow> bindS m f s = bindS m f s'" "s = s' \<Longrightarrow> thenS m n s = thenS m n s'"
  "s = s' \<Longrightarrow> catchS m h s = catchS m h s'" "s = s' \<Longrightarrow> finallyS m n s = finallyS m n s'"
  by simp_all

lemmas effects_run = bind_run catch_run finally_run thenS_def readS_def updateS_def liftS_def
  returnS_def throwS_def ask_def ask_outside_def now_def next_id_def publish_def save_runS_def
  save_graphS_def update_waits_def releaseS_def transition_run_cases

definition ship_version :: definition_version where
  "ship_version = \<lparr>dv_kind = DkWorkflow, dv_name = ''ship'', dv_version = 1, dv_contentHash = [],
     dv_document = [], dv_createdAt = 0\<rparr>"

lemma resolved: "resolve (ce_docs offline_env) (w_definitions empty_world) [] 0 ''ship'' None =
    Inr \<lparr>snap_id = [], snap_root_name = ''ship'', snap_root_version = 1,
      snap_definitions = [ship_version], snap_createdAt = 0\<rparr>"
  by code_simp

lemma offline_simps:
  "graph_of (ce_docs offline_env) d = ask_graph" "ce_build_spec offline_env k i = Inr ship_spec"
  "ce_buildAgentContext offline_env = Some (\<lambda>_ _ _. Inl ''offline'')" "graph_workspace ask_graph = None"
  "dv_kind ship_version = DkWorkflow" "dv_name ship_version = ''ship''" "dv_version ship_version = 1"
  by (simp_all add: offline_env_def ask_env_def ask_graph_def ship_version_def)

lemma failed: "map_option run_state (get_run ''r1'' (w_runs failed_world)) = Some Failed"
  unfolding failed_world_def
  apply (simp cong: lazy_congs add: start_def effects_run resolved)
  apply (simp cong: lazy_congs add: effects_run saveSnapshot_def findInSnapshot_def startResolved_def graphForName_def
     offline_simps new_run_def canTransition_def Let_def prepare_run_def prepareWorkspace_def workspace_strategy_def)
  apply (simp cong: lazy_congs add: effects_run drive_def drive_body_def agent_context_def drive_failed_def offline_simps
     canTransition_def runs.get_save Let_def)
  done

lemma failed_reachable: "reachable_world offline_env failed_world"
  unfolding failed_world_def by (intro reachable_world.intros) (simp add: empty_world_def)

definition approve :: wait_response where
  "approve = \<lparr>rsp_responder = ''ann'', rsp_channel = ChannelApp, rsp_value = Some (JBool True),
     rsp_event = None\<rparr>"

subsection \<open>Histories and finished runs\<close>

text \<open>
  C13. The audit history of every run is truthful: whatever the outside answers, in any order of
  starting, answering, timers, recovery and cancellation, each stored run is filed under its id
  and its history is a chain of legal transitions from \<open>QUEUED\<close> to the state it is in.
\<close>

theorem histories_legal:
  assumes "reachable_world env w" and "get_run k (w_runs w) = Some r"
  shows "run_id r = k \<and> legal_path Queued (run_history r) (run_state r)"
  using reachable_consistent [OF assms(1)] assms(2)
  by (auto simp: consistent_core stores_ok_def legal_run_def)

theorem histories_legal_witness:
  "\<exists>r. get_run ''r1'' (w_runs failed_world) = Some r \<and> run_state r = Failed \<and>
     legal_path Queued (run_history r) Failed"
proof -
  obtain r where r: "get_run ''r1'' (w_runs failed_world) = Some r" "run_state r = Failed"
    using failed by auto
  from histories_legal [OF failed_reachable r(1)] r show ?thesis by auto
qed

text \<open>
  C14. A finished run waits for nothing: once a run is completed, failed, blocked or cancelled,
  none of its waits is open, so no timer, answer or parent can resume it.
\<close>

theorem finished_runs_wait_for_nothing:
  assumes "reachable_world env w" and "get_run k (w_runs w) = Some r" and "isTerminal (run_state r)"
  shows "listOpen (Some k) kind due (w_waits w) = []"
  using reachable_consistent [OF assms(1)] assms(2,3)
  by (intro no_open_listed) (auto simp: consistent_core stores_ok_def)

theorem finished_runs_wait_for_nothing_witness:
  "listOpen (Some ''r1'') None None (w_waits failed_world) = []"
proof -
  obtain r where r: "get_run ''r1'' (w_runs failed_world) = Some r" "run_state r = Failed"
    using failed by auto
  then show ?thesis
    using finished_runs_wait_for_nothing [OF failed_reachable r(1)]
    by (simp add: isTerminal_def TERMINAL_RUN_STATES_def)
qed

subsection \<open>Late answers and joins\<close>

lemma settle_late:
  assumes "\<not> wait_open i (w_waits w)"
  shows "\<exists>es. length es \<le> 1 \<and> settle_response env i c rsp input w =
    (Inr (NotAccepted ''already satisfied; recorded as supplemental context''),
     w\<lparr>w_seq := Suc (w_seq w), w_waits := (w_waits w)\<lparr>ws_supplementals := ws_supplementals (w_waits w) @ es\<rparr>\<rparr>)"
proof -
  have lost: "trySatisfy i sat (w_waits w) = (False, w_waits w)" for sat
    using waits.satisfy_lost [OF assms] waits.satisfy_answer [of i sat "w_waits w"] assms
    by (intro prod_eqI) simp_all
  show ?thesis
  proof (cases input)
    case None
    then show ?thesis
      by (intro exI [of _ "[]"])
        (simp add: settle_response_def bindS_def thenS_def now_def ask_def satisfyS_def lost Let_def returnS_def)
  next
    case (Some x)
    then show ?thesis
      by (intro exI [of _ "[\<lparr>sup_waitId = i, sup_runId = wait_runId c, sup_input = x, sup_promotedAt = None\<rparr>]"])
        (simp add: settle_response_def bindS_def thenS_def now_def ask_def satisfyS_def lost Let_def returnS_def
          update_waits_def updateS_def addSupplemental_def)
  qed
qed

text \<open>What of the stores an answer that is not accepted may not touch.\<close>

definition untouched :: "coord_world \<Rightarrow> coord_world \<Rightarrow> bool" where
  "untouched w w' \<longleftrightarrow> w_runs w' = w_runs w \<and> w_graphs w' = w_graphs w \<and> w_specs w' = w_specs w \<and>
     ws_conditions (w_waits w') = ws_conditions (w_waits w) \<and> w_claims w' = w_claims w \<and>
     w_events w' = w_events w \<and> w_checkpoints w' = w_checkpoints w \<and> w_children w' = w_children w \<and>
     w_comments w' = w_comments w \<and> w_projected w' = w_projected w"

lemma seal_input_untouched: "seal_input env c input w = (r, w') \<Longrightarrow> untouched w w' \<and> w_waits w' = w_waits w"
  by (auto simp: seal_input_def untouched_def bindS_def thenS_def ask_outside_def ask_def liftS_def updateS_def
      returnS_def split: option.splits sum.splits if_splits)

lemma read_input_runs:
  "\<exists>input w1. read_input env i rsp w = (Inr input, w1) \<and> untouched w w1 \<and> w_waits w1 = w_waits w"
  by (cases "rsp_value rsp") (simp_all add: read_input_def returnS_def bindS_def now_def ask_def untouched_def)

text \<open>
  A late answer changes nothing: an answer to a wait that is unknown, already satisfied or
  cancelled is not accepted, and apart from at most one supplemental note no run, wait, graph
  state, claim, event or comment is touched.
\<close>

theorem late_answer_changes_nothing:
  assumes "\<not> wait_open i (w_waits w)"
  shows "fst (satisfy env i rsp w) \<noteq> Inr Accepted \<and> untouched w (snd (satisfy env i rsp w)) \<and>
    length (ws_supplementals (w_waits (snd (satisfy env i rsp w)))) \<le> Suc (length (ws_supplementals (w_waits w)))"
proof (cases "get_wait i (w_waits w)")
  case None
  then show ?thesis by (simp add: satisfy_def bindS_def readS_def returnS_def untouched_def)
next
  case (Some c)
  obtain input w1 where read: "read_input env i rsp w = (Inr input, w1)"
    and w1: "untouched w w1" "w_waits w1 = w_waits w"
    using read_input_runs [of env i rsp w] by blast
  show ?thesis
  proof (cases "input_issue c input")
    case (Some m)
    then show ?thesis
      using read w1 \<open>get_wait i (w_waits w) = Some c\<close>
      by (simp add: satisfy_def bindS_def readS_def returnS_def)
  next
    case None
    obtain sealed w2 where seal: "seal_input env c input w1 = (sealed, w2)" by (cases "seal_input env c input w1")
    from seal_input_untouched [OF this] w1 have w2: "untouched w w2" "w_waits w2 = w_waits w"
      by (simp_all add: untouched_def)
    from assms w2 have closed: "\<not> wait_open i (w_waits w2)" by simp
    have run: "satisfy env i rsp w = (case sealed of Inl e \<Rightarrow> (Inl e, w2)
        | Inr (Inl reason) \<Rightarrow> (Inr (NotAccepted reason), w2)
        | Inr (Inr x) \<Rightarrow> settle_response env i c rsp x w2)"
      by (simp add: satisfy_def bindS_def readS_def returnS_def Some read None seal split: sum.splits)
    show ?thesis
    proof (cases "\<exists>x. sealed = Inr (Inr x)")
      case True
      then obtain x where x: "sealed = Inr (Inr x)" by blast
      obtain es where "length es \<le> 1" "settle_response env i c rsp x w2 =
          (Inr (NotAccepted ''already satisfied; recorded as supplemental context''),
           w2\<lparr>w_seq := Suc (w_seq w2), w_waits := (w_waits w2)\<lparr>ws_supplementals := ws_supplementals (w_waits w2) @ es\<rparr>\<rparr>)"
        using settle_late [OF closed] by blast
      then show ?thesis
        unfolding run x using w2 by (simp add: untouched_def)
    next
      case False
      then show ?thesis
        unfolding run using w2 by (auto split: sum.splits)
    qed
  qed
qed

theorem late_answer_changes_nothing_witness:
  "fst (satisfy ask_env ''w9'' approve empty_world) \<noteq> Inr Accepted"
  using late_answer_changes_nothing [of "''w9''" empty_world ask_env approve]
  by (simp add: wait_open_def get_wait_def empty_world_def)

text \<open>
  Deciding a join early is deciding it right: when the branches that have settled so far
  decide a join, then it is decided the same way however the remaining branches settle.
\<close>

theorem early_join_is_final:
  assumes "join_decision join succeeded failed all_branches = Some b"
    and "succeeded \<le> succeeded'" and "failed \<le> failed'" and "succeeded' + failed' = all_branches"
  shows "join_decision join succeeded' failed' all_branches = Some b"
proof (cases join)
  case (JoinParameters mode n)
  have enough: "k \<le> of_nat succeeded \<Longrightarrow> k \<le> (of_nat succeeded' :: rat)" for k
    using assms(2) by (meson of_nat_mono order_trans)
  have same: "succeeded + failed = all_branches \<Longrightarrow> succeeded' = succeeded"
    using assms(2-4) by linarith
  show ?thesis
  proof (cases "succeeded + failed = all_branches")
    case True
    then have "succeeded' = succeeded" "failed' = failed"
      using same assms(4) by simp_all
    with assms(1) show ?thesis by (simp only:)
  next
    case False
    with JoinParameters assms enough show ?thesis
      by (cases n) (auto split: if_splits)
  qed
qed

theorem early_join_is_final_witness:
  "join_decision (JoinParameters ''all'' None) 1 2 3 = Some False"
  by (rule early_join_is_final [of _ 0 1]) simp_all

end
