(* ===== verification/CoordinatorSecrets.thy ===== *)
theory CoordinatorSecrets
  imports CoordinatorRun
begin

section \<open>Secrets\<close>

text \<open>
  The plaintext of an answer to a secret request goes to the secret store and nowhere else:
  resuming the run does not see the secret store, and what it is given is the name of the secret.
\<close>

definition hide :: "(string \<times> string) list \<Rightarrow> coord_world \<Rightarrow> coord_world" where
  "hide x w = w\<lparr>w_secrets := x\<rparr>"

lemma hide_simps [simp]:
  "w_runs (hide x w) = w_runs w" "w_graphs (hide x w) = w_graphs w" "w_specs (hide x w) = w_specs w"
  "w_waits (hide x w) = w_waits w" "w_definitions (hide x w) = w_definitions w"
  "w_checkpoints (hide x w) = w_checkpoints w" "w_seq (hide x w) = w_seq w" "resume_fuel (hide x w) = resume_fuel w"
  "hide x (hide y w) = hide x w"
  by (simp_all add: hide_def resume_fuel_def)

lemma blind_ask [commutes_rules]: "commutes (hide x) (ask f)"
  by (simp add: commutes_def ask_def hide_def)

lemma blind_satisfyS [commutes_rules]: "commutes (hide x) (satisfyS i sat)"
  by (simp add: commutes_def satisfyS_def hide_def split: prod.splits)

lemma blind_ask_outside [commutes_rules]: "commutes (hide x) (ask_outside f)"
  unfolding ask_outside_def by (intro commutes_rules)

lemma blind_publish [commutes_rules]: "commutes (hide x) (publish env r p)"
  unfolding publish_def next_id_def now_def by (intro commutes_rules) (simp add: hide_def)

lemma blind_publishEngineEvent [commutes_rules]: "commutes (hide x) (publishEngineEvent env r e)"
  unfolding publishEngineEvent_def by (cases e) (simp_all add: commutes_rules)

lemma blind_now [commutes_rules]: "commutes (hide x) (now env)" "commutes (hide x) (next_id env p)"
  unfolding next_id_def now_def by (intro commutes_rules)+

lemma blind_stores [commutes_rules]:
  "commutes (hide x) (save_runS r)" "commutes (hide x) (save_graphS st)"
  "commutes (hide x) (update_waits f)" "commutes (hide x) (releaseS env i k)"
  unfolding save_runS_def save_graphS_def update_waits_def releaseS_def
  by (intro commutes_rules; simp add: hide_def)+

lemma blind_transition [commutes_rules]: "commutes (hide x) (transition_run env r to reason)"
  unfolding transition_run_cases Let_def by (intro commutes_rules)

lemma blind_workspace [commutes_rules]:
  "commutes (hide x) (prepareWorkspace env item g r)"
  "commutes (hide x) (restoreWorkspaceIfNeeded env run g item)"
  unfolding restoreWorkspaceIfNeeded_def prepareWorkspace_def Let_def
  by (intro commutes_rules; auto split: jsval.splits intro!: commutes_rules)+

lemma blind_tracker [commutes_rules]:
  "commutes (hide x) (applyProjections env item ts)" "commutes (hide x) (commentOnItem env item b)"
  "commutes (hide x) (cleanup env ws t)"
  unfolding applyProjections_def commentOnItem_def cleanup_def
  by (intro commutes_rules; simp add: hide_def)+

lemma blind_persistWaits [commutes_rules]: "commutes (hide x) (persistWaits env r item g outcome)"
  unfolding persistWaits_def persist_wait_def Let_def by (intro commutes_rules) simp

lemma blind_suspend [commutes_rules]: "commutes (hide x) (suspend env r item outcome ws)"
  unfolding suspend_def suspend_checkpoint_def by (intro commutes_rules) (simp_all add: hide_def)

lemma blind_satisfyParentWaits [commutes_rules]:
  "(\<And>c sat. commutes (hide x) (cont c sat)) \<Longrightarrow> commutes (hide x) (satisfyParentWaits env cont r)"
  unfolding satisfyParentWaits_def satisfy_parent_def Let_def
  by (intro commutes_rules) (auto split: jsval.splits prod.splits option.splits intro!: commutes_rules)

lemma blind_finalize [commutes_rules]:
  "(\<And>c sat. commutes (hide x) (cont c sat)) \<Longrightarrow> commutes (hide x) (finalize env cont r item t outcome ws)"
  unfolding finalize_def by (intro commutes_rules)

lemma blind_engine_tick [commutes_rules]: "commutes (hide x) (engine_tick env call)"
  unfolding engine_tick_def start_child_def Let_def
  by (intro commutes_bind commutes_rules)
    (auto simp: hide_def split: option.splits sum.splits intro!: commutes_rules)

lemma blind_drive [commutes_rules]:
  "(\<And>c sat. commutes (hide x) (cont c sat)) \<Longrightarrow> commutes (hide x) (drive env cont r item snap g st ws sats)"
  unfolding drive_def drive_body_def drive_failed_def agent_context_def
  by (intro commutes_rules) (simp_all add: hide_def)

lemma blind_resumeRunLocked [commutes_rules]:
  "(\<And>c sat. commutes (hide x) (cont c sat)) \<Longrightarrow> commutes (hide x) (resumeRunLocked env cont r sats)"
  unfolding resumeRunLocked_def resume_found_def continue_run_def reconcile_spec_def Let_def
  by (intro commutes_bind commutes_read)
    (auto simp: hide_def split: option.splits intro!: commutes_rules)

lemma blind_resumeRun: "commutes (hide x) (resumeRun env fuel r sats)"
  by (induction env fuel r sats rule: resumeRun.induct) (auto intro: commutes_rules)

lemma blind_settle_response: "commutes (hide x) (settle_response env i c rsp input)"
  unfolding settle_response_def resume_def Let_def
  by (intro commutes_rules blind_resumeRun) simp

definition with_value :: "string \<Rightarrow> wait_response \<Rightarrow> wait_response" where
  "with_value p rsp = rsp\<lparr>rsp_value := Some (JStr p)\<rparr>"

definition secret_request :: "wait_condition \<Rightarrow> bool" where
  "secret_request c = (case wait_request c of None \<Rightarrow> False | Some rq \<Rightarrow> hr_type rq = HSecret)"

lemma settle_ignores_value: "settle_response env i c (with_value p rsp) input = settle_response env i c rsp input"
  by (simp add: settle_response_def response_satisfaction_def with_value_def)

lemma satisfy_secret:
  assumes "get_wait i (w_waits w) = Some c" and "secret_request c" and "p \<noteq> []"
  shows "satisfy env i (with_value p rsp) w =
    (let w1 = w\<lparr>w_seq := Suc (w_seq w)\<rparr>; w2 = w1\<lparr>w_seq := Suc (w_seq w1)\<rparr>;
         input = \<lparr>hi_requestId = i, hi_responder = rsp_responder rsp, hi_channel = rsp_channel rsp,
           hi_at = ce_clock env (w_seq w), hi_value = JStr (secret_name c)\<rparr> in
     if secret_name c = [] \<or> \<not> ce_secretSink env then
       (Inr (NotAccepted ''secret input is not configured (no secretName or secret sink)''), w1)
     else case ce_store_secret env (w_seq w1) of
       Inl m \<Rightarrow> (Inl (ForeignError m), w2)
     | Inr _ \<Rightarrow> settle_response env i c rsp (Some input) (hide (w_secrets w @ [(secret_name c, p)]) w2))"
proof -
  obtain rq where rq: "wait_request c = Some rq" "hr_type rq = HSecret"
    using assms(2) by (auto simp: secret_request_def split: option.splits)
  have issue: "input_issue c (Some x) = None" "secret_text c (Some x) = Some p" if "hi_value x = JStr p" for x
    using that rq assms(3)
    by (simp_all add: input_issue_def secret_text_def validateHumanInputValue_def input_check_def)
  have value_fields: "rsp_value (with_value p rsp) = Some (JStr p)"
      "rsp_responder (with_value p rsp) = rsp_responder rsp" "rsp_channel (with_value p rsp) = rsp_channel rsp"
    by (simp_all add: with_value_def)
  show ?thesis
    by (simp add: satisfy_def read_input_def input_of_def value_fields issue seal_input_def bindS_def thenS_def
        readS_def now_def ask_def ask_outside_def liftS_def returnS_def updateS_def assms(1) Let_def
        settle_ignores_value hide_def split: sum.splits)
qed

text \<open>
  C15. A secret stays secret: two answers to a secret request that differ in the plaintext only
  are answered alike and leave the same runs, waits, graph states, events, comments and
  everything else; only the secret store differs. Whether storing a secret succeeds is taken not to
  depend on its value, and what the optional \<open>track\<close> of the sink does with it is outside the model.
\<close>

theorem secret_stays_secret:
  assumes "get_wait i (w_waits w) = Some c" and "secret_request c" and "p \<noteq> []" and "q \<noteq> []"
  shows "fst (satisfy env i (with_value p rsp) w) = fst (satisfy env i (with_value q rsp) w) \<and>
    hide x (snd (satisfy env i (with_value p rsp) w)) = hide x (snd (satisfy env i (with_value q rsp) w))"
proof -
  have "fst (settle_response env i c rsp input (hide y v)) = fst (settle_response env i c rsp input v)"
    "hide x (snd (settle_response env i c rsp input (hide y v))) =
     hide x (snd (settle_response env i c rsp input v))" for input y v
    using blind_settle_response [of y env i c rsp input] by (simp_all add: commutes_def)
  then show ?thesis
    by (simp add: satisfy_secret [OF assms(1,2)] assms(3,4) Let_def split: sum.splits)
qed

definition token_wait :: wait_condition where
  "token_wait = \<lparr>wait_id = ''w1'', wait_runId = ''r1'', wait_nodeId = ''ask'', wait_kind = WHumanInput,
     wait_parameters = [], wait_request = Some (approval_request\<lparr>hr_type := HSecret, hr_secretName := Some ''TOKEN''\<rparr>),
     wait_status = WaitOpen, wait_createdAt = 0, wait_dueAt = None, wait_satisfiedAt = None,
     wait_satisfaction = None\<rparr>"

definition token_world :: coord_world where
  "token_world = empty_world\<lparr>w_waits := save_wait token_wait (w_waits empty_world)\<rparr>"

theorem secret_stays_secret_witness:
  "hide [] (snd (satisfy ask_env ''w1'' (with_value ''abc'' approve) token_world)) =
   hide [] (snd (satisfy ask_env ''w1'' (with_value ''xyz'' approve) token_world))"
proof -
  have "get_wait ''w1'' (w_waits token_world) = Some token_wait"
    using wait_rows.get_saved [of token_wait "w_waits empty_world"]
    by (simp add: token_world_def token_wait_def)
  from secret_stays_secret [OF this] show ?thesis
    by (simp add: secret_request_def token_wait_def)
qed

end
