(* ===== verification/Schedules.thy ===== *)
theory Schedules
  imports Text
begin

section \<open>Schedule specifications\<close>

text \<open>
  The pure second half of \<open>packages/orchestrator/src/scheduling/graph-scheduler.ts\<close>: intervals
  and the five-field cron subset, evaluated in UTC at minute precision. Times are milliseconds
  since the epoch; the UTC fields of a \<open>Date\<close> are computed in the proleptic Gregorian calendar.
\<close>

subsection \<open>The UTC calendar\<close>

definition MINUTE_MS :: int where
  "MINUTE_MS = 60000"

definition day_number :: "time \<Rightarrow> int" where
  "day_number t = t div 86400000"

definition getUTCMinutes :: "time \<Rightarrow> int" where
  "getUTCMinutes t = (t div 60000) mod 60"

definition getUTCHours :: "time \<Rightarrow> int" where
  "getUTCHours t = (t div 3600000) mod 24"

definition getUTCDay :: "time \<Rightarrow> int" where
  "getUTCDay t = (day_number t + 4) mod 7"

text \<open>
  Years are counted from the first of March, so that the day inserted in a leap year is the
  last: \<open>day_of_era\<close> within the 400 years, \<open>day_of_year\<close> within the year.
\<close>

definition day_of_era :: "int \<Rightarrow> int" where
  "day_of_era d = (d + 719468) mod 146097"

definition year_of_era :: "int \<Rightarrow> int" where
  "year_of_era doe = (doe - doe div 1460 + doe div 36524 - doe div 146096) div 365"

definition day_of_year :: "int \<Rightarrow> int" where
  "day_of_year doe =
     (let yoe = year_of_era doe in doe - (365 * yoe + yoe div 4 - yoe div 100))"

definition month_and_day :: "int \<Rightarrow> int \<times> int" where
  "month_and_day d =
     (let doy = day_of_year (day_of_era d); mp = (5 * doy + 2) div 153 in
      (if mp < 10 then mp + 3 else mp - 9, doy - (153 * mp + 2) div 5 + 1))"

definition getUTCMonth :: "time \<Rightarrow> int" where
  "getUTCMonth t = fst (month_and_day (day_number t)) - 1"

definition getUTCDate :: "time \<Rightarrow> int" where
  "getUTCDate t = snd (month_and_day (day_number t))"

subsection \<open>Specifications and their syntax\<close>

datatype cron_field = AnyValue | Values "int list"

record cron_spec =
  cr_minute :: cron_field
  cr_hour :: cron_field
  cr_dayOfMonth :: cron_field
  cr_month :: cron_field
  cr_dayOfWeek :: cron_field

datatype schedule_spec = Interval int | Cron cron_spec

datatype spec_error =
  IntervalNotPositive string | WrongFieldCount string | BadCronField string | BadCronStep string
| CronOutOfRange string int int | NeverFires

text \<open>\<open>s.split(/\s+/)\<close>.\<close>

fun split_spaces :: "string \<Rightarrow> string list" where
  "split_spaces [] = [[]]"
| "split_spaces (c # cs) =
     (if is_space c then
        (case cs of [] \<Rightarrow> [[], []] | d # _ \<Rightarrow> if is_space d then split_spaces cs else [] # split_spaces cs)
      else (case split_spaces cs of [] \<Rightarrow> [[c]] | w # ws \<Rightarrow> (c # w) # ws))"

definition all_digits :: "string \<Rightarrow> bool" where
  "all_digits s \<longleftrightarrow> s \<noteq> [] \<and> list_all is_digit s"

definition number_of :: "string \<Rightarrow> int" where
  "number_of s = int (digits_value 0 s)"

definition unit_ms :: "string \<Rightarrow> int option" where
  "unit_ms u =
     (if u = ''ms'' then Some 1 else if u = ''s'' then Some 1000 else if u = ''m'' then Some 60000
      else if u = ''h'' then Some 3600000 else if u = ''d'' then Some 86400000 else None)"

text \<open>\<open>/^@?every\s+(\d+)(ms|s|m|h|d)$/i\<close>: the product of the number and the unit.\<close>

definition interval_of :: "string \<Rightarrow> int option" where
  "interval_of source =
     (let s = to_lower source;
          s1 = (if starts_with s ''@'' then drop 1 s else s) in
      if \<not> starts_with s1 ''every'' then None
      else
        (let s2 = drop 5 s1; s3 = dropWhile is_space s2;
             digits = takeWhile is_digit s3; rest = dropWhile is_digit s3 in
         if length s3 = length s2 \<or> digits = [] then None
         else map_option (\<lambda>u. number_of digits * u) (unit_ms rest)))"

text \<open>One part of a field, \<open>/^(\*|\d+(?:-\d+)?)(?:\/(\d+))?$/\<close>: its base and its step.\<close>

datatype part_base = Star | Single int | Range int int

definition part_step :: "string \<Rightarrow> (string \<times> int option) option" where
  "part_step part =
     (case index_of CHR ''/'' part of
        None \<Rightarrow> Some (part, None)
      | Some k \<Rightarrow>
          if all_digits (drop (Suc k) part) then Some (take k part, Some (number_of (drop (Suc k) part)))
          else None)"

definition part_base_of :: "string \<Rightarrow> part_base option" where
  "part_base_of b =
     (if b = ''*'' then Some Star
      else case index_of CHR ''-'' b of
        None \<Rightarrow> if all_digits b then Some (Single (number_of b)) else None
      | Some k \<Rightarrow>
          if all_digits (take k b) \<and> all_digits (drop (Suc k) b)
          then Some (Range (number_of (take k b)) (number_of (drop (Suc k) b))) else None)"

definition part_of :: "string \<Rightarrow> (part_base \<times> int option) option" where
  "part_of part =
     (case part_step part of
        None \<Rightarrow> None
      | Some (b, step) \<Rightarrow> map_option (\<lambda>base. (base, step)) (part_base_of b))"

definition part_bounds :: "int \<Rightarrow> int \<Rightarrow> part_base \<Rightarrow> int option \<Rightarrow> int \<times> int" where
  "part_bounds lo hi base step = (case base of
     Star \<Rightarrow> (lo, hi)
   | Single n \<Rightarrow> (n, if step \<noteq> None then hi else n)
   | Range a b \<Rightarrow> (a, b))"

text \<open>\<open>for (value = low; value <= high; value += step)\<close>, for a positive step.\<close>

definition stepped :: "int \<Rightarrow> int \<Rightarrow> int \<Rightarrow> int list" where
  "stepped low high step = map (\<lambda>k. low + step * k) [0..(high - low) div step]"

definition part_values :: "string \<Rightarrow> int \<Rightarrow> int \<Rightarrow> string \<Rightarrow> spec_error + int list" where
  "part_values source lo hi part =
     (case part_of part of
        None \<Rightarrow> Inl (BadCronField source)
      | Some (base, stepRaw) \<Rightarrow>
          (let step = (case stepRaw of None \<Rightarrow> 1 | Some s \<Rightarrow> s);
               low = fst (part_bounds lo hi base stepRaw); high = snd (part_bounds lo hi base stepRaw) in
           if step < 1 then Inl (BadCronStep source)
           else if low < lo \<or> hi < high \<or> high < low then Inl (CronOutOfRange source lo hi)
           else Inr (stepped low high step)))"

definition parseCronField :: "string \<Rightarrow> int \<Rightarrow> int \<Rightarrow> (int \<Rightarrow> int) \<Rightarrow> spec_error + cron_field" where
  "parseCronField source lo hi adjust =
     (if source = ''*'' then Inr AnyValue
      else bindE (foldE (\<lambda>part acc. bindE (part_values source lo hi part) (\<lambda>vs. Inr (acc @ map adjust vs)))
             (split_on CHR '','' source) [])
        (\<lambda>vs. Inr (Values (sort (dedup vs)))))"

definition parse_cron :: "string list \<Rightarrow> string \<Rightarrow> spec_error + schedule_spec" where
  "parse_cron parts source =
     (case parts of
        [mi, h, d, mo, dow] \<Rightarrow>
          bindE (parseCronField mi 0 59 (\<lambda>v. v)) (\<lambda>mi.
          bindE (parseCronField h 0 23 (\<lambda>v. v)) (\<lambda>h.
          bindE (parseCronField d 1 31 (\<lambda>v. v)) (\<lambda>d.
          bindE (parseCronField mo 1 12 (\<lambda>v. v)) (\<lambda>mo.
          bindE (parseCronField dow 0 7 (\<lambda>v. if v = 7 then 0 else v)) (\<lambda>dow.
          Inr (Cron \<lparr>cr_minute = mi, cr_hour = h, cr_dayOfMonth = d, cr_month = mo,
            cr_dayOfWeek = dow\<rparr>))))))
      | _ \<Rightarrow> Inl (WrongFieldCount source))"

definition parseScheduleSpec :: "string \<Rightarrow> spec_error + schedule_spec" where
  "parseScheduleSpec source =
     (case interval_of (trim source) of
        Some everyMs \<Rightarrow>
          if everyMs \<le> 0 then Inl (IntervalNotPositive source) else Inr (Interval everyMs)
      | None \<Rightarrow> parse_cron (split_spaces (trim source)) source)"

subsection \<open>When a schedule fires\<close>

definition fieldMatches :: "cron_field \<Rightarrow> int \<Rightarrow> bool" where
  "fieldMatches f v = (case f of AnyValue \<Rightarrow> True | Values vs \<Rightarrow> v \<in> set vs)"

definition cronMatches :: "cron_spec \<Rightarrow> time \<Rightarrow> bool" where
  "cronMatches spec t =
     (if \<not> fieldMatches (cr_minute spec) (getUTCMinutes t) then False
      else if \<not> fieldMatches (cr_hour spec) (getUTCHours t) then False
      else if \<not> fieldMatches (cr_month spec) (getUTCMonth t + 1) then False
      else
        (let domMatch = fieldMatches (cr_dayOfMonth spec) (getUTCDate t);
             dowMatch = fieldMatches (cr_dayOfWeek spec) (getUTCDay t) in
         if cr_dayOfMonth spec \<noteq> AnyValue \<and> cr_dayOfWeek spec \<noteq> AnyValue then domMatch \<or> dowMatch
         else domMatch \<and> dowMatch))"

definition MAX_SCAN_MINUTES :: nat where
  "MAX_SCAN_MINUTES = 366 * 24 * 60"

fun scan_minutes :: "cron_spec \<Rightarrow> nat \<Rightarrow> time \<Rightarrow> time option" where
  "scan_minutes spec 0 candidate = None"
| "scan_minutes spec (Suc n) candidate =
     (if cronMatches spec candidate then Some candidate
      else scan_minutes spec n (candidate + MINUTE_MS))"

definition nextFireTime :: "schedule_spec \<Rightarrow> time \<Rightarrow> spec_error + time" where
  "nextFireTime spec t =
     (case spec of
        Interval everyMs \<Rightarrow> Inr (t + everyMs)
      | Cron c \<Rightarrow>
          (case scan_minutes c MAX_SCAN_MINUTES (t div MINUTE_MS * MINUTE_MS + MINUTE_MS) of
             Some d \<Rightarrow> Inr d
           | None \<Rightarrow> Inl NeverFires))"

lemma scan_minutes_after: "scan_minutes spec n c = Some d \<Longrightarrow> c \<le> d"
  by (induction spec n c rule: scan_minutes.induct) (auto simp: MINUTE_MS_def split: if_splits)

lemma next_minute: "t < t div MINUTE_MS * MINUTE_MS + MINUTE_MS"
  unfolding MINUTE_MS_def by presburger

lemma nextFireTime_cron_after: "nextFireTime (Cron c) t = Inr d \<Longrightarrow> t < d"
  using next_minute [of t] scan_minutes_after
  by (fastforce simp: nextFireTime_def split: option.splits)

lemma nextFireTime_Inl:
  "nextFireTime (Cron c) t = Inl e \<longleftrightarrow>
     e = NeverFires \<and> scan_minutes c MAX_SCAN_MINUTES (t div MINUTE_MS * MINUTE_MS + MINUTE_MS) = None"
  by (auto simp: nextFireTime_def split: option.splits)

text \<open>
  The loop of \<open>latestDueAtOrBefore\<close>: \<open>due\<close> is the latest slot found, \<open>cursor\<close> the time behind
  which the next one is looked for.
\<close>

function latest_due_from :: "cron_spec \<Rightarrow> time \<Rightarrow> time \<Rightarrow> time option \<Rightarrow> spec_error + time option" where
  "latest_due_from spec now cursor due =
     (case nextFireTime (Cron spec) cursor of
        Inl e \<Rightarrow> Inl e
      | Inr next \<Rightarrow>
          if now < next then Inr due
          else latest_due_from spec now next (Some next))"
  by pat_completeness auto
termination
  by (relation "measure (\<lambda>(spec, now, cursor, due). nat (now - cursor))")
    (auto dest: nextFireTime_cron_after)

declare latest_due_from.simps [simp del]

definition latestDueAtOrBefore :: "schedule_spec \<Rightarrow> time \<Rightarrow> time \<Rightarrow> spec_error + time option" where
  "latestDueAtOrBefore spec base now =
     (case spec of
        Interval everyMs \<Rightarrow>
          if now - base < everyMs then Inr None
          else Inr (Some (base + (now - base) div everyMs * everyMs))
      | Cron c \<Rightarrow>
          (let oldest = now - int MAX_SCAN_MINUTES * MINUTE_MS in
           latest_due_from c now (if base < oldest then oldest else base) None))"

subsection \<open>Slots\<close>

text \<open>The times at which a schedule is due, counted from \<open>base\<close>.\<close>

definition slot :: "schedule_spec \<Rightarrow> time \<Rightarrow> time \<Rightarrow> bool" where
  "slot spec base t \<longleftrightarrow> base < t \<and>
     (case spec of
        Interval e \<Rightarrow> e dvd (t - base)
      | Cron c \<Rightarrow> MINUTE_MS dvd t \<and> cronMatches c t)"

definition positive :: "schedule_spec \<Rightarrow> bool" where
  "positive spec \<longleftrightarrow> (case spec of Interval e \<Rightarrow> 0 < e | Cron _ \<Rightarrow> True)"

lemma parsed_positive: "parseScheduleSpec source = Inr spec \<Longrightarrow> positive spec"
  by (auto simp: parseScheduleSpec_def parse_cron_def positive_def err_simps
      split: option.splits if_splits list.splits)

lemma scan_minutes_Some:
  "scan_minutes spec n c = Some d \<Longrightarrow>
   \<exists>k < n. d = c + int k * MINUTE_MS \<and> cronMatches spec d \<and> (\<forall>j < k. \<not> cronMatches spec (c + int j * MINUTE_MS))"
proof (induction spec n c rule: scan_minutes.induct)
  case (2 spec n c)
  show ?case
  proof (cases "cronMatches spec c")
    case True
    with 2(2) show ?thesis by (intro exI [of _ 0]) simp
  next
    case False
    with 2 obtain k where k: "k < n" "d = c + MINUTE_MS + int k * MINUTE_MS" "cronMatches spec d"
      "\<forall>j < k. \<not> cronMatches spec (c + MINUTE_MS + int j * MINUTE_MS)" by auto
    have "\<not> cronMatches spec (c + int j * MINUTE_MS)" if "j < Suc k" for j
      using that False k(4) by (cases j) (auto simp: algebra_simps)
    with k show ?thesis by (intro exI [of _ "Suc k"]) (simp add: algebra_simps)
  qed
qed simp

lemma scan_minutes_None:
  "scan_minutes spec n c = None \<longleftrightarrow> (\<forall>j < n. \<not> cronMatches spec (c + int j * MINUTE_MS))"
proof (induction spec n c rule: scan_minutes.induct)
  case (2 spec n c)
  have "(\<forall>j < Suc n. \<not> cronMatches spec (c + int j * MINUTE_MS)) \<longleftrightarrow>
      \<not> cronMatches spec c \<and> (\<forall>j < n. \<not> cronMatches spec (c + MINUTE_MS + int j * MINUTE_MS))"
    by (auto simp: All_less_Suc2 algebra_simps)
  with 2 show ?case by auto
qed simp

text \<open>The first slot behind \<open>t\<close>, when there is one within the scan.\<close>

lemma nextFireTime_least:
  assumes "nextFireTime (Cron c) t = Inr d"
  shows "slot (Cron c) t d \<and> (\<forall>s. slot (Cron c) t s \<longrightarrow> d \<le> s)"
proof -
  let ?c = "t div MINUTE_MS * MINUTE_MS + MINUTE_MS"
  from assms have "scan_minutes c MAX_SCAN_MINUTES ?c = Some d"
    by (auto simp: nextFireTime_def split: option.splits)
  from scan_minutes_Some [OF this] obtain k where k: "d = ?c + int k * MINUTE_MS" "cronMatches c d"
    "\<forall>j < k. \<not> cronMatches c (?c + int j * MINUTE_MS)" by blast
  have "d \<le> s" if "slot (Cron c) t s" for s
  proof (rule ccontr)
    assume "\<not> d \<le> s"
    from that obtain m where m: "s = MINUTE_MS * m" "cronMatches c s" "t < s"
      by (auto simp: slot_def)
    have "t div MINUTE_MS < m" using m by (simp add: MINUTE_MS_def)
    define j where "j = nat (m - t div MINUTE_MS - 1)"
    have "s = ?c + int j * MINUTE_MS"
      using \<open>t div MINUTE_MS < m\<close> m(1) by (simp add: j_def algebra_simps)
    moreover have "j < k"
      using \<open>\<not> d \<le> s\<close> calculation k(1) by (simp add: MINUTE_MS_def)
    ultimately show False using k(3) m(2) by simp
  qed
  moreover have "t < d" using nextFireTime_cron_after [OF assms] .
  moreover have "MINUTE_MS dvd d" unfolding k(1) by simp
  ultimately show ?thesis using k(2) by (simp add: slot_def)
qed

lemma latest_due_from_correct:
  "latest_due_from c now cursor due = Inr r \<Longrightarrow>
   (r = due \<and> (\<forall>s. slot (Cron c) cursor s \<longrightarrow> now < s)) \<or>
   (\<exists>d. r = Some d \<and> slot (Cron c) cursor d \<and> d \<le> now \<and> (\<forall>s. slot (Cron c) d s \<longrightarrow> now < s))"
proof (induction c now cursor due rule: latest_due_from.induct)
  case (1 c now cursor due)
  from 1(2) obtain next' where next': "nextFireTime (Cron c) cursor = Inr next'"
    by (auto simp: latest_due_from.simps [of c now cursor due] split: sum.splits)
  note least = nextFireTime_least [OF next']
  show ?case
  proof (cases "now < next'")
    case True
    with 1(2) next' have "r = due" by (simp add: latest_due_from.simps [of c now cursor due])
    with least True show ?thesis by fastforce
  next
    case False
    with 1(2) next' have "latest_due_from c now next' (Some next') = Inr r"
      by (simp add: latest_due_from.simps [of c now cursor due])
    from 1(1) [OF next' False this] least False show ?thesis
      by (fastforce simp: slot_def)
  qed
qed

text \<open>
  C20. Downtime yields one firing, at the latest missed slot: what is reported as due is a slot
  behind the last firing and not behind now, with no other slot up to now behind it; and when
  nothing is reported, no slot lies between the last firing (or the 366 days the scan is
  limited to) and now.
\<close>

theorem latest_missed_slot:
  assumes "latestDueAtOrBefore spec base now = Inr r" and "positive spec"
  shows "case r of
      Some d \<Rightarrow> slot spec base d \<and> d \<le> now \<and> (\<forall>s. slot spec base s \<and> s \<le> now \<longrightarrow> s \<le> d)
    | None \<Rightarrow> \<forall>s. slot spec base s \<and> now - int MAX_SCAN_MINUTES * MINUTE_MS < s \<longrightarrow> now < s"
proof (cases spec)
  case (Interval e)
  with assms(2) have e: "0 < e" by (simp add: positive_def)
  show ?thesis
  proof (cases "now - base < e")
    case True
    then have "now < s" if "base < s" "e dvd (s - base)" for s
      using that zdvd_imp_le [of e "s - base"] by simp
    with True assms(1) show ?thesis by (auto simp: Interval latestDueAtOrBefore_def slot_def)
  next
    case False
    let ?q = "(now - base) div e"
    have "1 \<le> ?q" using False e by (simp add: pos_imp_zdiv_pos_iff int_one_le_iff_zero_less)
    then have "base < base + ?q * e" using e by simp
    moreover have "?q * e \<le> now - base" using e by (simp add: minus_mod_eq_div_mult [symmetric])
    moreover have "s \<le> base + ?q * e" if "e dvd (s - base)" "s \<le> now" for s
    proof -
      from that(1) obtain k where k: "s - base = e * k" by auto
      with that(2) have "e * k \<le> now - base" by simp
      then have "(e * k) div e \<le> ?q" using e by (intro zdiv_mono1)
      then have "k \<le> ?q" using e by simp
      then have "e * k \<le> ?q * e" using e by (simp add: mult.commute)
      with k show ?thesis by linarith
    qed
    ultimately show ?thesis
      using assms(1) False by (auto simp: Interval latestDueAtOrBefore_def slot_def)
  qed
next
  case (Cron c)
  let ?oldest = "now - int MAX_SCAN_MINUTES * MINUTE_MS"
  let ?b = "if base < ?oldest then ?oldest else base"
  have "latest_due_from c now ?b None = Inr r"
    using assms(1) by (simp add: Cron latestDueAtOrBefore_def Let_def)
  from latest_due_from_correct [OF this] show ?thesis
  proof
    assume "r = None \<and> (\<forall>s. slot (Cron c) ?b s \<longrightarrow> now < s)"
    then show ?thesis by (auto simp: Cron slot_def)
  next
    assume "\<exists>d. r = Some d \<and> slot (Cron c) ?b d \<and> d \<le> now \<and> (\<forall>s. slot (Cron c) d s \<longrightarrow> now < s)"
    then obtain d where r: "r = Some d" and d: "slot (Cron c) ?b d" "d \<le> now"
      and later: "\<forall>s. slot (Cron c) d s \<longrightarrow> now < s" by blast
    have "base \<le> ?b" by simp
    with d(1) have "slot (Cron c) base d" by (simp add: slot_def)
    moreover have "s \<le> d" if "slot (Cron c) base s" "s \<le> now" for s
    proof (rule ccontr)
      assume "\<not> s \<le> d"
      with that(1) have "slot (Cron c) d s" by (simp add: slot_def)
      with later that(2) show False by fastforce
    qed
    ultimately show ?thesis using d(2) by (simp add: Cron r)
  qed
qed

theorem latest_missed_slot_witness:
  "slot (Interval 10) 3 23 \<and> \<not> slot (Interval 10) 3 26"
  using latest_missed_slot [of "Interval 10" 3 27 "Some 23"]
  by (simp add: latestDueAtOrBefore_def positive_def slot_def)

lemma latest_due_from_next:
  "latest_due_from c now cursor due = Inr r \<Longrightarrow>
   \<exists>x n. (r = Some x \<or> r = due \<and> x = cursor) \<and> nextFireTime (Cron c) x = Inr n \<and> now < n"
proof (induction c now cursor due rule: latest_due_from.induct)
  case (1 c now cursor due)
  show ?case
  proof (cases "nextFireTime (Cron c) cursor")
    case (Inl e)
    with 1(2) show ?thesis by (simp add: latest_due_from.simps [of c now cursor due])
  next
    case (Inr n)
    show ?thesis
    proof (cases "now < n")
      case True
      with 1(2) Inr show ?thesis by (auto simp: latest_due_from.simps [of c now cursor due])
    next
      case False
      with 1(2) Inr have "latest_due_from c now n (Some n) = Inr r"
        by (simp add: latest_due_from.simps [of c now cursor due])
      from 1(1) [OF Inr False this] show ?thesis by auto
    qed
  qed
qed

text \<open>Looking again from the slot that has fired finds nothing.\<close>

lemma latest_due_again:
  assumes "latestDueAtOrBefore spec base now = Inr (Some d)" and "positive spec"
  shows "base < d \<and> latestDueAtOrBefore spec d now = Inr None"
proof -
  from latest_missed_slot [OF assms] have d: "slot spec base d" "d \<le> now" by auto
  have "latestDueAtOrBefore spec d now = Inr None"
  proof (cases spec)
    case (Interval e)
    with assms have "0 < e" "d = base + (now - base) div e * e"
      by (auto simp: latestDueAtOrBefore_def positive_def split: if_splits)
    then have "now - d = (now - base) mod e" by (simp add: minus_div_mult_eq_mod [symmetric])
    with \<open>0 < e\<close> have "now - d < e" by simp
    then show ?thesis by (simp add: Interval latestDueAtOrBefore_def)
  next
    case (Cron c)
    let ?oldest = "now - int MAX_SCAN_MINUTES * MINUTE_MS"
    let ?b = "if base < ?oldest then ?oldest else base"
    have r: "latest_due_from c now ?b None = Inr (Some d)"
      using assms(1) by (simp add: Cron latestDueAtOrBefore_def Let_def)
    from latest_due_from_next [OF r] obtain n where n: "nextFireTime (Cron c) d = Inr n" "now < n" by auto
    from latest_due_from_correct [OF r] have "?b < d" by (auto simp: slot_def)
    then have "\<not> d < ?oldest" by (simp split: if_splits)
    with n show ?thesis by (simp add: Cron latestDueAtOrBefore_def latest_due_from.simps Let_def)
  qed
  with d(1) show ?thesis by (simp add: slot_def)
qed

subsection \<open>A schedule for the leap day\<close>

definition leap_day :: cron_spec where
  "leap_day = \<lparr>cr_minute = Values [0], cr_hour = Values [0], cr_dayOfMonth = Values [29],
     cr_month = Values [2], cr_dayOfWeek = AnyValue\<rparr>"

lemma leap_day_parsed: "parseScheduleSpec ''0 0 29 2 *'' = Inr (Cron leap_day)"
  by code_simp

text \<open>Midnight (UTC) of the 29th of February 2024 is day 19782.\<close>

definition leap_2024 :: time where
  "leap_2024 = 19782 * 86400000"

lemma leap_day_matches:
  "cronMatches leap_day (60000 * m) \<longleftrightarrow>
     m mod 1440 = 0 \<and> month_and_day (m div 1440) = (2, 29)"
proof -
  have "60000 * m div 3600000 = m div 60" "60000 * m div 86400000 = m div 1440"
    using div_mult_mult1 [of 60000 m 60] div_mult_mult1 [of 60000 m 1440] by simp_all
  moreover have "m mod 1440 = 60 * (m div 60 mod 24) + m mod 60"
    using zmod_zmult2_eq [of 24 m 60] by simp
  then have "m mod 60 = 0 \<and> m div 60 mod 24 = 0 \<longleftrightarrow> m mod 1440 = 0"
    using pos_mod_sign [of 60 m] pos_mod_sign [of 24 "m div 60"] by linarith
  ultimately show ?thesis
    by (auto simp: cronMatches_def leap_day_def fieldMatches_def getUTCMonth_def getUTCDate_def
        getUTCMinutes_def getUTCHours_def day_number_def prod_eq_iff)
qed

lemma no_leap_day_nearby:
  "list_all (\<lambda>d. d = 19782 \<or> month_and_day d \<noteq> (2, 29)) [19723..20149]"
  by code_simp

lemma leap_day_only:
  assumes "slot (Cron leap_day) (19723 * 86400000) t" and "t < 20150 * 86400000"
  shows "t = leap_2024"
proof -
  from assms(1) obtain m where t: "t = 60000 * m" and "cronMatches leap_day t" "19723 * 86400000 < t"
    by (auto simp: slot_def MINUTE_MS_def)
  then have m: "m mod 1440 = 0" "month_and_day (m div 1440) = (2, 29)" "19723 * 1440 < m"
    by (simp_all add: leap_day_matches)
  from assms(2) have "m < 20150 * 1440" by (simp add: t)
  then have "m div 1440 < 20150" using m(1) div_mult_mod_eq [of m 1440] by simp
  moreover have "19723 \<le> m div 1440" using m(1,3) div_mult_mod_eq [of m 1440] by simp
  ultimately have "m div 1440 \<in> set [19723..20149]" unfolding set_upto atLeastAtMost_iff by linarith
  from bspec [OF no_leap_day_nearby [unfolded list_all_iff] this] m(2) have "m div 1440 = 19782" by blast
  with m(1) have "m = 19782 * 1440" using div_mult_mod_eq [of m 1440] by simp
  then show ?thesis by (simp add: leap_2024_def t)
qed

lemma leap_day_slot: "month_and_day 19782 = (2, 29)"
  by code_simp

lemma within_scan:
  assumes "nextFireTime (Cron c) t = Inr d"
  shows "d \<le> t + 366 * 86400000"
proof -
  from assms have "scan_minutes c MAX_SCAN_MINUTES (t div MINUTE_MS * MINUTE_MS + MINUTE_MS) = Some d"
    by (auto simp: nextFireTime_def split: option.splits)
  from scan_minutes_Some [OF this] obtain k where "k < MAX_SCAN_MINUTES"
    "d = t div MINUTE_MS * MINUTE_MS + MINUTE_MS + int k * MINUTE_MS" by blast
  moreover have "t div 60000 * 60000 \<le> t" by (simp add: minus_mod_eq_div_mult [symmetric])
  ultimately show ?thesis by (simp add: MAX_SCAN_MINUTES_def MINUTE_MS_def)
qed

lemma not_found_in_scan:
  assumes "nextFireTime (Cron c) t = Inl e" and "slot (Cron c) t s"
  shows "t + 365 * 86400000 < s"
proof (rule ccontr)
  assume far: "\<not> t + 365 * 86400000 < s"
  from assms(2) obtain m where m: "s = 60000 * m" "cronMatches c s" "t < s"
    by (auto simp: slot_def MINUTE_MS_def)
  have t: "t = t div 60000 * 60000 + t mod 60000" "0 \<le> t mod 60000" "t mod 60000 < 60000"
    by simp_all
  define j where "j = nat (m - t div 60000 - 1)"
  have "t div 60000 < m" using m t by linarith
  then have j: "s = t div MINUTE_MS * MINUTE_MS + MINUTE_MS + int j * MINUTE_MS"
    by (simp add: j_def m(1) MINUTE_MS_def algebra_simps)
  have "j < MAX_SCAN_MINUTES"
    using far t m(1) by (simp add: j_def MAX_SCAN_MINUTES_def)
  with assms(1) m(2) j show False by (auto simp: nextFireTime_Inl scan_minutes_None)
qed

text \<open>
  A leap-day schedule is due and yet never fires: when the 29th of February 2024 has come
  since the last firing, finding the due slot fails, because the loop insists on a further slot
  within 366 days before it reports the one it has found.
\<close>

theorem leap_day_schedule_fails:
  assumes "19723 * 86400000 \<le> base" and "base < leap_2024" and "leap_2024 \<le> now"
    and "now < 20089 * 86400000"
  shows "slot (Cron leap_day) base leap_2024 \<and>
    latestDueAtOrBefore (Cron leap_day) base now = Inl NeverFires"
proof
  have "cronMatches leap_day leap_2024"
    using leap_day_matches [of "19782 * 1440"] leap_day_slot by (simp add: leap_2024_def)
  then show due: "slot (Cron leap_day) base leap_2024"
    using assms(2) by (simp add: slot_def leap_2024_def MINUTE_MS_def)
  have from_start: "slot (Cron leap_day) (19723 * 86400000) s" if "slot (Cron leap_day) t s" "base \<le> t" for s t
    using that assms(1) by (simp add: slot_def)
  have first: "nextFireTime (Cron leap_day) base = Inr leap_2024"
  proof (cases "nextFireTime (Cron leap_day) base")
    case (Inl e)
    from not_found_in_scan [OF this due] assms(1) show ?thesis by (simp add: leap_2024_def)
  next
    case (Inr d)
    from nextFireTime_least [OF this] due have d: "slot (Cron leap_day) base d" "d \<le> leap_2024" by auto
    from leap_day_only [OF from_start [OF d(1)]] d(2) Inr show ?thesis by (simp add: leap_2024_def)
  qed
  have second: "nextFireTime (Cron leap_day) leap_2024 = Inl NeverFires"
  proof (cases "nextFireTime (Cron leap_day) leap_2024")
    case (Inr d)
    from nextFireTime_least [OF this] have d: "slot (Cron leap_day) leap_2024 d" by simp
    from within_scan [OF Inr] have "d < 20150 * 86400000" by (simp add: leap_2024_def)
    from leap_day_only [OF from_start [OF d] this] assms(2) d show ?thesis by (simp add: slot_def)
  qed (simp add: nextFireTime_Inl)
  have "latest_due_from leap_day now base None = Inl NeverFires"
    using assms(3) by (simp add: latest_due_from.simps first second)
  moreover have "\<not> base < now - int MAX_SCAN_MINUTES * MINUTE_MS"
    using assms(1,4) by (simp add: MAX_SCAN_MINUTES_def MINUTE_MS_def)
  ultimately show "latestDueAtOrBefore (Cron leap_day) base now = Inl NeverFires"
    by (simp add: latestDueAtOrBefore_def)
qed

theorem leap_day_schedule_fails_witness:
  "latestDueAtOrBefore (Cron leap_day) (19723 * 86400000) (19783 * 86400000) = Inl NeverFires"
  by (rule leap_day_schedule_fails [THEN conjunct2]) (simp_all add: leap_2024_def)

end
