(* ===== verification/Routing.thy ===== *)
theory Routing
  imports WorkItems ScopeExpr
begin

section \<open>Routing work items to workflows\<close>

text \<open>
  \<open>packages/orchestrator/src/scheduling/routing.ts\<close>: the rules that map an item to a workflow and
  the suggestions learned from recorded human selections. The scope handed to the expression
  evaluator is an object with the fields of the item.
\<close>

record routing_rule =
  rule_name :: string
  rule_condition :: string
  rule_workflow :: string
  rule_autoStart :: "bool option"

datatype routing_outcome =
  NoMatch | Unique string routing_rule | Ambiguous "string list"

definition optional_field :: "string \<Rightarrow> string option \<Rightarrow> fields" where
  "optional_field k v = (case v of None \<Rightarrow> [] | Some s \<Rightarrow> [(k, JStr s)])"

definition label_fields :: "string list \<Rightarrow> fields" where
  "label_fields labels = fold (\<lambda>l acc. AList.update l (JBool True) acc) labels []"

definition routingScope :: "work_item \<Rightarrow> jsval" where
  "routingScope item = JObj (Built 0 ''scope'') [(''item'', JObj (Built 0 ''item'')
     ([(''provider'', JStr (wi_provider item)), (''externalId'', JStr (wi_externalId item)),
       (''title'', JStr (wi_title item)), (''state'', JStr (wi_state item)),
       (''labels'', JObj (Built 0 ''labels'') (label_fields (wi_labels item)))] @
      optional_field ''type'' (wi_type item) @
      optional_field ''priority'' (wi_priority item) @
      optional_field ''repository'' (map_option rr_locator (wi_repository item))))]"

definition rule_matches :: "jsval \<Rightarrow> string list \<Rightarrow> routing_rule \<Rightarrow> bool" where
  "rule_matches scope enabledWorkflows rule \<longleftrightarrow>
     rule_workflow rule \<in> set enabledWorkflows \<and>
     (case evaluateScopeExpression (rule_condition rule) scope of Inl _ \<Rightarrow> False | Inr b \<Rightarrow> b)"

definition routeItem :: "work_item \<Rightarrow> routing_rule list \<Rightarrow> string list \<Rightarrow> routing_outcome" where
  "routeItem item rules enabledWorkflows =
     (let matches = filter (rule_matches (routingScope item) enabledWorkflows) rules;
          workflows = dedup (map rule_workflow matches) in
      case matches of
        [] \<Rightarrow> NoMatch
      | first # _ \<Rightarrow>
          if length workflows = 1 then Unique (rule_workflow first) first else Ambiguous workflows)"

subsection \<open>Learning rules from selections\<close>

record routing_decision =
  rd_workItemId :: string
  rd_labels :: "string list"
  rd_type :: "string option"
  rd_repository :: "string option"
  rd_chosenWorkflow :: string
  rd_responder :: string
  rd_at :: string

datatype suggestion_field = FieldLabel | FieldType | FieldRepository

definition field_text :: "suggestion_field \<Rightarrow> string" where
  "field_text f = (case f of FieldLabel \<Rightarrow> ''label'' | FieldType \<Rightarrow> ''type'' | FieldRepository \<Rightarrow> ''repository'')"

record routing_suggestion =
  sg_field :: suggestion_field
  sg_value :: string
  sg_condition :: string
  sg_workflow :: string
  sg_evidenceCount :: nat

definition MIN_SUGGESTION_EVIDENCE :: nat where
  "MIN_SUGGESTION_EVIDENCE = 3"

text \<open>\<open>/^[A-Za-z_][A-Za-z0-9_-]*$/\<close>.\<close>

definition label_ident :: "string \<Rightarrow> bool" where
  "label_ident s =
     (case s of
        [] \<Rightarrow> False
      | c # cs \<Rightarrow> (is_letter c \<or> c = CHR ''_'') \<and>
          list_all (\<lambda>d. is_letter d \<or> is_digit d \<or> d = CHR ''_'' \<or> d = CHR ''-'') cs)"

definition conditionFor :: "suggestion_field \<Rightarrow> string \<Rightarrow> string option" where
  "conditionFor f v =
     (if f = FieldLabel then
        (if label_ident v then Some (''item.labels.'' @ v) else None)
      else if CHR 0x27 \<in> set v then None
      else Some ((if f = FieldType then ''item.type == '' else ''item.repository == '') @
             [CHR 0x27] @ v @ [CHR 0x27]))"

text \<open>The selections of one attribute value, in the order recorded: its group.\<close>

type_synonym suggestion_groups = "(string \<times> (suggestion_field \<times> string \<times> string list)) list"

definition add_selection ::
  "string \<Rightarrow> suggestion_field \<times> string \<Rightarrow> suggestion_groups \<Rightarrow> suggestion_groups" where
  "add_selection workflow attribute groups =
     (case attribute of (f, v) \<Rightarrow>
      let key = field_text f @ CHR 0x00 # v in
      case map_of groups key of
        None \<Rightarrow> AList.update key (f, v, [workflow]) groups
      | Some (f', v', ws) \<Rightarrow> AList.update key (f', v', ws @ [workflow]) groups)"

definition attributes_of :: "routing_decision \<Rightarrow> (suggestion_field \<times> string) list" where
  "attributes_of d =
     map (\<lambda>l. (FieldLabel, l)) (rd_labels d) @
     (case rd_type d of None \<Rightarrow> [] | Some t \<Rightarrow> [(FieldType, t)]) @
     (case rd_repository d of None \<Rightarrow> [] | Some r \<Rightarrow> [(FieldRepository, r)])"

definition group_selections :: "routing_decision list \<Rightarrow> suggestion_groups" where
  "group_selections history =
     fold (\<lambda>d. fold (add_selection (rd_chosenWorkflow d)) (attributes_of d)) history []"

definition suggestion_of :: "suggestion_field \<times> string \<times> string list \<Rightarrow> routing_suggestion list" where
  "suggestion_of grp =
     (case grp of (f, v, ws) \<Rightarrow>
      if length ws < MIN_SUGGESTION_EVIDENCE \<or> \<not> list_all (\<lambda>w. w = hd ws) ws then []
      else case conditionFor f v of
        None \<Rightarrow> []
      | Some c \<Rightarrow> [\<lparr>sg_field = f, sg_value = v, sg_condition = c, sg_workflow = hd ws,
                    sg_evidenceCount = length ws\<rparr>])"

definition suggestRoutingRules :: "routing_decision list \<Rightarrow> routing_suggestion list" where
  "suggestRoutingRules history =
     sort_key (\<lambda>s. field_text (sg_field s))
       (sort_key sg_value (concat (map (\<lambda>g. suggestion_of (snd g)) (group_selections history))))"

subsection \<open>Routing never guesses\<close>

lemma dedup_single: "length (dedup xs) = 1 \<longleftrightarrow> (\<exists>x. set xs = {x})"
proof -
  have "length (dedup xs) = card (set xs)"
    using distinct_card [of "dedup xs"] by simp
  then show ?thesis by (simp add: card_1_singleton_iff)
qed

lemma routeItem_unique:
  "routeItem item rules enabled = Unique w r \<longleftrightarrow>
     (\<exists>rest. filter (rule_matches (routingScope item) enabled) rules = r # rest \<and>
        rule_workflow r = w \<and> (\<forall>q \<in> set rest. rule_workflow q = w))"
proof (cases "filter (rule_matches (routingScope item) enabled) rules")
  case (Cons first rest)
  have "length (dedup (map rule_workflow (first # rest))) = 1 \<longleftrightarrow>
      (\<forall>q \<in> set rest. rule_workflow q = rule_workflow first)"
    unfolding dedup_single by (auto simp: insert_eq_iff)
  with Cons show ?thesis by (auto simp: routeItem_def Let_def)
qed (simp add: routeItem_def)

end
