(* ===== verification/Scheduler.thy ===== *)
theory Scheduler
  imports Coordinator Schedules Routing
begin

section \<open>The graph scheduler\<close>

text \<open>
  \<open>GraphScheduler\<close> of \<open>packages/orchestrator/src/scheduling/graph-scheduler.ts\<close>: lanes, recurring
  schedules, routing with human selection and rule learning. Its state is the coordinator's
  stores and its own: the tracked runs of each lane, the approved rules and the recorded
  selections (entries of the configuration repository), the firing log and what it publishes.
  The port that starts a run is a parameter; the coordinator's \<open>start\<close> is one.
\<close>

subsection \<open>Lanes and schedules\<close>

datatype consumption_policy = StrictSerial | SkipBlocked | RankedParallel

record lane_definition =
  lane_name :: string
  lane_description :: "string option"
  lane_source :: string
  lane_query :: "fields option"
  lane_workflow :: "string option"
  lane_policy :: consumption_policy
  lane_maxActive :: int
  lane_requiredCapabilities :: "string list option"
  lane_allowedProfiles :: "string list option"
  lane_budgetName :: "string option"
  lane_enabled :: bool

record schedule_definition =
  sd_name :: string
  sd_description :: "string option"
  sd_cron :: string
  sd_workflow :: string
  sd_payload :: "fields option"
  sd_enabled :: bool

subsection \<open>The environment and the state\<close>

datatype sched_event =
  SvWorkUpdated string string
| SvClaimRejected string string
| SvClaimed string string
| SvDiscovered string string
| SvSelectionRequired string "string list"
| SvWaitOpened string wait_kind string
| SvInputRequested string human_input_type string surface
| SvWaitSatisfied string wait_kind
| SvInputReceived string string channel
| SvApprovalRequested string string
| SvApprovalResolved string bool
| SvError string string

record sched_published =
  sp_id :: string
  sp_at :: time
  sp_runId :: "string option"
  sp_payload :: sched_event

record sched_world =
  sw_coord :: coord_world
  sw_lanes :: "string list record_of"
  sw_rules :: "routing_rule record_of"
  sw_decisions :: "routing_decision list"
  sw_firings :: "schedule_firing list"
  sw_events :: "sched_published list"

text \<open>
  Documents are read as schedules by \<open>se_schedule\<close>. A value kept in the parameters of a wait
  (the item to route, the suggested rule) is written by \<open>se_item_value\<close> and
  \<open>se_suggestion_value\<close> and read back by \<open>se_item_of\<close> and \<open>se_suggestion_of\<close>.
\<close>

record sched_env =
  se_coord :: coord_env
  se_start :: "work_item \<Rightarrow> string \<Rightarrow> string \<Rightarrow> fields \<Rightarrow> run coord_op"
  se_isBlocked :: "(nat \<Rightarrow> work_item \<Rightarrow> bool) option"
  se_schedule :: "fields \<Rightarrow> schedule_definition"
  se_item_value :: "work_item \<Rightarrow> jsval"
  se_item_of :: "jsval \<Rightarrow> work_item"
  se_suggestion_value :: "routing_suggestion \<Rightarrow> jsval"
  se_suggestion_of :: "jsval \<Rightarrow> routing_suggestion"

type_synonym 'a sched_op = "(sched_world, coord_error, 'a) op"

definition inCoord :: "'a coord_op \<Rightarrow> 'a sched_op" where
  "inCoord m = (\<lambda>w. case m (sw_coord w) of (r, c) \<Rightarrow> (r, w\<lparr>sw_coord := c\<rparr>))"

definition announce :: "sched_env \<Rightarrow> string option \<Rightarrow> sched_event \<Rightarrow> unit sched_op" where
  "announce env runId payload =
     bindS (inCoord (next_id (se_coord env) ''evt'')) (\<lambda>i.
     bindS (inCoord (now (se_coord env))) (\<lambda>t.
     updateS (\<lambda>w. w\<lparr>sw_events := sw_events w @
       [\<lparr>sp_id = i, sp_at = t, sp_runId = runId, sp_payload = payload\<rparr>]\<rparr>)))"

subsection \<open>Claiming and starting\<close>

definition tryClaimS :: "string \<Rightarrow> string \<Rightarrow> bool coord_op" where
  "tryClaimS workItem runId = (\<lambda>w. case tryClaim workItem runId (w_claims w) of
     (won, rows) \<Rightarrow> (Inr won, w\<lparr>w_claims := rows\<rparr>))"

definition claimAndStart :: "sched_env \<Rightarrow> work_item \<Rightarrow> string \<Rightarrow> run option sched_op" where
  "claimAndStart env item workflow =
     bindS (inCoord (next_id (se_coord env) ''run'')) (\<lambda>runId.
     bindS (inCoord (tryClaimS (wi_id item) runId)) (\<lambda>claimed.
     if \<not> claimed then
       thenS (announce env None (SvClaimRejected (wi_id item) ''already claimed by an active run''))
       (returnS None)
     else
       thenS (announce env (Some runId) (SvClaimed (wi_id item) runId))
       (bindS (inCoord (se_start env item workflow runId [])) (\<lambda>r. returnS (Some r)))))"

definition enabledWorkflowNames :: "sched_world \<Rightarrow> string list" where
  "enabledWorkflowNames w =
     map ds_name (filter (\<lambda>s. ds_lifecycle s = LcEnabled)
       (list_definitions DkWorkflow (w_definitions (sw_coord w))))"

definition listRules :: "sched_world \<Rightarrow> routing_rule list" where
  "listRules w = sort_key rule_name (map snd (sw_rules w))"

subsection \<open>Selection waits\<close>

definition WORKFLOW_SELECTION_REQUIRED :: string where
  "WORKFLOW_SELECTION_REQUIRED = ''WORKFLOW_SELECTION_REQUIRED''"

definition ROUTING_RULE_PROPOSAL :: string where
  "ROUTING_RULE_PROPOSAL = ''ROUTING_RULE_PROPOSAL''"

definition open_with_reason :: "string \<Rightarrow> string \<Rightarrow> wait_store \<Rightarrow> wait_condition option" where
  "open_with_reason reason runId ws =
     List.find (\<lambda>c. field_of (wait_parameters c) ''reason'' = JStr reason)
       (listOpen (Some runId) None None ws)"

definition routing_wait ::
  "string \<Rightarrow> string \<Rightarrow> string \<Rightarrow> wait_kind \<Rightarrow> fields \<Rightarrow> human_input_request_spec \<Rightarrow> time \<Rightarrow> wait_condition" where
  "routing_wait i runId nodeId kind parameters request t =
     \<lparr>wait_id = i, wait_runId = runId, wait_nodeId = nodeId, wait_kind = kind,
      wait_parameters = parameters, wait_request = Some request, wait_status = WaitOpen,
      wait_createdAt = t, wait_dueAt = None, wait_satisfiedAt = None, wait_satisfaction = None\<rparr>"

definition selection_request :: "work_item \<Rightarrow> string list \<Rightarrow> human_input_request_spec" where
  "selection_request item workflows =
     \<lparr>hr_type = HSingleChoice,
      hr_prompt = ''Multiple workflows match '' @ [CHR 0x27] @ wi_title item @ [CHR 0x27] @
        ''. Select the one to run.'',
      hr_surface = SurfaceApp, hr_choices = Some workflows, hr_secretName = None, hr_timeoutMs = None\<rparr>"

definition openSelectionWait :: "sched_env \<Rightarrow> work_item \<Rightarrow> string list \<Rightarrow> string sched_op" where
  "openSelectionWait env item workflows =
     (let runId = ''routing:'' @ wi_id item in
      bindS (readS (\<lambda>w. open_with_reason WORKFLOW_SELECTION_REQUIRED runId (w_waits (sw_coord w)))) (\<lambda>existing.
      case existing of
        Some c \<Rightarrow> returnS (wait_id c)
      | None \<Rightarrow>
          bindS (inCoord (next_id (se_coord env) ''wait'')) (\<lambda>i.
          bindS (readS (\<lambda>w. w_seq (sw_coord w))) (\<lambda>k.
          bindS (inCoord (now (se_coord env))) (\<lambda>t.
          let c = routing_wait i runId ''routing'' WHumanInput
                [(''reason'', JStr WORKFLOW_SELECTION_REQUIRED), (''workItemId'', JStr (wi_id item)),
                 (''candidates'', JArr (Built k ''candidates'') (map JStr workflows)),
                 (''item'', se_item_value env item)]
                (selection_request item workflows) t in
          thenS (inCoord (update_waits (save_wait c)))
         (thenS (announce env (Some runId) (SvSelectionRequired (wi_id item) workflows))
         (thenS (announce env (Some runId) (SvWaitOpened i WHumanInput ''routing''))
         (thenS (announce env (Some runId)
            (SvInputRequested i HSingleChoice (hr_prompt (selection_request item workflows)) SurfaceApp))
         (returnS i)))))))))"

subsection \<open>Lane dispatch\<close>

definition default_isBlocked :: "work_item \<Rightarrow> bool" where
  "default_isBlocked item = list_ex (\<lambda>r. rel_kind r = BlockedBy) (wi_relationships item)"

definition isBlocked :: "sched_env \<Rightarrow> work_item \<Rightarrow> bool sched_op" where
  "isBlocked env item =
     (case se_isBlocked env of
        None \<Rightarrow> returnS (default_isBlocked item)
      | Some f \<Rightarrow> inCoord (ask (\<lambda>k. f k item)))"

text \<open>\<open>Inr\<close> the workflow an item is to run, \<open>Inl\<close> why there is none yet.\<close>

definition workflowForLaneItem ::
  "sched_env \<Rightarrow> lane_definition \<Rightarrow> work_item \<Rightarrow> (string + string) sched_op" where
  "workflowForLaneItem env lane item =
     (case lane_workflow lane of
        Some f \<Rightarrow> returnS (Inr f)
      | None \<Rightarrow>
          bindS (readS (\<lambda>w. routeItem item (listRules w) (enabledWorkflowNames w))) (\<lambda>outcome.
          case outcome of
            Unique f _ \<Rightarrow> returnS (Inr f)
          | Ambiguous fs \<Rightarrow>
              thenS (thenS (openSelectionWait env item fs) (returnS ()))
                (returnS (Inl ''workflow selection required''))
          | NoMatch \<Rightarrow> returnS (Inl ''no matching routing rule'')))"

definition lane_workflow_or_reason ::
  "sched_env \<Rightarrow> lane_definition \<Rightarrow> work_item \<Rightarrow> (string + string) sched_op" where
  "lane_workflow_or_reason env lane item =
     bindS (isBlocked env item) (\<lambda>blocked.
       if blocked then returnS (Inl ''item is blocked'') else workflowForLaneItem env lane item)"

record lane_report =
  lr_started :: "run list"
  lr_skipped :: "(work_item \<times> string) list"
  lr_halted :: "(work_item \<times> string) option"

definition lane_capacity :: "lane_definition \<Rightarrow> int" where
  "lane_capacity lane = (if lane_policy lane = RankedParallel then max 1 (lane_maxActive lane) else 1)"

text \<open>The loop over the candidates; \<open>active\<close> are the runs the lane has, the new ones included.\<close>

fun dispatch_items ::
  "sched_env \<Rightarrow> lane_definition \<Rightarrow> work_item list \<Rightarrow> string list \<Rightarrow> lane_report \<Rightarrow>
   (string list \<times> lane_report) sched_op" where
  "dispatch_items env lane [] active rep = returnS (active, rep)"
| "dispatch_items env lane (item # items) active rep =
     (if lane_capacity lane \<le> int (length active) then returnS (active, rep)
      else
        bindS (lane_workflow_or_reason env lane item) (\<lambda>found.
        case found of
          Inl reason \<Rightarrow>
            (if lane_policy lane = StrictSerial then
               thenS (announce env None (SvWorkUpdated (wi_id item)
                 (''lane '' @ lane_name lane @ '' halted: '' @ reason)))
               (returnS (active, rep\<lparr>lr_halted := Some (item, reason)\<rparr>))
             else
               thenS (announce env None (SvWorkUpdated (wi_id item)
                 (''lane '' @ lane_name lane @ '' skipped: '' @ reason)))
               (dispatch_items env lane items active
                 (rep\<lparr>lr_skipped := lr_skipped rep @ [(item, reason)]\<rparr>)))
        | Inr workflow \<Rightarrow>
            bindS (claimAndStart env item workflow) (\<lambda>started.
            case started of
              None \<Rightarrow>
                (let reason = ''already claimed by an active run'' in
                 if lane_policy lane = StrictSerial
                 then returnS (active, rep\<lparr>lr_halted := Some (item, reason)\<rparr>)
                 else dispatch_items env lane items active
                   (rep\<lparr>lr_skipped := lr_skipped rep @ [(item, reason)]\<rparr>))
            | Some r \<Rightarrow>
                dispatch_items env lane items (active @ [run_id r])
                  (rep\<lparr>lr_started := lr_started rep @ [r]\<rparr>))))"

definition tracked :: "sched_world \<Rightarrow> string \<Rightarrow> string list" where
  "tracked w lane = (case map_of (sw_lanes w) lane of None \<Rightarrow> [] | Some ids \<Rightarrow> ids)"

definition activeLaneRunIds :: "sched_world \<Rightarrow> string \<Rightarrow> string list" where
  "activeLaneRunIds w lane =
     filter (\<lambda>i. case get_run i (w_runs (sw_coord w)) of
         None \<Rightarrow> False | Some r \<Rightarrow> \<not> isTerminal (run_state r)) (tracked w lane)"

definition empty_report :: lane_report where
  "empty_report = \<lparr>lr_started = [], lr_skipped = [], lr_halted = None\<rparr>"

definition dispatchLane ::
  "sched_env \<Rightarrow> lane_definition \<Rightarrow> work_item list \<Rightarrow> lane_report sched_op" where
  "dispatchLane env lane candidates =
     (if \<not> lane_enabled lane then returnS empty_report
      else
        bindS (readS (\<lambda>w. activeLaneRunIds w (lane_name lane))) (\<lambda>active.
        bindS (dispatch_items env lane candidates active empty_report) (\<lambda>(active', rep).
        thenS (updateS (\<lambda>w. w\<lparr>sw_lanes := AList.update (lane_name lane) active' (sw_lanes w)\<rparr>))
        (returnS rep))))"

subsection \<open>Recurring schedules\<close>

definition spec_failure :: "spec_error \<Rightarrow> coord_error" where
  "spec_failure e = (case e of
     NeverFires \<Rightarrow> OrchestratorError ''cron expression never fires within 366 days'' CatInvalidInput
   | _ \<Rightarrow> OrchestratorError [] CatInvalidInput)"

definition syntheticScheduleItem :: "sched_env \<Rightarrow> schedule_definition \<Rightarrow> time \<Rightarrow> work_item" where
  "syntheticScheduleItem env sd due =
     (let dueText = ce_toISO (se_coord env) due; externalId = sd_name sd @ ''@'' @ dueText in
      \<lparr>wi_id = ''schedule:'' @ externalId, wi_provider = ''schedule'', wi_externalId = externalId,
       wi_title = ''Scheduled: '' @ sd_name sd, wi_description = sd_description sd,
       wi_state = ''scheduled'', wi_type = None, wi_priority = None, wi_labels = [''scheduled''],
       wi_assignees = [], wi_relationships = [], wi_repository = None,
       wi_metadata = [(''scheduleName'', JStr (sd_name sd)), (''dueAt'', JStr dueText)] @
         (case sd_payload sd of None \<Rightarrow> [] | Some p \<Rightarrow> [(''payload'', JObj (Built 0 ''payload'') p)]),
       wi_url = None, wi_updatedAt = None\<rparr>)"

definition fire_schedule :: "sched_env \<Rightarrow> time \<Rightarrow> string \<Rightarrow> schedule_definition \<Rightarrow> time \<Rightarrow> unit sched_op" where
  "fire_schedule env t name sd due =
     bindS (inCoord (next_id (se_coord env) ''run'')) (\<lambda>runId.
     thenS (updateS (\<lambda>w. w\<lparr>sw_firings := recordFiring
       \<lparr>sf_scheduleName = name, sf_dueAt = due, sf_firedAt = Some t, sf_runId = Some runId\<rparr> (sw_firings w)\<rparr>))
    (let item = syntheticScheduleItem env sd due in
     thenS (announce env (Some runId) (SvDiscovered (wi_id item) (wi_provider item)))
    (catchS
      (thenS (inCoord (se_start env item (sd_workflow sd) runId
         (case sd_payload sd of None \<Rightarrow> [] | Some p \<Rightarrow> p))) (returnS ()))
      (\<lambda>e. announce env (Some runId) (SvError ''schedule'' (error_message e))))))"

text \<open>One schedule: whether it fired.\<close>

definition check_schedule :: "sched_env \<Rightarrow> time \<Rightarrow> definition_status \<Rightarrow> bool sched_op" where
  "check_schedule env t status =
     (if ds_lifecycle status \<noteq> LcEnabled then returnS False
      else
        bindS (readS (\<lambda>w. get_definition DkSchedule (ds_name status) None (w_definitions (sw_coord w)))) (\<lambda>found.
        case found of
          None \<Rightarrow> returnS False
        | Some v \<Rightarrow>
            (let sd = se_schedule env (dv_document v) in
             if \<not> sd_enabled sd then returnS False
             else case parseScheduleSpec (sd_cron sd) of
               Inl _ \<Rightarrow> returnS False
             | Inr spec \<Rightarrow>
                 bindS (readS (\<lambda>w. case lastFiring (ds_name status) (sw_firings w) of
                     None \<Rightarrow> dv_createdAt v | Some f \<Rightarrow> sf_dueAt f)) (\<lambda>base.
                 bindS (liftS (map_sum spec_failure (\<lambda>d. d) (latestDueAtOrBefore spec base t))) (\<lambda>due.
                 case due of
                   None \<Rightarrow> returnS False
                 | Some d \<Rightarrow> thenS (fire_schedule env t (ds_name status) sd d) (returnS True))))))"

fun fire_all_due :: "sched_env \<Rightarrow> time \<Rightarrow> definition_status list \<Rightarrow> nat sched_op" where
  "fire_all_due env t [] = returnS 0"
| "fire_all_due env t (s # ss) =
     bindS (check_schedule env t s) (\<lambda>b.
     bindS (fire_all_due env t ss) (\<lambda>k. returnS (if b then Suc k else k)))"

definition fireDueSchedules :: "sched_env \<Rightarrow> time \<Rightarrow> nat sched_op" where
  "fireDueSchedules env t =
     bindS (readS (\<lambda>w. list_definitions DkSchedule (w_definitions (sw_coord w)))) (fire_all_due env t)"

subsection \<open>Routing and selection\<close>

record routing_dispatch =
  rdp_outcome :: routing_outcome
  rdp_runId :: "string option"
  rdp_waitId :: "string option"

definition route ::
  "sched_env \<Rightarrow> work_item \<Rightarrow> routing_rule list option \<Rightarrow> string list option \<Rightarrow> routing_dispatch sched_op" where
  "route env item rules enabledWorkflows =
     bindS (readS (\<lambda>w. routeItem item
         (case rules of None \<Rightarrow> listRules w | Some rs \<Rightarrow> rs)
         (case enabledWorkflows of None \<Rightarrow> enabledWorkflowNames w | Some es \<Rightarrow> es))) (\<lambda>outcome.
     case outcome of
       NoMatch \<Rightarrow>
         thenS (announce env None (SvWorkUpdated (wi_id item) ''routing: no matching rule''))
         (returnS \<lparr>rdp_outcome = outcome, rdp_runId = None, rdp_waitId = None\<rparr>)
     | Ambiguous fs \<Rightarrow>
         bindS (openSelectionWait env item fs) (\<lambda>i.
         returnS \<lparr>rdp_outcome = outcome, rdp_runId = None, rdp_waitId = Some i\<rparr>)
     | Unique f rule \<Rightarrow>
         if rule_autoStart rule \<noteq> Some True then
           thenS (announce env None (SvWorkUpdated (wi_id item)
             (''routing: matched '' @ [CHR 0x27] @ f @ [CHR 0x27] @ '' (autoStart disabled)'')))
           (returnS \<lparr>rdp_outcome = outcome, rdp_runId = None, rdp_waitId = None\<rparr>)
         else
           bindS (claimAndStart env item f) (\<lambda>r.
           returnS \<lparr>rdp_outcome = outcome, rdp_runId = map_option run_id r, rdp_waitId = None\<rparr>))"

definition decision_for :: "sched_env \<Rightarrow> work_item \<Rightarrow> string \<Rightarrow> string \<Rightarrow> time \<Rightarrow> routing_decision" where
  "decision_for env item chosen responder t =
     \<lparr>rd_workItemId = wi_id item, rd_labels = wi_labels item, rd_type = wi_type item,
      rd_repository = map_option rr_locator (wi_repository item), rd_chosenWorkflow = chosen,
      rd_responder = responder, rd_at = ce_toISO (se_coord env) t\<rparr>"

definition recordDecision ::
  "sched_env \<Rightarrow> work_item \<Rightarrow> string \<Rightarrow> string \<Rightarrow> time \<Rightarrow> unit sched_op" where
  "recordDecision env item chosen responder t =
     updateS (\<lambda>w. w\<lparr>sw_decisions := sw_decisions w @ [decision_for env item chosen responder t]\<rparr>)"

datatype selection_result =
  SelectionRefused string | SelectionStarted string | SelectionRecorded

definition selection_issue :: "wait_condition \<Rightarrow> string \<Rightarrow> string option" where
  "selection_issue c workflow =
     (if field_of (wait_parameters c) ''reason'' \<noteq> JStr WORKFLOW_SELECTION_REQUIRED
      then Some ''not a workflow selection wait''
      else case wait_request c of
        None \<Rightarrow> None
      | Some rq \<Rightarrow> (case validateHumanInputValue rq (JStr workflow) of Inl m \<Rightarrow> Some m | Inr _ \<Rightarrow> None))"

definition scheduler_input :: "string \<Rightarrow> string \<Rightarrow> time \<Rightarrow> jsval \<Rightarrow> human_input" where
  "scheduler_input waitId responder t v =
     \<lparr>hi_requestId = waitId, hi_responder = responder, hi_channel = ChannelApp, hi_at = t, hi_value = v\<rparr>"

definition onSelection :: "sched_env \<Rightarrow> string \<Rightarrow> string \<Rightarrow> string \<Rightarrow> selection_result sched_op" where
  "onSelection env waitId workflow responder =
     bindS (readS (\<lambda>w. get_wait waitId (w_waits (sw_coord w)))) (\<lambda>found.
     case found of
       None \<Rightarrow> returnS (SelectionRefused ''unknown wait'')
     | Some c \<Rightarrow>
         (case selection_issue c workflow of
            Some reason \<Rightarrow> returnS (SelectionRefused reason)
          | None \<Rightarrow>
              bindS (inCoord (now (se_coord env))) (\<lambda>t.
              let input = scheduler_input waitId responder t (JStr workflow) in
              bindS (inCoord (satisfyS waitId \<lparr>sat_kind = wait_kind c, sat_at = t, sat_input = Some input,
                sat_event = None\<rparr>)) (\<lambda>won.
              if \<not> won then
                thenS (inCoord (update_waits (addSupplemental \<lparr>sup_waitId = waitId,
                  sup_runId = wait_runId c, sup_input = input, sup_promotedAt = None\<rparr>)))
                (returnS (SelectionRefused ''already satisfied; recorded as supplemental context''))
              else
                thenS (announce env (Some (wait_runId c)) (SvWaitSatisfied waitId (wait_kind c)))
               (thenS (announce env (Some (wait_runId c)) (SvInputReceived waitId responder ChannelApp))
               (let item = se_item_of env (field_of (wait_parameters c) ''item'') in
                thenS (recordDecision env item workflow responder t)
               (bindS (claimAndStart env item workflow) (\<lambda>r.
                returnS (case r of None \<Rightarrow> SelectionRecorded | Some r \<Rightarrow> SelectionStarted (run_id r))))))))))"

subsection \<open>Learning rules\<close>

definition suggestRules :: "sched_world \<Rightarrow> routing_suggestion list" where
  "suggestRules w =
     filter (\<lambda>s. sg_condition s \<notin> rule_condition ` set (listRules w)) (suggestRoutingRules (sw_decisions w))"

definition rule_slug :: "string \<Rightarrow> string" where
  "rule_slug v = rev (dropWhile (\<lambda>c. c = CHR ''-'') (rev
     (dropWhile (\<lambda>c. c = CHR ''-'') (dash_runs (to_lower v)))))"

definition ruleNameFor :: "routing_suggestion \<Rightarrow> string" where
  "ruleNameFor s = field_text (sg_field s) @ ''-'' @ rule_slug (sg_value s) @ ''-'' @ rule_slug (sg_workflow s)"

definition proposal_prompt :: "routing_suggestion \<Rightarrow> string" where
  "proposal_prompt s =
     ''Apply routing rule: when '' @ field_text (sg_field s) @ '' is '' @ [CHR 0x27] @ sg_value s @
     [CHR 0x27] @ '', route to '' @ [CHR 0x27] @ sg_workflow s @ [CHR 0x27] @ ''? (evidence: '' @
     show_nat (sg_evidenceCount s) @ '' selections)''"

definition proposeRule :: "sched_env \<Rightarrow> routing_suggestion \<Rightarrow> string sched_op" where
  "proposeRule env s =
     (let runId = ''routing-rule:'' @ ruleNameFor s in
      bindS (readS (\<lambda>w. open_with_reason ROUTING_RULE_PROPOSAL runId (w_waits (sw_coord w)))) (\<lambda>existing.
      case existing of
        Some c \<Rightarrow> returnS (wait_id c)
      | None \<Rightarrow>
          bindS (inCoord (next_id (se_coord env) ''wait'')) (\<lambda>i.
          bindS (inCoord (now (se_coord env))) (\<lambda>t.
          let c = routing_wait i runId ''routing-rule'' WApproval
                [(''reason'', JStr ROUTING_RULE_PROPOSAL), (''suggestion'', se_suggestion_value env s)]
                \<lparr>hr_type = HApproval, hr_prompt = proposal_prompt s, hr_surface = SurfaceApp,
                 hr_choices = None, hr_secretName = None, hr_timeoutMs = None\<rparr> t in
          thenS (inCoord (update_waits (save_wait c)))
         (thenS (announce env (Some runId) (SvApprovalRequested i (proposal_prompt s)))
         (returnS i))))))"

definition learned_rule :: "routing_suggestion \<Rightarrow> routing_rule" where
  "learned_rule s = \<lparr>rule_name = ruleNameFor s, rule_condition = sg_condition s,
     rule_workflow = sg_workflow s, rule_autoStart = Some False\<rparr>"

text \<open>The answer: whether the response was accepted and whether the rule was persisted.\<close>

definition onRuleApproval :: "sched_env \<Rightarrow> string \<Rightarrow> bool \<Rightarrow> string \<Rightarrow> (bool \<times> bool) sched_op" where
  "onRuleApproval env waitId approved responder =
     bindS (readS (\<lambda>w. get_wait waitId (w_waits (sw_coord w)))) (\<lambda>found.
     case found of
       None \<Rightarrow> returnS (False, False)
     | Some c \<Rightarrow>
         if field_of (wait_parameters c) ''reason'' \<noteq> JStr ROUTING_RULE_PROPOSAL then returnS (False, False)
         else
           bindS (inCoord (now (se_coord env))) (\<lambda>t.
           bindS (inCoord (satisfyS waitId \<lparr>sat_kind = wait_kind c, sat_at = t,
             sat_input = Some (scheduler_input waitId responder t (JBool approved)), sat_event = None\<rparr>)) (\<lambda>won.
           if \<not> won then returnS (False, False)
           else
             thenS (announce env (Some (wait_runId c)) (SvApprovalResolved waitId approved))
             (if \<not> approved then returnS (True, False)
              else
                (let rule = learned_rule (se_suggestion_of env (field_of (wait_parameters c) ''suggestion'')) in
                 thenS (updateS (\<lambda>w. w\<lparr>sw_rules := AList.update (''rule:'' @ rule_name rule) rule (sw_rules w)\<rparr>))
                 (returnS (True, True)))))))"

end
