(* ===== verification/SchedulerProps.thy ===== *)
theory SchedulerProps
  imports Scheduler CoordinatorRun
begin

section \<open>What the scheduler guarantees\<close>

text \<open>
  Lane capacity, firing a schedule once per slot and learning rules by approval only. The port
  that starts runs is the locale \<open>run_starter\<close>; the coordinator's \<open>start\<close> interprets it.
\<close>

subsection \<open>A scheduler to apply the properties to\<close>

definition serial_lane :: lane_definition where
  "serial_lane = \<lparr>lane_name = ''main'', lane_description = None, lane_source = ''fake'', lane_query = None,
     lane_workflow = Some ''ship'', lane_policy = StrictSerial, lane_maxActive = 3,
     lane_requiredCapabilities = None, lane_allowedProfiles = None, lane_budgetName = None,
     lane_enabled = True\<rparr>"

definition minutely :: schedule_definition where
  "minutely = \<lparr>sd_name = ''minutely'', sd_description = None, sd_cron = ''every 1m'',
     sd_workflow = ''missing'', sd_payload = None, sd_enabled = True\<rparr>"

definition label_suggestion :: routing_suggestion where
  "label_suggestion = \<lparr>sg_field = FieldLabel, sg_value = ''bug'',
     sg_condition = ''item.labels.bug'', sg_workflow = ''ship'', sg_evidenceCount = 3\<rparr>"

definition sample_env :: "(work_item \<Rightarrow> string \<Rightarrow> string \<Rightarrow> fields \<Rightarrow> run coord_op) \<Rightarrow> sched_env" where
  "sample_env starter = \<lparr>se_coord = ask_env, se_start = starter, se_isBlocked = None,
     se_schedule = (\<lambda>_. minutely), se_item_value = (\<lambda>_. JNull), se_item_of = (\<lambda>_. ship_item),
     se_suggestion_value = (\<lambda>_. JNull), se_suggestion_of = (\<lambda>_. label_suggestion)\<rparr>"

definition idle_sched :: "coord_world \<Rightarrow> sched_world" where
  "idle_sched c = \<lparr>sw_coord = c, sw_lanes = [(''main'', [])], sw_rules = [], sw_decisions = [],
     sw_firings = [], sw_events = []\<rparr>"

text \<open>A starter whose runs are queued, and one that always fails.\<close>

definition queue_run :: "work_item \<Rightarrow> string \<Rightarrow> string \<Rightarrow> fields \<Rightarrow> run coord_op" where
  "queue_run item f runId vars = returnS (new_run runId (wi_id item) f 0 0)"

definition refuse_run :: "work_item \<Rightarrow> string \<Rightarrow> string \<Rightarrow> fields \<Rightarrow> run coord_op" where
  "refuse_run item f runId vars = throwS (OrchestratorError ''no workspace'' CatInternal)"

subsection \<open>Lane capacity\<close>

definition grown :: "lane_definition \<Rightarrow> string list \<Rightarrow> lane_report \<Rightarrow> string list \<times> lane_report \<Rightarrow> bool" where
  "grown lane active rep r \<longleftrightarrow>
     int (length (fst r)) \<le> max (int (length active)) (lane_capacity lane) \<and>
     (\<exists>new. fst r = active @ map run_id new \<and> lr_started (snd r) = lr_started rep @ new)"

lemma grown_same:
  "lr_started rep' = lr_started rep \<Longrightarrow> grown lane active rep (active, rep')"
  by (simp add: grown_def)

lemma grown_step:
  assumes "int (length active) < lane_capacity lane"
    and "grown lane (active @ [run_id r]) (rep\<lparr>lr_started := lr_started rep @ [r]\<rparr>) q"
  shows "grown lane active rep q"
proof -
  from assms(2) obtain new where "fst q = active @ map run_id (r # new)"
    "lr_started (snd q) = lr_started rep @ (r # new)" by (auto simp: grown_def)
  moreover have "int (length (fst q)) \<le> max (int (length active)) (lane_capacity lane)"
    using assms by (simp add: grown_def)
  ultimately show ?thesis unfolding grown_def by blast
qed

lemma dispatch_items_grown:
  "keeps (\<lambda>_. True) (dispatch_items env lane items active rep) (grown lane active rep)"
proof (induction items arbitrary: active rep)
  case Nil
  show ?case by (auto intro: keeps_return grown_same)
next
  case (Cons item items)
  have any: "keeps (\<lambda>_. True) m (\<lambda>_. True)" for m :: "'a sched_op"
    by (rule keepsI) simp_all
  have skip: "keeps (\<lambda>_. True) (dispatch_items env lane items active (rep\<lparr>lr_skipped := x\<rparr>)) (grown lane active rep)" for x
    by (rule keeps_weaken [OF Cons]) (simp add: grown_def)
  show ?case
  proof (cases "lane_capacity lane \<le> int (length active)")
    case True
    then show ?thesis by (simp add: keeps_return grown_same)
  next
    case False
    have start: "keeps (\<lambda>_. True) (dispatch_items env lane items (active @ [run_id r])
        (rep\<lparr>lr_started := lr_started rep @ [r]\<rparr>)) (grown lane active rep)" for r
      by (rule keeps_weaken [OF Cons]) (use False grown_step in auto)
    show ?thesis
      using False
      by (auto simp: Let_def split: sum.splits option.splits intro!: keeps_bind [where R = "\<lambda>_. True", OF any]
        keeps_then [OF any] keeps_return keeps_if grown_same skip start)
  qed
qed

text \<open>
  C21. No dispatch takes a lane over its capacity. After a dispatch of an enabled lane that did not
  throw, the runs the lane tracks are those of its earlier runs that are not finished followed by
  the runs just started, and their number is at most the larger of the capacity and the number of the
  unfinished earlier runs: a lane that is over its capacity already, because the capacity was
  lowered, starts nothing. A dispatch that throws is not covered: it forgets the runs it started.
\<close>

theorem lane_capacity_respected:
  assumes "dispatchLane env lane candidates w = (Inr rep, w')" and "lane_enabled lane"
  shows "tracked w' (lane_name lane) = activeLaneRunIds w (lane_name lane) @ map run_id (lr_started rep) \<and>
    int (length (tracked w' (lane_name lane))) \<le>
      max (int (length (activeLaneRunIds w (lane_name lane)))) (lane_capacity lane)"
proof -
  let ?active = "activeLaneRunIds w (lane_name lane)"
  from assms obtain q w1 where q: "dispatch_items env lane candidates ?active empty_report w = (Inr q, w1)"
    and w': "w' = w1\<lparr>sw_lanes := AList.update (lane_name lane) (fst q) (sw_lanes w1)\<rparr>" "rep = snd q"
    by (auto simp: dispatchLane_def bindS_def thenS_def readS_def updateS_def returnS_def
        split: prod.splits sum.splits)
  have "grown lane ?active empty_report q"
    by (rule keepsD(2) [OF dispatch_items_grown _ q]) simp
  then show ?thesis by (auto simp: w' tracked_def grown_def empty_report_def)
qed

theorem lane_capacity_respected_witness:
  "\<exists>rep w'. dispatchLane (sample_env queue_run) serial_lane [ship_item, ship_item] (idle_sched empty_world) = (Inr rep, w') \<and>
     tracked w' ''main'' = [''run0''] \<and>
     int (length (tracked w' ''main'')) \<le> max 0 (lane_capacity serial_lane)"
proof -
  let ?q = "dispatchLane (sample_env queue_run) serial_lane [ship_item, ship_item] (idle_sched empty_world)"
  have "(case fst ?q of Inl _ \<Rightarrow> False | Inr _ \<Rightarrow> tracked (snd ?q) ''main'' = [''run0''])"
    by code_simp
  then obtain rep w' where q: "?q = (Inr rep, w')" "tracked w' ''main'' = [''run0'']"
    by (cases ?q) (simp split: sum.splits)
  have "activeLaneRunIds (idle_sched empty_world) ''main'' = []" "lane_enabled serial_lane"
    "lane_name serial_lane = ''main''" by code_simp+
  with lane_capacity_respected [OF q(1)] q show ?thesis by auto
qed

subsection \<open>What each operation leaves alone\<close>

lemma inCoord_frames [frames_rules]: "(\<And>w c. f (w\<lparr>sw_coord := c\<rparr>) = f w) \<Longrightarrow> frames f (inCoord m)"
  by (simp add: frames_def inCoord_def split: prod.splits)

definition own_stores :: "sched_world \<Rightarrow> string list record_of \<times> routing_rule record_of" where
  "own_stores w = (sw_lanes w, sw_rules w)"

lemma own_stores_simps [simp]:
  "own_stores (w\<lparr>sw_coord := c\<rparr>) = own_stores w" "own_stores (w\<lparr>sw_events := es\<rparr>) = own_stores w"
  "own_stores (w\<lparr>sw_firings := fs\<rparr>) = own_stores w" "own_stores (w\<lparr>sw_decisions := ds\<rparr>) = own_stores w"
  by (simp_all add: own_stores_def)

lemma own_announce [frames_rules]: "frames own_stores (announce env r p)"
  unfolding announce_def by (intro frames_rules) simp_all

lemma own_claimAndStart [frames_rules]: "frames own_stores (claimAndStart env item f)"
  unfolding claimAndStart_def by (intro frames_rules) simp_all

lemma own_openSelectionWait [frames_rules]: "frames own_stores (openSelectionWait env item fs)"
  unfolding openSelectionWait_def Let_def by (intro frames_rules) simp_all

lemma own_workflow [frames_rules]: "frames own_stores (lane_workflow_or_reason env lane item)"
  unfolding lane_workflow_or_reason_def workflowForLaneItem_def isBlocked_def
  by (intro frames_rules) (auto split: routing_outcome.splits intro!: frames_rules)

lemma own_dispatch_items [frames_rules]: "frames own_stores (dispatch_items env lane items active rep)"
  by (induction items arbitrary: active rep)
    (auto simp: Let_def split: sum.splits option.splits intro!: frames_rules)

lemma own_fire_schedule [frames_rules]: "frames own_stores (fire_schedule env t name sd due)"
  unfolding fire_schedule_def Let_def by (intro frames_rules) simp_all

lemma own_check_schedule [frames_rules]: "frames own_stores (check_schedule env t s)"
  unfolding check_schedule_def Let_def
  by (intro frames_rules) (auto split: sum.splits intro!: frames_rules)

lemma own_fireDueSchedules [frames_rules]: "frames own_stores (fireDueSchedules env t)"
proof -
  have "frames own_stores (fire_all_due env t ss)" for ss
    by (induction ss) (auto intro!: frames_rules)
  then show ?thesis unfolding fireDueSchedules_def by (intro frames_rules)
qed

lemma own_route [frames_rules]: "frames own_stores (route env item rules enabled)"
  unfolding route_def by (intro frames_rules) (auto split: routing_outcome.splits intro!: frames_rules)

lemma own_onSelection [frames_rules]: "frames own_stores (onSelection env i f responder)"
  unfolding onSelection_def recordDecision_def Let_def by (intro frames_rules) simp_all

lemma own_proposeRule [frames_rules]: "frames own_stores (proposeRule env s)"
  unfolding proposeRule_def Let_def by (intro frames_rules) simp_all

text \<open>
  A dispatch that fails forgets what it started: when starting a run throws, the tracked
  runs of every lane are those from before the dispatch, although earlier candidates of the same
  dispatch may already be running.
\<close>

theorem failed_dispatch_forgets_started:
  assumes "dispatchLane env lane candidates w = (Inl e, w')"
  shows "tracked w' name = tracked w name"
proof -
  from assms obtain active where "dispatch_items env lane candidates active empty_report w = (Inl e, w')"
    by (auto simp: dispatchLane_def bindS_def thenS_def readS_def updateS_def returnS_def
        split: prod.splits sum.splits if_splits)
  from framesD [OF own_dispatch_items this] show ?thesis by (simp add: own_stores_def tracked_def)
qed

theorem failed_dispatch_forgets_started_witness:
  "\<exists>e w'. dispatchLane (sample_env refuse_run) serial_lane [ship_item] (idle_sched empty_world) = (Inl e, w') \<and>
     tracked w' ''main'' = tracked (idle_sched empty_world) ''main''"
proof -
  let ?q = "dispatchLane (sample_env refuse_run) serial_lane [ship_item] (idle_sched empty_world)"
  have "(case fst ?q of Inl _ \<Rightarrow> True | Inr _ \<Rightarrow> False)"
    by code_simp
  then obtain e w' where q: "?q = (Inl e, w')"
    by (cases ?q) (simp split: sum.splits)
  with failed_dispatch_forgets_started [OF q] show ?thesis by blast
qed

subsection \<open>Rules are learned by approval only\<close>

inductive sched_step :: "sched_env \<Rightarrow> sched_world \<Rightarrow> sched_world \<Rightarrow> bool" for env where
  dispatched: "sched_step env w (snd (dispatchLane env lane candidates w))"
| fired: "sched_step env w (snd (fireDueSchedules env t w))"
| routed: "sched_step env w (snd (route env item rules enabled w))"
| selected: "sched_step env w (snd (onSelection env i f responder w))"
| proposed: "sched_step env w (snd (proposeRule env s w))"
| resolved: "sched_step env w (snd (onRuleApproval env i approved responder w))"
| coordinated: "sched_step env w (snd (inCoord (m :: unit coord_op) w))"

definition open_proposal :: "string \<Rightarrow> sched_world \<Rightarrow> bool" where
  "open_proposal i w \<longleftrightarrow>
     (case get_wait i (w_waits (sw_coord w)) of
        None \<Rightarrow> False
      | Some c \<Rightarrow> wait_status c = WaitOpen \<and>
          field_of (wait_parameters c) ''reason'' = JStr ROUTING_RULE_PROPOSAL)"

lemma rules_unchanged: "frames own_stores m \<Longrightarrow> sw_rules (snd (m w)) = sw_rules w"
  by (simp add: frames_def own_stores_def)

lemma dispatch_rules: "sw_rules (snd (dispatchLane env lane candidates w)) = sw_rules w"
proof -
  have "frames sw_rules (dispatch_items env lane items active rep)" for items active rep
    using own_dispatch_items by (auto simp: frames_def own_stores_def)
  then have "frames sw_rules (dispatchLane env lane candidates)"
    unfolding dispatchLane_def by (intro frames_rules) (auto intro!: frames_rules)
  then show ?thesis by (simp add: frames_def)
qed

lemma announce_rules: "announce env r p w = (q, w') \<Longrightarrow> sw_rules w' = sw_rules w"
  using framesD [OF own_announce] by (fastforce simp: own_stores_def)

lemma own_rejected: "frames own_stores (onRuleApproval env i False responder)"
  unfolding onRuleApproval_def Let_def if_True not_False_eq_True by (intro frames_rules) simp_all

lemma approval_rules:
  assumes "sw_rules (snd (onRuleApproval env i approved responder w)) \<noteq> sw_rules w"
  shows "approved \<and> open_proposal i w"
proof (cases "get_wait i (w_waits (sw_coord w))")
  case None
  with assms show ?thesis by (simp add: onRuleApproval_def bindS_def readS_def returnS_def)
next
  case (Some c)
  show ?thesis
  proof (cases "field_of (wait_parameters c) ''reason'' = JStr ROUTING_RULE_PROPOSAL")
    case False
    with Some assms show ?thesis by (simp add: onRuleApproval_def bindS_def readS_def returnS_def)
  next
    case reason: True
    have waits_same: "w_waits (c\<lparr>w_seq := k\<rparr>) = w_waits c" for c :: coord_world and k by simp
    show ?thesis
    proof (cases "wait_open i (w_waits (sw_coord w))")
      case False
      then have lost: "trySatisfy i sat (w_waits (sw_coord w)) = (False, w_waits (sw_coord w))" for sat
        using waits.satisfy_lost [OF False] waits.satisfy_answer [of i sat "w_waits (sw_coord w)"]
        by (intro prod_eqI) simp_all
      with Some reason assms show ?thesis
        by (simp add: onRuleApproval_def bindS_def readS_def returnS_def inCoord_def now_def ask_def
            satisfyS_def Let_def)
    next
      case True
      then have "open_proposal i w" using Some reason by (simp add: wait_open_def open_proposal_def)
      moreover have approved
      proof (rule ccontr)
        assume "\<not> approved"
        with assms rules_unchanged [OF own_rejected] show False by simp
      qed
      ultimately show ?thesis by blast
    qed
  qed
qed

text \<open>
  Routing rules are never learned behind a human's back: any step of the scheduler, the
  coordinator's own steps included, that changes the routing rules is the approval of an open
  rule proposal.
\<close>

theorem rules_need_approval:
  assumes "sched_step env w w'" and "sw_rules w' \<noteq> sw_rules w"
  shows "\<exists>i responder. open_proposal i w \<and> w' = snd (onRuleApproval env i True responder w)"
  using assms(1)
proof cases
  case (resolved i approved responder)
  with approval_rules [of env i approved responder w] assms(2) show ?thesis by (cases approved) auto
next
  case coordinated
  with assms(2) show ?thesis by (simp add: inCoord_def split: prod.splits)
qed (use assms(2) rules_unchanged dispatch_rules own_fireDueSchedules own_route own_onSelection
    own_proposeRule in \<open>blast+\<close>)

definition proposed_sched :: sched_world where
  "proposed_sched = snd (proposeRule (sample_env queue_run) label_suggestion (idle_sched empty_world))"

theorem rules_need_approval_witness:
  "\<exists>i responder. open_proposal i proposed_sched \<and>
     snd (onRuleApproval (sample_env queue_run) ''wait0'' True ''ann'' proposed_sched) =
     snd (onRuleApproval (sample_env queue_run) i True responder proposed_sched)"
proof (rule rules_need_approval)
  show "sched_step (sample_env queue_run) proposed_sched
      (snd (onRuleApproval (sample_env queue_run) ''wait0'' True ''ann'' proposed_sched))"
    by (rule sched_step.resolved)
  show "sw_rules (snd (onRuleApproval (sample_env queue_run) ''wait0'' True ''ann'' proposed_sched)) \<noteq>
      sw_rules proposed_sched"
    by code_simp
qed

text \<open>
  The name of a rule forgets what is not a letter or a digit, so two suggestions may share one.
  The proposal of the second then answers with the open wait of the first, whose approval
  persists the first rule.
\<close>

lemma colliding_proposal:
  assumes "ruleNameFor s' = ruleNameFor s"
    and "open_with_reason ROUTING_RULE_PROPOSAL (''routing-rule:'' @ ruleNameFor s) (w_waits (sw_coord w)) = Some c"
  shows "proposeRule env s' w = (Inr (wait_id c), w)"
  using assms by (simp add: proposeRule_def bindS_def readS_def returnS_def Let_def)

lemma colliding_names:
  "ruleNameFor (label_suggestion\<lparr>sg_field := FieldType, sg_value := ''C++''\<rparr>) =
   ruleNameFor (label_suggestion\<lparr>sg_field := FieldType, sg_value := ''C#''\<rparr>)"
  by code_simp

subsection \<open>A schedule fires once per slot\<close>

lemma lastFiring_record:
  assumes "\<And>f. lastFiring name rows = Some f \<Longrightarrow> sf_dueAt f < d"
  shows "\<exists>f. lastFiring name (recordFiring \<lparr>sf_scheduleName = name, sf_dueAt = d, sf_firedAt = a, sf_runId = i\<rparr> rows) = Some f
     \<and> sf_dueAt f = d"
proof -
  let ?new = "\<lparr>sf_scheduleName = name, sf_dueAt = d, sf_firedAt = a, sf_runId = i\<rparr>"
  let ?rows = "recordFiring ?new rows"
  have "lastFiring name ?rows \<noteq> None" by (simp add: lastFiring_def recordFiring_def Let_def)
  then obtain f where f: "lastFiring name ?rows = Some f" by blast
  from lastFiring_maximal [OF f] have "d \<le> sf_dueAt f" "f = ?new \<or> f \<in> set rows \<and> sf_scheduleName f = name"
    by (auto simp: recordFiring_def)
  moreover have "sf_dueAt h < d" if h: "h \<in> set rows" "sf_scheduleName h = name" for h
  proof -
    have "lastFiring name rows \<noteq> None"
      using h by (auto simp: lastFiring_def Let_def filter_empty_conv)
    then obtain g where "lastFiring name rows = Some g" by blast
    with lastFiring_maximal [OF this] h assms show ?thesis by force
  qed
  ultimately show ?thesis using f by fastforce
qed

lemma lastFiring_other:
  "sf_scheduleName f \<noteq> name \<Longrightarrow> lastFiring name (recordFiring f rows) = lastFiring name rows"
  by (simp add: lastFiring_def recordFiring_def)

definition definitions_part ::
  "coord_world \<Rightarrow> (definition_key \<times> definition_version list) list \<times> (definition_key \<times> definition_lifecycle) list" where
  "definitions_part c = (st_versions (w_definitions c), st_lifecycles (w_definitions c))"

lemma definitions_part_simps [simp]:
  "definitions_part (c\<lparr>w_seq := k\<rparr>) = definitions_part c"
  "definitions_part (c\<lparr>w_runs := rs\<rparr>) = definitions_part c" "definitions_part (c\<lparr>w_graphs := gs\<rparr>) = definitions_part c"
  "definitions_part (c\<lparr>w_specs := sp\<rparr>) = definitions_part c" "definitions_part (c\<lparr>w_waits := ws\<rparr>) = definitions_part c"
  "definitions_part (c\<lparr>w_claims := cl\<rparr>) = definitions_part c" "definitions_part (c\<lparr>w_checkpoints := ck\<rparr>) = definitions_part c"
  "definitions_part (c\<lparr>w_events := ev\<rparr>) = definitions_part c" "definitions_part (c\<lparr>w_active := ac\<rparr>) = definitions_part c"
  "definitions_part (c\<lparr>w_children := ch\<rparr>) = definitions_part c" "definitions_part (c\<lparr>w_projected := pr\<rparr>) = definitions_part c"
  "definitions_part (c\<lparr>w_comments := co\<rparr>) = definitions_part c" "definitions_part (c\<lparr>w_cleaned := cn\<rparr>) = definitions_part c"
  "definitions_part (c\<lparr>w_definitions := saveSnapshot sn (w_definitions c)\<rparr>) = definitions_part c"
  by (simp_all add: definitions_part_def saveSnapshot_def)

lemma def_basic [frames_rules]:
  "frames definitions_part (ask f)" "frames definitions_part (satisfyS i sat)"
  by (simp_all add: frames_def ask_def satisfyS_def split: prod.splits)

lemma def_outside [frames_rules]:
  "frames definitions_part (ask_outside f')" "frames definitions_part (now env)"
  "frames definitions_part (next_id env p)"
  unfolding ask_outside_def now_def next_id_def by (intro frames_rules)+

lemma def_stores [frames_rules]:
  "frames definitions_part (publish env r p)" "frames definitions_part (save_runS run)"
  "frames definitions_part (save_graphS st)" "frames definitions_part (update_waits f)"
  "frames definitions_part (releaseS env i k)"
  unfolding publish_def save_runS_def save_graphS_def update_waits_def releaseS_def
  by (intro frames_rules; simp)+

lemma def_engine_event [frames_rules]: "frames definitions_part (publishEngineEvent env r e)"
  unfolding publishEngineEvent_def by (cases e) (simp_all add: frames_rules)

lemma def_transition [frames_rules]: "frames definitions_part (transition_run env r to reason)"
  unfolding transition_run_cases Let_def by (intro frames_rules)

lemma def_workspace [frames_rules]:
  "frames definitions_part (prepareWorkspace env item g r)"
  "frames definitions_part (restoreWorkspaceIfNeeded env run g item)"
  unfolding restoreWorkspaceIfNeeded_def prepareWorkspace_def Let_def
  by (intro frames_rules; auto split: jsval.splits intro!: frames_rules)+

lemma def_tracker [frames_rules]:
  "frames definitions_part (applyProjections env item ts)" "frames definitions_part (commentOnItem env item b)"
  "frames definitions_part (cleanup env ws t)"
  unfolding applyProjections_def commentOnItem_def cleanup_def by (intro frames_rules; simp)+

lemma def_waiting [frames_rules]:
  "frames definitions_part (persistWaits env r item g outcome)"
  "frames definitions_part (suspend env r item outcome ws)"
  unfolding persistWaits_def persist_wait_def suspend_def suspend_checkpoint_def Let_def
  by (intro frames_rules; simp)+

lemma frames_finally [frames_rules]:
  "frames f m \<Longrightarrow> frames f n \<Longrightarrow> frames f (finallyS m n)"
  by (simp add: frames_def finallyS_state)

lemma def_satisfyParentWaits [frames_rules]:
  "(\<And>c sat. frames definitions_part (cont c sat)) \<Longrightarrow> frames definitions_part (satisfyParentWaits env cont r)"
  unfolding satisfyParentWaits_def satisfy_parent_def Let_def
  by (intro frames_rules) (auto split: jsval.splits prod.splits option.splits intro!: frames_rules)

lemma def_finalize [frames_rules]:
  "(\<And>c sat. frames definitions_part (cont c sat)) \<Longrightarrow>
   frames definitions_part (finalize env cont r item t outcome ws)"
  unfolding finalize_def by (intro frames_rules)

lemma def_engine_tick [frames_rules]: "frames definitions_part (engine_tick env call)"
  unfolding engine_tick_def start_child_def Let_def
  by (intro frames_bind frames_rules)
    (auto split: option.splits sum.splits intro!: frames_rules)

lemma def_drive [frames_rules]:
  "(\<And>c sat. frames definitions_part (cont c sat)) \<Longrightarrow>
   frames definitions_part (drive env cont r item snap g st ws sats)"
  unfolding drive_def drive_body_def drive_failed_def agent_context_def
  by (intro frames_rules) simp_all

lemma def_resumeRunLocked [frames_rules]:
  "(\<And>c sat. frames definitions_part (cont c sat)) \<Longrightarrow>
   frames definitions_part (resumeRunLocked env cont r sats)"
  unfolding resumeRunLocked_def resume_found_def continue_run_def reconcile_spec_def Let_def
  by (intro frames_bind frames_read) (auto split: option.splits intro!: frames_rules)

lemma def_resumeRun: "frames definitions_part (resumeRun env fuel r sats)"
  by (induction env fuel r sats rule: resumeRun.induct) (auto intro: frames_rules)

lemma def_start: "frames definitions_part (start env item f runId vars version)"
proof -
  have resume: "frames definitions_part (resume env c sat)" for c sat
    unfolding resume_def by (intro frames_rules def_resumeRun)
  have prepare: "frames definitions_part (prepare_run env item g snap runId vars)" for g snap
    unfolding prepare_run_def Let_def by (intro frames_rules) simp
  have resolved: "frames definitions_part
      (startResolved env (resume env) item name v snap runId vars)" for name v snap
    unfolding startResolved_def Let_def
    by (intro frames_bind frames_rules) (auto intro!: frames_rules prepare resume)
  show ?thesis
    unfolding start_def Let_def by (intro frames_rules resolved) simp
qed

subsection \<open>Firing once\<close>

lemma frames_bindD:
  "frames f m \<Longrightarrow> bindS m k w = (Inr u, w') \<Longrightarrow> \<exists>a w1. f w1 = f w \<and> k a w1 = (Inr u, w')"
  by (auto simp: bindS_def frames_def split: prod.splits sum.splits) (metis snd_conv)

lemma frames_then_update:
  "frames f n \<Longrightarrow> thenS (updateS g) n w = (r, w') \<Longrightarrow> f w' = f (g w)"
  by (auto simp: thenS_def bindS_def updateS_def frames_def split: prod.splits sum.splits) (metis snd_conv)

definition sched_definitions ::
  "sched_world \<Rightarrow> (definition_key \<times> definition_version list) list \<times> (definition_key \<times> definition_lifecycle) list" where
  "sched_definitions w = definitions_part (sw_coord w)"

lemma sched_definitions_simps [simp]:
  "sched_definitions (w\<lparr>sw_coord := c\<rparr>) = definitions_part c"
  "sched_definitions (w\<lparr>sw_events := es\<rparr>) = sched_definitions w"
  "sched_definitions (w\<lparr>sw_firings := fs\<rparr>) = sched_definitions w"
  by (simp_all add: sched_definitions_def)

lemma def_inCoord: "frames definitions_part m \<Longrightarrow> frames sched_definitions (inCoord m)"
  unfolding frames_def inCoord_def sched_definitions_def
  by (auto split: prod.splits) (metis snd_conv)

lemma def_announce: "frames sched_definitions (announce env r p)"
  unfolding announce_def by (intro frames_bind frames_update def_inCoord def_outside) simp

lemma firings_announce: "frames sw_firings (announce env r p)"
  unfolding announce_def by (intro frames_rules) simp_all

text \<open>Nothing of the schedule \<open>name\<close> is due at \<open>t\<close>.\<close>

definition quiet :: "sched_env \<Rightarrow> time \<Rightarrow> string \<Rightarrow> sched_world \<Rightarrow> bool" where
  "quiet env t name w \<longleftrightarrow>
     (\<forall>v spec. get_definition DkSchedule name None (w_definitions (sw_coord w)) = Some v \<longrightarrow>
        sd_enabled (se_schedule env (dv_document v)) \<longrightarrow>
        parseScheduleSpec (sd_cron (se_schedule env (dv_document v))) = Inr spec \<longrightarrow>
        latestDueAtOrBefore spec
          (case lastFiring name (sw_firings w) of None \<Rightarrow> dv_createdAt v | Some f \<Rightarrow> sf_dueAt f) t = Inr None)"

lemma quiet_check:
  assumes "quiet env t (ds_name s) w"
  shows "check_schedule env t s w = (Inr False, w)"
  using assms
  by (auto simp: check_schedule_def quiet_def bindS_def readS_def returnS_def liftS_def Let_def
      split: option.splits sum.splits)

lemma quiet_pass:
  "\<forall>s \<in> set ss. ds_lifecycle s = LcEnabled \<longrightarrow> quiet env t (ds_name s) w \<Longrightarrow> fire_all_due env t ss w = (Inr 0, w)"
proof (induction ss)
  case (Cons s ss)
  have "check_schedule env t s w = (Inr False, w)"
  proof (cases "ds_lifecycle s = LcEnabled")
    case True
    with Cons.prems show ?thesis by (intro quiet_check) simp
  qed (simp add: check_schedule_def returnS_def)
  with Cons show ?case by (simp add: bindS_def returnS_def)
qed (simp add: returnS_def)

lemma definitions_read:
  assumes "sched_definitions w' = sched_definitions w"
  shows "get_definition k n v (w_definitions (sw_coord w')) = get_definition k n v (w_definitions (sw_coord w))"
    and "list_definitions k (w_definitions (sw_coord w')) = list_definitions k (w_definitions (sw_coord w))"
proof -
  let ?d = "w_definitions (sw_coord w)" and ?d' = "w_definitions (sw_coord w')"
  from assms have parts: "st_versions ?d' = st_versions ?d" "st_lifecycles ?d' = st_lifecycles ?d"
    by (simp_all add: sched_definitions_def definitions_part_def)
  then have life: "getLifecycle k n ?d' = getLifecycle k n ?d" for n
    by (simp add: getLifecycle_def)
  from parts show "get_definition k n v ?d' = get_definition k n v ?d"
    by (simp add: get_definition_def versions_of_def)
  have "status_of k ?d' = status_of k ?d"
    using parts life by (intro ext) (simp add: status_of_def versions_of_def getLifecycle_def)
  with parts show "list_definitions k ?d' = list_definitions k ?d"
    by (simp add: list_definitions_def)
qed

lemma quiet_same:
  "sched_definitions w' = sched_definitions w \<Longrightarrow>
   lastFiring name (sw_firings w') = lastFiring name (sw_firings w) \<Longrightarrow>
   quiet env t name w \<Longrightarrow> quiet env t name w'"
  by (simp add: quiet_def definitions_read [of w' w])

text \<open>The contract of the port that starts runs: it saves no definitions.\<close>

locale run_starter =
  fixes start_run :: "work_item \<Rightarrow> string \<Rightarrow> string \<Rightarrow> fields \<Rightarrow> run coord_op"
  assumes keeps_definitions: "frames definitions_part (start_run item f runId vars)"
begin

lemma fired:
  assumes "se_start env = start_run" and "fire_schedule env t name sd d w = (Inr u, w')"
  shows "sched_definitions w' = sched_definitions w \<and>
    (\<exists>i. sw_firings w' = recordFiring
       \<lparr>sf_scheduleName = name, sf_dueAt = d, sf_firedAt = Some t, sf_runId = Some i\<rparr> (sw_firings w))"
proof -
  note start = keeps_definitions [folded assms(1)]
  have defs: "frames sched_definitions (fire_schedule env t name sd d)"
    unfolding fire_schedule_def Let_def
    by (intro frames_bind frames_then frames_catch frames_update frames_return def_inCoord def_announce
        def_outside start) simp
  have rest: "frames sw_firings (thenS (announce env (Some runId) p) (catchS
      (thenS (inCoord (se_start env item f runId vars)) (returnS ())) (\<lambda>e. announce env (Some runId) (q e))))"
    for runId p item f vars q
    by (intro frames_then frames_catch frames_return firings_announce inCoord_frames) simp
  have firings: "\<exists>i. sw_firings w' = recordFiring
       \<lparr>sf_scheduleName = name, sf_dueAt = d, sf_firedAt = Some t, sf_runId = Some i\<rparr> (sw_firings w)"
  proof -
    have ids: "frames sw_firings (inCoord (next_id (se_coord env) p))" for p
      by (intro inCoord_frames) simp
    from frames_bindD [OF ids assms(2) [unfolded fire_schedule_def Let_def]] obtain i w1
      where "sw_firings w1 = sw_firings w"
        and "thenS (updateS (\<lambda>w. w\<lparr>sw_firings := recordFiring \<lparr>sf_scheduleName = name, sf_dueAt = d,
               sf_firedAt = Some t, sf_runId = Some i\<rparr> (sw_firings w)\<rparr>))
             (thenS (announce env (Some i) (SvDiscovered (wi_id (syntheticScheduleItem env sd d))
               (wi_provider (syntheticScheduleItem env sd d))))
             (catchS (thenS (inCoord (se_start env (syntheticScheduleItem env sd d) (sd_workflow sd) i
                 (case sd_payload sd of None \<Rightarrow> [] | Some p \<Rightarrow> p))) (returnS ()))
               (\<lambda>e. announce env (Some i) (SvError ''schedule'' (error_message e))))) w1 = (Inr u, w')"
      by blast
    with frames_then_update [OF rest] show ?thesis by fastforce
  qed
  from framesD [OF defs assms(2)] firings show ?thesis by simp
qed

lemma check_settled:
  assumes "se_start env = start_run" and "check_schedule env t s w = (Inr b, w')"
  shows "sched_definitions w' = sched_definitions w \<and>
    (\<forall>name. name \<noteq> ds_name s \<longrightarrow> lastFiring name (sw_firings w') = lastFiring name (sw_firings w)) \<and>
    (ds_lifecycle s = LcEnabled \<longrightarrow> quiet env t (ds_name s) w') \<and>
    (w' = w \<or> ds_lifecycle s = LcEnabled)"
proof (cases "quiet env t (ds_name s) w \<or> ds_lifecycle s \<noteq> LcEnabled")
  case True
  then have "w' = w"
    using assms(2) quiet_check [of env t s w] by (auto simp: check_schedule_def returnS_def)
  with True show ?thesis by auto
next
  case False
  let ?base = "\<lambda>v. case lastFiring (ds_name s) (sw_firings w) of None \<Rightarrow> dv_createdAt v | Some f \<Rightarrow> sf_dueAt f"
  from False obtain v spec where found: "get_definition DkSchedule (ds_name s) None (w_definitions (sw_coord w)) = Some v"
    and enabled: "sd_enabled (se_schedule env (dv_document v))"
    and spec: "parseScheduleSpec (sd_cron (se_schedule env (dv_document v))) = Inr spec"
    and due: "latestDueAtOrBefore spec (?base v) t \<noteq> Inr None"
    unfolding quiet_def by blast
  let ?fire = "fire_schedule env t (ds_name s) (se_schedule env (dv_document v))"
  have "\<exists>d. latestDueAtOrBefore spec (?base v) t = Inr (Some d) \<and> ?fire d w = (Inr (), w')"
  proof (cases "latestDueAtOrBefore spec (?base v) t")
    case (Inl e)
    with assms(2) False found enabled spec show ?thesis
      by (simp add: check_schedule_def bindS_def readS_def liftS_def Let_def)
  next
    case (Inr x)
    with due obtain d where "x = Some d" by (cases x) simp_all
    with Inr assms(2) False found enabled spec show ?thesis
      by (auto simp: check_schedule_def bindS_def thenS_def readS_def returnS_def liftS_def Let_def
          split: sum.splits prod.splits)
  qed
  then obtain d where d: "latestDueAtOrBefore spec (?base v) t = Inr (Some d)" and w': "?fire d w = (Inr (), w')"
    by blast
  from fired [OF assms(1) w'] obtain i where same: "sched_definitions w' = sched_definitions w"
    and rows: "sw_firings w' = recordFiring \<lparr>sf_scheduleName = ds_name s, sf_dueAt = d,
      sf_firedAt = Some t, sf_runId = Some i\<rparr> (sw_firings w)" by blast
  from latest_due_again [OF d parsed_positive [OF spec]]
  have later: "?base v < d" and again: "latestDueAtOrBefore spec d t = Inr None" by simp_all
  have "\<exists>f. lastFiring (ds_name s) (sw_firings w') = Some f \<and> sf_dueAt f = d"
    unfolding rows by (rule lastFiring_record) (use later in simp)
  then have "quiet env t (ds_name s) w'"
    using again found spec by (auto simp: quiet_def definitions_read [OF same])
  with same rows False show ?thesis by (simp add: lastFiring_other)
qed

lemma pass_settled:
  assumes "se_start env = start_run" and "fire_all_due env t ss w = (Inr k, w')"
    and "\<forall>s \<in> set finished. ds_lifecycle s = LcEnabled \<longrightarrow> quiet env t (ds_name s) w"
  shows "sched_definitions w' = sched_definitions w \<and>
    (\<forall>s \<in> set finished \<union> set ss. ds_lifecycle s = LcEnabled \<longrightarrow> quiet env t (ds_name s) w')"
  using assms(2,3)
proof (induction ss arbitrary: finished w k)
  case Nil
  then show ?case by (simp add: returnS_def)
next
  case (Cons s ss)
  from Cons.prems(1) obtain b w1 k' where c: "check_schedule env t s w = (Inr b, w1)"
    and r: "fire_all_due env t ss w1 = (Inr k', w')"
    by (auto simp: bindS_def returnS_def split: prod.splits sum.splits)
  note settled = check_settled [OF assms(1) c]
  have "quiet env t (ds_name x) w1" if "x \<in> set (s # finished)" "ds_lifecycle x = LcEnabled" for x
  proof (cases "w1 = w \<or> ds_name x \<noteq> ds_name s")
    case True
    then show ?thesis using that settled Cons.prems(2) quiet_same [of w1 w "ds_name x" env t] by auto
  next
    case False
    with settled show ?thesis by metis
  qed
  with Cons.IH [OF r, of "s # finished"] settled show ?case by simp
qed

lemma second_pass:
  assumes "se_start env = start_run" and "fireDueSchedules env t w = (Inr k, w')"
  shows "fireDueSchedules env t w' = (Inr 0, w')"
proof -
  let ?ss = "list_definitions DkSchedule (w_definitions (sw_coord w))"
  from assms(2) have "fire_all_due env t ?ss w = (Inr k, w')"
    by (simp add: fireDueSchedules_def bindS_def readS_def)
  from pass_settled [OF assms(1) this, of "[]"]
  have same: "sched_definitions w' = sched_definitions w"
    and quiet: "\<forall>s \<in> set ?ss. ds_lifecycle s = LcEnabled \<longrightarrow> quiet env t (ds_name s) w'" by auto
  from quiet_pass [OF quiet] show ?thesis
    by (simp add: fireDueSchedules_def bindS_def readS_def definitions_read [OF same])
qed

end

interpretation coordinator_starter: run_starter "\<lambda>item f runId vars. start cenv item f runId vars None"
  for cenv
  by unfold_locales (rule def_start)

text \<open>
  C19. A schedule fires once per slot: after a pass over the schedules that completes, whatever
  became of the runs it started, another pass at the same time fires nothing and changes nothing.
\<close>

theorem schedules_fire_once:
  assumes "fireDueSchedules env t w = (Inr k, w')"
    and "se_start env = (\<lambda>item f runId vars. start (se_coord env) item f runId vars None)"
  shows "fireDueSchedules env t w' = (Inr 0, w')"
  by (rule coordinator_starter.second_pass [OF assms(2,1)])

definition schedule_world :: coord_world where
  "schedule_world = empty_world\<lparr>w_definitions :=
     \<lparr>st_versions = [((DkSchedule, ''minutely''), [\<lparr>dv_kind = DkSchedule, dv_name = ''minutely'',
        dv_version = 1, dv_contentHash = [], dv_document = [], dv_createdAt = 0\<rparr>])],
      st_lifecycles = [((DkSchedule, ''minutely''), LcEnabled)], st_snapshots = []\<rparr>\<rparr>"

definition coordinated_env :: sched_env where
  "coordinated_env = sample_env (\<lambda>item f runId vars. start ask_env item f runId vars None)"

abbreviation minutely_version :: definition_version where
  "minutely_version \<equiv> \<lparr>dv_kind = DkSchedule, dv_name = ''minutely'', dv_version = 1, dv_contentHash = [],
     dv_document = [], dv_createdAt = 0\<rparr>"

lemma schedule_world_reads:
  "list_definitions DkSchedule (w_definitions schedule_world) =
     [\<lparr>ds_kind = DkSchedule, ds_name = ''minutely'', ds_lifecycle = LcEnabled, ds_latestVersion = 1\<rparr>]"
  "get_definition DkSchedule ''minutely'' None (w_definitions schedule_world) = Some minutely_version"
  by code_simp+

definition succeeds :: "'a sched_op \<Rightarrow> bool" where
  "succeeds m \<longleftrightarrow> (\<forall>w. \<not> isl (fst (m w)))"

lemma succeedsD: "succeeds m \<Longrightarrow> \<exists>w'. m w = (Inr (), w')"
  unfolding succeeds_def by (cases "m w"; cases "fst (m w)") (auto dest: spec [where x = w])

lemma succeeds_rules:
  "(\<And>a. succeeds (k a)) \<Longrightarrow> succeeds m \<Longrightarrow> succeeds (bindS m k)"
  "succeeds m \<Longrightarrow> succeeds n \<Longrightarrow> succeeds (thenS m n)"
  "(\<And>e. succeeds (h e)) \<Longrightarrow> succeeds (catchS m' h)"
  "succeeds (updateS g)"
  by (auto simp: succeeds_def bindS_def thenS_def catchS_def updateS_def split: prod.splits sum.splits)
    (metis fst_conv sum.disc(1))+

lemma succeeds_inCoord: "succeeds (inCoord (next_id e p))" "succeeds (inCoord (now e))"
  by (simp_all add: succeeds_def inCoord_def next_id_def now_def ask_def)

lemma announce_succeeds: "succeeds (announce env r p)"
  unfolding announce_def by (intro succeeds_rules succeeds_inCoord)

text \<open>A run that fails to start does not fail the pass over the schedules.\<close>

lemma fire_schedule_succeeds: "succeeds (fire_schedule env t name sd d)"
  unfolding fire_schedule_def Let_def
  by (intro succeeds_rules succeeds_inCoord announce_succeeds)

theorem schedules_fire_once_witness:
  "\<exists>w'. fireDueSchedules coordinated_env 150000 (idle_sched schedule_world) = (Inr 1, w') \<and>
     fireDueSchedules coordinated_env 150000 w' = (Inr 0, w')"
proof -
  let ?w = "idle_sched schedule_world"
  obtain w' where fire: "fire_schedule coordinated_env 150000 ''minutely'' minutely 120000 ?w = (Inr (), w')"
    using succeedsD [OF fire_schedule_succeeds] by blast
  have parsed: "parseScheduleSpec ''every 1m'' = Inr (Interval 60000)" by code_simp
  have env: "se_schedule coordinated_env f = minutely" "sd_cron minutely = ''every 1m''"
    "sd_enabled minutely" "sw_firings ?w = []" "sw_coord ?w = schedule_world" for f
    by (simp_all add: coordinated_env_def sample_env_def minutely_def idle_sched_def)
  have "fireDueSchedules coordinated_env 150000 ?w = (Inr 1, w')"
    by (simp add: fireDueSchedules_def bindS_def thenS_def readS_def returnS_def liftS_def schedule_world_reads
        check_schedule_def env parsed latestDueAtOrBefore_def lastFiring_def Let_def fire)
  with schedules_fire_once [OF this] show ?thesis
    by (simp add: coordinated_env_def sample_env_def)
qed

end
