(* ===== verification/Expressions.thy ===== *)
theory Expressions
  imports ScopeExpr
begin

section \<open>The expressions of declarative workflows\<close>

text \<open>
  \<open>packages/workflow/src/expressions.ts\<close>: the language of \<open>when\<close> conditions and of
  \<open>${{ ... }}\<close> placeholders, and the two ways placeholders are replaced. The parser's methods
  take fuel, of which \<open>parseExpression\<close> supplies enough. The decimal text of a number,
  \<open>String(n)\<close>, is a parameter.
\<close>

subsection \<open>Step results\<close>

datatype step_status = StPending | StRunning | StSucceeded | StFailed | StSkipped

record step_result =
  sr_stepId :: string
  sr_status :: step_status
  sr_outputs :: fields
  sr_error :: "string option"
  sr_startedAt :: "time option"
  sr_finishedAt :: "time option"

definition step_status_text :: "step_status \<Rightarrow> string" where
  "step_status_text st = (case st of
     StPending \<Rightarrow> ''pending'' | StRunning \<Rightarrow> ''running'' | StSucceeded \<Rightarrow> ''succeeded''
   | StFailed \<Rightarrow> ''failed'' | StSkipped \<Rightarrow> ''skipped'')"

subsection \<open>Syntax trees\<close>

text \<open>\<open>LitNum None\<close> is the \<open>NaN\<close> that \<open>Number('1.2.3')\<close> answers.\<close>

datatype literal = LitStr string | LitNum "rat option" | LitBool bool

datatype step_field = FSucceeded | FFailed | FSkipped | FStatus

datatype v1_expr =
  XLit literal | XVar string | XStepField string step_field | XStepOutput string string
| XNot v1_expr | XBin binop v1_expr v1_expr

datatype v1_error =
  UnterminatedLiteral nat | UnexpectedCharacter char nat | BadVarReference string nat
| BadStepReference string nat | UnknownReference string nat | ExpectedParen nat
| UnexpectedInput string nat | TrailingInput nat
| UnknownVariable string | UnknownStep string

subsection \<open>Tokens\<close>

datatype v1_token =
  VString string | VNumber string | VIdent string | VOp binop | VNot | VLParen | VRParen | VEof

definition name_char :: "char \<Rightarrow> bool" where
  "name_char c \<longleftrightarrow> is_letter c \<or> is_digit c \<or> c = CHR ''_'' \<or> c = CHR ''.''"

definition number_char :: "char \<Rightarrow> bool" where
  "number_char c \<longleftrightarrow> is_digit c \<or> c = CHR ''.''"

definition is_blank :: "char \<Rightarrow> bool" where
  "is_blank c \<longleftrightarrow> c = CHR '' '' \<or> c = CHR 0x09 \<or> c = CHR 0x0A \<or> c = CHR 0x0D"

type_synonym placed = "v1_token \<times> nat"

function (sequential) scan_v1 :: "nat \<Rightarrow> string \<Rightarrow> v1_error + placed list" where
  "scan_v1 i [] = Inr [(VEof, i)]"
| "scan_v1 i (c # cs) =
     (if is_blank c then scan_v1 (i + 1) cs
      else if c = CHR ''('' then bindE (scan_v1 (i + 1) cs) (\<lambda>ts. Inr ((VLParen, i) # ts))
      else if c = CHR '')'' then bindE (scan_v1 (i + 1) cs) (\<lambda>ts. Inr ((VRParen, i) # ts))
      else if c = CHR 0x27 then
        (case index_of (CHR 0x27) cs of
           None \<Rightarrow> Inl (UnterminatedLiteral i)
         | Some k \<Rightarrow> bindE (scan_v1 (i + k + 2) (drop (Suc k) cs))
                      (\<lambda>ts. Inr ((VString (take k cs), i) # ts)))
      else case two_char_op c cs of
        Some op \<Rightarrow> bindE (scan_v1 (i + 2) (tl cs)) (\<lambda>ts. Inr ((VOp op, i) # ts))
      | None \<Rightarrow>
          if c = CHR ''!'' then bindE (scan_v1 (i + 1) cs) (\<lambda>ts. Inr ((VNot, i) # ts))
          else if is_digit c then
            (let value = c # takeWhile number_char cs in
             bindE (scan_v1 (i + length value) (dropWhile number_char cs))
               (\<lambda>ts. Inr ((VNumber value, i) # ts)))
          else if ident_start c then
            (let value = c # takeWhile name_char cs in
             bindE (scan_v1 (i + length value) (dropWhile name_char cs))
               (\<lambda>ts. Inr ((VIdent value, i) # ts)))
          else Inl (UnexpectedCharacter c i))"
  by pat_completeness auto
termination
  by (relation "measure (\<lambda>(i, s). length s)")
    (auto simp: le_imp_less_Suc dropWhile_length_le dest: index_of_less)

declare scan_v1.simps(2) [simp del]

subsection \<open>The parser\<close>

definition step_field_of :: "string \<Rightarrow> step_field option" where
  "step_field_of s =
     (if s = ''succeeded'' then Some FSucceeded else if s = ''failed'' then Some FFailed
      else if s = ''skipped'' then Some FSkipped else if s = ''status'' then Some FStatus else None)"

definition parseReference :: "string \<Rightarrow> nat \<Rightarrow> v1_error + v1_expr" where
  "parseReference path pos =
     (case split_on CHR ''.'' path of
        [] \<Rightarrow> Inl (UnknownReference path pos)
      | base # rest \<Rightarrow>
          if base = ''vars'' then
            (case rest of
               [name] \<Rightarrow> if name = [] then Inl (BadVarReference path pos) else Inr (XVar name)
             | _ \<Rightarrow> Inl (BadVarReference path pos))
          else if base = ''steps'' then
            (case rest of
               [i, f] \<Rightarrow>
                 (case step_field_of f of
                    Some sf \<Rightarrow> if i = [] then Inl (BadStepReference path pos) else Inr (XStepField i sf)
                  | None \<Rightarrow> Inl (BadStepReference path pos))
             | [i, f, k] \<Rightarrow>
                 if i \<noteq> [] \<and> f = ''outputs'' \<and> k \<noteq> [] then Inr (XStepOutput i k)
                 else Inl (BadStepReference path pos)
             | _ \<Rightarrow> Inl (BadStepReference path pos))
          else Inl (UnknownReference path pos))"

text \<open>\<open>Number(s)\<close> for a run of digits and dots that starts with a digit.\<close>

definition number_value :: "string \<Rightarrow> rat option" where
  "number_value s =
     (case split_on CHR ''.'' s of
        [a] \<Rightarrow> Some (of_nat (digits_value 0 a))
      | [a, b] \<Rightarrow> Some (of_nat (digits_value 0 (a @ b)) / of_nat (10 ^ length b))
      | _ \<Rightarrow> None)"

fun token_value :: "v1_token \<Rightarrow> string" where
  "token_value (VString s) = (if s = [] then ''string'' else s)"
| "token_value (VNumber s) = s"
| "token_value (VIdent s) = s"
| "token_value (VOp OpEq) = ''==''"
| "token_value (VOp OpNe) = ''!=''"
| "token_value (VOp OpAnd) = ''&&''"
| "token_value (VOp OpOr) = ''||''"
| "token_value VNot = ''!''"
| "token_value VLParen = ''(''"
| "token_value VRParen = '')''"
| "token_value VEof = ''eof''"

fun leaf_v1 :: "placed \<Rightarrow> v1_error + v1_expr" where
  "leaf_v1 (VString s, pos) = Inr (XLit (LitStr s))"
| "leaf_v1 (VNumber s, pos) = Inr (XLit (LitNum (number_value s)))"
| "leaf_v1 (VIdent s, pos) =
     (if s = ''true'' then Inr (XLit (LitBool True))
      else if s = ''false'' then Inr (XLit (LitBool False))
      else parseReference s pos)"
| "leaf_v1 (t, pos) = Inl (UnexpectedInput (token_value t) pos)"

type_synonym 'a v1_parsed = "(v1_error + 'a \<times> placed list) option"

definition vbind :: "'a v1_parsed \<Rightarrow> ('a \<Rightarrow> placed list \<Rightarrow> 'b v1_parsed) \<Rightarrow> 'b v1_parsed" where
  "vbind p f = (case p of
     None \<Rightarrow> None
   | Some (Inl e) \<Rightarrow> Some (Inl e)
   | Some (Inr (a, rest)) \<Rightarrow> f a rest)"

text \<open>The token \<open>peek()\<close> answers; the list ends with \<open>VEof\<close>, which no method consumes.\<close>

definition peek_v1 :: "placed list \<Rightarrow> v1_token" where
  "peek_v1 ts = (case ts of [] \<Rightarrow> VEof | t # _ \<Rightarrow> fst t)"

definition peek_pos :: "placed list \<Rightarrow> nat" where
  "peek_pos ts = (case ts of [] \<Rightarrow> 0 | t # _ \<Rightarrow> snd t)"

datatype v1_level =
  VOr | VOrLoop v1_expr | VAnd | VAndLoop v1_expr | VEquality | VEqualityLoop v1_expr
| VUnary | VPrimary

fun parse_v1 :: "nat \<Rightarrow> v1_level \<Rightarrow> placed list \<Rightarrow> v1_expr v1_parsed" where
  "parse_v1 0 l ts = None"
| "parse_v1 (Suc n) VOr ts = vbind (parse_v1 n VAnd ts) (\<lambda>left. parse_v1 n (VOrLoop left))"
| "parse_v1 (Suc n) (VOrLoop left) ts =
     (if peek_v1 ts = VOp OpOr
      then vbind (parse_v1 n VAnd (tl ts)) (\<lambda>right. parse_v1 n (VOrLoop (XBin OpOr left right)))
      else Some (Inr (left, ts)))"
| "parse_v1 (Suc n) VAnd ts = vbind (parse_v1 n VEquality ts) (\<lambda>left. parse_v1 n (VAndLoop left))"
| "parse_v1 (Suc n) (VAndLoop left) ts =
     (if peek_v1 ts = VOp OpAnd
      then vbind (parse_v1 n VEquality (tl ts)) (\<lambda>right. parse_v1 n (VAndLoop (XBin OpAnd left right)))
      else Some (Inr (left, ts)))"
| "parse_v1 (Suc n) VEquality ts =
     vbind (parse_v1 n VUnary ts) (\<lambda>left. parse_v1 n (VEqualityLoop left))"
| "parse_v1 (Suc n) (VEqualityLoop left) ts =
     (case peek_v1 ts of
        VOp op \<Rightarrow>
          if op = OpEq \<or> op = OpNe
          then vbind (parse_v1 n VUnary (tl ts)) (\<lambda>right. parse_v1 n (VEqualityLoop (XBin op left right)))
          else Some (Inr (left, ts))
      | _ \<Rightarrow> Some (Inr (left, ts)))"
| "parse_v1 (Suc n) VUnary ts =
     (if peek_v1 ts = VNot
      then vbind (parse_v1 n VUnary (tl ts)) (\<lambda>operand rest. Some (Inr (XNot operand, rest)))
      else parse_v1 n VPrimary ts)"
| "parse_v1 (Suc n) VPrimary ts =
     (case ts of
        [] \<Rightarrow> Some (Inl (UnexpectedInput ''eof'' 0))
      | t # rest \<Rightarrow>
          if fst t = VLParen then
            vbind (parse_v1 n VOr rest) (\<lambda>inner rest'.
              if peek_v1 rest' \<noteq> VRParen then Some (Inl (ExpectedParen (peek_pos rest')))
              else Some (Inr (inner, tl rest')))
          else (case leaf_v1 t of
                  Inl e \<Rightarrow> Some (Inl e)
                | Inr leaf \<Rightarrow> Some (Inr (leaf, rest))))"

definition parse_placed :: "placed list \<Rightarrow> (v1_error + v1_expr) option" where
  "parse_placed ts =
     map_option (\<lambda>r. bindE r (\<lambda>(e, rest).
         if peek_v1 rest \<noteq> VEof then Inl (TrailingInput (peek_pos rest)) else Inr e))
       (parse_v1 (6 * length ts + 5) VOr ts)"

text \<open>The fuel is enough: a method that returns has consumed a token, a loop none at least.\<close>

definition advances :: "nat \<Rightarrow> v1_expr v1_parsed \<Rightarrow> bool" where
  "advances k p \<longleftrightarrow> (\<exists>x. p = Some x \<and> (\<forall>e rest. x = Inr (e, rest) \<longrightarrow> length rest < k))"

lemma advances_simps [simp]:
  "advances k (Some (Inl e))" "advances k (Some (Inr (a, rest))) \<longleftrightarrow> length rest < k"
  by (auto simp: advances_def)

lemma advances_vbind:
  assumes "advances k p" and "\<And>e rest. length rest < k \<Longrightarrow> advances k' (f e rest)"
  shows "advances k' (vbind p f)"
  using assms by (auto simp: advances_def vbind_def split: sum.splits prod.splits)

lemma advances_mono: "advances k p \<Longrightarrow> k \<le> k' \<Longrightarrow> advances k' p"
  by (fastforce simp: advances_def)

fun v1_fuel :: "v1_level \<Rightarrow> nat" where
  "v1_fuel VOr = 5"
| "v1_fuel VAnd = 4"
| "v1_fuel VEquality = 3"
| "v1_fuel VUnary = 2"
| "v1_fuel _ = 1"

fun v1_loop :: "v1_level \<Rightarrow> bool" where
  "v1_loop (VOrLoop _) = True"
| "v1_loop (VAndLoop _) = True"
| "v1_loop (VEqualityLoop _) = True"
| "v1_loop _ = False"

lemma peek_v1_Cons: "peek_v1 ts \<noteq> VEof \<Longrightarrow> \<exists>t rest. ts = t # rest"
  by (cases ts) (simp_all add: peek_v1_def)

lemma parse_v1_advances:
  "6 * length ts + v1_fuel l \<le> n \<Longrightarrow>
   advances (if v1_loop l then Suc (length ts) else length ts) (parse_v1 n l ts)"
proof (induction n arbitrary: l ts)
  case 0
  then show ?case by (cases l) auto
next
  case (Suc n)
  have go: "advances (length us) (parse_v1 n k us)"
    if "6 * length us + v1_fuel k \<le> n" "\<not> v1_loop k" for k us
    using Suc.IH [OF that(1)] that(2) by simp
  have loop: "advances m (parse_v1 n k us)"
    if "6 * length us + v1_fuel k \<le> n" "v1_loop k" "length us < m" for k us m
    using Suc.IH [OF that(1)] that(2,3) by (auto intro: advances_mono)
  have chain: "advances m (vbind (parse_v1 n k us) (\<lambda>e. parse_v1 n (q e)))"
    if "6 * length us + v1_fuel k \<le> n" "\<not> v1_loop k" "\<And>e. v1_loop (q e)"
      "\<And>e. v1_fuel (q e) = 1" "length us \<le> m" "length us < Suc n" for k us q m
  proof (rule advances_vbind [OF go [OF that(1,2)]])
    fix e and rest :: "placed list"
    assume "length rest < length us"
    with that(1,5) show "advances m (parse_v1 n (q e) rest)"
      by (intro loop) (auto simp: that(3,4))
  qed
  show ?case
  proof (cases l)
    case (VOrLoop left)
    with Suc.prems show ?thesis by (cases ts) (auto simp: peek_v1_def intro!: chain)
  next
    case (VAndLoop left)
    with Suc.prems show ?thesis by (cases ts) (auto simp: peek_v1_def intro!: chain)
  next
    case (VEqualityLoop left)
    with Suc.prems show ?thesis
      by (cases ts) (auto simp: peek_v1_def split: v1_token.splits intro!: chain)
  next
    case VUnary
    with Suc.prems show ?thesis
      using go [of ts VPrimary]
      by (cases ts) (auto simp: peek_v1_def intro!: advances_vbind [OF go])
  next
    case VPrimary
    show ?thesis
    proof (cases ts)
      case (Cons t rest)
      have inner: "advances (Suc (length rest)) (vbind (parse_v1 n VOr rest) (\<lambda>inner rest'.
          if peek_v1 rest' \<noteq> VRParen then Some (Inl (ExpectedParen (peek_pos rest')))
          else Some (Inr (inner, tl rest'))))"
        using Suc.prems Cons VPrimary
        by (intro advances_vbind [OF go [of rest VOr]]) auto
      with Suc.prems VPrimary Cons show ?thesis
        by (auto split: sum.splits)
    qed (simp add: VPrimary)
  qed (use Suc.prems in \<open>auto intro!: chain\<close>)
qed

lemma parse_placed_total: "\<exists>r. parse_placed ts = Some r"
  using parse_v1_advances [of ts VOr "6 * length ts + 5"] by (auto simp: parse_placed_def advances_def)

definition parseExpression :: "string \<Rightarrow> v1_error + v1_expr" where
  "parseExpression source = bindE (scan_v1 0 source) (\<lambda>ts. the (parse_placed ts))"

subsection \<open>Evaluation\<close>

text \<open>
  \<open>unknown\<close> values of the evaluator: a JavaScript value, or the \<open>NaN\<close> of a malformed number.
\<close>

datatype v1_value = Val jsval | NotANumber

record v1_context =
  ctx_steps :: "step_result record_of"
  ctx_vars :: fields

text \<open>\<open>k in object\<close> and \<open>object[k]\<close>, members of \<open>Object.prototype\<close> included.\<close>

definition in_object :: "fields \<Rightarrow> string \<Rightarrow> bool" where
  "in_object fs k \<longleftrightarrow> map_of fs k \<noteq> None \<or> k \<in> set object_methods \<or>
     k = ''constructor'' \<or> k = ''__proto__''"

definition member :: "fields \<Rightarrow> string \<Rightarrow> jsval" where
  "member fs k =
     (case map_of fs k of
        Some v \<Rightarrow> v
      | None \<Rightarrow>
          if k \<in> set object_methods then JFun (''Object.'' @ k)
          else if k = ''constructor'' then JFun ''Object''
          else if k = ''__proto__'' then JObj (Built 0 ''Object.prototype'') []
          else JUndef)"

fun literal_value :: "literal \<Rightarrow> v1_value" where
  "literal_value (LitStr s) = Val (JStr s)"
| "literal_value (LitNum (Some v)) = Val (JNum v)"
| "literal_value (LitNum None) = NotANumber"
| "literal_value (LitBool b) = Val (JBool b)"

fun v1_boolean :: "v1_value \<Rightarrow> bool" where
  "v1_boolean (Val v) = to_boolean v"
| "v1_boolean NotANumber = False"

fun v1_equal :: "v1_value \<Rightarrow> v1_value \<Rightarrow> bool" where
  "v1_equal (Val v) (Val w) = strict_eq v w"
| "v1_equal _ _ = False"

definition statusFor :: "string \<Rightarrow> v1_context \<Rightarrow> v1_error + step_status" where
  "statusFor stepId ctx =
     (case map_of (ctx_steps ctx) stepId of
        None \<Rightarrow> Inl (UnknownStep stepId)
      | Some r \<Rightarrow> Inr (sr_status r))"

fun field_value :: "step_field \<Rightarrow> step_status \<Rightarrow> jsval" where
  "field_value FStatus st = JStr (step_status_text st)"
| "field_value FSucceeded st = JBool (st = StSucceeded)"
| "field_value FFailed st = JBool (st = StFailed)"
| "field_value FSkipped st = JBool (st = StSkipped)"

fun evaluateExpression :: "v1_expr \<Rightarrow> v1_context \<Rightarrow> v1_error + v1_value" where
  "evaluateExpression (XLit l) ctx = Inr (literal_value l)"
| "evaluateExpression (XVar name) ctx =
     (if in_object (ctx_vars ctx) name then Inr (Val (member (ctx_vars ctx) name))
      else Inl (UnknownVariable name))"
| "evaluateExpression (XStepField stepId f) ctx =
     bindE (statusFor stepId ctx) (\<lambda>st. Inr (Val (field_value f st)))"
| "evaluateExpression (XStepOutput stepId key) ctx =
     (case map_of (ctx_steps ctx) stepId of
        None \<Rightarrow> Inl (UnknownStep stepId)
      | Some r \<Rightarrow> Inr (Val (member (sr_outputs r) key)))"
| "evaluateExpression (XNot e) ctx =
     bindE (evaluateExpression e ctx) (\<lambda>v. Inr (Val (JBool (\<not> v1_boolean v))))"
| "evaluateExpression (XBin op l r) ctx =
     (if op = OpAnd then
        bindE (evaluateExpression l ctx) (\<lambda>v.
          if \<not> v1_boolean v then Inr (Val (JBool False))
          else bindE (evaluateExpression r ctx) (\<lambda>w. Inr (Val (JBool (v1_boolean w)))))
      else if op = OpOr then
        bindE (evaluateExpression l ctx) (\<lambda>v.
          if v1_boolean v then Inr (Val (JBool True))
          else bindE (evaluateExpression r ctx) (\<lambda>w. Inr (Val (JBool (v1_boolean w)))))
      else
        bindE (evaluateExpression l ctx) (\<lambda>v.
          bindE (evaluateExpression r ctx) (\<lambda>w.
            Inr (Val (JBool (if op = OpEq then v1_equal v w else \<not> v1_equal v w))))))"

subsection \<open>Placeholders\<close>

text \<open>\<open>JSON.stringify\<close>: \<open>None\<close> is \<open>undefined\<close>.\<close>

definition hex_digit :: "nat \<Rightarrow> char" where
  "hex_digit d = (if d < 10 then digit_char d else char_of (87 + d))"

definition json_char :: "char \<Rightarrow> string" where
  "json_char c =
     (if c = CHR 0x22 then [CHR 0x5C, CHR 0x22]
      else if c = CHR 0x5C then [CHR 0x5C, CHR 0x5C]
      else if c = CHR 0x08 then [CHR 0x5C, CHR ''b'']
      else if c = CHR 0x0C then [CHR 0x5C, CHR ''f'']
      else if c = CHR 0x0A then [CHR 0x5C, CHR ''n'']
      else if c = CHR 0x0D then [CHR 0x5C, CHR ''r'']
      else if c = CHR 0x09 then [CHR 0x5C, CHR ''t'']
      else if (of_char c :: nat) < 32 then
        CHR 0x5C # ''u00'' @ [hex_digit (of_char c div 16), hex_digit (of_char c mod 16)]
      else [c])"

definition json_string :: "string \<Rightarrow> string" where
  "json_string s = CHR 0x22 # concat (map json_char s) @ [CHR 0x22]"

fun json :: "(rat \<Rightarrow> string) \<Rightarrow> jsval \<Rightarrow> string option" where
  "json number JUndef = None"
| "json number JNull = Some ''null''"
| "json number (JBool b) = Some (if b then ''true'' else ''false'')"
| "json number (JNum n) = Some (number n)"
| "json number (JStr s) = Some (json_string s)"
| "json number (JArr i vs) = Some (''['' @ join_with '',''
     (map (\<lambda>v. case json number v of None \<Rightarrow> ''null'' | Some t \<Rightarrow> t) vs) @ '']'')"
| "json number (JObj i fs) = Some (''{'' @ join_with '',''
     (concat (map (\<lambda>(k, v). case json number v of None \<Rightarrow> [] | Some t \<Rightarrow> [json_string k @ '':'' @ t]) fs)) @ ''}'')"
| "json number (JFun f) = None"

fun stringifyValue :: "(rat \<Rightarrow> string) \<Rightarrow> v1_value \<Rightarrow> string option" where
  "stringifyValue number NotANumber = Some ''null''"
| "stringifyValue number (Val JUndef) = Some []"
| "stringifyValue number (Val JNull) = Some []"
| "stringifyValue number (Val (JStr s)) = Some s"
| "stringifyValue number (Val v) = json number v"

text \<open>
  \<open>/\$\{\{\s*(.*?)\s*\}\}/g\<close>. Behind the opening braces and the blanks that follow them, the
  shortest text without a line break that the closing braces follow, up to blanks: the group
  and what is left of the source.
\<close>

fun close_placeholder :: "string \<Rightarrow> (string \<times> string) option" where
  "close_placeholder [] = None"
| "close_placeholder (c # cs) =
     (let rest = dropWhile is_space (c # cs) in
      if starts_with rest ''}}'' then Some ([], drop 2 rest)
      else if c = CHR 0x0A \<or> c = CHR 0x0D then None
      else map_option (\<lambda>(body, rest). (c # body, rest)) (close_placeholder cs))"

definition placeholder_at :: "string \<Rightarrow> (string \<times> string) option" where
  "placeholder_at s =
     (if starts_with s (CHR ''$'' # ''{{'') then close_placeholder (dropWhile is_space (drop 3 s)) else None)"

lemma close_placeholder_shorter:
  "close_placeholder s = Some (body, rest) \<Longrightarrow> length rest < length s"
proof (induction s arbitrary: body rest)
  case (Cons c cs)
  have "length (drop 2 (dropWhile is_space (c # cs))) < Suc (length cs)"
    using dropWhile_length_le [of is_space "c # cs"] by (simp del: dropWhile.simps)
  with Cons show ?case by (fastforce simp: Let_def split: if_splits)
qed simp

lemma placeholder_at_shorter:
  "placeholder_at s = Some (body, rest) \<Longrightarrow> length rest < length s"
  using close_placeholder_shorter dropWhile_length_le [of is_space "drop 3 s"]
  by (fastforce simp: placeholder_at_def split: if_splits)

text \<open>\<open>template.replace(pattern, f)\<close> with a replacement that threads a state and may throw.\<close>

function (sequential) replace_placeholders ::
  "(string \<Rightarrow> 's \<Rightarrow> 'e + string \<times> 's) \<Rightarrow> string \<Rightarrow> 's \<Rightarrow> 'e + string \<times> 's" where
  "replace_placeholders f [] st = Inr ([], st)"
| "replace_placeholders f (c # cs) st =
     (case placeholder_at (c # cs) of
        Some (body, rest) \<Rightarrow>
          bindE (f body st) (\<lambda>(t, st1).
            bindE (replace_placeholders f rest st1) (\<lambda>(u, st2). Inr (t @ u, st2)))
      | None \<Rightarrow> bindE (replace_placeholders f cs st) (\<lambda>(u, st1). Inr (c # u, st1)))"
  by pat_completeness auto
termination
  by (relation "measure (\<lambda>(f, s, st). length s)") (auto dest: placeholder_at_shorter)

declare replace_placeholders.simps(2) [simp del]

definition placeholder_value :: "(rat \<Rightarrow> string) \<Rightarrow> string \<Rightarrow> v1_context \<Rightarrow> v1_error + string option" where
  "placeholder_value number exprSource ctx =
     bindE (parseExpression exprSource) (\<lambda>e.
     bindE (evaluateExpression e ctx) (\<lambda>v. Inr (stringifyValue number v)))"

text \<open>A replacement that is \<open>undefined\<close> is spliced as the text \<open>undefined\<close>.\<close>

definition interpolate :: "(rat \<Rightarrow> string) \<Rightarrow> string \<Rightarrow> v1_context \<Rightarrow> v1_error + string" where
  "interpolate number template ctx =
     bindE (replace_placeholders
         (\<lambda>body st. bindE (placeholder_value number body ctx)
            (\<lambda>t. Inr (case t of None \<Rightarrow> ''undefined'' | Some t \<Rightarrow> t, st)))
         template ())
       (\<lambda>(t, _). Inr t)"

record shell_interpolation =
  si_command :: string
  si_env :: "string option record_of"

definition shell_variable :: "nat \<Rightarrow> string" where
  "shell_variable k = ''OVERTURE_VAR_'' @ show_nat k"

definition shell_replacement ::
  "(rat \<Rightarrow> string) \<Rightarrow> v1_context \<Rightarrow> string \<Rightarrow> string option record_of \<times> nat \<Rightarrow>
   v1_error + string \<times> (string option record_of \<times> nat)" where
  "shell_replacement number ctx body st =
     (case st of (env, nextIndex) \<Rightarrow>
      bindE (placeholder_value number body ctx) (\<lambda>t.
        Inr (CHR 0x22 # CHR ''$'' # shell_variable nextIndex @ [CHR 0x22],
             AList.update (shell_variable nextIndex) t env, nextIndex + 1)))"

definition interpolateForShell :: "(rat \<Rightarrow> string) \<Rightarrow> string \<Rightarrow> v1_context \<Rightarrow> v1_error + shell_interpolation" where
  "interpolateForShell number template ctx =
     bindE (replace_placeholders (shell_replacement number ctx) template ([], 0))
       (\<lambda>(command, env, _). Inr \<lparr>si_command = command, si_env = env\<rparr>)"

subsection \<open>Values never reach the command text\<close>

lemma not_isl: "\<not> isl x \<Longrightarrow> \<exists>r. x = Inr r"
  by (cases x) auto

lemma replace_related:
  assumes "\<And>body a b t u a' b'. R a b \<Longrightarrow> f body a = Inr (t, a') \<Longrightarrow> g body b = Inr (u, b') \<Longrightarrow> t = u \<and> R a' b'"
  shows "R a b \<Longrightarrow> replace_placeholders f s a = Inr (t, a') \<Longrightarrow> replace_placeholders g s b = Inr (u, b') \<Longrightarrow>
    t = u \<and> R a' b'"
proof (induction s arbitrary: a b t u rule: measure_induct_rule [where f = length])
  case (less s)
  show ?case
  proof (cases s)
    case (Cons c cs)
    show ?thesis
    proof (cases "placeholder_at s")
      case None
      with Cons less.prems obtain t1 u1 where "t = c # t1" "replace_placeholders f cs a = Inr (t1, a')"
        "u = c # u1" "replace_placeholders g cs b = Inr (u1, b')"
        by (auto simp: replace_placeholders.simps(2) err_simps)
      with less.IH [of cs a b t1 u1] less.prems(1) Cons show ?thesis by simp
    next
      case (Some found)
      then obtain body rest where found: "placeholder_at s = Some (body, rest)" by (cases found) auto
      with Cons less.prems obtain t1 t2 a1 u1 u2 b1
        where "f body a = Inr (t1, a1)" "replace_placeholders f rest a1 = Inr (t2, a')" "t = t1 @ t2"
          and "g body b = Inr (u1, b1)" "replace_placeholders g rest b1 = Inr (u2, b')" "u = u1 @ u2"
        by (auto simp: replace_placeholders.simps(2) err_simps)
      with assms [OF less.prems(1)] less.IH [OF placeholder_at_shorter [OF found]] show ?thesis by blast
    qed
  qed (use less.prems in simp)
qed

lemma shell_interpolated:
  assumes "interpolateForShell number template ctx = Inr r"
  shows "\<exists>k. replace_placeholders (shell_replacement number ctx) template ([], 0) =
    Inr (si_command r, si_env r, k)"
proof (cases "replace_placeholders (shell_replacement number ctx) template ([], 0)")
  case (Inr x)
  with assms show ?thesis by (cases x) (auto simp: interpolateForShell_def)
qed (use assms in \<open>simp add: interpolateForShell_def\<close>)

text \<open>
  C25. The text of a shell command never depends on the values of its placeholders: whatever the
  step results and variables are, and however numbers are written, the command a template
  becomes is the same, and its placeholders only name generated variables.
\<close>

theorem shell_command_ignores_values:
  assumes "interpolateForShell number template ctx = Inr r"
    and "interpolateForShell number' template ctx' = Inr r'"
  shows "si_command r = si_command r' \<and> map fst (si_env r) = map fst (si_env r')"
proof -
  let ?R = "\<lambda>a b. map fst (fst a) = map fst (fst b) \<and> snd a = snd (b :: string option record_of \<times> nat)"
  have keys: "map fst (AList.update k v m) = map fst (AList.update k w n)"
    if "map fst m = map fst n" for k :: string and v w :: "string option" and m n
    using that by (induction m n rule: list_induct2') auto
  have "si_command r = si_command r' \<and> ?R (si_env r, k) (si_env r', k')"
    if "replace_placeholders (shell_replacement number ctx) template ([], 0) = Inr (si_command r, si_env r, k)"
      and "replace_placeholders (shell_replacement number' ctx') template ([], 0) = Inr (si_command r', si_env r', k')"
    for k k'
  proof (rule replace_related [where R = ?R, OF _ _ that])
    fix body :: string and a b :: "string option record_of \<times> nat" and t u a' b'
    assume "?R a b" and "shell_replacement number ctx body a = Inr (t, a')"
      and "shell_replacement number' ctx' body b = Inr (u, b')"
    then show "t = u \<and> ?R a' b'"
      by (cases a; cases b) (auto simp: shell_replacement_def err_simps intro: keys)
  qed simp
  with shell_interpolated [OF assms(1)] shell_interpolated [OF assms(2)] show ?thesis by auto
qed

abbreviation title_context :: "string \<Rightarrow> v1_context" where
  "title_context v \<equiv> \<lparr>ctx_steps = [], ctx_vars = [(''title'', JStr v)]\<rparr>"

theorem shell_command_ignores_values_witness:
  "\<exists>r r'. interpolateForShell (\<lambda>_. []) ''echo ${{ vars.title }}'' (title_context ''; rm -rf /'') = Inr r \<and>
     interpolateForShell (\<lambda>_. []) ''echo ${{ vars.title }}'' (title_context ''hello'') = Inr r' \<and>
     si_command r = si_command r' \<and> map fst (si_env r) = map fst (si_env r')"
proof -
  have "\<not> isl (interpolateForShell (\<lambda>_. []) ''echo ${{ vars.title }}'' (title_context ''; rm -rf /''))"
    "\<not> isl (interpolateForShell (\<lambda>_. []) ''echo ${{ vars.title }}'' (title_context ''hello''))"
    by code_simp+
  then obtain r r'
    where "interpolateForShell (\<lambda>_. []) ''echo ${{ vars.title }}'' (title_context ''; rm -rf /'') = Inr r"
      and "interpolateForShell (\<lambda>_. []) ''echo ${{ vars.title }}'' (title_context ''hello'') = Inr r'"
    by (blast dest: not_isl)
  with shell_command_ignores_values show ?thesis by blast
qed

end
