(* ===== verification/WorkflowDefinitions.thy ===== *)
theory WorkflowDefinitions
  imports Graph Expressions
begin

section \<open>Declarative workflow definitions\<close>

text \<open>
  The step-DAG workflows: the types of \<open>packages/core/src/workflow.ts\<close>, the durations of
  \<open>packages/workflow/src/duration.ts\<close>, the checks of \<open>packages/workflow/src/schema.ts\<close> on a
  document of the right shape and the conversion of \<open>packages/workflow/src/parser.ts\<close>. Reading
  YAML and the shape check of the schema library are not modelled: a raw document is a record.
\<close>

subsection \<open>Definitions\<close>

datatype step_config =
  AgentStep string string "string option" "string list option" "rat option"
| CommandStep string "string option" "string record_of option"
| ActionStep string "fields option"
| ApprovalStep string

record workflow_step =
  st_id :: string
  st_config :: step_config
  st_dependsOn :: "string list option"
  st_when :: "string option"
  st_timeoutMs :: "int option"
  st_retry :: "retry_policy option"
  st_continueOnFailure :: "bool option"

record workflow_transitions =
  wt_success :: "string option"
  wt_failure :: "string option"
  wt_blocked :: "string option"

record workflow_definition =
  wd_name :: string
  wd_description :: "string option"
  wd_trigger :: "workflow_trigger option"
  wd_eligibility :: "workflow_eligibility option"
  wd_workspace :: "workspace_config option"
  wd_variables :: "string record_of option"
  wd_steps :: "workflow_step list"
  wd_transitions :: "workflow_transitions option"
  wd_budget :: "string option"

definition deps_of :: "workflow_step \<Rightarrow> string list" where
  "deps_of s = (case st_dependsOn s of None \<Rightarrow> [] | Some ds \<Rightarrow> ds)"

subsection \<open>Durations\<close>

definition duration_unit :: "string \<Rightarrow> int option" where
  "duration_unit u =
     (if u = ''ms'' then Some 1 else if u = ''s'' then Some 1000
      else if u = ''m'' then Some 60000 else if u = ''h'' then Some 3600000 else None)"

text \<open>\<open>/^(\d+)(ms|s|m|h)$/\<close>; \<open>None\<close> when the text does not match.\<close>

definition parseDurationMs :: "string \<Rightarrow> int option" where
  "parseDurationMs value =
     (let digits = takeWhile is_digit value; rest = dropWhile is_digit value in
      if digits = [] then None
      else map_option (\<lambda>u. int (digits_value 0 digits) * u) (duration_unit rest))"

definition isDurationString :: "string \<Rightarrow> bool" where
  "isDurationString value \<longleftrightarrow> parseDurationMs value \<noteq> None"

subsection \<open>Raw documents\<close>

record raw_retry =
  rr_max_attempts :: rat
  rr_backoff :: "string option"

record raw_step =
  raw_id :: string
  raw_agent :: "string option"
  raw_goal :: "string option"
  raw_route :: "string option"
  raw_tool_names :: "string list option"
  raw_max_turns :: "rat option"
  raw_command :: "string option"
  raw_cwd :: "string option"
  raw_env :: "string record_of option"
  raw_action :: "string option"
  raw_with :: "fields option"
  raw_approval :: "string option"
  raw_depends_on :: "string list option"
  raw_when :: "string option"
  raw_timeout :: "string option"
  raw_retry :: "raw_retry option"
  raw_continue_on_failure :: "bool option"

record raw_labels =
  rl_include :: "string list option"
  rl_exclude :: "string list option"

record raw_eligibility =
  re_labels :: "raw_labels option"
  re_types :: "string list option"
  re_assignee :: "string option"

record raw_workflow =
  rw_name :: string
  rw_description :: "string option"
  rw_trigger :: "workflow_trigger option"
  rw_eligibility :: "raw_eligibility option"
  rw_workspace :: "workspace_config option"
  rw_variables :: "string record_of option"
  rw_budget :: "string option"
  rw_steps :: "raw_step list"
  rw_transitions :: "workflow_transitions option"

subsection \<open>Checks on a step\<close>

datatype step_issue =
  EmptyId | BadTimeout | BadMaxTurns | BadMaxAttempts | BadBackoff
| NoStepKind | ManyStepKinds "string list" | GoalRequired | InvalidWhen v1_error

definition is_integer :: "rat \<Rightarrow> bool" where
  "is_integer v \<longleftrightarrow> of_int \<lfloor>v\<rfloor> = v"

definition bad_duration :: "string option \<Rightarrow> bool" where
  "bad_duration d = (case d of None \<Rightarrow> False | Some s \<Rightarrow> \<not> isDurationString s)"

text \<open>The constraints the schema puts on single fields.\<close>

definition field_issues :: "raw_step \<Rightarrow> step_issue list" where
  "field_issues s =
     (if raw_id s = [] then [EmptyId] else []) @
     (case raw_max_turns s of
        Some n \<Rightarrow> if is_integer n \<and> 0 < n then [] else [BadMaxTurns] | None \<Rightarrow> []) @
     (if bad_duration (raw_timeout s) then [BadTimeout] else []) @
     (case raw_retry s of
        None \<Rightarrow> []
      | Some r \<Rightarrow>
          (if is_integer (rr_max_attempts r) \<and> 1 \<le> rr_max_attempts r then [] else [BadMaxAttempts]) @
          (if bad_duration (rr_backoff r) then [BadBackoff] else []))"

definition present_kinds :: "raw_step \<Rightarrow> string list" where
  "present_kinds s =
     (if raw_agent s \<noteq> None then [''agent''] else []) @
     (if raw_command s \<noteq> None then [''command''] else []) @
     (if raw_action s \<noteq> None then [''action''] else []) @
     (if raw_approval s \<noteq> None then [''approval''] else [])"

definition kind_issues :: "raw_step \<Rightarrow> step_issue list" where
  "kind_issues s =
     (let present = present_kinds s in
      (if present = [] then [NoStepKind]
       else if 1 < length present then [ManyStepKinds present] else []) @
      (if raw_agent s \<noteq> None \<and> (raw_goal s = None \<or> raw_goal s = Some []) then [GoalRequired] else []) @
      (case raw_when s of
         None \<Rightarrow> []
       | Some w \<Rightarrow> (case parseExpression w of Inl e \<Rightarrow> [InvalidWhen e] | Inr _ \<Rightarrow> [])))"

definition raw_step_issues :: "raw_step \<Rightarrow> step_issue list" where
  "raw_step_issues s = field_issues s @ kind_issues s"

subsection \<open>Dependency cycles\<close>

definition raw_deps :: "raw_step \<Rightarrow> string list" where
  "raw_deps s = (case raw_depends_on s of None \<Rightarrow> [] | Some ds \<Rightarrow> ds)"

text \<open>
  \<open>visit\<close> of \<open>findCycle\<close>: \<open>stack\<close> holds the steps being visited, \<open>finished\<close> those that are done.
  \<open>Inl (Some c)\<close> is a cycle found, \<open>Inl None\<close> a visit out of fuel, \<open>Inr\<close> the steps done after
  the visit.
\<close>

definition visit_dep ::
  "(string \<Rightarrow> string list \<Rightarrow> string list option + string list) \<Rightarrow> string list \<Rightarrow> string \<Rightarrow>
   string list \<Rightarrow> string list option + string list" where
  "visit_dep visit stack dep finished =
     (if dep \<in> set stack then Inl (Some (dropWhile (\<lambda>x. x \<noteq> dep) stack @ [dep]))
      else if dep \<in> set finished then Inr finished
      else visit dep finished)"

fun visit ::
  "nat \<Rightarrow> string list record_of \<Rightarrow> string list \<Rightarrow> string \<Rightarrow> string list \<Rightarrow> string list option + string list" where
  "visit 0 adj stack i finished = Inl None"
| "visit (Suc n) adj stack i finished =
     bindE (foldE (visit_dep (visit n adj (stack @ [i])) (stack @ [i])) (lookup_list adj i) finished)
       (\<lambda>finished'. Inr (finished' @ [i]))"

definition dep_map :: "raw_step list \<Rightarrow> string list record_of" where
  "dep_map steps =
     (let ids = map raw_id steps in
      fold (\<lambda>s. AList.update (raw_id s) (filter (\<lambda>d. d \<in> set ids) (raw_deps s))) steps [])"

definition visit_all :: "raw_step list \<Rightarrow> string list option + string list" where
  "visit_all steps =
     (let ids = dedup (map raw_id steps) in
      foldE (\<lambda>i finished. if i \<in> set finished then Inr finished
          else visit (length ids) (dep_map steps) [] i finished) ids [])"

definition findCycle :: "raw_step list \<Rightarrow> string list option" where
  "findCycle steps = (case visit_all steps of Inl (Some c) \<Rightarrow> Some c | _ \<Rightarrow> None)"

subsection \<open>The search finds a cycle exactly when there is one\<close>

definition dep_edges :: "string list record_of \<Rightarrow> (string \<times> string) set" where
  "dep_edges adj = {(x, y). y \<in> set (lookup_list adj x)}"

text \<open>Every step that is done comes behind its dependencies.\<close>

definition settled :: "string list record_of \<Rightarrow> string list \<Rightarrow> bool" where
  "settled adj finished \<longleftrightarrow>
     (\<forall>xs x ys. finished = xs @ x # ys \<longrightarrow> set (lookup_list adj x) \<subseteq> set xs)"

lemma settled_Nil [simp]: "settled adj []"
  by (simp add: settled_def)

lemma settled_snoc:
  assumes "settled adj finished" and "set (lookup_list adj x) \<subseteq> set finished"
  shows "settled adj (finished @ [x])"
  using assms unfolding settled_def by (auto simp: append_eq_append_conv2 append_eq_Cons_conv Cons_eq_append_conv)

definition extends :: "string list record_of \<Rightarrow> string list \<Rightarrow> string list \<Rightarrow> bool" where
  "extends adj finished finished' \<longleftrightarrow> set finished \<subseteq> set finished' \<and> (settled adj finished \<longrightarrow> settled adj finished')"

lemma foldE_extends:
  assumes "foldE f deps finished = Inr finished'"
    and "\<And>d a b. d \<in> set deps \<Longrightarrow> f d a = Inr b \<Longrightarrow> extends adj a b \<and> d \<in> set b"
  shows "extends adj finished finished' \<and> set deps \<subseteq> set finished'"
  using assms
proof (induction deps arbitrary: finished)
  case Nil
  then show ?case by (simp add: extends_def)
next
  case (Cons d deps)
  from Cons.prems(1) obtain a where a: "f d finished = Inr a" "foldE f deps a = Inr finished'"
    by (auto simp: err_simps)
  have "extends adj a finished' \<and> set deps \<subseteq> set finished'"
    by (rule Cons.IH [OF a(2) Cons.prems(2)]) simp
  with Cons.prems(2) [OF _ a(1)] show ?case by (auto simp: extends_def)
qed

lemma visit_extends:
  "visit n adj stack i finished = Inr finished' \<Longrightarrow> extends adj finished finished' \<and> i \<in> set finished'"
proof (induction n arbitrary: stack i finished finished')
  case (Suc n)
  from Suc.prems obtain a where a: "foldE (visit_dep (visit n adj (stack @ [i])) (stack @ [i])) (lookup_list adj i) finished = Inr a"
    and f': "finished' = a @ [i]" by (auto simp: err_simps)
  have "extends adj finished a \<and> set (lookup_list adj i) \<subseteq> set a"
    by (rule foldE_extends [OF a])
      (use Suc.IH in \<open>auto simp: visit_dep_def extends_def split: if_splits\<close>)
  then show ?case using settled_snoc by (auto simp: f' extends_def)
qed simp

text \<open>A list of steps each of which depends on the next.\<close>

fun dep_path :: "string list record_of \<Rightarrow> string list \<Rightarrow> bool" where
  "dep_path adj (x # y # ys) = (y \<in> set (lookup_list adj x) \<and> dep_path adj (y # ys))"
| "dep_path adj _ = True"

lemma dep_path_snoc:
  "dep_path adj (xs @ [x]) \<Longrightarrow> y \<in> set (lookup_list adj x) \<Longrightarrow> dep_path adj (xs @ [x, y])"
  by (induction adj xs rule: dep_path.induct) auto

lemma dep_path_dropWhile: "dep_path adj xs \<Longrightarrow> dep_path adj (dropWhile P xs)"
  by (induction adj xs rule: dep_path.induct) auto

definition is_cycle :: "string list record_of \<Rightarrow> string list \<Rightarrow> bool" where
  "is_cycle adj c \<longleftrightarrow> 2 \<le> length c \<and> hd c = last c \<and> dep_path adj c"

lemma foldE_Inl:
  "foldE f xs s = Inl e \<Longrightarrow> \<exists>x \<in> set xs. \<exists>s'. f x s' = Inl e"
  by (induction xs arbitrary: s) (auto simp: err_simps)

lemma visit_cycle:
  "visit n adj stack i finished = Inl (Some c) \<Longrightarrow> dep_path adj (stack @ [i]) \<Longrightarrow> is_cycle adj c"
proof (induction n arbitrary: stack i finished)
  case (Suc n)
  let ?stack = "stack @ [i]"
  from Suc.prems(1) have "foldE (visit_dep (visit n adj ?stack) ?stack) (lookup_list adj i) finished = Inl (Some c)"
    by (simp add: err_simps)
  from foldE_Inl [OF this] obtain d a where d: "d \<in> set (lookup_list adj i)"
    and found: "visit_dep (visit n adj ?stack) ?stack d a = Inl (Some c)" by blast
  have path: "dep_path adj (?stack @ [d])"
    using dep_path_snoc [OF Suc.prems(2) d] by simp
  show ?case
  proof (cases "d \<in> set ?stack")
    case True
    let ?c = "dropWhile (\<lambda>x. x \<noteq> d) ?stack"
    from True have nonempty: "?c \<noteq> []" and hd: "hd ?c = d"
      using hd_dropWhile [of "\<lambda>x. x \<noteq> d" ?stack] by (auto simp: dropWhile_eq_Nil_conv)
    have "dropWhile (\<lambda>x. x \<noteq> d) (?stack @ [d]) = ?c @ [d]"
      using True dropWhile_append1 [of d ?stack "\<lambda>x. x \<noteq> d" "[d]"] by simp
    with dep_path_dropWhile [OF path, of "\<lambda>x. x \<noteq> d"] have "dep_path adj (?c @ [d])" by simp
    moreover have "c = ?c @ [d]" using found True by (auto simp: visit_dep_def)
    moreover have "1 \<le> length ?c" using nonempty by (cases ?c) auto
    ultimately show ?thesis using nonempty hd by (simp add: is_cycle_def hd_append2 del: dropWhile_append)
  next
    case False
    with found have "visit n adj ?stack d a = Inl (Some c)" by (auto simp: visit_dep_def split: if_splits)
    from Suc.IH [OF this path] show ?thesis .
  qed
qed simp

lemma visit_fuel:
  assumes "finite V" and "\<forall>x \<in> V. set (lookup_list adj x) \<subseteq> V"
  shows "card V \<le> n + length stack \<Longrightarrow> distinct stack \<Longrightarrow> set stack \<subseteq> V \<Longrightarrow> i \<in> V \<Longrightarrow> i \<notin> set stack \<Longrightarrow>
    visit n adj stack i finished \<noteq> Inl None"
proof (induction n arbitrary: stack i finished)
  case 0
  then have "card (insert i (set stack)) \<le> card V" using assms(1) by (intro card_mono) auto
  with 0 show ?case by (simp add: distinct_card)
next
  case (Suc n)
  show ?case
  proof
    assume "visit (Suc n) adj stack i finished = Inl None"
    then have "foldE (visit_dep (visit n adj (stack @ [i])) (stack @ [i])) (lookup_list adj i) finished = Inl None"
      by (simp add: err_simps)
    from foldE_Inl [OF this] obtain d a where d: "d \<in> set (lookup_list adj i)"
      and "visit_dep (visit n adj (stack @ [i])) (stack @ [i]) d a = Inl None" by blast
    then have "visit n adj (stack @ [i]) d a = Inl None" "d \<notin> set (stack @ [i])"
      by (auto simp: visit_dep_def split: if_splits)
    moreover have "d \<in> V" using d assms(2) Suc.prems by auto
    ultimately show False using Suc.IH [of "stack @ [i]" d a] Suc.prems by simp
  qed
qed

lemma cycle_trancl:
  assumes "is_cycle adj c" shows "(hd c, hd c) \<in> (dep_edges adj)\<^sup>+"
proof -
  have "xs \<noteq> [] \<Longrightarrow> dep_path adj (x # xs) \<Longrightarrow> (x, last xs) \<in> (dep_edges adj)\<^sup>+" for x xs
  proof (induction xs arbitrary: x)
    case (Cons y ys)
    then have "(x, y) \<in> dep_edges adj" by (simp add: dep_edges_def)
    with Cons show ?case by (cases "ys = []") (auto intro: trancl_into_trancl2)
  qed simp
  from this [of "tl c" "hd c"] assms show ?thesis
    by (cases c) (auto simp: is_cycle_def Suc_le_eq)
qed

lemma takeWhile_shorter: "y \<in> set ys \<Longrightarrow> length (takeWhile (\<lambda>z. z \<noteq> y) ys) < length ys"
  by (induction ys) auto

lemma settled_acyclic:
  assumes "settled adj finished" and "\<forall>x. lookup_list adj x \<noteq> [] \<longrightarrow> x \<in> set finished"
  shows "acyclic (dep_edges adj)"
proof -
  let ?pos = "\<lambda>x. length (takeWhile (\<lambda>y. y \<noteq> x) finished)"
  have "?pos y < ?pos x" if "(x, y) \<in> dep_edges adj" for x y
  proof -
    from that assms(2) have "x \<in> set finished" by (force simp: dep_edges_def)
    then obtain ys zs where f: "finished = ys @ x # zs" "x \<notin> set ys" using split_list_first by metis
    then have pos: "takeWhile (\<lambda>z. z \<noteq> x) finished = ys"
      by (subst f(1), subst takeWhile_append2) (use f(2) in auto)
    from that assms(1) f(1) have y: "y \<in> set ys" unfolding settled_def dep_edges_def by blast
    then have "takeWhile (\<lambda>z. z \<noteq> y) finished = takeWhile (\<lambda>z. z \<noteq> y) ys"
      by (simp add: f(1))
    then show ?thesis
      using y pos takeWhile_shorter by simp
  qed
  note edge = this
  have "?pos y < ?pos x" if "(x, y) \<in> (dep_edges adj)\<^sup>+" for x y
    using that by (induction rule: trancl_induct) (auto intro: less_trans edge)
  then show ?thesis by (auto simp: acyclic_def)
qed

lemma lookup_list_update: "lookup_list (AList.update k v m) x = (if x = k then v else lookup_list m x)"
  by (simp add: lookup_list_def)

lemma lookup_fold_known:
  fixes h :: "raw_step \<Rightarrow> string list"
  assumes "\<And>s. set (h s) \<subseteq> K"
  shows "set (lookup_list m x) \<subseteq> K \<Longrightarrow> set (lookup_list (fold (\<lambda>s. AList.update (raw_id s) (h s)) ss m) x) \<subseteq> K"
proof (induction ss arbitrary: m)
  case (Cons s ss)
  have "set (lookup_list (AList.update (raw_id s) (h s) m) x) \<subseteq> K"
    using assms [of s] Cons.prems by (simp add: lookup_list_update)
  from Cons.IH [OF this] show ?case by simp
qed simp

lemma lookup_dep_map_known: "set (lookup_list (dep_map steps) x) \<subseteq> set (map raw_id steps)"
  unfolding dep_map_def Let_def by (rule lookup_fold_known) auto

lemma lookup_dep_map_step: "lookup_list (dep_map steps) x \<noteq> [] \<Longrightarrow> x \<in> set (map raw_id steps)"
proof -
  have "lookup_list (fold (\<lambda>s. AList.update (raw_id s) (h s)) ss m) x = lookup_list m x"
    if "x \<notin> raw_id ` set ss" for h :: "raw_step \<Rightarrow> string list" and ss m
    using that by (induction ss arbitrary: m) (auto simp: lookup_list_def)
  then show "lookup_list (dep_map steps) x \<noteq> [] \<Longrightarrow> x \<in> set (map raw_id steps)"
    by (force simp: dep_map_def Let_def)
qed

lemma lookup_dep_map:
  assumes "distinct (map raw_id steps)" and "s \<in> set steps"
  shows "lookup_list (dep_map steps) (raw_id s) = filter (\<lambda>d. d \<in> set (map raw_id steps)) (raw_deps s)"
proof -
  have "lookup_list (fold (\<lambda>s. AList.update (raw_id s) (h s)) ss m) (raw_id s) = h s"
    if "distinct (map raw_id ss)" "s \<in> set ss" for h :: "raw_step \<Rightarrow> string list" and ss m
    using that
  proof (induction ss arbitrary: m)
    case (Cons t ss)
    have other: "lookup_list (fold (\<lambda>s. AList.update (raw_id s) (h s)) ss m) x = lookup_list m x"
      if "x \<notin> raw_id ` set ss" for x m
      using that by (induction ss arbitrary: m) (auto simp: lookup_list_def)
    show ?case
    proof (cases "s = t")
      case True
      with Cons.prems other [of "raw_id t"] show ?thesis by (simp add: lookup_list_def)
    qed (use Cons in auto)
  qed simp
  from this [OF assms] show ?thesis by (simp add: dep_map_def Let_def)
qed

lemma visit_all_cases:
  "(\<exists>c. visit_all steps = Inl (Some c) \<and> is_cycle (dep_map steps) c) \<or>
   (\<exists>finished. visit_all steps = Inr finished \<and> acyclic (dep_edges (dep_map steps)))"
proof -
  let ?ids = "dedup (map raw_id steps)" and ?adj = "dep_map steps"
  let ?step = "\<lambda>i finished. if i \<in> set finished then Inr finished else visit (length ?ids) ?adj [] i finished"
  show ?thesis
  proof (cases "visit_all steps")
    case (Inl r)
    then have "foldE ?step ?ids [] = Inl r" by (simp add: visit_all_def Let_def)
    from foldE_Inl [OF this] obtain i a where i: "i \<in> set ?ids" and v: "visit (length ?ids) ?adj [] i a = Inl r"
      by (auto split: if_splits)
    have "r \<noteq> None"
      using visit_fuel [of "set ?ids" ?adj "length ?ids" "[]" i a] i v lookup_dep_map_known
        distinct_card [of ?ids] by auto
    then obtain c where c: "r = Some c" by auto
    with v have "is_cycle ?adj c" by (auto intro: visit_cycle)
    with Inl c show ?thesis by blast
  next
    case (Inr finished)
    then have "foldE ?step ?ids [] = Inr finished" by (simp add: visit_all_def Let_def)
    then have "extends ?adj [] finished \<and> set ?ids \<subseteq> set finished"
      by (rule foldE_extends) (use visit_extends in \<open>auto simp: extends_def split: if_splits\<close>)
    then have "acyclic (dep_edges ?adj)"
      using lookup_dep_map_step by (intro settled_acyclic) (auto simp: extends_def)
    with Inr show ?thesis by blast
  qed
qed

lemma findCycle_correct:
  "(findCycle steps = None \<longleftrightarrow> acyclic (dep_edges (dep_map steps))) \<and>
   (case findCycle steps of None \<Rightarrow> True | Some c \<Rightarrow> is_cycle (dep_map steps) c)"
  using visit_all_cases [of steps] cycle_trancl [of "dep_map steps"]
  by (auto simp: findCycle_def acyclic_def)

text \<open>
  The search for dependency cycles is exact: \<open>findCycle\<close> answers nothing exactly when the
  dependencies among the steps are acyclic, and what it answers otherwise is a cycle, each of
  whose steps depends on the next.
\<close>

theorem findCycle_exact:
  "(findCycle steps = None \<longleftrightarrow> acyclic (dep_edges (dep_map steps))) \<and>
   (case findCycle steps of None \<Rightarrow> True | Some c \<Rightarrow> is_cycle (dep_map steps) c)"
  by (rule findCycle_correct)

subsection \<open>Checks on the document\<close>

datatype workflow_issue =
  EmptyName | EmptyStrategy | NoSteps | StepIssue nat step_issue | DuplicateStepId nat nat string
| UnknownDependency nat nat string | CycleDetected "string list"

fun duplicate_issues :: "nat record_of \<Rightarrow> nat \<Rightarrow> raw_step list \<Rightarrow> workflow_issue list" where
  "duplicate_issues firstSeenAt k [] = []"
| "duplicate_issues firstSeenAt k (s # ss) =
     (case map_of firstSeenAt (raw_id s) of
        Some seenAt \<Rightarrow> DuplicateStepId k seenAt (raw_id s) # duplicate_issues firstSeenAt (Suc k) ss
      | None \<Rightarrow> duplicate_issues (AList.update (raw_id s) k firstSeenAt) (Suc k) ss)"

definition dependency_issues :: "string list \<Rightarrow> nat \<times> raw_step \<Rightarrow> workflow_issue list" where
  "dependency_issues knownIds = (\<lambda>(k, s).
     concat (map (\<lambda>(j, dep). if dep \<in> set knownIds then [] else [UnknownDependency k j dep])
       (enumerate 0 (raw_deps s))))"

definition graph_issues :: "raw_step list \<Rightarrow> workflow_issue list" where
  "graph_issues steps =
     duplicate_issues [] 0 steps @
     concat (map (dependency_issues (map raw_id steps)) (enumerate 0 steps)) @
     (case findCycle steps of None \<Rightarrow> [] | Some c \<Rightarrow> [CycleDetected c])"

definition raw_workflow_issues :: "raw_workflow \<Rightarrow> workflow_issue list" where
  "raw_workflow_issues w =
     (if rw_name w = [] then [EmptyName] else []) @
     (case rw_workspace w of Some c \<Rightarrow> if wc_strategy c = [] then [EmptyStrategy] else [] | None \<Rightarrow> []) @
     (if rw_steps w = [] then [NoSteps] else []) @
     concat (map (\<lambda>(k, s). map (StepIssue k) (raw_step_issues s)) (enumerate 0 (rw_steps w))) @
     graph_issues (rw_steps w)"

subsection \<open>The paths of the issues\<close>

datatype path_segment = PIndex nat | PKey string

fun format_segments :: "string \<Rightarrow> path_segment list \<Rightarrow> string" where
  "format_segments out [] = out"
| "format_segments out (PIndex k # ps) = format_segments (out @ ''['' @ show_nat k @ '']'') ps"
| "format_segments out (PKey k # ps) = format_segments (if out = [] then k else out @ ''.'' @ k) ps"

definition formatPath :: "path_segment list \<Rightarrow> string" where
  "formatPath ps = (let out = format_segments [] ps in if out = [] then ''(root)'' else out)"

fun step_issue_path :: "step_issue \<Rightarrow> path_segment list" where
  "step_issue_path EmptyId = [PKey ''id'']"
| "step_issue_path BadTimeout = [PKey ''timeout'']"
| "step_issue_path BadMaxTurns = [PKey ''max_turns'']"
| "step_issue_path BadMaxAttempts = [PKey ''retry'', PKey ''max_attempts'']"
| "step_issue_path BadBackoff = [PKey ''retry'', PKey ''backoff'']"
| "step_issue_path GoalRequired = [PKey ''goal'']"
| "step_issue_path (InvalidWhen e) = [PKey ''when'']"
| "step_issue_path _ = []"

fun issue_path :: "workflow_issue \<Rightarrow> path_segment list" where
  "issue_path EmptyName = [PKey ''name'']"
| "issue_path EmptyStrategy = [PKey ''workspace'', PKey ''strategy'']"
| "issue_path NoSteps = [PKey ''steps'']"
| "issue_path (StepIssue k i) = [PKey ''steps'', PIndex k] @ step_issue_path i"
| "issue_path (DuplicateStepId k _ _) = [PKey ''steps'', PIndex k, PKey ''id'']"
| "issue_path (UnknownDependency k j _) = [PKey ''steps'', PIndex k, PKey ''depends_on'', PIndex j]"
| "issue_path (CycleDetected _) = [PKey ''steps'']"

subsection \<open>The stable definition\<close>

definition toRetry :: "raw_retry \<Rightarrow> retry_policy" where
  "toRetry r = \<lparr>maxAttempts = rr_max_attempts r, backoffMs = Option.bind (rr_backoff r) parseDurationMs\<rparr>"

definition toEligibility :: "raw_eligibility \<Rightarrow> workflow_eligibility" where
  "toEligibility r = \<lparr>labelsInclude = Option.bind (re_labels r) rl_include,
     labelsExclude = Option.bind (re_labels r) rl_exclude, elig_types = re_types r,
     elig_assignee = re_assignee r\<rparr>"

text \<open>A text the checks have found present, \<open>step.goal as string\<close>.\<close>

definition present_text :: "string option \<Rightarrow> string" where
  "present_text t = (case t of None \<Rightarrow> [] | Some s \<Rightarrow> s)"

definition toStepConfig :: "raw_step \<Rightarrow> step_config" where
  "toStepConfig s =
     (case raw_agent s of
        Some agent \<Rightarrow> AgentStep agent (present_text (raw_goal s)) (raw_route s) (raw_tool_names s) (raw_max_turns s)
      | None \<Rightarrow>
     (case raw_command s of
        Some command \<Rightarrow> CommandStep command (raw_cwd s) (raw_env s)
      | None \<Rightarrow>
     (case raw_action s of
        Some action \<Rightarrow> ActionStep action (raw_with s)
      | None \<Rightarrow> ApprovalStep (present_text (raw_approval s)))))"

definition toStep :: "raw_step \<Rightarrow> workflow_step" where
  "toStep s = \<lparr>st_id = raw_id s, st_config = toStepConfig s, st_dependsOn = raw_depends_on s,
     st_when = raw_when s, st_timeoutMs = Option.bind (raw_timeout s) parseDurationMs,
     st_retry = map_option toRetry (raw_retry s), st_continueOnFailure = raw_continue_on_failure s\<rparr>"

definition toWorkflowDefinition :: "raw_workflow \<Rightarrow> workflow_definition" where
  "toWorkflowDefinition w = \<lparr>wd_name = rw_name w, wd_description = rw_description w,
     wd_trigger = rw_trigger w, wd_eligibility = map_option toEligibility (rw_eligibility w),
     wd_workspace = rw_workspace w, wd_variables = rw_variables w, wd_steps = map toStep (rw_steps w),
     wd_transitions = rw_transitions w, wd_budget = rw_budget w\<rparr>"

text \<open>\<open>parseWorkflowYaml\<close> behind the YAML reader.\<close>

definition parseWorkflow :: "raw_workflow \<Rightarrow> workflow_issue list + workflow_definition" where
  "parseWorkflow w =
     (if raw_workflow_issues w \<noteq> [] then Inl (raw_workflow_issues w) else Inr (toWorkflowDefinition w))"

subsection \<open>What is accepted\<close>

definition step_edges_of :: "workflow_step list \<Rightarrow> (string \<times> string) set" where
  "step_edges_of steps = {(st_id s, d) | s d. s \<in> set steps \<and> d \<in> set (deps_of s)}"

text \<open>The dependencies of a definition name its steps and have no cycle.\<close>

definition is_dag :: "workflow_step list \<Rightarrow> bool" where
  "is_dag steps \<longleftrightarrow> distinct (map st_id steps) \<and>
     (\<forall>s \<in> set steps. set (deps_of s) \<subseteq> set (map st_id steps)) \<and> acyclic (step_edges_of steps)"

definition well_made :: "raw_step \<Rightarrow> bool" where
  "well_made s \<longleftrightarrow> raw_id s \<noteq> [] \<and> length (present_kinds s) = 1 \<and>
     (raw_agent s \<noteq> None \<longrightarrow> (\<exists>g. raw_goal s = Some g \<and> g \<noteq> [])) \<and>
     (\<forall>w. raw_when s = Some w \<longrightarrow> (\<exists>e. parseExpression w = Inr e)) \<and>
     (\<forall>n. raw_max_turns s = Some n \<longrightarrow> is_integer n \<and> 0 < n) \<and>
     (\<forall>d. raw_timeout s = Some d \<longrightarrow> isDurationString d) \<and>
     (\<forall>r. raw_retry s = Some r \<longrightarrow> is_integer (rr_max_attempts r) \<and> 1 \<le> rr_max_attempts r \<and>
        (\<forall>d. rr_backoff r = Some d \<longrightarrow> isDurationString d))"

lemma step_ok_iff: "raw_step_issues s = [] \<longleftrightarrow> well_made s"
proof -
  have "present_kinds s \<noteq> [] \<and> \<not> 1 < length (present_kinds s) \<longleftrightarrow> length (present_kinds s) = 1"
    by (cases "present_kinds s") auto
  moreover have "field_issues s = [] \<longleftrightarrow> raw_id s \<noteq> [] \<and>
     (\<forall>n. raw_max_turns s = Some n \<longrightarrow> is_integer n \<and> 0 < n) \<and>
     (\<forall>d. raw_timeout s = Some d \<longrightarrow> isDurationString d) \<and>
     (\<forall>r. raw_retry s = Some r \<longrightarrow> is_integer (rr_max_attempts r) \<and> 1 \<le> rr_max_attempts r \<and>
        (\<forall>d. rr_backoff r = Some d \<longrightarrow> isDurationString d))"
    by (auto simp: field_issues_def bad_duration_def split: option.splits)
  ultimately show ?thesis
    by (auto simp: raw_step_issues_def kind_issues_def well_made_def Let_def split: option.splits sum.splits)
qed

lemma duplicate_issues_empty:
  "duplicate_issues seen k ss = [] \<longleftrightarrow>
     distinct (map raw_id ss) \<and> (\<forall>s \<in> set ss. map_of seen (raw_id s) = None)"
proof (induction seen k ss rule: duplicate_issues.induct)
  case (2 seen k s ss)
  show ?case
  proof (cases "map_of seen (raw_id s)")
    case None
    have "(\<forall>t \<in> set ss. map_of (AList.update (raw_id s) k seen) (raw_id t) = None) \<longleftrightarrow>
        raw_id s \<notin> raw_id ` set ss \<and> (\<forall>t \<in> set ss. map_of seen (raw_id t) = None)"
      by (auto simp: image_iff)
    with 2(1) [OF None] None show ?thesis by auto
  qed simp
qed simp

lemma dependency_issues_empty:
  "concat (map (dependency_issues ids) (enumerate n ss)) = [] \<longleftrightarrow>
     (\<forall>s \<in> set ss. set (raw_deps s) \<subseteq> set ids)"
proof -
  have "concat (map (\<lambda>(j, dep). if dep \<in> set ids then [] else [UnknownDependency k j dep]) (enumerate m ds)) = [] \<longleftrightarrow>
    set ds \<subseteq> set ids" for k m ds
    by (induction ds arbitrary: m) auto
  then show ?thesis
    by (induction ss arbitrary: n) (simp_all add: dependency_issues_def)
qed

lemma toStep_simps [simp]:
  "st_id (toStep s) = raw_id s" "deps_of (toStep s) = raw_deps s" "st_when (toStep s) = raw_when s"
  by (simp_all add: toStep_def deps_of_def raw_deps_def)

lemma step_edges_iff:
  "(x, y) \<in> step_edges_of steps \<longleftrightarrow> (\<exists>s \<in> set steps. x = st_id s \<and> y \<in> set (deps_of s))"
  by (auto simp: step_edges_of_def)

lemma dep_edges_steps:
  assumes "distinct (map raw_id steps)" and "\<forall>s \<in> set steps. set (raw_deps s) \<subseteq> set (map raw_id steps)"
  shows "dep_edges (dep_map steps) = step_edges_of (map toStep steps)"
proof -
  have look: "set (lookup_list (dep_map steps) (raw_id s)) = set (raw_deps s)" if "s \<in> set steps" for s
    using lookup_dep_map [OF assms(1) that] assms(2) that by auto
  have "(x, y) \<in> dep_edges (dep_map steps) \<longleftrightarrow> (\<exists>s \<in> set steps. x = raw_id s \<and> y \<in> set (raw_deps s))" for x y
  proof
    assume "(x, y) \<in> dep_edges (dep_map steps)"
    then have y: "y \<in> set (lookup_list (dep_map steps) x)" by (simp add: dep_edges_def)
    then have "lookup_list (dep_map steps) x \<noteq> []" by (cases "lookup_list (dep_map steps) x") simp_all
    from lookup_dep_map_step [OF this] have "x \<in> set (map raw_id steps)" .
    with y look show "\<exists>s \<in> set steps. x = raw_id s \<and> y \<in> set (raw_deps s)" by auto
  qed (auto simp: dep_edges_def look)
  then show ?thesis by (auto simp: step_edges_iff)
qed

lemma graph_issues_empty: "graph_issues steps = [] \<longleftrightarrow> is_dag (map toStep steps)"
proof -
  have ids: "map st_id (map toStep steps) = map raw_id steps" by simp
  have cycle: "(case findCycle steps of None \<Rightarrow> [] | Some c \<Rightarrow> [CycleDetected c]) = [] \<longleftrightarrow>
      acyclic (dep_edges (dep_map steps))"
    using findCycle_correct [of steps] by (auto split: option.splits)
  have known: "(\<forall>s \<in> set (map toStep steps). set (deps_of s) \<subseteq> set (map raw_id steps)) \<longleftrightarrow>
      (\<forall>s \<in> set steps. set (raw_deps s) \<subseteq> set (map raw_id steps))"
    by simp
  show ?thesis
    unfolding graph_issues_def append_is_Nil_conv duplicate_issues_empty dependency_issues_empty cycle
      is_dag_def ids known
    using dep_edges_steps [of steps] by (simp del: set_map) metis
qed

lemma parser_accepts:
  "(\<exists>d. parseWorkflow w = Inr d) \<longleftrightarrow>
     rw_name w \<noteq> [] \<and> rw_steps w \<noteq> [] \<and> (\<forall>c. rw_workspace w = Some c \<longrightarrow> wc_strategy c \<noteq> []) \<and>
     (\<forall>s \<in> set (rw_steps w). well_made s) \<and> is_dag (map toStep (rw_steps w))"
proof -
  have "concat (map (\<lambda>(k, s). map (StepIssue k) (raw_step_issues s)) (enumerate n ss)) = [] \<longleftrightarrow>
      (\<forall>s \<in> set ss. well_made s)" for n ss
    by (induction ss arbitrary: n) (auto simp: step_ok_iff)
  then show ?thesis
    by (auto simp: parseWorkflow_def raw_workflow_issues_def graph_issues_empty split: option.splits)
qed

text \<open>A document of three steps: a build, tests when it succeeded, and an agent that deploys.\<close>

definition plain_step :: "string \<Rightarrow> string list option \<Rightarrow> raw_step" where
  "plain_step i deps = \<lparr>raw_id = i, raw_agent = None, raw_goal = None, raw_route = None,
     raw_tool_names = None, raw_max_turns = None, raw_command = None, raw_cwd = None, raw_env = None,
     raw_action = None, raw_with = None, raw_approval = None, raw_depends_on = deps, raw_when = None,
     raw_timeout = None, raw_retry = None, raw_continue_on_failure = None\<rparr>"

definition sample_document :: raw_workflow where
  "sample_document = \<lparr>rw_name = ''release'', rw_description = None, rw_trigger = None, rw_eligibility = None,
     rw_workspace = None, rw_variables = None, rw_budget = None,
     rw_steps =
       [(plain_step ''build'' None)\<lparr>raw_command := Some ''make'', raw_timeout := Some ''5m''\<rparr>,
        (plain_step ''test'' (Some [''build'']))\<lparr>raw_command := Some ''make test'',
          raw_when := Some ''steps.build.succeeded''\<rparr>,
        (plain_step ''deploy'' (Some [''test'', ''build'']))\<lparr>raw_agent := Some ''operator'',
          raw_goal := Some ''deploy the build'', raw_retry := Some \<lparr>rr_max_attempts = 2, rr_backoff = None\<rparr>\<rparr>],
     rw_transitions = None\<rparr>"

lemma sample_document_parses: "\<exists>d. parseWorkflow sample_document = Inr d"
proof -
  have "\<not> isl (parseWorkflow sample_document)" by code_simp
  then show ?thesis by (cases "parseWorkflow sample_document") simp_all
qed

text \<open>
  C24. The parser accepts exactly the well-made workflows: a document is turned into a definition
  if and only if it has a name, at least one step and a workspace strategy where it has a
  workspace, every step has an id, exactly one kind, a goal when it is an agent step, a \<open>when\<close>
  that parses and durations and counts of the right form, the ids are distinct, and the
  dependencies name steps and have no cycle.
\<close>

theorem parse_accepts_exactly:
  "(\<exists>d. parseWorkflow w = Inr d) \<longleftrightarrow>
     rw_name w \<noteq> [] \<and> rw_steps w \<noteq> [] \<and> (\<forall>c. rw_workspace w = Some c \<longrightarrow> wc_strategy c \<noteq> []) \<and>
     (\<forall>s \<in> set (rw_steps w). well_made s) \<and> is_dag (map toStep (rw_steps w))"
  by (rule parser_accepts)

theorem parse_accepts_exactly_witness:
  "is_dag (map toStep (rw_steps sample_document)) \<and> well_made (rw_steps sample_document ! 2)"
  using parse_accepts_exactly [of sample_document] sample_document_parses by (simp add: sample_document_def)

end
