(* ===== verification/Compile.thy ===== *)
theory Compile
  imports WorkflowDefinitions GraphValidate
begin

section \<open>Compiling step-DAG workflows to graphs\<close>

text \<open>
  \<open>packages/workflow/src/graph-engine/compile.ts\<close>. The compiler throws when a workflow has no
  steps, when a step id lies in its own namespace or when a condition does not parse; here it
  answers such an error. \<open>isSkipCapable\<close> recurses along the dependencies; its memo is left out,
  and its fuel, one more than the number of steps, is enough for acyclic dependencies
  (\<open>skip_capable_step\<close>), which is what the parser lets through.
\<close>

datatype compile_error =
  HasNoSteps string | ReservedStepId string string | BadCondition v1_error

definition SUCCEEDED :: string where
  "SUCCEEDED = ''node.status == '' @ [CHR 0x27] @ ''succeeded'' @ [CHR 0x27]"

definition startNodeId :: string where
  "startNodeId = ''__start''"

definition successNodeId :: string where
  "successNodeId = ''__success''"

definition whenNodeId :: "string \<Rightarrow> string" where
  "whenNodeId stepId = ''__when_'' @ stepId"

definition skipNodeId :: "string \<Rightarrow> string" where
  "skipNodeId stepId = ''__skip_'' @ stepId"

definition doneNodeId :: "string \<Rightarrow> string" where
  "doneNodeId stepId = ''__done_'' @ stepId"

subsection \<open>Conditions\<close>

definition op_text :: "binop \<Rightarrow> string" where
  "op_text op = (case op of OpEq \<Rightarrow> ''=='' | OpNe \<Rightarrow> ''!='' | OpAnd \<Rightarrow> ''&&'' | OpOr \<Rightarrow> ''||'')"

definition field_name :: "step_field \<Rightarrow> string" where
  "field_name f = (case f of
     FSucceeded \<Rightarrow> ''succeeded'' | FFailed \<Rightarrow> ''failed'' | FSkipped \<Rightarrow> ''skipped'' | FStatus \<Rightarrow> ''status'')"

fun literal_text :: "(rat \<Rightarrow> string) \<Rightarrow> literal \<Rightarrow> string" where
  "literal_text number (LitStr s) = [CHR 0x27] @ s @ [CHR 0x27]"
| "literal_text number (LitNum None) = ''NaN''"
| "literal_text number (LitNum (Some v)) = number v"
| "literal_text number (LitBool b) = (if b then ''true'' else ''false'')"

fun emitExpression :: "(rat \<Rightarrow> string) \<Rightarrow> v1_expr \<Rightarrow> string" where
  "emitExpression number (XLit l) = literal_text number l"
| "emitExpression number (XVar name) = ''vars.'' @ name"
| "emitExpression number (XStepField i f) =
     (if f = FSkipped
      then ''(!results.'' @ i @ ''.succeeded && !results.'' @ i @ ''.failed)''
      else ''results.'' @ i @ ''.'' @ field_name f)"
| "emitExpression number (XStepOutput i key) = ''results.'' @ i @ ''.outputs.'' @ key"
| "emitExpression number (XNot e) = ''!'' @ emitExpression number e"
| "emitExpression number (XBin op l r) =
     ''('' @ emitExpression number l @ '' '' @ op_text op @ '' '' @ emitExpression number r @ '')''"

definition translateV1Expression :: "(rat \<Rightarrow> string) \<Rightarrow> string \<Rightarrow> v1_error + string" where
  "translateV1Expression number source = bindE (parseExpression source) (\<lambda>e. Inr (emitExpression number e))"

subsection \<open>Nodes\<close>

definition toNodeConfig :: "workflow_step \<Rightarrow> graph_node_config" where
  "toNodeConfig s =
     (case st_config s of
        AgentStep agent goal r tools turns \<Rightarrow>
          AgentNode \<lparr>an_goal = goal,
            an_profile = Some \<lparr>ref_name = (case r of None \<Rightarrow> agent | Some x \<Rightarrow> x), ref_version = None\<rparr>,
            an_outputSchema = None, an_toolNames = tools, an_maxTurns = turns, an_timeoutMs = st_timeoutMs s\<rparr>
      | CommandStep command cwd env \<Rightarrow>
          CommandNode \<lparr>cn_command = command, cn_cwd = cwd, cn_env = env, cn_timeoutMs = st_timeoutMs s\<rparr>
      | ActionStep action args \<Rightarrow> ActionNode \<lparr>ac_action = action, ac_with = args\<rparr>
      | ApprovalStep description \<Rightarrow>
          HumanInputNode \<lparr>hr_type = HApproval, hr_prompt = description, hr_surface = SurfaceBoth,
            hr_choices = None, hr_secretName = None, hr_timeoutMs = st_timeoutMs s\<rparr>)"

definition noop :: "string \<Rightarrow> join_spec option \<Rightarrow> graph_node" where
  "noop i join = \<lparr>node_id = i, node_config = ActionNode \<lparr>ac_action = ''workflow.noop'', ac_with = None\<rparr>,
     node_join = join, node_guards = None, onEnter = None, onExit = None, node_retry = None\<rparr>"

definition all_join :: join_spec where
  "all_join = \<lparr>join_mode = JoinAll, join_n = None, join_required = None\<rparr>"

definition min_join :: "nat \<Rightarrow> join_spec" where
  "min_join n = \<lparr>join_mode = JoinMin, join_n = Some (of_nat n), join_required = None\<rparr>"

text \<open>\<open>new Map(steps.map((step) => [step.id, step]))\<close>, and \<open>isSkipCapable\<close> over it.\<close>

definition step_of :: "workflow_step list \<Rightarrow> string \<Rightarrow> workflow_step option" where
  "step_of steps i = map_of (rev (map (\<lambda>s. (st_id s, s)) steps)) i"

fun skip_capable_within :: "nat \<Rightarrow> workflow_step list \<Rightarrow> string \<Rightarrow> bool" where
  "skip_capable_within 0 steps i = False"
| "skip_capable_within (Suc n) steps i =
     (case step_of steps i of
        None \<Rightarrow> False
      | Some s \<Rightarrow> st_when s \<noteq> None \<or> list_ex (skip_capable_within n steps) (deps_of s))"

definition isSkipCapable :: "workflow_step list \<Rightarrow> string \<Rightarrow> bool" where
  "isSkipCapable steps i = skip_capable_within (Suc (length steps)) steps i"

definition step_node :: "workflow_step \<Rightarrow> graph_node" where
  "step_node s = \<lparr>node_id = st_id s, node_config = toNodeConfig s,
     node_join = (if st_when s = None \<and> 2 \<le> length (deps_of s) then Some all_join else None),
     node_guards = None, onEnter = None, onExit = None, node_retry = st_retry s\<rparr>"

definition when_join :: "workflow_step list \<Rightarrow> workflow_step \<Rightarrow> join_spec option" where
  "when_join steps s =
     (if deps_of s = [] then None
      else if list_ex (isSkipCapable steps) (deps_of s) then Some (min_join (length (deps_of s)))
      else Some all_join)"

definition step_nodes :: "workflow_step list \<Rightarrow> workflow_step \<Rightarrow> graph_node list" where
  "step_nodes steps s =
     step_node s #
     (if st_when s \<noteq> None then [noop (whenNodeId (st_id s)) (when_join steps s), noop (skipNodeId (st_id s)) None]
      else if isSkipCapable steps (st_id s) then [noop (skipNodeId (st_id s)) None]
      else [])"

subsection \<open>Transitions\<close>

text \<open>The arguments of \<open>addTransition\<close>: source, target and condition.\<close>

type_synonym edge = "string \<times> string \<times> string option"

definition success_condition :: "workflow_step option \<Rightarrow> string option" where
  "success_condition s =
     (if Option.bind s st_continueOnFailure = Some True then None else Some SUCCEEDED)"

definition when_edges :: "workflow_step list \<Rightarrow> workflow_step \<Rightarrow> string \<Rightarrow> edge list" where
  "when_edges steps s translated =
     (let w = whenNodeId (st_id s) in
      (if deps_of s = [] then [(startNodeId, w, None)] else []) @
      concat (map (\<lambda>dep. (dep, w, None) #
          (if isSkipCapable steps dep then [(skipNodeId dep, w, None)] else [])) (deps_of s)) @
      [(w, st_id s, Some translated),
       (w, skipNodeId (st_id s), Some (''!('' @ translated @ '')''))])"

definition plain_edges :: "workflow_step list \<Rightarrow> workflow_step \<Rightarrow> edge list" where
  "plain_edges steps s =
     (if deps_of s = [] then [(startNodeId, st_id s, None)] else []) @
     map (\<lambda>dep. (dep, st_id s, success_condition (step_of steps dep))) (deps_of s) @
     (if isSkipCapable steps (st_id s)
      then concat (map (\<lambda>dep. if isSkipCapable steps dep
             then [(skipNodeId dep, skipNodeId (st_id s), None)] else []) (deps_of s))
      else [])"

definition step_edges :: "(rat \<Rightarrow> string) \<Rightarrow> workflow_step list \<Rightarrow> workflow_step \<Rightarrow> compile_error + edge list" where
  "step_edges number steps s =
     (case st_when s of
        Some w \<Rightarrow>
          (case translateV1Expression number w of
             Inl e \<Rightarrow> Inl (BadCondition e)
           | Inr translated \<Rightarrow> Inr (when_edges steps s translated))
      | None \<Rightarrow> Inr (plain_edges steps s))"

definition terminal_steps :: "workflow_step list \<Rightarrow> workflow_step list" where
  "terminal_steps steps =
     filter (\<lambda>s. st_id s \<notin> set (concat (map deps_of steps))) steps"

definition terminal_edges :: "workflow_step list \<Rightarrow> workflow_step \<Rightarrow> edge list" where
  "terminal_edges steps s =
     (st_id s, doneNodeId (st_id s), success_condition (Some s)) #
     (if isSkipCapable steps (st_id s) then [(skipNodeId (st_id s), doneNodeId (st_id s), None)] else []) @
     [(doneNodeId (st_id s), successNodeId, None)]"

definition transition_of :: "nat \<times> edge \<Rightarrow> graph_transition" where
  "transition_of p = (case p of (k, source, target, condition) \<Rightarrow>
     \<lparr>tr_id = ''t'' @ show_nat k @ '':'' @ source @ ''->'' @ target, tr_from = source, tr_to = target,
      tr_condition = condition, loopBound = None, tr_effects = None\<rparr>)"

subsection \<open>The compiler\<close>

definition success_node :: graph_node where
  "success_node = \<lparr>node_id = successNodeId, node_config = TerminalNode OutCompleted,
     node_join = Some all_join, node_guards = None, onEnter = None, onExit = None, node_retry = None\<rparr>"

definition compiled_nodes :: "workflow_step list \<Rightarrow> graph_node list" where
  "compiled_nodes steps =
     noop startNodeId None # concat (map (step_nodes steps) steps) @
     map (\<lambda>s. noop (doneNodeId (st_id s)) None) (terminal_steps steps) @ [success_node]"

definition compiled_edges :: "(rat \<Rightarrow> string) \<Rightarrow> workflow_step list \<Rightarrow> compile_error + edge list" where
  "compiled_edges number steps =
     bindE (foldE (\<lambda>s es. bindE (step_edges number steps s) (\<lambda>new. Inr (es @ new))) steps []) (\<lambda>es.
       Inr (es @ concat (map (terminal_edges steps) (terminal_steps steps))))"

definition compileWorkflow :: "(rat \<Rightarrow> string) \<Rightarrow> workflow_definition \<Rightarrow> compile_error + workflow_graph" where
  "compileWorkflow number d =
     (if wd_steps d = [] then Inl (HasNoSteps (wd_name d))
      else case List.find (\<lambda>s. starts_with (st_id s) ''__'') (wd_steps d) of
        Some s \<Rightarrow> Inl (ReservedStepId (wd_name d) (st_id s))
      | None \<Rightarrow>
          bindE (compiled_edges number (wd_steps d)) (\<lambda>es.
          Inr \<lparr>graph_name = wd_name d, graph_description = wd_description d, graph_entry = startNodeId,
            graph_nodes = compiled_nodes (wd_steps d), graph_transitions = map transition_of (enumerate 0 es),
            graph_domainStates = None, graph_projection = None, graph_trigger = wd_trigger d,
            graph_eligibility = wd_eligibility d, graph_defaultProfile = None,
            graph_variables = wd_variables d, graph_workspace = None\<rparr>))"

end
