(* ===== verification/CompileMeaning.thy ===== *)
theory CompileMeaning
  imports Compile GraphEngineLoop
begin

section \<open>Translated conditions mean the same\<close>

text \<open>
  The text \<open>translateV1Expression\<close> emits is read by the tokenizer and the parser of the graph
  engine as a syntax tree, \<open>translated\<close>, that evaluates in the scope of the graph engine to what
  the condition evaluates to over the step results.
\<close>

subsection \<open>The tree the emitted text denotes\<close>

fun translated :: "v1_expr \<Rightarrow> expr" where
  "translated (XLit (LitStr s)) = ELit (JStr s)"
| "translated (XLit (LitNum (Some v))) = ELit (JNum v)"
| "translated (XLit (LitNum None)) = ERef [''NaN'']"
| "translated (XLit (LitBool b)) = ELit (JBool b)"
| "translated (XVar name) = ERef [''vars'', name]"
| "translated (XStepField i f) =
     (if f = FSkipped
      then EBin OpAnd (ENot (ERef [''results'', i, ''succeeded''])) (ENot (ERef [''results'', i, ''failed'']))
      else ERef [''results'', i, field_name f])"
| "translated (XStepOutput i key) = ERef [''results'', i, ''outputs'', key]"
| "translated (XNot e) = ENot (translated e)"
| "translated (XBin op l r) = EBin op (translated l) (translated r)"

fun emitted_tokens :: "v1_expr \<Rightarrow> token list" where
  "emitted_tokens (XLit (LitStr s)) = [TString s]"
| "emitted_tokens (XLit (LitNum (Some v))) = [TNumber v]"
| "emitted_tokens (XLit (LitNum None)) = [TIdent ''NaN'']"
| "emitted_tokens (XLit (LitBool b)) = [TIdent (if b then ''true'' else ''false'')]"
| "emitted_tokens (XVar name) = [TIdent (''vars.'' @ name)]"
| "emitted_tokens (XStepField i f) =
     (if f = FSkipped
      then [TLParen, TNot, TIdent (''results.'' @ i @ ''.succeeded''), TOp OpAnd, TNot,
            TIdent (''results.'' @ i @ ''.failed''), TRParen]
      else [TIdent (''results.'' @ i @ ''.'' @ field_name f)])"
| "emitted_tokens (XStepOutput i key) = [TIdent (''results.'' @ i @ ''.outputs.'' @ key)]"
| "emitted_tokens (XNot e) = TNot # emitted_tokens e"
| "emitted_tokens (XBin op l r) = TLParen # emitted_tokens l @ [TOp op] @ emitted_tokens r @ [TRParen]"

text \<open>A number whose decimal text the tokenizer reads back.\<close>

definition well_printed :: "(rat \<Rightarrow> string) \<Rightarrow> rat \<Rightarrow> bool" where
  "well_printed number v \<longleftrightarrow> number v \<noteq> [] \<and> is_digit (hd (number v)) \<and>
     scan_number (number v) = (v, []) \<and>
     (\<forall>c rest. c = CHR '' '' \<or> c = CHR '')'' \<longrightarrow> scan_number (number v @ c # rest) = (v, c # rest))"

definition plain_name :: "string \<Rightarrow> bool" where
  "plain_name s \<longleftrightarrow> list_all name_char s \<and> CHR ''.'' \<notin> set s"

text \<open>The trees the parser of conditions builds, with numbers the tokenizer reads back.\<close>

fun emittable :: "(rat \<Rightarrow> string) \<Rightarrow> v1_expr \<Rightarrow> bool" where
  "emittable number (XLit (LitStr s)) = (CHR 0x27 \<notin> set s)"
| "emittable number (XLit (LitNum v)) = (case v of None \<Rightarrow> False | Some v \<Rightarrow> well_printed number v)"
| "emittable number (XLit (LitBool b)) = True"
| "emittable number (XVar name) = plain_name name"
| "emittable number (XStepField i f) = plain_name i"
| "emittable number (XStepOutput i key) = (plain_name i \<and> plain_name key)"
| "emittable number (XNot e) = emittable number e"
| "emittable number (XBin op l r) = (emittable number l \<and> emittable number r)"

subsection \<open>Reading the tokens\<close>

lemma evals_infix:
  assumes "evals PUnary ts a (TOp op # us)" and "evals PUnary us b (TRParen # rest)"
  shows "evals POr ts (EBin op a b) (TRParen # rest)"
proof -
  have "evals (PEqualityLoop e) (TRParen # rest) e (TRParen # rest)"
    "evals (PAndLoop e) (TRParen # rest) e (TRParen # rest)"
    "evals (POrLoop e) (TRParen # rest) e (TRParen # rest)" for e
    by (rule evals_loop_end; simp)+
  note stop = this
  have "op \<noteq> OpEq \<Longrightarrow> op \<noteq> OpNe \<Longrightarrow> evals (PEqualityLoop a) (TOp op # us) a (TOp op # us)"
    by (rule evals_loop_end) (auto)
  moreover have "op = OpOr \<Longrightarrow> evals (PAndLoop a) (TOp op # us) a (TOp op # us)"
    by (rule evals_loop_end) simp
  ultimately show ?thesis
    using assms stop by (cases op) (blast intro: evals_method evals_loop)+
qed

lemma evals_names:
  assumes "s \<noteq> ''true''" and "s \<noteq> ''false''"
  shows "evals PUnary (TIdent s # rest) (ERef (split_on CHR ''.'' s)) rest"
  using assms by (intro evals_leaf) simp

lemma split_names:
  assumes "plain_name i" and "plain_name k"
  shows "split_on CHR ''.'' (''vars.'' @ i) = [''vars'', i]"
    and "CHR ''.'' \<notin> set f \<Longrightarrow> split_on CHR ''.'' (''results.'' @ i @ ''.'' @ f) = [''results'', i, f]"
    and "split_on CHR ''.'' (''results.'' @ i @ ''.outputs.'' @ k) = [''results'', i, ''outputs'', k]"
  using split_on_app [of "CHR ''.''" i] assms
  by (auto simp: plain_name_def split_on_no_sep)

lemma evals_emitted:
  "emittable number e \<Longrightarrow> evals PUnary (emitted_tokens e @ rest) (translated e) rest"
proof (induction e arbitrary: rest rule: emitted_tokens.induct)
  case (9 op l r)
  then have "evals POr (emitted_tokens l @ TOp op # emitted_tokens r @ TRParen # rest)
      (EBin op (translated l) (translated r)) (TRParen # rest)"
    by (intro evals_infix) auto
  from evals_parens [of "emitted_tokens l @ TOp op # emitted_tokens r", simplified, OF this]
  show ?case by simp
next
  case (6 i f)
  have name: "evals PUnary (TIdent (''results.'' @ i @ ''.'' @ w) # us) (ERef [''results'', i, w]) us"
    if "CHR ''.'' \<notin> set w" for w us
    using evals_names [of "''results.'' @ i @ ''.'' @ w"] split_names(2) [of i i w] 6 that by simp
  show ?case
  proof (cases "f = FSkipped")
    case True
    have "evals PUnary (TNot # TIdent (''results.'' @ i @ ''.'' @ w) # us) (ENot (ERef [''results'', i, w])) us"
      if "CHR ''.'' \<notin> set w" for w us
      by (rule evals_not [OF name [OF that]])
    from evals_infix [OF this [of "''succeeded''"] this [of "''failed''"]]
    have "evals POr ([TNot, TIdent (''results.'' @ i @ ''.succeeded''), TOp OpAnd, TNot,
        TIdent (''results.'' @ i @ ''.failed'')] @ TRParen # rest) (translated (XStepField i f)) (TRParen # rest)"
      by (simp add: True)
    from evals_parens [OF this] show ?thesis by (simp add: True)
  next
    case False
    have "CHR ''.'' \<notin> set (field_name f)" by (cases f) (simp_all add: field_name_def)
    from name [OF this] False show ?thesis by simp
  qed
next
  case (5 name)
  then show ?case using evals_names [of "''vars.'' @ name"] split_names(1) [of name name] by simp
next
  case (7 i key)
  then show ?case
    using evals_names [of "''results.'' @ i @ ''.outputs.'' @ key"] split_names(3) [of i key] by simp
next
  case (8 e)
  then show ?case by (auto intro: evals_not)
qed (auto intro!: evals_leaf)

lemma parse_emitted:
  assumes "emittable number e"
  shows "parse_tokens (emitted_tokens e @ [TEof]) = Some (Inr (translated e))"
proof (rule evals_parse_tokens)
  have "evals PUnary (emitted_tokens e @ [TEof]) (translated e) [TEof]"
    by (rule evals_emitted [OF assms])
  then show "evals POr (emitted_tokens e @ [TEof]) (translated e) [TEof]"
    by (rule evals_method(1) [OF evals_method(2) [OF evals_method(3)]]) (rule evals_loop_end; simp)+
qed

subsection \<open>Reading the text\<close>

definition stops :: "string \<Rightarrow> bool" where
  "stops rest \<longleftrightarrow> rest = [] \<or> hd rest = CHR '' '' \<or> hd rest = CHR '')''"

text \<open>The tokenizer reads \<open>s\<close> as \<open>ts\<close> wherever a blank, a parenthesis or nothing follows.\<close>

definition lexes :: "string \<Rightarrow> token list \<Rightarrow> bool" where
  "lexes s ts \<longleftrightarrow> s \<noteq> [] \<and> hd s \<noteq> CHR ''='' \<and> (\<forall>i rest. stops rest \<longrightarrow>
     (\<exists>j. tokenize_at i (s @ rest) = bindE (tokenize_at j rest) (\<lambda>us. Inr (ts @ us))))"

lemma lexes_name:
  assumes "ident_start c" and "list_all ident_char cs"
  shows "lexes (c # cs) [TIdent (c # cs)]"
proof -
  have c: "\<not> is_space c" "c \<noteq> CHR ''(''" "c \<noteq> CHR '')''" "c \<noteq> CHR ''!''" "c \<noteq> CHR 0x27" "\<not> is_digit c"
    "c \<noteq> CHR ''=''" "two_char_op c us = None" for us
    using assms(1) by (cases us; auto simp: ident_start_def char_class_defs)+
  have munch: "takeWhile ident_char (cs @ rest) = cs \<and> dropWhile ident_char (cs @ rest) = rest" if "stops rest" for rest
    using assms(2) that
    by (cases rest) (auto simp: stops_def list_all_iff takeWhile_append2 dropWhile_append2 takeWhile_eq_all_conv
        ident_char_def char_class_defs)
  show ?thesis
    unfolding lexes_def
    using c assms(1) munch by (auto simp: tokenize_at.simps(2) Let_def)
qed

lemma no_two_char_op:
  "c \<notin> set ''=!&|'' \<Longrightarrow> two_char_op c cs = None"
  by (cases cs) auto

lemma lexes_text:
  assumes "CHR 0x27 \<notin> set s"
  shows "lexes ([CHR 0x27] @ s @ [CHR 0x27]) [TString s]"
proof -
  have quote: "\<not> is_space CHR 0x27" by (simp add: is_space_def)
  have "two_char_op CHR 0x27 us = None" for us by (rule no_two_char_op) simp
  then have "tokenize_at i (CHR 0x27 # s @ CHR 0x27 # rest) =
      bindE (tokenize_at (i + length s + 2) rest) (\<lambda>us. Inr (TString s # us))" for i rest
    using quote index_of_app [OF assms, of rest] by (simp add: tokenize_at.simps(2))
  then show ?thesis by (auto simp: lexes_def)
qed

lemma lexes_number:
  assumes "well_printed number v"
  shows "lexes (number v) [TNumber v]"
proof -
  from assms obtain c cs where digits: "number v = c # cs" and c: "is_digit c"
    by (cases "number v") (auto simp: well_printed_def)
  have kind: "\<not> is_space c" "c \<notin> set ''=!&|()'' \<and> c \<noteq> CHR 0x27"
    using c by (auto simp: char_class_defs)
  have "scan_number (c # cs @ rest) = (v, rest)" if "stops rest" for rest
    using assms that digits by (cases rest) (auto simp: well_printed_def stops_def)
  then have "tokenize_at i (c # cs @ rest) =
      bindE (tokenize_at (i + (length (c # cs @ rest) - length rest)) rest) (\<lambda>us. Inr (TNumber v # us))"
    if "stops rest" for i rest
    using that kind c no_two_char_op [of c "cs @ rest"] by (simp add: tokenize_at.simps(2))
  then show ?thesis using kind digits by (auto simp: lexes_def)
qed

text \<open>Scanning in two stages, the tokens of both in a row.\<close>

definition then_tokens :: "token list \<Rightarrow> scope_error + token list \<Rightarrow> scope_error + token list" where
  "then_tokens ts r = bindE r (\<lambda>us. Inr (ts @ us))"

lemma then_tokens_app: "then_tokens ts (then_tokens us r) = then_tokens (ts @ us) r"
  by (auto simp: then_tokens_def bindE_def split: sum.splits)

lemma lexes_at:
  assumes "lexes s ts" and "stops rest"
  shows "\<exists>j. tokenize_at i (s @ rest) = then_tokens ts (tokenize_at j rest)"
  using assms unfolding lexes_def then_tokens_def by blast

lemma lexesI:
  assumes "s \<noteq> []" and "hd s \<noteq> CHR ''=''"
    and "\<And>i rest. stops rest \<Longrightarrow> \<exists>j. tokenize_at i (s @ rest) = then_tokens ts (tokenize_at j rest)"
  shows "lexes s ts"
  using assms by (simp add: lexes_def then_tokens_def)

lemma lexes_not:
  assumes "lexes s ts" shows "lexes (''!'' @ s) (TNot # ts)"
proof (rule lexesI)
  fix i rest assume stop: "stops rest"
  from assms obtain c cs where s: "s = c # cs" "c \<noteq> CHR ''=''" by (cases s) (auto simp: lexes_def)
  then have step: "tokenize_at i (CHR ''!'' # s @ rest) = then_tokens [TNot] (tokenize_at (i + 1) (s @ rest))"
    by (simp add: tokenize_at.simps(2) is_space_def then_tokens_def)
  obtain j where "tokenize_at (i + 1) (s @ rest) = then_tokens ts (tokenize_at j rest)"
    using lexes_at [OF assms stop] by blast
  with step have "tokenize_at i ((''!'' @ s) @ rest) = then_tokens (TNot # ts) (tokenize_at j rest)"
    by (simp add: then_tokens_app)
  then show "\<exists>j. tokenize_at i ((''!'' @ s) @ rest) = then_tokens (TNot # ts) (tokenize_at j rest)" ..
qed simp_all

lemma lexes_binary:
  assumes "lexes l ts" and "lexes r us"
  shows "lexes (''('' @ l @ '' '' @ op_text op @ '' '' @ r @ '')'') (TLParen # ts @ [TOp op] @ us @ [TRParen])"
proof (rule lexesI)
  fix i rest
  let ?close = "'')'' @ rest"
  let ?tail = "'' '' @ op_text op @ '' '' @ r @ ?close"
  have stops: "stops ?tail" "stops ?close" by (simp_all add: stops_def)
  obtain j where l: "tokenize_at (i + 1) (l @ ?tail) = then_tokens ts (tokenize_at j ?tail)"
    using lexes_at [OF assms(1) stops(1)] by blast
  obtain k where r: "tokenize_at (j + 4) (r @ ?close) = then_tokens us (tokenize_at k ?close)"
    using lexes_at [OF assms(2) stops(2)] by blast
  have mid: "tokenize_at j ?tail = then_tokens [TOp op] (tokenize_at (j + 4) (r @ ?close))"
    by (cases op) (simp_all add: tokenize_at.simps(2) op_text_def is_space_def then_tokens_def numeral_eq_Suc)
  have closing_paren: "tokenize_at k ?close = then_tokens [TRParen] (tokenize_at (k + 1) rest)"
    by (simp add: tokenize_at.simps(2) is_space_def then_tokens_def)
  have opening_paren: "tokenize_at i (''('' @ l @ ?tail) = then_tokens [TLParen] (tokenize_at (i + 1) (l @ ?tail))"
    by (simp add: tokenize_at.simps(2) is_space_def then_tokens_def)
  have "tokenize_at i (''('' @ l @ ?tail) =
      then_tokens (TLParen # ts @ [TOp op] @ us @ [TRParen]) (tokenize_at (k + 1) rest)"
    unfolding opening_paren l mid r closing_paren then_tokens_app by simp
  then show "\<exists>j. tokenize_at i ((''('' @ l @ '' '' @ op_text op @ '' '' @ r @ '')'') @ rest) =
      then_tokens (TLParen # ts @ [TOp op] @ us @ [TRParen]) (tokenize_at j rest)"
    by (auto simp del: tokenize_at.simps)
qed simp_all

lemma name_char_ident: "name_char c \<Longrightarrow> ident_char c"
  by (auto simp: name_char_def ident_char_def)

lemma plain_ident: "plain_name s \<Longrightarrow> list_all ident_char s"
  by (auto simp: plain_name_def list_all_iff intro: name_char_ident)

lemma lexes_emitted: "emittable number e \<Longrightarrow> lexes (emitExpression number e) (emitted_tokens e)"
proof (induction e)
  case (XLit l)
  then show ?case
    using lexes_text lexes_number lexes_name [of "CHR ''t''" "''rue''"] lexes_name [of "CHR ''f''" "''alse''"]
    by (cases l) (auto simp: ident_start_def ident_char_def char_class_defs split: option.splits)
next
  case (XVar name)
  then show ?case using lexes_name [of "CHR ''v''" "''ars.'' @ name"] plain_ident [of name]
    by (simp add: ident_start_def ident_char_def char_class_defs)
next
  case (XStepField i f)
  have name: "lexes (''results.'' @ i @ ''.'' @ w) [TIdent (''results.'' @ i @ ''.'' @ w)]" if "list_all ident_char w" for w
    using lexes_name [of "CHR ''r''" "''esults.'' @ i @ ''.'' @ w"] plain_ident [of i] XStepField that
    by (simp add: ident_start_def ident_char_def char_class_defs)
  show ?case
  proof (cases "f = FSkipped")
    case True
    have "list_all ident_char ''succeeded''" "list_all ident_char ''failed''"
      by (simp_all add: ident_char_def char_class_defs)
    from lexes_binary [OF lexes_not [OF name [OF this(1)]] lexes_not [OF name [OF this(2)]], of OpAnd]
    show ?thesis by (simp add: True op_text_def)
  next
    case False
    have "list_all ident_char (field_name f)"
      by (cases f) (simp_all add: field_name_def ident_char_def char_class_defs)
    from name [OF this] show ?thesis by (simp add: False)
  qed
next
  case (XStepOutput i key)
  then show ?case using lexes_name [of "CHR ''r''" "''esults.'' @ i @ ''.outputs.'' @ key"] plain_ident [of i] plain_ident [of key]
    by (simp add: ident_start_def ident_char_def char_class_defs)
next
  case (XNot e)
  then show ?case using lexes_not by simp
next
  case (XBin op l r)
  then show ?case using lexes_binary [of _ _ _ _ op] by simp
qed

lemma parse_emitted_text:
  assumes "emittable number e"
  shows "parse_source (emitExpression number e) = Inr (translated e)"
proof -
  have "stops []" by (simp add: stops_def)
  from lexes_at [OF lexes_emitted [OF assms] this, of 0]
  obtain j where "tokenize_at 0 (emitExpression number e @ []) = then_tokens (emitted_tokens e) (tokenize_at j [])" ..
  then have "tokenize (emitExpression number e) = Inr (emitted_tokens e @ [TEof])"
    by (simp add: tokenize_def then_tokens_def)
  then show ?thesis using parse_emitted [OF assms] by (simp add: parse_source_def)
qed

subsection \<open>What the parser of conditions builds\<close>

fun plain_token :: "v1_token \<Rightarrow> bool" where
  "plain_token (VString s) = (CHR 0x27 \<notin> set s)"
| "plain_token (VIdent s) = list_all name_char s"
| "plain_token _ = True"

fun plain_tree :: "v1_expr \<Rightarrow> bool" where
  "plain_tree (XLit (LitStr s)) = (CHR 0x27 \<notin> set s)"
| "plain_tree (XLit _) = True"
| "plain_tree (XVar name) = plain_name name"
| "plain_tree (XStepField i f) = plain_name i"
| "plain_tree (XStepOutput i key) = (plain_name i \<and> plain_name key)"
| "plain_tree (XNot e) = plain_tree e"
| "plain_tree (XBin op l r) = (plain_tree l \<and> plain_tree r)"

lemma index_of_take: "index_of c s = Some k \<Longrightarrow> c \<notin> set (take k s)"
  by (induction s arbitrary: k) (auto split: if_splits)

lemma scan_plain: "scan_v1 i s = Inr ts \<Longrightarrow> \<forall>t \<in> set ts. plain_token (fst t)"
proof (induction s arbitrary: i ts rule: length_induct)
  case (1 s)
  note IH = 1(1) [rule_format]
  have later: "\<forall>t \<in> set ts. plain_token (fst t)"
    if "bindE (scan_v1 j r) (\<lambda>us. Inr ((k, i) # us)) = Inr ts" "plain_token k \<and> length r < length s"
    for j r k
    using that IH [of r j] by (cases "scan_v1 j r") auto
  show ?case
  proof (cases s)
    case (Cons c cs)
    have ident: "ident_start c \<Longrightarrow> plain_token (VIdent (c # takeWhile name_char cs))"
      by (auto simp: ident_start_def name_char_def list_all_iff dest: set_takeWhileD)
    have less: "length (drop k cs) < length s" "length (tl cs) < length s" "length cs < length s"
      "length (dropWhile P cs) < length s" for k P
      using Cons by (auto simp: le_imp_less_Suc dropWhile_length_le)
    note scan = 1(2) [unfolded Cons scan_v1.simps(2) Let_def]
    consider "is_blank c" | "\<not> is_blank c" "c = CHR ''(''" | "\<not> is_blank c" "c = CHR '')''"
      | "\<not> is_blank c" "c = CHR 0x27"
      | "\<not> is_blank c" "c \<noteq> CHR ''(''" "c \<noteq> CHR '')''" "c \<noteq> CHR 0x27" by blast
    then show ?thesis
    proof cases
      case 1
      with scan have "scan_v1 (i + 1) cs = Inr ts" by simp
      then show ?thesis using IH [OF less(3)] by blast
    next
      case 2
      with scan show ?thesis by (intro later [of "i + 1" cs VLParen]) (simp_all add: less)
    next
      case 3
      with scan show ?thesis by (intro later [of "i + 1" cs VRParen]) (simp_all add: less)
    next
      case 4
      with scan show ?thesis
        by (cases "index_of CHR 0x27 cs") (simp_all, elim later, simp add: Cons index_of_take)
    next
      case 5
      show ?thesis
      proof (cases "two_char_op c cs")
        case (Some op)
        with 5 scan show ?thesis by (intro later [of "i + 2" "tl cs" "VOp op"]) (simp_all add: Cons)
      next
        case None
        consider "c = CHR ''!''" | "c \<noteq> CHR ''!''" "is_digit c" | "c \<noteq> CHR ''!''" "\<not> is_digit c" "ident_start c"
          using 5 scan None by (auto split: if_splits)
        then show ?thesis
        proof cases
          case 1
          with 5 None scan show ?thesis by (intro later [of "i + 1" cs VNot]) (simp_all add: less)
        next
          case 2
          with 5 None scan show ?thesis
            by (intro later [of _ "dropWhile number_char cs" "VNumber (c # takeWhile number_char cs)"]) (simp_all add: less)
        next
          case 3
          with 5 None scan show ?thesis
            by (intro later [of _ "dropWhile name_char cs" "VIdent (c # takeWhile name_char cs)"])
              (simp_all add: less ident [simplified])
        qed
      qed
    qed
  next
    case Nil
    with 1(2) have "ts = [(VEof, i)]" by simp
    then show ?thesis by simp
  qed
qed

lemma split_parts: "list_all name_char s \<Longrightarrow> w \<in> set (split_on CHR ''.'' s) \<Longrightarrow> plain_name w"
  by (induction s arbitrary: w) (auto simp: plain_name_def split: if_splits list.splits)

lemma reference_plain:
  assumes "parseReference path pos = Inr e" and "list_all name_char path"
  shows "plain_tree e"
proof -
  from split_parts [OF assms(2)] obtain ws
    where ws: "split_on CHR ''.'' path = ws" and plain: "\<forall>w \<in> set ws. plain_name w" by blast
  from assms(1) have "(\<exists>base name. ws = [base, name] \<and> e = XVar name) \<or>
      (\<exists>base i f sf. ws = [base, i, f] \<and> e = XStepField i sf) \<or>
      (\<exists>base i f k. ws = [base, i, f, k] \<and> e = XStepOutput i k)"
    by (simp add: parseReference_def ws split: list.splits if_split_asm option.splits)
      (auto dest: sym)
  with plain show ?thesis by auto
qed

lemma leaf_plain: "leaf_v1 t = Inr e \<Longrightarrow> plain_token (fst t) \<Longrightarrow> plain_tree e"
  by (cases t rule: leaf_v1.cases) (auto split: if_splits intro: reference_plain)


definition plain_tokens :: "placed list \<Rightarrow> bool" where
  "plain_tokens ts \<longleftrightarrow> (\<forall>t \<in> set ts. plain_token (fst t))"

definition builds_plain :: "v1_expr v1_parsed \<Rightarrow> bool" where
  "builds_plain p \<longleftrightarrow> (\<forall>e rest. p = Some (Inr (e, rest)) \<longrightarrow> plain_tree e \<and> plain_tokens rest)"

lemma builds_plain_simps [simp]:
  "builds_plain None" "builds_plain (Some (Inl err))"
  "builds_plain (Some (Inr (e, rest))) \<longleftrightarrow> plain_tree e \<and> plain_tokens rest"
  by (auto simp: builds_plain_def)

lemma builds_plain_vbind:
  assumes "builds_plain p" and "\<And>e rest. plain_tree e \<Longrightarrow> plain_tokens rest \<Longrightarrow> builds_plain (f e rest)"
  shows "builds_plain (vbind p f)"
proof (cases p)
  case (Some r)
  show ?thesis
  proof (cases r)
    case (Inr q)
    with Some assms(1) have "plain_tree (fst q)" "plain_tokens (snd q)" by (cases q; simp)+
    from assms(2) [OF this] Some Inr show ?thesis by (simp add: vbind_def split_beta)
  qed (simp add: Some vbind_def)
qed (simp add: vbind_def)

fun plain_level :: "v1_level \<Rightarrow> bool" where
  "plain_level (VOrLoop left) = plain_tree left"
| "plain_level (VAndLoop left) = plain_tree left"
| "plain_level (VEqualityLoop left) = plain_tree left"
| "plain_level _ = True"

lemma plain_tokens_tl: "plain_tokens ts \<Longrightarrow> plain_tokens (tl ts)"
  by (cases ts) (auto simp: plain_tokens_def)

lemma parse_v1_plain:
  "plain_tokens ts \<Longrightarrow> plain_level l \<Longrightarrow> builds_plain (parse_v1 n l ts)"
proof (induction n l ts rule: parse_v1.induct)
  case (9 n ts)
  show ?case
  proof (cases ts)
    case (Cons t rest)
    with 9 show ?thesis
      by (auto simp: plain_tokens_def leaf_plain plain_tokens_tl [unfolded plain_tokens_def]
          intro!: builds_plain_vbind split: sum.splits)
  qed simp
qed (auto intro!: builds_plain_vbind simp: plain_tokens_tl split: v1_token.splits)

lemma parseExpression_plain: "parseExpression source = Inr e \<Longrightarrow> plain_tree e"
proof -
  assume "parseExpression source = Inr e"
  then obtain ts where scan: "scan_v1 0 source = Inr ts" and "the (parse_placed ts) = Inr e"
    by (auto simp: parseExpression_def bindE_eq_Inr)
  with parse_placed_total [of ts] have "parse_placed ts = Some (Inr e)" by auto
  then obtain rest where "parse_v1 (6 * length ts + 5) VOr ts = Some (Inr (e, rest))"
    by (auto simp: parse_placed_def bindE_eq_Inr split: if_splits)
  with parse_v1_plain [of ts VOr "6 * length ts + 5"] scan_plain [OF scan] show ?thesis
    by (simp add: plain_tokens_def)
qed

subsection \<open>What the tree evaluates to\<close>

text \<open>
  The results of the graph engine mirror the step results: a step that succeeded or failed is a
  node that did, with the same outputs; a skipped step has no result; nothing else is settled.
\<close>

definition mirrors_step :: "node_result record_of \<Rightarrow> string \<Rightarrow> step_result \<Rightarrow> bool" where
  "mirrors_step results i r =
     (case sr_status r of
        StSucceeded \<Rightarrow> (\<exists>n k. map_of results i = Some n \<and> res_status n = Succeeded \<and> res_outputs n = JObj k (sr_outputs r))
      | step_status.StFailed \<Rightarrow> (\<exists>n k. map_of results i = Some n \<and> res_status n = Failed_status \<and> res_outputs n = JObj k (sr_outputs r))
      | StSkipped \<Rightarrow> map_of results i = None \<and> sr_outputs r = []
      | _ \<Rightarrow> False)"

definition mirrors :: "v1_context \<Rightarrow> node_result record_of \<Rightarrow> fields \<Rightarrow> bool" where
  "mirrors ctx results vars \<longleftrightarrow> ctx_vars ctx = vars \<and>
     (\<forall>i r. map_of (ctx_steps ctx) i = Some r \<longrightarrow> mirrors_step results i r)"

text \<open>
  The names the graph engine reads as the workflow's evaluator does: \<open>constructor\<close>,
  \<open>prototype\<close> and \<open>__proto__\<close> are blocked there, a skipped step has no outputs object that
  could inherit a member, and the tokenizer must read back the numbers.
\<close>

fun portable :: "(rat \<Rightarrow> string) \<Rightarrow> v1_expr \<Rightarrow> bool" where
  "portable number (XLit (LitNum v)) = (case v of None \<Rightarrow> False | Some v \<Rightarrow> well_printed number v)"
| "portable number (XLit _) = True"
| "portable number (XVar name) = (\<not> blocked name)"
| "portable number (XStepField i f) = (\<not> blocked i)"
| "portable number (XStepOutput i key) = (\<not> blocked i \<and> \<not> blocked key \<and> key \<notin> set object_methods)"
| "portable number (XNot e) = portable number e"
| "portable number (XBin op l r) = (portable number l \<and> portable number r)"

text \<open>
  A bypassed step is an absent result: its \<open>succeeded\<close> and \<open>failed\<close> are \<open>undefined\<close> and not
  \<open>false\<close>, which a comparison sees, and its \<open>status\<close> is \<open>undefined\<close> and not \<open>'skipped'\<close>.
\<close>

fun bypassed :: "v1_context \<Rightarrow> v1_expr \<Rightarrow> bool" where
  "bypassed ctx (XStepField i f) =
     (f \<noteq> FSkipped \<and> (case map_of (ctx_steps ctx) i of None \<Rightarrow> False | Some r \<Rightarrow> sr_status r = StSkipped))"
| "bypassed ctx _ = False"

fun comparable :: "v1_context \<Rightarrow> v1_expr \<Rightarrow> bool" where
  "comparable ctx (XStepField i f) = (f = FStatus \<longrightarrow> \<not> bypassed ctx (XStepField i f))"
| "comparable ctx (XNot e) = comparable ctx e"
| "comparable ctx (XBin op l r) =
     (comparable ctx l \<and> comparable ctx r \<and>
      (op = OpEq \<or> op = OpNe \<longrightarrow> \<not> bypassed ctx l \<and> \<not> bypassed ctx r))"
| "comparable ctx _ = True"

lemma emittable_portable: "plain_tree e \<Longrightarrow> portable number e \<Longrightarrow> emittable number e"
  by (induction e rule: plain_tree.induct) (auto split: literal.splits option.splits)

lemma truthy_boolean: "truthy v = to_boolean v"
  by (cases v) simp_all

lemma property_member: "\<not> blocked k \<Longrightarrow> get_property (JObj oid fs) k = member fs k"
  by (auto simp: get_property_def member_def blocked_def inherited_def split: option.splits)

lemma map_of_results:
  "map_of (map (result_entry k) results) i = map_option (\<lambda>n. snd (result_entry k (i, n))) (map_of results i)"
  by (induction results) (auto simp: result_entry_def)

lemma result_ref:
  assumes "\<not> blocked i"
    and "get_property scope ''results'' = resultScope k results" and "is_object scope"
  shows "map_of results i = Some n \<Longrightarrow>
      resolveRef (''results'' # i # path) scope = resolveRef path (snd (result_entry k (i, n)))"
    and "map_of results i = None \<Longrightarrow> path \<noteq> [] \<Longrightarrow> resolveRef (''results'' # i # path) scope = JUndef"
  using assms
  by (auto simp: resultScope_def is_object_def blocked_def get_property_def map_of_results inherited_def
      split: option.splits intro!: resolveRef_not_object)

definition settled_step :: "step_status \<Rightarrow> node_status option" where
  "settled_step st = (case st of
     StSucceeded \<Rightarrow> Some Succeeded | step_status.StFailed \<Rightarrow> Some Failed_status | _ \<Rightarrow> None)"

lemma mirrors_step_cases:
  assumes "mirrors_step results i r"
  obtains (settled) n k where "map_of results i = Some n" "settled_step (sr_status r) = Some (res_status n)"
      "res_outputs n = JObj k (sr_outputs r)"
    | (skipped) "map_of results i = None" "sr_status r = StSkipped" "sr_outputs r = []"
  using assms by (cases "sr_status r") (auto simp: mirrors_step_def settled_step_def)

lemma settled_fields:
  assumes "settled_step st = Some (res_status n)" and "f \<noteq> FSkipped"
  shows "resolveRef [field_name f] (snd (result_entry k (i, n))) = field_value f st"
  using assms by (cases f; cases st)
    (simp_all add: settled_step_def result_entry_def field_name_def blocked_def get_property_def is_object_def
      status_name_def step_status_text_def split: node_status.splits)

lemma outputs_member:
  assumes "res_outputs n = JObj oid outputs" and "\<not> blocked key"
  shows "resolveRef [''outputs'', key] (snd (result_entry k (i, n))) = member outputs key"
proof -
  have "get_property (snd (result_entry k (i, n))) ''outputs'' = JObj oid outputs"
    by (simp add: result_entry_def get_property_def assms(1))
  moreover have "is_object (snd (result_entry k (i, n)))" "is_object (JObj oid outputs)" "\<not> blocked ''outputs''"
    by (simp_all add: result_entry_def is_object_def blocked_def)
  ultimately show ?thesis using property_member [OF assms(2)] assms(2) by simp
qed

lemma mirrored_field:
  assumes "mirrors_step results i r" and "\<not> blocked i"
    and "get_property scope ''results'' = resultScope k results" and "is_object scope" and "f \<noteq> FSkipped"
  shows "resolveRef [''results'', i, field_name f] scope =
     (if sr_status r = StSkipped then JUndef else field_value f (sr_status r))"
  using assms(1)
proof (cases rule: mirrors_step_cases)
  case (settled n j)
  then have "sr_status r \<noteq> StSkipped" by (auto simp: settled_step_def)
  with result_ref(1) [OF assms(2-4) settled(1)] settled_fields [OF settled(2) assms(5)] show ?thesis by simp
next
  case skipped
  with result_ref(2) [OF assms(2-4)] show ?thesis by simp
qed

lemma mirrored_output:
  assumes "mirrors_step results i r" and "\<not> blocked i" and "\<not> blocked key"
    and "get_property scope ''results'' = resultScope k results" and "is_object scope"
    and "key \<notin> set object_methods \<or> sr_status r \<noteq> StSkipped"
  shows "resolveRef [''results'', i, ''outputs'', key] scope = member (sr_outputs r) key"
  using assms(1)
proof (cases rule: mirrors_step_cases)
  case (settled n j)
  with result_ref(1) [OF assms(2,4,5) settled(1)] outputs_member [OF settled(3) assms(3)] show ?thesis by simp
next
  case skipped
  with result_ref(2) [OF assms(2,4,5)] assms(3,6) show ?thesis by (auto simp: member_def blocked_def)
qed

lemma translated_value:
  assumes "evaluateExpression e ctx = Inr v" and "mirrors ctx results vars"
    and "portable number e" and "comparable ctx e"
    and scope: "is_object scope" "get_property scope ''results'' = resultScope k results"
      "get_property scope ''vars'' = JObj oid vars"
  shows "truthy (evaluateNode (translated e) scope) = v1_boolean v \<and>
    (\<not> bypassed ctx e \<longrightarrow> v = Val (evaluateNode (translated e) scope))"
  using assms(1,3,4)
proof (induction e arbitrary: v)
  case (XLit l)
  then show ?case by (cases l) (auto simp: truthy_boolean split: option.splits)
next
  case (XVar name)
  then have "resolveRef [''vars'', name] scope = member vars name"
    using scope property_member [of name oid vars] by (simp add: blocked_def is_object_def)
  with XVar assms(2) show ?case by (auto simp: mirrors_def truthy_boolean split: if_splits)
next
  case (XStepField i f)
  then obtain r where r: "map_of (ctx_steps ctx) i = Some r" and v: "v = Val (field_value f (sr_status r))"
    by (auto simp: statusFor_def bindE_eq_Inr split: option.splits)
  from r assms(2) have mirror: "mirrors_step results i r" by (auto simp: mirrors_def)
  have name: "\<not> blocked i" using XStepField by simp
  note ref = mirrored_field [OF mirror name scope(2,1)]
  have status: "sr_status r = StSucceeded \<or> sr_status r = step_status.StFailed \<or> sr_status r = StSkipped"
    using mirror by (auto simp: mirrors_step_def split: step_status.splits)
  show ?case
  proof (cases "f = FSkipped")
    case True
    have "resolveRef [''results'', i, ''succeeded''] scope =
          (if sr_status r = StSkipped then JUndef else JBool (sr_status r = StSucceeded))"
      "resolveRef [''results'', i, ''failed''] scope =
          (if sr_status r = StSkipped then JUndef else JBool (sr_status r = step_status.StFailed))"
      using ref [of FSucceeded] ref [of FFailed] by (simp_all add: field_name_def)
    with True v status show ?thesis by (auto simp del: resolveRef.simps)
  next
    case False
    have "evaluateNode (translated (XStepField i f)) scope =
        (if sr_status r = StSkipped then JUndef else field_value f (sr_status r))"
      using ref [OF False] False by (simp del: resolveRef.simps)
    with False v r XStepField(3) show ?thesis
      by (cases f) (auto simp: truthy_boolean split: if_splits)
  qed
next
  case (XStepOutput i key)
  then obtain r where r: "map_of (ctx_steps ctx) i = Some r" and v: "v = Val (member (sr_outputs r) key)"
    by (auto split: option.splits)
  from r assms(2) have mirror: "mirrors_step results i r" by (auto simp: mirrors_def)
  with XStepOutput(2) have "resolveRef [''results'', i, ''outputs'', key] scope = member (sr_outputs r) key"
    by (intro mirrored_output [OF mirror _ _ scope(2,1)]) auto
  with v show ?case by (simp add: truthy_boolean del: resolveRef.simps)
next
  case (XNot e)
  then obtain w where w: "evaluateExpression e ctx = Inr w" and v: "v = Val (JBool (\<not> v1_boolean w))"
    by (auto simp: bindE_eq_Inr)
  from XNot.IH [OF w] XNot.prems v show ?case by simp
next
  case (XBin op l r)
  then obtain w where w: "evaluateExpression l ctx = Inr w"
    by (auto simp: bindE_eq_Inr split: if_splits)
  note left = XBin.IH(1) [OF w]
  note right = XBin.IH(2)
  have parts: "portable number l" "portable number r" "comparable ctx l" "comparable ctx r"
    using XBin.prems by auto
  show ?case
  proof (cases "(op = OpAnd \<and> \<not> v1_boolean w) \<or> (op = OpOr \<and> v1_boolean w)")
    case True
    then have "v = Val (JBool (op = OpOr))" using XBin.prems(1) w by auto
    with True left [OF parts(1,3)] show ?thesis by auto
  next
    case False
    then obtain u where u: "evaluateExpression r ctx = Inr u"
      and v: "v = Val (JBool (case op of OpAnd \<Rightarrow> v1_boolean u | OpOr \<Rightarrow> v1_boolean u
        | OpEq \<Rightarrow> v1_equal w u | OpNe \<Rightarrow> \<not> v1_equal w u))"
      using XBin.prems(1) w by (cases op) (auto simp: bindE_eq_Inr split: if_splits)
    from left [OF parts(1,3)] right [OF u parts(2,4)] False v XBin.prems(3) show ?thesis
      by (cases op) auto
  qed
qed

text \<open>A build that answered a kind, a lint step that was bypassed, and the engine's state for them.\<close>

definition sample_context :: v1_context where
  "sample_context = \<lparr>ctx_steps =
     [(''build'', \<lparr>sr_stepId = ''build'', sr_status = StSucceeded, sr_outputs = [(''kind'', JStr ''web'')],
        sr_error = None, sr_startedAt = Some 0, sr_finishedAt = Some 1\<rparr>),
      (''lint'', \<lparr>sr_stepId = ''lint'', sr_status = StSkipped, sr_outputs = [],
        sr_error = None, sr_startedAt = None, sr_finishedAt = None\<rparr>)],
     ctx_vars = [(''kind'', JStr ''web'')]\<rparr>"

definition sample_settled :: node_result where
  "sample_settled = \<lparr>res_nodeId = ''build'', res_attempt = 1, res_status = Succeeded,
     res_outputs = JObj (Built 7 ''outputs'') [(''kind'', JStr ''web'')], res_error = None,
     res_startedAt = 0, res_settledAt = 1\<rparr>"

definition sample_state :: tick_state where
  "sample_state = thaw retry_env
     ((initialRunGraphState ''run'' ''snapshot'' [(''kind'', JStr ''web'')])\<lparr>nodeResults := [(''build'', sample_settled)]\<rparr>) []"

definition sample_condition :: string where
  "sample_condition = ''steps.lint.skipped && steps.build.outputs.kind == vars.kind''"

definition sample_tree :: v1_expr where
  "sample_tree = XBin OpAnd (XStepField ''lint'' FSkipped) (XBin OpEq (XStepOutput ''build'' ''kind'') (XVar ''kind''))"

lemma sample_parses: "parseExpression sample_condition = Inr sample_tree"
  by code_simp

text \<open>
  C22. A portable and comparable condition that the workflow's evaluator decides is decided the same
  way by the graph engine in its compiled form, at the settlement of any node: over engine results
  that mirror the step results, what \<open>translateV1Expression\<close> emits is tokenized, parsed and
  evaluated to the condition's truth value. Portable: it uses no name the engine blocks
  (\<open>constructor\<close>, \<open>prototype\<close>, \<open>__proto__\<close>), reads no output named like a method of \<open>Object\<close>, and its
  numbers are printed so that the tokenizer reads them back. Comparable: it does not read the
  \<open>status\<close> of a skipped step, and does not compare the \<open>succeeded\<close> or \<open>failed\<close> of one, since a
  skipped step has no result in the engine and these are \<open>undefined\<close> there. For other conditions
  the two evaluators may differ.
\<close>

theorem translation_preserves_meaning:
  assumes "parseExpression source = Inr e" and "evaluateExpression e ctx = Inr v"
    and "translateV1Expression number source = Inr emitted"
    and "mirrors ctx (ms_results s) (ms_variables s)"
    and "portable number e" and "comparable ctx e"
  shows "evaluateScopeExpression emitted
     (scope_object (snd (baseScope env s)) (settle_scope result k (fst (baseScope env s)))) = Inr (v1_boolean v)"
proof -
  have emitted: "emitted = emitExpression number e"
    using assms(1,3) by (simp add: translateV1Expression_def)
  have "emittable number e"
    by (rule emittable_portable [OF parseExpression_plain [OF assms(1)] assms(5)])
  then have tree: "parse_source emitted = Inr (translated e)"
    unfolding emitted by (rule parse_emitted_text)
  let ?scope = "scope_object (snd (baseScope env s)) (settle_scope result k (fst (baseScope env s)))"
  have "is_object ?scope" "get_property ?scope ''results'' = resultScope (next_oid s) (ms_results s)"
    "get_property ?scope ''vars'' = JObj (Built (first_oid env) ''variables'') (ms_variables s)"
    by (simp_all add: scope_object_def is_object_def get_property_def settle_scope_def baseScope_def Let_def)
  from translated_value [OF assms(2,4,5,6) this] tree show ?thesis
    by (simp add: evaluateScopeExpression_def)
qed

theorem translation_preserves_meaning_witness:
  "evaluateScopeExpression
      ''((!results.lint.succeeded && !results.lint.failed) && (results.build.outputs.kind == vars.kind))''
      (scope_object (snd (baseScope retry_env sample_state))
        (settle_scope sample_settled 9 (fst (baseScope retry_env sample_state)))) = Inr True"
proof -
  have "evaluateExpression sample_tree sample_context = Inr (Val (JBool True))" by code_simp
  moreover have "translateV1Expression (\<lambda>v. ''0'') sample_condition =
      Inr ''((!results.lint.succeeded && !results.lint.failed) && (results.build.outputs.kind == vars.kind))''"
    by code_simp
  moreover have "mirrors sample_context (ms_results sample_state) (ms_variables sample_state)"
    by (auto simp: mirrors_def mirrors_step_def sample_context_def sample_state_def thaw_def
        initialRunGraphState_def sample_settled_def split: if_splits)
  moreover have "portable (\<lambda>v. ''0'') sample_tree" "comparable sample_context sample_tree"
    by (simp_all add: sample_tree_def blocked_def object_methods_def sample_context_def)
  ultimately show ?thesis
    using translation_preserves_meaning [OF sample_parses] by force
qed

end
