(* ===== verification/WorkflowEngine.thy ===== *)
theory WorkflowEngine
  imports Compile
begin

section \<open>The engine of declarative workflows\<close>

text \<open>
  \<open>packages/workflow/src/engine.ts\<close>. \<open>runStep\<close> is a function of what its attempts see and
  answer. \<open>execute\<close> is a step relation on its local variables: a pass of the launch loop is one
  step, and so is each settlement of a task, since between two awaits nothing else runs. What a
  task settles with is a parameter of the relation, instantiated with \<open>runStep\<close>.
\<close>

subsection \<open>Running one step\<close>

datatype attempt_outcome =
  AttemptSucceeded "fields option" | AttemptFailed "fields option" "string option" | AttemptThrew string

text \<open>
  What the attempts of a step see and answer: the live step results and variables, the answer of
  the executor, \<open>None\<close> when it does not settle in time, whether the run's signal has aborted
  after an attempt and after its backoff, and the readings of the clock.
\<close>

record task_env =
  te_context :: "nat \<Rightarrow> v1_context"
  te_answer :: "nat \<Rightarrow> workflow_step \<Rightarrow> string option record_of \<Rightarrow> attempt_outcome option"
  te_aborted :: "nat \<Rightarrow> bool"
  te_aborted_asleep :: "nat \<Rightarrow> bool"
  te_started :: time
  te_finished :: time

fun interpolate_entries :: "('v \<Rightarrow> 'e + 'w) \<Rightarrow> 'v record_of \<Rightarrow> 'e + 'w record_of" where
  "interpolate_entries f [] = Inr []"
| "interpolate_entries f ((k, v) # m) =
     bindE (f v) (\<lambda>w. bindE (interpolate_entries f m) (\<lambda>ws. Inr ((k, w) # ws)))"

definition interpolateStringRecord ::
  "(rat \<Rightarrow> string) \<Rightarrow> v1_context \<Rightarrow> string record_of \<Rightarrow> v1_error + string record_of" where
  "interpolateStringRecord number ctx = interpolate_entries (\<lambda>v. interpolate number v ctx)"

definition interpolateValues :: "(rat \<Rightarrow> string) \<Rightarrow> v1_context \<Rightarrow> fields \<Rightarrow> v1_error + fields" where
  "interpolateValues number ctx = interpolate_entries (\<lambda>v.
     case v of JStr t \<Rightarrow> bindE (interpolate number t ctx) (\<lambda>u. Inr (JStr u)) | _ \<Rightarrow> Inr v)"

definition optionalE :: "('a \<Rightarrow> 'e + 'b) \<Rightarrow> 'a option \<Rightarrow> 'e + 'b option" where
  "optionalE f x = (case x of None \<Rightarrow> Inr None | Some a \<Rightarrow> bindE (f a) (\<lambda>b. Inr (Some b)))"

text \<open>
  The step with its placeholders resolved, and, for a command, the generated variables that are
  merged into its environment; a value that cannot be written as text is \<open>undefined\<close> there.
\<close>

definition interpolateStep ::
  "(rat \<Rightarrow> string) \<Rightarrow> workflow_step \<Rightarrow> v1_context \<Rightarrow> v1_error + workflow_step \<times> string option record_of" where
  "interpolateStep number s ctx =
     (case st_config s of
        AgentStep agent goal route tools turns \<Rightarrow>
          bindE (interpolate number goal ctx) (\<lambda>g.
            Inr (s\<lparr>st_config := AgentStep agent g route tools turns\<rparr>, []))
      | CommandStep command cwd env \<Rightarrow>
          bindE (interpolateForShell number command ctx) (\<lambda>shell.
          bindE (optionalE (interpolateStringRecord number ctx) env) (\<lambda>declared.
          bindE (optionalE (\<lambda>d. interpolate number d ctx) cwd) (\<lambda>dir.
            Inr (s\<lparr>st_config := CommandStep (si_command shell) dir declared\<rparr>, si_env shell))))
      | ActionStep action args \<Rightarrow>
          bindE (optionalE (interpolateValues number ctx) args) (\<lambda>a.
            Inr (s\<lparr>st_config := ActionStep action a\<rparr>, []))
      | ApprovalStep description \<Rightarrow>
          bindE (interpolate number description ctx) (\<lambda>d.
            Inr (s\<lparr>st_config := ApprovalStep d\<rparr>, [])))"

definition timed_out :: "(rat \<Rightarrow> string) \<Rightarrow> string \<Rightarrow> int \<Rightarrow> string" where
  "timed_out number i ms = ''step '' @ [CHR 0x27] @ i @ [CHR 0x27] @ '' timed out after '' @ number (of_int ms) @ ''ms''"

text \<open>
  The race of the executor against the timeout; \<open>None\<close> when neither settles. The timeout is one that
  \<open>AbortSignal.timeout\<close> accepts, below 2 to the power of 32 milliseconds.
\<close>

definition attempt_settles ::
  "(rat \<Rightarrow> string) \<Rightarrow> task_env \<Rightarrow> workflow_step \<Rightarrow> string option record_of \<Rightarrow> nat \<Rightarrow> attempt_outcome option" where
  "attempt_settles number env s generated attempt =
     (case te_answer env attempt s generated of
        Some out \<Rightarrow> Some out
      | None \<Rightarrow> map_option (\<lambda>ms. AttemptThrew (timed_out number (st_id s) ms)) (st_timeoutMs s))"

definition step_succeeded :: "task_env \<Rightarrow> workflow_step \<Rightarrow> fields option \<Rightarrow> step_result" where
  "step_succeeded env s outputs = \<lparr>sr_stepId = st_id s, sr_status = StSucceeded,
     sr_outputs = (case outputs of None \<Rightarrow> [] | Some x \<Rightarrow> x), sr_error = None,
     sr_startedAt = Some (te_started env), sr_finishedAt = Some (te_finished env)\<rparr>"

definition step_failed :: "task_env \<Rightarrow> workflow_step \<Rightarrow> fields \<Rightarrow> string option \<Rightarrow> step_result" where
  "step_failed env s outputs err = \<lparr>sr_stepId = st_id s, sr_status = step_status.StFailed,
     sr_outputs = outputs, sr_error = err,
     sr_startedAt = Some (te_started env), sr_finishedAt = Some (te_finished env)\<rparr>"

text \<open>
  The loop over the attempts, \<open>n\<close> of which are left: an error of the interpolation leaves the
  loop, an error of the executor counts as a failure and keeps the outputs of the last one.
\<close>

fun run_attempts ::
  "(rat \<Rightarrow> string) \<Rightarrow> task_env \<Rightarrow> workflow_step \<Rightarrow> nat \<Rightarrow> nat \<Rightarrow> fields \<Rightarrow> string option \<Rightarrow>
   (v1_error + step_result) option" where
  "run_attempts number env s 0 attempt outputs err = Some (Inr (step_failed env s outputs err))"
| "run_attempts number env s (Suc n) attempt outputs err =
     (case interpolateStep number s (te_context env attempt) of
        Inl e \<Rightarrow> Some (Inl e)
      | Inr (ready, generated) \<Rightarrow>
          (case attempt_settles number env ready generated attempt of
             None \<Rightarrow> None
           | Some (AttemptSucceeded x) \<Rightarrow> Some (Inr (step_succeeded env s x))
           | Some out \<Rightarrow>
               (let failed = (case out of
                      AttemptFailed x e \<Rightarrow> (case x of None \<Rightarrow> [] | Some y \<Rightarrow> y, e)
                    | AttemptThrew m \<Rightarrow> (outputs, Some m)) in
                if te_aborted env attempt \<or> (n \<noteq> 0 \<and> te_aborted_asleep env attempt)
                then Some (Inr (step_failed env s (fst failed) (snd failed)))
                else run_attempts number env s n (attempt + 1) (fst failed) (snd failed))))"

definition runStep :: "(rat \<Rightarrow> string) \<Rightarrow> task_env \<Rightarrow> workflow_step \<Rightarrow> (v1_error + step_result) option" where
  "runStep number env s =
     run_attempts number env s
       (case st_retry s of None \<Rightarrow> 1 | Some r \<Rightarrow> nat \<lfloor>maxAttempts r\<rfloor>) 1 [] None"

subsection \<open>The state of a run\<close>

datatype workflow_event =
  StepStarted string | StepCompleted string step_status | StepSkipped string string

text \<open>
  Where \<open>execute\<close> stands: at the head of its loop, in the race of the tasks and the abort signal
  (has a task settled since?), waiting for the tasks in flight after a cancellation, or done.
\<close>

datatype engine_phase = AtHead | Racing bool | Draining | Returned | Threw v1_error

record engine_state =
  ws_results :: "step_result record_of"
  ws_pending :: "string list"
  ws_inflight :: "string list"
  ws_tainted :: "string list"
  ws_events :: "workflow_event list"
  ws_aborted :: bool
  ws_cancelled :: bool
  ws_phase :: engine_phase

record engine_context =
  wx_variables :: fields
  wx_concurrency :: "rat option"

definition engine_variables :: "workflow_definition \<Rightarrow> engine_context \<Rightarrow> fields" where
  "engine_variables d ctx =
     spread (case wd_variables d of None \<Rightarrow> [] | Some m \<Rightarrow> map (\<lambda>(k, v). (k, JStr v)) m) (wx_variables ctx)"

definition eval_context :: "workflow_definition \<Rightarrow> engine_context \<Rightarrow> step_result record_of \<Rightarrow> v1_context" where
  "eval_context d ctx results = \<lparr>ctx_steps = results, ctx_vars = engine_variables d ctx\<rparr>"

definition initial_state :: "workflow_definition \<Rightarrow> bool \<Rightarrow> engine_state" where
  "initial_state d aborted = \<lparr>ws_results = [], ws_pending = dedup (map st_id (wd_steps d)),
     ws_inflight = [], ws_tainted = [], ws_events = [], ws_aborted = aborted, ws_cancelled = aborted,
     ws_phase = AtHead\<rparr>"

subsection \<open>Eligibility\<close>

definition depsSettled :: "step_result record_of \<Rightarrow> workflow_step \<Rightarrow> bool" where
  "depsSettled results s \<longleftrightarrow> list_all (\<lambda>dep. map_of results dep \<noteq> None) (deps_of s)"

datatype eligibility = Eligible | Ineligible string bool

definition continues :: "workflow_step option \<Rightarrow> bool" where
  "continues s \<longleftrightarrow> Option.bind s st_continueOnFailure = Some True"

definition dep_ok :: "workflow_step list \<Rightarrow> string \<Rightarrow> step_result \<Rightarrow> bool" where
  "dep_ok steps dep r \<longleftrightarrow>
     sr_status r = StSucceeded \<or> (sr_status r = step_status.StFailed \<and> continues (step_of steps dep))"

text \<open>The results of the dependencies, all settled when \<open>isEligible\<close> is called.\<close>

definition bad_deps :: "workflow_step list \<Rightarrow> step_result record_of \<Rightarrow> workflow_step \<Rightarrow> (string \<times> step_result) list" where
  "bad_deps steps results s =
     filter (\<lambda>(dep, r). \<not> dep_ok steps dep r) (map (\<lambda>dep. (dep, the (map_of results dep))) (deps_of s))"

definition causes_taint :: "string list \<Rightarrow> string \<times> step_result \<Rightarrow> bool" where
  "causes_taint tainted p \<longleftrightarrow> sr_status (snd p) = step_status.StFailed \<or> fst p \<in> set tainted"

definition isEligible ::
  "workflow_step list \<Rightarrow> v1_context \<Rightarrow> string list \<Rightarrow> workflow_step \<Rightarrow> v1_error + eligibility" where
  "isEligible steps ctx tainted s =
     (case st_when s of
        Some w \<Rightarrow>
          bindE (parseExpression w) (\<lambda>e.
          bindE (evaluateExpression e ctx) (\<lambda>v.
            Inr (if v1_boolean v then Eligible
                 else Ineligible (''when condition '' @ [CHR 0x27] @ w @ [CHR 0x27] @ '' evaluated to false'') False)))
      | None \<Rightarrow>
          Inr (case bad_deps steps (ctx_steps ctx) s of
                 [] \<Rightarrow> Eligible
               | (dep, r) # others \<Rightarrow>
                   Ineligible (''dependency '' @ [CHR 0x27] @ dep @ [CHR 0x27] @ '' did not succeed (status: '' @
                       step_status_text (sr_status r) @ '')'')
                     (list_ex (causes_taint tainted) ((dep, r) # others))))"

subsection \<open>A pass of the launch loop\<close>

definition skipped_result :: "string \<Rightarrow> string \<Rightarrow> step_result" where
  "skipped_result i err = \<lparr>sr_stepId = i, sr_status = StSkipped, sr_outputs = [], sr_error = Some err,
     sr_startedAt = None, sr_finishedAt = None\<rparr>"

definition set_result :: "string \<Rightarrow> step_result \<Rightarrow> engine_state \<Rightarrow> engine_state" where
  "set_result i r s = s\<lparr>ws_results := AList.update i r (ws_results s)\<rparr>"

definition taint :: "string \<Rightarrow> engine_state \<Rightarrow> engine_state" where
  "taint i s = s\<lparr>ws_tainted := List.insert i (ws_tainted s)\<rparr>"

definition notify :: "workflow_event \<Rightarrow> engine_state \<Rightarrow> engine_state" where
  "notify e s = s\<lparr>ws_events := ws_events s @ [e]\<rparr>"

definition skip_step :: "string \<Rightarrow> string \<Rightarrow> bool \<Rightarrow> engine_state \<Rightarrow> engine_state" where
  "skip_step i reason tainted s =
     (let s1 = set_result i (skipped_result i reason) s in
      notify (StepSkipped i reason) (if tainted then taint i s1 else s1))"

definition launch ::
  "workflow_definition \<Rightarrow> engine_context \<Rightarrow> string \<Rightarrow> engine_state \<Rightarrow> v1_error + engine_state" where
  "launch d ctx i s =
     (let s0 = s\<lparr>ws_pending := removeAll i (ws_pending s)\<rparr>;
          st = the (step_of (wd_steps d) i) in
      bindE (isEligible (wd_steps d) (eval_context d ctx (ws_results s)) (ws_tainted s) st) (\<lambda>el.
        case el of
          Ineligible reason tainted \<Rightarrow> Inr (skip_step i reason tainted s0)
        | Eligible \<Rightarrow>
            Inr ((notify (StepStarted i) s0)\<lparr>ws_inflight := ws_inflight s @ [i]\<rparr>)))"

definition within_capacity :: "engine_context \<Rightarrow> nat \<Rightarrow> 'a list \<Rightarrow> 'a list" where
  "within_capacity ctx running ready =
     (case wx_concurrency ctx of
        None \<Rightarrow> ready
      | Some limit \<Rightarrow> if limit \<le> 0 then ready else take (nat \<lfloor>max 0 (limit - of_nat running)\<rfloor>) ready)"

definition ready_steps :: "workflow_definition \<Rightarrow> engine_state \<Rightarrow> string list" where
  "ready_steps d s = filter (\<lambda>i. depsSettled (ws_results s) (the (step_of (wd_steps d) i))) (ws_pending s)"

definition to_launch :: "workflow_definition \<Rightarrow> engine_context \<Rightarrow> engine_state \<Rightarrow> string list" where
  "to_launch d ctx s = within_capacity ctx (length (ws_inflight s)) (ready_steps d s)"

definition give_up :: "engine_state \<Rightarrow> engine_state" where
  "give_up s =
     (fold (\<lambda>i s. taint i (set_result i (skipped_result i ''unresolved dependency graph'') s)) (ws_pending s) s)
       \<lparr>ws_pending := []\<rparr>"

definition at_head :: "workflow_definition \<Rightarrow> engine_context \<Rightarrow> engine_state \<Rightarrow> v1_error + engine_state" where
  "at_head d ctx s =
     (if ws_pending s = [] \<or> ws_cancelled s then
        Inr (s\<lparr>ws_phase := (if ws_cancelled s then Draining else Returned)\<rparr>)
      else if to_launch d ctx s = [] \<and> ws_inflight s = [] then Inr ((give_up s)\<lparr>ws_phase := Returned\<rparr>)
      else bindE (foldE (launch d ctx) (to_launch d ctx s) s) (\<lambda>s1.
        Inr (s1\<lparr>ws_phase := (if ws_inflight s1 = [] then AtHead else Racing False)\<rparr>)))"

subsection \<open>Tasks and the end of the run\<close>

definition task_done :: "workflow_step \<Rightarrow> step_result \<Rightarrow> engine_state \<Rightarrow> engine_state" where
  "task_done st r s =
     (let s1 = set_result (st_id st) r s;
          s2 = (if sr_status r = step_status.StFailed \<and> \<not> continues (Some st) then taint (st_id st) s1 else s1) in
      (notify (StepCompleted (st_id st) (sr_status r)) s2)\<lparr>ws_inflight := removeAll (st_id st) (ws_inflight s)\<rparr>)"

definition cancel_pending :: "engine_state \<Rightarrow> engine_state" where
  "cancel_pending s =
     fold (\<lambda>i s. if map_of (ws_results s) i = None
         then set_result i (skipped_result i ''workflow cancelled'') s else s) (ws_pending s) s"

text \<open>
  A task that rejects ends the run with the error. The code throws it out of the race when the race
  is still open; when another task or the signal has won it already, the loop goes on, but the
  promise that \<open>task.finally\<close> returns rejects without a handler, which ends the process by Node's
  default. The relation has the error end the run in both cases.
\<close>

inductive engine_step ::
  "(workflow_step \<Rightarrow> v1_error + step_result \<Rightarrow> bool) \<Rightarrow> workflow_definition \<Rightarrow> engine_context \<Rightarrow>
   engine_state \<Rightarrow> engine_state \<Rightarrow> bool"
  for runs :: "workflow_step \<Rightarrow> v1_error + step_result \<Rightarrow> bool" and d :: workflow_definition and ctx :: engine_context
  where
    pass: "ws_phase s = AtHead \<Longrightarrow> at_head d ctx s = Inr s' \<Longrightarrow> engine_step runs d ctx s s'"
  | pass_throws: "ws_phase s = AtHead \<Longrightarrow> at_head d ctx s = Inl e \<Longrightarrow> engine_step runs d ctx s (s\<lparr>ws_phase := Threw e\<rparr>)"
  | settle: "ws_phase s = Racing b \<Longrightarrow> i \<in> set (ws_inflight s) \<Longrightarrow> step_of (wd_steps d) i = Some st \<Longrightarrow>
      runs st (Inr r) \<Longrightarrow> engine_step runs d ctx s ((task_done st r s)\<lparr>ws_phase := Racing True\<rparr>)"
  | task_throws: "ws_phase s = Racing b \<Longrightarrow> i \<in> set (ws_inflight s) \<Longrightarrow> step_of (wd_steps d) i = Some st \<Longrightarrow>
      runs st (Inl e) \<Longrightarrow>
      engine_step runs d ctx s (s\<lparr>ws_inflight := removeAll i (ws_inflight s), ws_phase := Threw e\<rparr>)"
  | abort: "ws_phase s = Racing b \<Longrightarrow> \<not> ws_aborted s \<Longrightarrow> engine_step runs d ctx s (s\<lparr>ws_aborted := True\<rparr>)"
  | raced: "ws_phase s = Racing b \<Longrightarrow> b \<or> ws_aborted s \<Longrightarrow>
      engine_step runs d ctx s (s\<lparr>ws_cancelled := ws_aborted s, ws_phase := AtHead\<rparr>)"
  | drain: "ws_phase s = Draining \<Longrightarrow> i \<in> set (ws_inflight s) \<Longrightarrow> step_of (wd_steps d) i = Some st \<Longrightarrow>
      runs st (Inr r) \<Longrightarrow> engine_step runs d ctx s (task_done st r s)"
  | drain_throws: "ws_phase s = Draining \<Longrightarrow> i \<in> set (ws_inflight s) \<Longrightarrow> step_of (wd_steps d) i = Some st \<Longrightarrow>
      runs st (Inl e) \<Longrightarrow> engine_step runs d ctx s (s\<lparr>ws_inflight := removeAll i (ws_inflight s)\<rparr>)"
  | drained: "ws_phase s = Draining \<Longrightarrow> ws_inflight s = [] \<Longrightarrow>
      engine_step runs d ctx s ((cancel_pending s)\<lparr>ws_phase := Returned\<rparr>)"

text \<open>What a task of the engine can settle with.\<close>

definition engine_runs :: "(rat \<Rightarrow> string) \<Rightarrow> workflow_step \<Rightarrow> v1_error + step_result \<Rightarrow> bool" where
  "engine_runs number st x \<longleftrightarrow> (\<exists>env. runStep number env st = Some x)"

datatype run_outcome = RunSucceeded | RunFailed | RunCancelled

definition computeStatus :: "workflow_definition \<Rightarrow> step_result record_of \<Rightarrow> string list \<Rightarrow> run_outcome" where
  "computeStatus d results tainted =
     (if list_ex (\<lambda>st. case map_of results (st_id st) of
            None \<Rightarrow> True
          | Some r \<Rightarrow> (sr_status r = step_status.StFailed \<and> \<not> continues (Some st)) \<or>
              (sr_status r = StSkipped \<and> st_id st \<in> set tainted)) (terminal_steps (wd_steps d))
      then RunFailed else RunSucceeded)"

definition run_status :: "workflow_definition \<Rightarrow> engine_state \<Rightarrow> run_outcome" where
  "run_status d s = (if ws_cancelled s then RunCancelled else computeStatus d (ws_results s) (ws_tainted s))"

definition transition_target :: "workflow_definition \<Rightarrow> run_outcome \<Rightarrow> string option" where
  "transition_target d out = Option.bind (wd_transitions d) (\<lambda>t.
     case out of RunSucceeded \<Rightarrow> wt_success t | RunFailed \<Rightarrow> wt_failure t | RunCancelled \<Rightarrow> wt_blocked t)"

end
