(* ===== verification/CompileProps.thy ===== *)
theory CompileProps
  imports Compile
begin

section \<open>What the compiler guarantees\<close>

text \<open>
  Every workflow the parser accepts compiles, unless a step id lies in the compiler's namespace,
  to a graph the validator accepts, and the condition of a step is translated to one that means
  the same.
\<close>

subsection \<open>Ranks of the steps\<close>

definition dag_rank :: "workflow_step list \<Rightarrow> string \<Rightarrow> nat" where
  "dag_rank steps i = card {y. (i, y) \<in> (step_edges_of steps)\<^sup>+}"

lemma step_edges_finite: "finite (step_edges_of steps)"
proof -
  have "step_edges_of steps = (\<Union>s \<in> set steps. (\<lambda>d. (st_id s, d)) ` set (deps_of s))"
    by (auto simp: step_edges_of_def)
  then show ?thesis by simp
qed

lemma below_known:
  assumes "is_dag steps"
  shows "{y. (i, y) \<in> (step_edges_of steps)\<^sup>+} \<subseteq> set (map st_id steps) - {i}"
proof
  fix y
  assume "y \<in> {y. (i, y) \<in> (step_edges_of steps)\<^sup>+}"
  then have path: "(i, y) \<in> (step_edges_of steps)\<^sup>+" by simp
  then obtain z where "(z, y) \<in> step_edges_of steps" by (cases rule: trancl.cases) auto
  then have "y \<in> set (map st_id steps)" using assms by (auto simp: step_edges_iff is_dag_def)
  moreover have "y \<noteq> i" using path assms by (auto simp: is_dag_def acyclic_def)
  ultimately show "y \<in> set (map st_id steps) - {i}" by simp
qed

lemma dag_rank_less:
  assumes "is_dag steps" and "(x, y) \<in> step_edges_of steps"
  shows "dag_rank steps y < dag_rank steps x"
  unfolding dag_rank_def
proof (rule psubset_card_mono)
  let ?below = "\<lambda>i. {y. (i, y) \<in> (step_edges_of steps)\<^sup>+}"
  show "finite (?below x)" using below_known [OF assms(1)] by (rule finite_subset) simp
  have "y \<in> ?below x" "y \<notin> ?below y"
    using assms by (auto simp: is_dag_def acyclic_def)
  moreover have "?below y \<subseteq> ?below x" using assms(2) by (auto intro: trancl_into_trancl2)
  ultimately show "?below y \<subset> ?below x" by blast
qed

lemma dag_rank_le: "is_dag steps \<Longrightarrow> dag_rank steps i \<le> length steps"
proof -
  assume dag: "is_dag steps"
  have "dag_rank steps i \<le> card (set (map st_id steps))"
    unfolding dag_rank_def using below_known [OF dag, of i] by (intro card_mono) auto
  also have "\<dots> \<le> length steps" using card_length [of "map st_id steps"] by simp
  finally show ?thesis .
qed

lemma dag_rank_step: "is_dag steps \<Longrightarrow> s \<in> set steps \<Longrightarrow> dag_rank steps (st_id s) < length steps"
proof -
  assume dag: "is_dag steps" and s: "s \<in> set steps"
  have "dag_rank steps (st_id s) < card (set (map st_id steps))"
    unfolding dag_rank_def using below_known [OF dag, of "st_id s"] s by (intro psubset_card_mono) auto
  also have "\<dots> \<le> length steps" using card_length [of "map st_id steps"] by simp
  finally show ?thesis .
qed

lemma dep_edge: "s \<in> set steps \<Longrightarrow> d \<in> set (deps_of s) \<Longrightarrow> (st_id s, d) \<in> step_edges_of steps"
  by (auto simp: step_edges_iff)

lemma dag_induct [consumes 2, case_names step]:
  assumes "is_dag steps" and "s \<in> set steps"
    and "\<And>s. s \<in> set steps \<Longrightarrow> (\<And>d. d \<in> set steps \<Longrightarrow> st_id d \<in> set (deps_of s) \<Longrightarrow> P d) \<Longrightarrow> P s"
  shows "P s"
  using assms(2)
proof (induction "dag_rank steps (st_id s)" arbitrary: s rule: less_induct)
  case less
  show ?case
  proof (rule assms(3) [OF less.prems])
    fix d
    assume d: "d \<in> set steps" "st_id d \<in> set (deps_of s)"
    then show "P d"
      using dag_rank_less [OF assms(1) dep_edge [OF less.prems d(2)]] by (intro less.hyps)
  qed
qed

subsection \<open>Benign skips\<close>

lemma step_of_step:
  assumes "distinct (map st_id steps)" and "s \<in> set steps"
  shows "step_of steps (st_id s) = Some s"
proof -
  let ?m = "rev (map (\<lambda>s. (st_id s, s)) steps)"
  have "map fst ?m = rev (map st_id steps)" by (simp add: rev_map)
  with assms(1) have "distinct (map fst ?m)" by simp
  moreover have "(st_id s, s) \<in> set ?m" using assms(2) by auto
  ultimately show ?thesis unfolding step_of_def by (rule map_of_is_SomeI)
qed

lemma step_of_None: "i \<notin> set (map st_id steps) \<Longrightarrow> step_of steps i = None"
  by (auto simp: step_of_def map_of_eq_None_iff)

lemma skip_capable_stable:
  assumes "is_dag steps"
  shows "dag_rank steps i < n \<Longrightarrow> skip_capable_within n steps i = skip_capable_within (Suc n) steps i"
proof (induction n arbitrary: i)
  case (Suc n)
  show ?case
  proof (cases "step_of steps i")
    case (Some s)
    then have s: "s \<in> set steps" "st_id s = i"
      by (auto simp: step_of_def dest!: map_of_SomeD)
    have "skip_capable_within n steps d = skip_capable_within (Suc n) steps d" if "d \<in> set (deps_of s)" for d
      using Suc dag_rank_less [OF assms dep_edge [OF s(1) that]] s(2) by simp
    then have "list_ex (skip_capable_within n steps) (deps_of s) =
        list_ex (skip_capable_within (Suc n) steps) (deps_of s)"
      by (induction "deps_of s") (auto simp: list_ex_iff)
    with Some show ?thesis by simp
  qed simp
qed simp

lemma skip_capable_step:
  assumes "is_dag steps" and "s \<in> set steps"
  shows "isSkipCapable steps (st_id s) \<longleftrightarrow>
    st_when s \<noteq> None \<or> list_ex (isSkipCapable steps) (deps_of s)"
proof -
  have "skip_capable_within (length steps) steps d = isSkipCapable steps d" if "d \<in> set (deps_of s)" for d
  proof -
    have "d \<in> set (map st_id steps)" using assms that by (auto simp: is_dag_def)
    then obtain t where "t \<in> set steps" "st_id t = d" by auto
    with dag_rank_step [OF assms(1)] have "dag_rank steps d < length steps" by auto
    from skip_capable_stable [OF assms(1) this] show ?thesis by (simp add: isSkipCapable_def)
  qed
  then have "list_ex (skip_capable_within (length steps) steps) (deps_of s) =
      list_ex (isSkipCapable steps) (deps_of s)"
    by (auto simp: list_ex_iff)
  moreover have "step_of steps (st_id s) = Some s"
    using assms by (intro step_of_step) (simp_all add: is_dag_def)
  ultimately show ?thesis by (simp add: isSkipCapable_def)
qed

subsection \<open>Ids of transitions\<close>

lemma digits_value_snoc: "digits_value acc (xs @ [c]) = 10 * digits_value acc xs + digit_value c"
  by (induction acc xs rule: digits_value.induct) auto

lemma digit_char_digit: "d < 10 \<Longrightarrow> is_digit (digit_char d) \<and> digit_value (digit_char d) = d"
  by (simp add: is_digit_def digit_char_def digit_value_def Let_def)

lemma show_nat_digits: "list_all is_digit (show_nat n) \<and> digits_value 0 (show_nat n) = n"
proof (induction n rule: show_nat.induct)
  case (1 n)
  show ?case
  proof (cases "n < 10")
    case True
    then show ?thesis using digit_char_digit [OF True] by (simp add: show_nat.simps [of n])
  next
    case False
    have "n mod 10 < 10" by simp
    with 1 [OF False] digit_char_digit [OF this] False show ?thesis
      by (simp add: show_nat.simps [of n] digits_value_snoc)
  qed
qed

lemma transition_ids_differ:
  assumes "tr_id (transition_of (j, e)) = tr_id (transition_of (k, e'))"
  shows "j = k"
proof -
  obtain a b c a' b' c' where e: "e = (a, b, c)" "e' = (a', b', c')" by (cases e; cases e')
  let ?rest = "\<lambda>k s t. show_nat k @ CHR '':'' # s @ ''->'' @ t"
  from assms e have "?rest j a b = ?rest k a' b'" by (simp add: transition_of_def)
  then have "takeWhile is_digit (?rest j a b) = takeWhile is_digit (?rest k a' b')" by simp
  moreover have "takeWhile is_digit (?rest n s t) = show_nat n" for n s t
    using show_nat_digits [of n] by (subst takeWhile_append2) (auto simp: list_all_iff is_digit_def)
  ultimately have "show_nat j = show_nat k" by simp
  then show ?thesis using show_nat_digits by metis
qed

lemma transition_ids_distinct: "distinct (map tr_id (map transition_of (enumerate n es)))"
proof (induction es arbitrary: n)
  case (Cons e es)
  have "tr_id (transition_of (n, e)) \<notin> tr_id ` transition_of ` set (enumerate (Suc n) es)"
  proof
    assume "tr_id (transition_of (n, e)) \<in> tr_id ` transition_of ` set (enumerate (Suc n) es)"
    then obtain k e' where "(k, e') \<in> set (enumerate (Suc n) es)"
      and "tr_id (transition_of (n, e)) = tr_id (transition_of (k, e'))" by auto
    then show False
      using transition_ids_differ [of n e k e'] by (auto simp: in_set_enumerate_eq)
  qed
  with Cons show ?case by (simp add: image_image)
qed simp

subsection \<open>Ids of nodes\<close>

lemma node_id_simps [simp]:
  "starts_with (whenNodeId i) ''__''" "starts_with (skipNodeId i) ''__''" "starts_with (doneNodeId i) ''__''"
  "starts_with startNodeId ''__''" "starts_with successNodeId ''__''"
  "whenNodeId i = whenNodeId j \<longleftrightarrow> i = j" "skipNodeId i = skipNodeId j \<longleftrightarrow> i = j" "doneNodeId i = doneNodeId j \<longleftrightarrow> i = j"
  "whenNodeId i \<noteq> skipNodeId j" "skipNodeId i \<noteq> whenNodeId j" "whenNodeId i \<noteq> doneNodeId j" "doneNodeId i \<noteq> whenNodeId j"
  "skipNodeId i \<noteq> doneNodeId j" "doneNodeId i \<noteq> skipNodeId j"
  "whenNodeId i \<noteq> startNodeId" "startNodeId \<noteq> whenNodeId i" "whenNodeId i \<noteq> successNodeId" "successNodeId \<noteq> whenNodeId i"
  "skipNodeId i \<noteq> startNodeId" "startNodeId \<noteq> skipNodeId i" "skipNodeId i \<noteq> successNodeId" "successNodeId \<noteq> skipNodeId i"
  "doneNodeId i \<noteq> startNodeId" "startNodeId \<noteq> doneNodeId i" "doneNodeId i \<noteq> successNodeId" "successNodeId \<noteq> doneNodeId i"
  "startNodeId \<noteq> successNodeId" "successNodeId \<noteq> startNodeId"
  by (simp_all add: whenNodeId_def skipNodeId_def doneNodeId_def startNodeId_def successNodeId_def)

text \<open>The steps the compiler takes: a DAG none of whose ids lies in the compiler's namespace.\<close>

definition compilable :: "workflow_step list \<Rightarrow> bool" where
  "compilable steps \<longleftrightarrow> is_dag steps \<and> steps \<noteq> [] \<and> (\<forall>s \<in> set steps. \<not> starts_with (st_id s) ''__'')"

lemma compilable_ids:
  assumes "compilable steps" and "s \<in> set steps"
  shows "st_id s \<noteq> whenNodeId i" "st_id s \<noteq> skipNodeId i" "st_id s \<noteq> doneNodeId i"
    "st_id s \<noteq> startNodeId" "st_id s \<noteq> successNodeId"
  using assms node_id_simps(1-5) unfolding compilable_def by metis+

lemma distinct_concat_blocks:
  assumes "distinct (map key xs)" and "\<And>x. x \<in> set xs \<Longrightarrow> distinct (f x)"
    and "\<And>x y z. x \<in> set xs \<Longrightarrow> y \<in> set xs \<Longrightarrow> z \<in> set (f x) \<Longrightarrow> z \<in> set (f y) \<Longrightarrow> key x = key y"
  shows "distinct (concat (map f xs))"
  using assms
proof (induction xs)
  case (Cons x xs)
  have "set (f x) \<inter> set (concat (map f xs)) = {}"
  proof (rule ccontr)
    assume "set (f x) \<inter> set (concat (map f xs)) \<noteq> {}"
    then obtain y z where y: "y \<in> set xs" and z: "z \<in> set (f x)" "z \<in> set (f y)" by auto
    then have "key x = key y" by (intro Cons.prems(3) [of x y z]) auto
    with y Cons.prems(1) show False by (metis distinct.simps(2) image_eqI list.simps(9) set_map)
  qed
  moreover have "distinct (concat (map f xs))"
    using Cons.prems by (intro Cons.IH) auto
  ultimately show ?case using Cons.prems(2) [of x] by simp
qed simp

lemma step_node_ids:
  "map node_id (step_nodes steps s) =
     st_id s # (if st_when s \<noteq> None then [whenNodeId (st_id s), skipNodeId (st_id s)]
       else if isSkipCapable steps (st_id s) then [skipNodeId (st_id s)] else [])"
  by (simp add: step_nodes_def step_node_def noop_def)

lemma compiled_node_ids:
  "map node_id (compiled_nodes steps) =
     startNodeId # concat (map (\<lambda>s. map node_id (step_nodes steps s)) steps) @
     map (\<lambda>s. doneNodeId (st_id s)) (terminal_steps steps) @ [successNodeId]"
  by (simp add: compiled_nodes_def noop_def success_node_def map_concat o_def)

lemma in_step_node_ids:
  "x \<in> set (map node_id (step_nodes steps s)) \<longleftrightarrow>
     x = st_id s \<or> (st_when s \<noteq> None \<and> x = whenNodeId (st_id s)) \<or>
     ((st_when s \<noteq> None \<or> isSkipCapable steps (st_id s)) \<and> x = skipNodeId (st_id s))"
  unfolding step_node_ids by auto

lemma compiled_ids_distinct:
  assumes "compilable steps"
  shows "distinct (map node_id (compiled_nodes steps))"
proof -
  note ids = compilable_ids [OF assms]
  let ?block = "\<lambda>s. map node_id (step_nodes steps s)"
  from assms have "distinct (map st_id steps)" by (simp add: compilable_def is_dag_def)
  then have blocks: "distinct (concat (map ?block steps))"
  proof (rule distinct_concat_blocks)
    fix s assume "s \<in> set steps"
    then show "distinct (?block s)" unfolding step_node_ids using ids [of s] by auto
  next
    fix s t x
    assume s: "s \<in> set steps" "t \<in> set steps" and x: "x \<in> set (?block s)" "x \<in> set (?block t)"
    from x(1) consider "x = st_id s" | "x = whenNodeId (st_id s)" | "x = skipNodeId (st_id s)"
      unfolding in_step_node_ids by blast
    then show "st_id s = st_id t"
      using x(2) ids(1,2) [OF s(1)] ids(1,2) [OF s(2)] unfolding in_step_node_ids
      by cases (metis node_id_simps(6,7,9,10))+
  qed
  have dones: "distinct (map (\<lambda>s. doneNodeId (st_id s)) (terminal_steps steps))"
  proof -
    have "distinct (map st_id (terminal_steps steps))"
      using assms by (simp add: terminal_steps_def compilable_def is_dag_def distinct_map_filter)
    then show ?thesis by (auto simp: distinct_map inj_on_def)
  qed
  have outside: "x \<noteq> startNodeId \<and> x \<noteq> successNodeId \<and> (\<forall>i. x \<noteq> doneNodeId i)"
    if "x \<in> set (concat (map ?block steps))" for x
  proof -
    from that obtain s where s: "s \<in> set steps" and "x \<in> set (?block s)" by auto
    then consider "x = st_id s" | "x = whenNodeId (st_id s)" | "x = skipNodeId (st_id s)"
      unfolding in_step_node_ids by blast
    then show ?thesis using ids [OF s] by cases auto
  qed
  show ?thesis
    unfolding compiled_node_ids using blocks dones outside by auto
qed

subsection \<open>Edges\<close>

lemma foldE_collect:
  assumes "foldE (\<lambda>s es. bindE (f s) (\<lambda>new. Inr (es @ new))) ss es = Inr es'"
  shows "\<forall>s \<in> set ss. \<exists>new. f s = Inr new"
    and "set es' = set es \<union> (\<Union>s \<in> set ss. case f s of Inl _ \<Rightarrow> {} | Inr new \<Rightarrow> set new)"
proof -
  have "(\<forall>s \<in> set ss. \<exists>new. f s = Inr new) \<and>
    set es' = set es \<union> (\<Union>s \<in> set ss. case f s of Inl _ \<Rightarrow> {} | Inr new \<Rightarrow> set new)"
    using assms
  proof (induction ss arbitrary: es)
    case (Cons s ss)
    from Cons.prems obtain new where "f s = Inr new"
      and "foldE (\<lambda>s es. bindE (f s) (\<lambda>new. Inr (es @ new))) ss (es @ new) = Inr es'"
      by (auto simp: err_simps)
    with Cons.IH [of "es @ new"] show ?case by auto
  qed simp
  then show "\<forall>s \<in> set ss. \<exists>new. f s = Inr new"
    and "set es' = set es \<union> (\<Union>s \<in> set ss. case f s of Inl _ \<Rightarrow> {} | Inr new \<Rightarrow> set new)" by blast+
qed

text \<open>From where to where the transitions of one step lead.\<close>

definition links_of :: "workflow_step list \<Rightarrow> workflow_step \<Rightarrow> (string \<times> string) set" where
  "links_of steps s =
     (let i = st_id s; into = (if st_when s \<noteq> None then whenNodeId i else i) in
      (if deps_of s = [] then {(startNodeId, into)} else {}) \<union>
      {(d, into) | d. d \<in> set (deps_of s)} \<union>
      (if st_when s \<noteq> None
       then {(skipNodeId d, into) | d. d \<in> set (deps_of s) \<and> isSkipCapable steps d} \<union>
         {(whenNodeId i, i), (whenNodeId i, skipNodeId i)}
       else if isSkipCapable steps i
       then {(skipNodeId d, skipNodeId i) | d. d \<in> set (deps_of s) \<and> isSkipCapable steps d} else {}))"

definition exits_of :: "workflow_step list \<Rightarrow> workflow_step \<Rightarrow> (string \<times> string) set" where
  "exits_of steps s =
     (let i = st_id s in
      {(i, doneNodeId i), (doneNodeId i, successNodeId)} \<union>
      (if isSkipCapable steps i then {(skipNodeId i, doneNodeId i)} else {}))"

definition link :: "edge \<Rightarrow> string \<times> string" where
  "link e = (fst e, fst (snd e))"

lemma image_if: "h ` set (if c then xs else ys) = (if c then h ` set xs else h ` set ys)"
  by simp

lemma image_concat: "h ` set (concat (map f xs)) = (\<Union>x \<in> set xs. h ` set (f x))"
  by auto

lemma step_edges_links:
  assumes "step_edges number steps s = Inr es"
  shows "link ` set es = links_of steps s"
proof (cases "st_when s")
  case (Some w)
  with assms obtain t where es: "es = when_edges steps s t" by (auto simp: step_edges_def split: sum.splits)
  have deps: "link ` set (concat (map (\<lambda>dep. (dep, whenNodeId (st_id s), None) #
        (if isSkipCapable steps dep then [(skipNodeId dep, whenNodeId (st_id s), None)] else [])) (deps_of s))) =
      {(d, whenNodeId (st_id s)) | d. d \<in> set (deps_of s)} \<union>
      {(skipNodeId d, whenNodeId (st_id s)) | d. d \<in> set (deps_of s) \<and> isSkipCapable steps d}"
    unfolding image_concat by (auto simp: link_def)
  show ?thesis
    unfolding es when_edges_def links_of_def Let_def set_append image_Un deps image_if
    using Some by (auto simp: link_def)
next
  case None
  with assms have es: "es = plain_edges steps s" by (simp add: step_edges_def)
  have skips: "link ` set (concat (map (\<lambda>dep. if isSkipCapable steps dep
        then [(skipNodeId dep, skipNodeId (st_id s), None)] else []) (deps_of s))) =
      {(skipNodeId d, skipNodeId (st_id s)) | d. d \<in> set (deps_of s) \<and> isSkipCapable steps d}"
    unfolding image_concat by (auto simp: link_def)
  show ?thesis
    unfolding es plain_edges_def links_of_def Let_def set_append image_Un skips image_if set_map image_image
    using None by (auto simp: link_def)
qed

lemma terminal_edges_links: "link ` set (terminal_edges steps s) = exits_of steps s"
  unfolding terminal_edges_def exits_of_def Let_def by (auto simp: link_def)

lemma compiled_edges_links:
  assumes "compiled_edges number steps = Inr es"
  shows "link ` set es = (\<Union>s \<in> set steps. links_of steps s) \<union> (\<Union>s \<in> set (terminal_steps steps). exits_of steps s)"
proof -
  from assms obtain es1 where es1: "foldE (\<lambda>s es. bindE (step_edges number steps s) (\<lambda>new. Inr (es @ new))) steps [] = Inr es1"
    and es: "es = es1 @ concat (map (terminal_edges steps) (terminal_steps steps))"
    by (auto simp: compiled_edges_def err_simps)
  have "link ` (case step_edges number steps s of Inl _ \<Rightarrow> {} | Inr new \<Rightarrow> set new) = links_of steps s"
    if "s \<in> set steps" for s
    using foldE_collect(1) [OF es1] that step_edges_links by fastforce
  then have "link ` set es1 = (\<Union>s \<in> set steps. links_of steps s)"
    by (simp add: foldE_collect(2) [OF es1] image_UN)
  then show ?thesis by (simp add: es image_Un image_UN terminal_edges_links)
qed

subsection \<open>The graph has no cycles\<close>

definition node_rank :: "workflow_step list \<Rightarrow> string \<Rightarrow> nat" where
  "node_rank steps x =
     (if x = startNodeId then 0
      else if x = successNodeId then 4 * length steps + 9
      else if starts_with x ''__done_'' then 4 * length steps + 8
      else if starts_with x ''__when_'' then 4 * dag_rank steps (drop 7 x) + 1
      else if starts_with x ''__skip_'' then 4 * dag_rank steps (drop 7 x) + 3
      else 4 * dag_rank steps x + 2)"

lemma node_rank_simps [simp]:
  "node_rank steps startNodeId = 0" "node_rank steps successNodeId = 4 * length steps + 9"
  "node_rank steps (doneNodeId i) = 4 * length steps + 8"
  "node_rank steps (whenNodeId i) = 4 * dag_rank steps i + 1"
  "node_rank steps (skipNodeId i) = 4 * dag_rank steps i + 3"
  by (simp_all add: node_rank_def whenNodeId_def skipNodeId_def doneNodeId_def startNodeId_def successNodeId_def)

lemma reserved_prefix: "starts_with x (''__'' @ p) \<Longrightarrow> starts_with x ''__''"
  by (auto simp: starts_with_iff)

lemma node_rank_step:
  assumes "compilable steps" and "s \<in> set steps"
  shows "node_rank steps (st_id s) = 4 * dag_rank steps (st_id s) + 2"
proof -
  have "\<not> starts_with (st_id s) ''__''" using assms by (simp add: compilable_def)
  then have "\<not> starts_with (st_id s) ''__done_''" "\<not> starts_with (st_id s) ''__when_''"
    "\<not> starts_with (st_id s) ''__skip_''"
    using reserved_prefix [of "st_id s" "''done_''"] reserved_prefix [of "st_id s" "''when_''"]
      reserved_prefix [of "st_id s" "''skip_''"] by auto
  with compilable_ids [OF assms] show ?thesis by (simp add: node_rank_def)
qed

lemma dep_step:
  assumes "compilable steps" and "s \<in> set steps" and "d \<in> set (deps_of s)"
  shows "\<exists>t \<in> set steps. st_id t = d \<and> dag_rank steps d < dag_rank steps (st_id s)"
proof -
  from assms have dag: "is_dag steps" by (simp add: compilable_def)
  then have "d \<in> set (map st_id steps)" using assms by (auto simp: is_dag_def)
  with dag_rank_less [OF dag dep_edge [OF assms(2,3)]] show ?thesis by auto
qed

lemma links_rise:
  assumes "compilable steps" and "s \<in> set steps" and "(x, y) \<in> links_of steps s"
  shows "node_rank steps x < node_rank steps y"
proof -
  have dep: "node_rank steps d = 4 * dag_rank steps d + 2 \<and> dag_rank steps d < dag_rank steps (st_id s)"
    if "d \<in> set (deps_of s)" for d
    using dep_step [OF assms(1,2) that] node_rank_step [OF assms(1)] by auto
  show ?thesis
    using assms(3) dep node_rank_step [OF assms(1,2)]
    by (auto simp: links_of_def Let_def split: if_splits) fastforce+
qed

lemma exits_rise:
  assumes "compilable steps" and "s \<in> set steps" and "(x, y) \<in> exits_of steps s"
  shows "node_rank steps x < node_rank steps y"
proof -
  have "dag_rank steps (st_id s) < length steps"
    using assms by (intro dag_rank_step) (simp_all add: compilable_def)
  then show ?thesis
    using assms(3) node_rank_step [OF assms(1,2)] by (auto simp: exits_of_def Let_def split: if_splits)
qed

lemma compiled_graph_edges:
  assumes "compileWorkflow number d = Inr g"
  shows "graph_edges g = (\<Union>s \<in> set (wd_steps d). links_of (wd_steps d) s) \<union>
    (\<Union>s \<in> set (terminal_steps (wd_steps d)). exits_of (wd_steps d) s)"
proof -
  from assms obtain es where es: "compiled_edges number (wd_steps d) = Inr es"
    and g: "graph_transitions g = map transition_of (enumerate 0 es)"
    by (auto simp: compileWorkflow_def err_simps split: if_splits option.splits)
  have "graph_edges g = (\<lambda>p. (tr_from (transition_of p), tr_to (transition_of p))) ` set (enumerate 0 es)"
    by (auto simp: graph_edges_def g)
  also have "\<dots> = link ` snd ` set (enumerate 0 es)"
    unfolding image_image by (intro image_cong) (auto simp: transition_of_def link_def split: prod.splits)
  also have "snd ` set (enumerate 0 es) = set es"
    by (metis list.set_map map_snd_enumerate)
  finally show ?thesis by (simp add: compiled_edges_links [OF es])
qed

lemma terminal_steps_subset: "set (terminal_steps steps) \<subseteq> set steps"
  by (auto simp: terminal_steps_def)

lemma compiled_edges_rise:
  assumes "compileWorkflow number d = Inr g" and "compilable (wd_steps d)" and "(x, y) \<in> (graph_edges g)\<^sup>+"
  shows "node_rank (wd_steps d) x < node_rank (wd_steps d) y"
  using assms(3)
proof (induction rule: trancl_induct)
  case (base y)
  then show ?case
    using links_rise [OF assms(2)] exits_rise [OF assms(2)] terminal_steps_subset
    unfolding compiled_graph_edges [OF assms(1)] by blast
next
  case (step y z)
  then have "node_rank (wd_steps d) y < node_rank (wd_steps d) z"
    using links_rise [OF assms(2)] exits_rise [OF assms(2)] terminal_steps_subset
    unfolding compiled_graph_edges [OF assms(1)] by blast
  with step.IH show ?case by simp
qed

subsection \<open>Every node is reached\<close>

lemma terminal_exists:
  assumes "compilable steps"
  shows "\<exists>s. s \<in> set (terminal_steps steps)"
proof -
  let ?r = "\<lambda>s. dag_rank steps (st_id s)"
  from assms have "finite (?r ` set steps)" "?r ` set steps \<noteq> {}" by (simp_all add: compilable_def)
  from Max_in [OF this] obtain s where s: "s \<in> set steps" "?r s = Max (?r ` set steps)" by auto
  have "st_id s \<notin> set (deps_of t)" if "t \<in> set steps" for t
  proof
    assume "st_id s \<in> set (deps_of t)"
    from dep_step [OF assms that this] have "?r s < ?r t" by auto
    moreover have "?r t \<le> ?r s" unfolding s(2) using that by (intro Max_ge) auto
    ultimately show False by simp
  qed
  with s(1) show ?thesis by (auto simp: terminal_steps_def)
qed

lemma into_link:
  assumes "s \<in> set steps"
  shows "deps_of s = [] \<Longrightarrow> (startNodeId, if st_when s \<noteq> None then whenNodeId (st_id s) else st_id s) \<in> links_of steps s"
    and "d \<in> set (deps_of s) \<Longrightarrow> (d, if st_when s \<noteq> None then whenNodeId (st_id s) else st_id s) \<in> links_of steps s"
    and "st_when s \<noteq> None \<Longrightarrow> (whenNodeId (st_id s), st_id s) \<in> links_of steps s \<and> (whenNodeId (st_id s), skipNodeId (st_id s)) \<in> links_of steps s"
    and "st_when s = None \<Longrightarrow> isSkipCapable steps (st_id s) \<Longrightarrow> d \<in> set (deps_of s) \<Longrightarrow> isSkipCapable steps d \<Longrightarrow>
      (skipNodeId d, skipNodeId (st_id s)) \<in> links_of steps s"
  by (auto simp: links_of_def Let_def)

lemma steps_reached:
  assumes "compilable steps" and "(\<Union>s \<in> set steps. links_of steps s) \<subseteq> E" and "s \<in> set steps"
  shows "(startNodeId, st_id s) \<in> E\<^sup>* \<and>
    (st_when s \<noteq> None \<longrightarrow> (startNodeId, whenNodeId (st_id s)) \<in> E\<^sup>*) \<and>
    (isSkipCapable steps (st_id s) \<longrightarrow> (startNodeId, skipNodeId (st_id s)) \<in> E\<^sup>*)"
proof -
  from assms(1) have dag: "is_dag steps" by (simp add: compilable_def)
  show ?thesis
    using dag assms(3)
  proof (induction rule: dag_induct)
    case (step s)
    let ?into = "if st_when s \<noteq> None then whenNodeId (st_id s) else st_id s"
    have edge: "e \<in> E" if "e \<in> links_of steps s" for e using assms(2) step.hyps that by blast
    have dep: "\<exists>t \<in> set steps. st_id t = d \<and> (startNodeId, d) \<in> E\<^sup>* \<and>
        (isSkipCapable steps d \<longrightarrow> (startNodeId, skipNodeId d) \<in> E\<^sup>*)" if "d \<in> set (deps_of s)" for d
    proof -
      from dep_step [OF assms(1) step.hyps that] obtain t where t: "t \<in> set steps" "st_id t = d" by blast
      with step.IH [OF t(1)] that show ?thesis by auto
    qed
    have into: "(startNodeId, ?into) \<in> E\<^sup>*"
    proof (cases "deps_of s")
      case Nil
      from edge [OF into_link(1) [OF step.hyps Nil]] show ?thesis by (rule r_into_rtrancl)
    next
      case (Cons d ds)
      then have d: "d \<in> set (deps_of s)" by simp
      from dep [OF d] have "(startNodeId, d) \<in> E\<^sup>*" by blast
      from this edge [OF into_link(2) [OF step.hyps d]] show ?thesis by (rule rtrancl_into_rtrancl)
    qed
    show ?case
    proof (cases "st_when s")
      case (Some w)
      with into edge [of "(whenNodeId (st_id s), st_id s)"] edge [of "(whenNodeId (st_id s), skipNodeId (st_id s))"]
        into_link(3) [OF step.hyps] show ?thesis
        by (auto intro: rtrancl_into_rtrancl)
    next
      case None
      have "(startNodeId, skipNodeId (st_id s)) \<in> E\<^sup>*" if "isSkipCapable steps (st_id s)"
      proof -
        from that None obtain d where d: "d \<in> set (deps_of s)" "isSkipCapable steps d"
          by (auto simp: skip_capable_step [OF dag step.hyps] list_ex_iff)
        from dep [OF d(1)] d(2) have "(startNodeId, skipNodeId d) \<in> E\<^sup>*" by blast
        from this edge [OF into_link(4) [OF step.hyps None that d]] show ?thesis
          by (rule rtrancl_into_rtrancl)
      qed
      with into None show ?thesis by simp
    qed
  qed
qed

subsection \<open>The graph is well formed\<close>

lemma links_known:
  assumes "compilable steps" and "s \<in> set steps" and "(x, y) \<in> links_of steps s"
  shows "x \<in> set (map node_id (compiled_nodes steps)) \<and> y \<in> set (map node_id (compiled_nodes steps))"
proof -
  let ?N = "set (map node_id (compiled_nodes steps))"
  from assms(1) have dag: "is_dag steps" by (simp add: compilable_def)
  have start: "startNodeId \<in> ?N" unfolding compiled_node_ids by simp
  have own: "z \<in> ?N" if "t \<in> set steps" "z \<in> set (map node_id (step_nodes steps t))" for t z
    using that unfolding compiled_node_ids by auto
  have dep: "d \<in> ?N \<and> (isSkipCapable steps d \<longrightarrow> skipNodeId d \<in> ?N)" if d: "d \<in> set (deps_of s)" for d
  proof -
    from dep_step [OF assms(1,2) d] obtain t where t: "t \<in> set steps" "st_id t = d" by blast
    with own [OF t(1)] show ?thesis unfolding in_step_node_ids by blast
  qed
  have mine: "st_id s \<in> ?N" "st_when s \<noteq> None \<Longrightarrow> whenNodeId (st_id s) \<in> ?N"
    "st_when s \<noteq> None \<or> isSkipCapable steps (st_id s) \<Longrightarrow> skipNodeId (st_id s) \<in> ?N"
    using own [OF assms(2)] unfolding in_step_node_ids by blast+
  show ?thesis
    using assms(3) start dep mine by (auto simp: links_of_def Let_def simp del: set_map split: if_splits)
qed

lemma exits_known:
  assumes "s \<in> set (terminal_steps steps)" and "(x, y) \<in> exits_of steps s"
  shows "x \<in> set (map node_id (compiled_nodes steps)) \<and> y \<in> set (map node_id (compiled_nodes steps))"
proof -
  let ?N = "set (map node_id (compiled_nodes steps))"
  have s: "s \<in> set steps" using assms(1) terminal_steps_subset by blast
  have own: "z \<in> ?N" if "z \<in> set (map node_id (step_nodes steps s))" for z
    using that s unfolding compiled_node_ids by auto
  have "st_id s \<in> ?N" "isSkipCapable steps (st_id s) \<Longrightarrow> skipNodeId (st_id s) \<in> ?N"
    using own unfolding in_step_node_ids by blast+
  moreover have "doneNodeId (st_id s) \<in> ?N" "successNodeId \<in> ?N"
    using assms(1) unfolding compiled_node_ids by auto
  ultimately show ?thesis
    using assms(2) by (auto simp: exits_of_def Let_def simp del: set_map split: if_splits)
qed

lemma compiled_joins:
  assumes "n \<in> set (compiled_nodes steps)"
  shows "(is_terminal_node n \<longrightarrow> node_id n = successNodeId) \<and>
    (\<forall>j. node_join n = Some j \<longrightarrow> join_mode j = JoinMin \<longrightarrow> (\<exists>k. join_n j = Some k \<and> 1 \<le> k))"
proof -
  have config: "\<not> is_terminal_node (step_node s)" for s
    by (simp add: is_terminal_node_def step_node_def toNodeConfig_def split: step_config.splits)
  have plain: "\<not> is_terminal_node (noop i j)" for i j
    by (simp add: is_terminal_node_def noop_def)
  have min: "\<exists>k. join_n j = Some k \<and> 1 \<le> k" if "when_join steps s = Some j" "join_mode j = JoinMin" for s j
    using that by (cases "deps_of s") (auto simp: when_join_def min_join_def all_join_def split: if_splits)
  have "node_join (step_node s) = Some j \<Longrightarrow> join_mode j \<noteq> JoinMin" for s j
    by (auto simp: step_node_def all_join_def split: if_splits)
  moreover have "node_join (noop i j) = j" for i j by (simp add: noop_def)
  moreover have "node_join success_node = Some all_join" "join_mode all_join \<noteq> JoinMin" "node_id success_node = successNodeId"
    by (simp_all add: success_node_def all_join_def)
  ultimately show ?thesis
    using assms config plain min
    by (auto simp: compiled_nodes_def step_nodes_def split: if_splits)
qed

lemma foldE_total:
  "\<forall>s \<in> set ss. \<exists>new. f s = Inr new \<Longrightarrow>
   \<exists>es'. foldE (\<lambda>s es. bindE (f s) (\<lambda>new. Inr (es @ new))) ss es = Inr es'"
  by (induction ss arbitrary: es) auto

lemma compiled_well_formed:
  assumes g: "compileWorkflow number d = Inr g" and c: "compilable (wd_steps d)"
  shows "well_formed g"
proof -
  let ?steps = "wd_steps d"
  have nodes: "graph_nodes g = compiled_nodes ?steps" and entry: "graph_entry g = startNodeId"
    and trans: "\<exists>es. graph_transitions g = map transition_of (enumerate 0 es)"
    using g by (auto simp: compileWorkflow_def err_simps split: if_splits option.splits)
  let ?N = "set (map node_id (compiled_nodes ?steps))"
  note edges = compiled_graph_edges [OF g]
  have known: "x \<in> ?N \<and> y \<in> ?N" if "(x, y) \<in> graph_edges g" for x y
    using that links_known [OF c] exits_known unfolding edges by blast
  have no_cycle: "\<not> on_cycle g x" for x
    using compiled_edges_rise [OF g c, of x x] by (auto simp: on_cycle_def)
  have referential: "referentially_ok g"
    unfolding referentially_ok_def node_ids_def nodes entry
  proof (intro conjI ballI)
    show "distinct (map node_id (compiled_nodes ?steps))" by (rule compiled_ids_distinct [OF c])
    show "startNodeId \<in> ?N" unfolding compiled_node_ids by simp
    show "distinct (map tr_id (graph_transitions g))" using trans transition_ids_distinct by auto
    fix t assume t: "t \<in> set (graph_transitions g)"
    then have "(tr_from t, tr_to t) \<in> graph_edges g" by (auto simp: graph_edges_def)
    from known [OF this] show "tr_from t \<in> ?N" "tr_to t \<in> ?N" by simp_all
    from t trans show "\<forall>b. loopBound t = Some b \<longrightarrow> 1 \<le> b" by (auto simp: transition_of_def)
  qed
  have steps_in: "(\<Union>s \<in> set ?steps. links_of ?steps s) \<subseteq> graph_edges g" unfolding edges by blast
  have exit: "e \<in> graph_edges g" if "s \<in> set (terminal_steps ?steps)" "e \<in> exits_of ?steps s" for s e
    using that unfolding edges by blast
  have done_reached: "(startNodeId, doneNodeId (st_id s)) \<in> (graph_edges g)\<^sup>*"
    if s: "s \<in> set (terminal_steps ?steps)" for s
  proof -
    have "(st_id s, doneNodeId (st_id s)) \<in> graph_edges g"
      by (rule exit [OF s]) (simp add: exits_of_def Let_def)
    with steps_reached [OF c steps_in, of s] s terminal_steps_subset show ?thesis
      by (blast intro: rtrancl_into_rtrancl)
  qed
  have success_reached: "(startNodeId, successNodeId) \<in> (graph_edges g)\<^sup>*"
  proof -
    obtain s where s: "s \<in> set (terminal_steps ?steps)" using terminal_exists [OF c] by blast
    have "(doneNodeId (st_id s), successNodeId) \<in> graph_edges g"
      by (rule exit [OF s]) (simp add: exits_of_def Let_def)
    with done_reached [OF s] show ?thesis by (rule rtrancl_into_rtrancl)
  qed
  have reached: "(startNodeId, x) \<in> (graph_edges g)\<^sup>*" if x: "x \<in> ?N" for x
  proof -
    from x consider "x = startNodeId" | "x = successNodeId"
      | s where "s \<in> set (terminal_steps ?steps)" "x = doneNodeId (st_id s)"
      | s where "s \<in> set ?steps" "x \<in> set (map node_id (step_nodes ?steps s))"
      unfolding compiled_node_ids by auto
    then show ?thesis
    proof cases
      case (4 s)
      with steps_reached [OF c steps_in 4(1)] skip_capable_step [OF _ 4(1)] c show ?thesis
        unfolding in_step_node_ids by (auto simp: compilable_def)
    qed (use success_reached done_reached in auto)
  qed
  have no_exit: "tr_from t \<noteq> successNodeId" if t: "t \<in> set (graph_transitions g)" for t
  proof
    assume "tr_from t = successNodeId"
    then have e: "(successNodeId, tr_to t) \<in> graph_edges g" using t by (auto simp: graph_edge_iff)
    moreover have "node_rank ?steps y \<le> 4 * length ?steps + 9" if "y \<in> ?N" for y
    proof -
      have le: "dag_rank ?steps i \<le> length ?steps" for i
        using c by (intro dag_rank_le) (simp add: compilable_def)
      show ?thesis using le [of y] le [of "drop 7 y"] by (simp add: node_rank_def)
    qed
    ultimately show False
      using known [OF e] compiled_edges_rise [OF g c r_into_trancl [OF e]] by fastforce
  qed
  show ?thesis
    unfolding well_formed_def
  proof (intro conjI ballI)
    show "referentially_ok g" by (rule referential)
    fix n assume n: "n \<in> set (graph_nodes g)"
    then have "node_id n \<in> ?N" by (simp add: nodes)
    with reached entry show "(graph_entry g, node_id n) \<in> (graph_edges g)\<^sup>*" by simp
    show "joins_ok g n" using no_cycle compiled_joins n unfolding joins_ok_def nodes by blast
    show "is_terminal_node n \<longrightarrow> (\<forall>t \<in> set (graph_transitions g). tr_from t \<noteq> node_id n)"
      using no_exit compiled_joins n unfolding nodes by metis
  next
    have "success_node \<in> set (graph_nodes g)" by (simp add: nodes compiled_nodes_def)
    moreover have "is_terminal_node success_node" by (simp add: is_terminal_node_def success_node_def)
    ultimately show "\<exists>n \<in> set (graph_nodes g). is_terminal_node n" by blast
  next
    fix t assume t: "t \<in> set (graph_transitions g)"
    then have e: "(tr_from t, tr_to t) \<in> graph_edges g" by (auto simp: graph_edges_def)
    have "(tr_to t, tr_from t) \<notin> (graph_edges g)\<^sup>*"
    proof
      assume "(tr_to t, tr_from t) \<in> (graph_edges g)\<^sup>*"
      from rtrancl_into_trancl2 [OF e this] have "on_cycle g (tr_from t)" by (simp add: on_cycle_def)
      with no_cycle show False by blast
    qed
    then show "loopBound t \<noteq> None \<or> (tr_to t, tr_from t) \<notin> (graph_edges g)\<^sup>*" by blast
  qed
qed

text \<open>
  C23. What the parser accepts compiles to a valid graph: for every document the parser accepts,
  the compiler throws only when a step id starts with two underscores, and otherwise produces
  a graph in which the validator finds nothing, with distinct ids, known ends, every node
  reachable, no cycle and sound joins.
\<close>

theorem compiled_workflow_valid:
  assumes "parseWorkflow w = Inr d"
  shows "case compileWorkflow number d of
      Inl _ \<Rightarrow> list_ex (\<lambda>s. starts_with (st_id s) ''__'') (wd_steps d)
    | Inr g \<Rightarrow> validateGraph g = []"
proof -
  let ?steps = "wd_steps d"
  from assms have steps: "?steps = map toStep (rw_steps w)"
    by (auto simp: parseWorkflow_def toWorkflowDefinition_def split: if_splits)
  from assms have "\<exists>d. parseWorkflow w = Inr d" by blast
  from this [unfolded parser_accepts] have nonempty: "?steps \<noteq> []" and dag: "is_dag ?steps"
    and made: "\<forall>s \<in> set (rw_steps w). well_made s" by (simp_all add: steps)
  show ?thesis
  proof (cases "list_ex (\<lambda>s. starts_with (st_id s) ''__'') ?steps")
    case True
    then have "List.find (\<lambda>s. starts_with (st_id s) ''__'') ?steps \<noteq> None"
      by (auto simp: find_None_iff list_ex_iff)
    then obtain s where "List.find (\<lambda>s. starts_with (st_id s) ''__'') ?steps = Some s" by blast
    with True nonempty show ?thesis by (simp add: compileWorkflow_def)
  next
    case False
    then have find: "List.find (\<lambda>s. starts_with (st_id s) ''__'') ?steps = None"
      and c: "compilable ?steps" using dag nonempty by (auto simp: find_None_iff list_ex_iff compilable_def)
    have "\<exists>es. step_edges number steps s = Inr es" if s: "s \<in> set ?steps" for s steps
    proof (cases "st_when s")
      case (Some x)
      from s obtain r where r: "r \<in> set (rw_steps w)" "s = toStep r" by (auto simp: steps)
      with Some have "raw_when r = Some x" by simp
      with made r(1) have "\<exists>e. parseExpression x = Inr e" unfolding well_made_def by blast
      with Some show ?thesis by (auto simp: step_edges_def translateV1Expression_def)
    qed (simp add: step_edges_def)
    then have "\<forall>s \<in> set ?steps. \<exists>es. step_edges number ?steps s = Inr es" by blast
    from foldE_total [OF this, of "[]"] have "\<exists>es. compiled_edges number ?steps = Inr es"
      by (auto simp: compiled_edges_def)
    then obtain g where "compileWorkflow number d = Inr g"
      using nonempty find by (auto simp: compileWorkflow_def)
    with compiled_well_formed [OF _ c] show ?thesis by (simp add: validateGraph_empty)
  qed
qed

theorem compiled_workflow_valid_witness:
  "case parseWorkflow sample_document of
     Inl _ \<Rightarrow> False
   | Inr d \<Rightarrow>
       (case compileWorkflow (\<lambda>_. ''0'') d of Inl _ \<Rightarrow> False
        | Inr g \<Rightarrow> validateGraph g = [] \<and> length (graph_nodes g) = 9)"
proof -
  from sample_document_parses obtain d where d: "parseWorkflow sample_document = Inr d" ..
  have "case parseWorkflow sample_document of Inl _ \<Rightarrow> False
      | Inr d \<Rightarrow> (case compileWorkflow (\<lambda>_. ''0'') d of Inl _ \<Rightarrow> False
          | Inr g \<Rightarrow> length (graph_nodes g) = 9)"
    by code_simp
  with compiled_workflow_valid [OF d, of "\<lambda>_. ''0''"] d show ?thesis
    by (auto split: sum.splits)
qed

end
