(* ===== verification/WorkflowEngineProps.thy ===== *)
theory WorkflowEngineProps
  imports WorkflowEngine CompileProps
begin

section \<open>Properties of the workflow engine\<close>

text \<open>
  Termination, the bound on concurrency, why a step ran or was skipped, and what a returned run
  says. The laws are proved in a locale whose parameter is what tasks may settle with, and hold
  of the engine through its interpretation with \<open>runStep\<close>.
\<close>

definition engine_reachable ::
  "(workflow_step \<Rightarrow> v1_error + step_result \<Rightarrow> bool) \<Rightarrow> workflow_definition \<Rightarrow> engine_context \<Rightarrow> bool \<Rightarrow>
   engine_state \<Rightarrow> bool" where
  "engine_reachable runs d ctx aborted s \<longleftrightarrow> (engine_step runs d ctx)\<^sup>*\<^sup>* (initial_state d aborted) s"

inductive_cases engine_stepE: "engine_step runs d ctx s s'"

lemma engine_reachable_induct [consumes 1, case_names initial step]:
  assumes "engine_reachable runs d ctx aborted s" and "P (initial_state d aborted)"
    and "\<And>s s'. engine_reachable runs d ctx aborted s \<Longrightarrow> P s \<Longrightarrow> engine_step runs d ctx s s' \<Longrightarrow> P s'"
  shows "P s"
  using assms(1) unfolding engine_reachable_def
  by (induction rule: rtranclp_induct) (auto simp: engine_reachable_def assms)

subsection \<open>The parts of a state\<close>

lemma set_result_simps [simp]:
  "ws_results (set_result i r s) = AList.update i r (ws_results s)"
  "ws_pending (set_result i r s) = ws_pending s" "ws_inflight (set_result i r s) = ws_inflight s"
  "ws_tainted (set_result i r s) = ws_tainted s" "ws_phase (set_result i r s) = ws_phase s"
  "ws_aborted (set_result i r s) = ws_aborted s" "ws_cancelled (set_result i r s) = ws_cancelled s"
  by (simp_all add: set_result_def)

lemma taint_simps [simp]:
  "ws_results (taint i s) = ws_results s" "ws_pending (taint i s) = ws_pending s"
  "ws_inflight (taint i s) = ws_inflight s" "set (ws_tainted (taint i s)) = insert i (set (ws_tainted s))"
  "ws_phase (taint i s) = ws_phase s" "ws_aborted (taint i s) = ws_aborted s"
  "ws_cancelled (taint i s) = ws_cancelled s"
  by (simp_all add: taint_def)

lemma notify_simps [simp]:
  "ws_results (notify e s) = ws_results s" "ws_pending (notify e s) = ws_pending s"
  "ws_inflight (notify e s) = ws_inflight s" "ws_tainted (notify e s) = ws_tainted s"
  "ws_phase (notify e s) = ws_phase s" "ws_aborted (notify e s) = ws_aborted s"
  "ws_cancelled (notify e s) = ws_cancelled s"
  by (simp_all add: notify_def)

lemma task_done_simps [simp]:
  "ws_results (task_done st r s) = AList.update (st_id st) r (ws_results s)"
  "ws_pending (task_done st r s) = ws_pending s"
  "ws_inflight (task_done st r s) = removeAll (st_id st) (ws_inflight s)"
  "set (ws_tainted (task_done st r s)) =
     (if sr_status r = step_status.StFailed \<and> \<not> continues (Some st) then insert (st_id st) (set (ws_tainted s))
      else set (ws_tainted s))"
  "ws_phase (task_done st r s) = ws_phase s" "ws_aborted (task_done st r s) = ws_aborted s"
  "ws_cancelled (task_done st r s) = ws_cancelled s"
  by (simp_all add: task_done_def Let_def)

lemma cancel_pending_simps [simp]:
  "ws_pending (cancel_pending s) = ws_pending s" "ws_inflight (cancel_pending s) = ws_inflight s"
  "ws_aborted (cancel_pending s) = ws_aborted s" "ws_cancelled (cancel_pending s) = ws_cancelled s"
proof -
  have "ws_pending (fold (\<lambda>i s. if map_of (ws_results s) i = None then set_result i (f i) s else s) is s) = ws_pending s \<and>
    ws_inflight (fold (\<lambda>i s. if map_of (ws_results s) i = None then set_result i (f i) s else s) is s) = ws_inflight s \<and>
    ws_aborted (fold (\<lambda>i s. if map_of (ws_results s) i = None then set_result i (f i) s else s) is s) = ws_aborted s \<and>
    ws_cancelled (fold (\<lambda>i s. if map_of (ws_results s) i = None then set_result i (f i) s else s) is s) = ws_cancelled s"
    for f "is" s by (induction "is" arbitrary: s) auto
  then show "ws_pending (cancel_pending s) = ws_pending s" "ws_inflight (cancel_pending s) = ws_inflight s"
    "ws_aborted (cancel_pending s) = ws_aborted s" "ws_cancelled (cancel_pending s) = ws_cancelled s"
    unfolding cancel_pending_def by simp_all
qed

lemma give_up_simps [simp]:
  "ws_pending (give_up s) = []" "ws_inflight (give_up s) = ws_inflight s"
  "ws_aborted (give_up s) = ws_aborted s" "ws_cancelled (give_up s) = ws_cancelled s"
proof -
  have "ws_inflight (fold (\<lambda>i s. taint i (set_result i (f i) s)) is s) = ws_inflight s \<and>
    ws_aborted (fold (\<lambda>i s. taint i (set_result i (f i) s)) is s) = ws_aborted s \<and>
    ws_cancelled (fold (\<lambda>i s. taint i (set_result i (f i) s)) is s) = ws_cancelled s"
    for f "is" s by (induction "is" arbitrary: s) auto
  then show "ws_pending (give_up s) = []" "ws_inflight (give_up s) = ws_inflight s"
    "ws_aborted (give_up s) = ws_aborted s" "ws_cancelled (give_up s) = ws_cancelled s"
    unfolding give_up_def by simp_all
qed

text \<open>A launch takes the step from the pending ones; it is in flight or has a result afterwards.\<close>

lemma skip_step_simps [simp]:
  "ws_results (skip_step i reason t s) = AList.update i (skipped_result i reason) (ws_results s)"
  "ws_pending (skip_step i reason t s) = ws_pending s" "ws_inflight (skip_step i reason t s) = ws_inflight s"
  "set (ws_tainted (skip_step i reason t s)) = (if t then insert i (set (ws_tainted s)) else set (ws_tainted s))"
  "ws_phase (skip_step i reason t s) = ws_phase s" "ws_aborted (skip_step i reason t s) = ws_aborted s"
  "ws_cancelled (skip_step i reason t s) = ws_cancelled s"
  by (simp_all add: skip_step_def Let_def)

lemma launch_cases:
  assumes "launch d ctx i s = Inr s'"
  obtains (skipped) reason t where
      "isEligible (wd_steps d) (eval_context d ctx (ws_results s)) (ws_tainted s) (the (step_of (wd_steps d) i)) =
         Inr (Ineligible reason t)"
      "s' = skip_step i reason t (s\<lparr>ws_pending := removeAll i (ws_pending s)\<rparr>)"
    | (started)
      "isEligible (wd_steps d) (eval_context d ctx (ws_results s)) (ws_tainted s) (the (step_of (wd_steps d) i)) = Inr Eligible"
      "s' = (notify (StepStarted i) (s\<lparr>ws_pending := removeAll i (ws_pending s)\<rparr>))\<lparr>ws_inflight := ws_inflight s @ [i]\<rparr>"
proof -
  let ?el = "isEligible (wd_steps d) (eval_context d ctx (ws_results s)) (ws_tainted s) (the (step_of (wd_steps d) i))"
  from assms obtain el where el: "?el = Inr el" by (cases ?el) (auto simp: launch_def)
  with assms skipped started show thesis by (cases el) (simp_all add: launch_def Let_def)
qed

lemma launch_simps:
  assumes "launch d ctx i s = Inr s'"
  shows "ws_pending s' = removeAll i (ws_pending s)" "ws_phase s' = ws_phase s" "ws_aborted s' = ws_aborted s"
    "ws_cancelled s' = ws_cancelled s"
  using assms by (rule launch_cases; simp)+

text \<open>The steps of a pass are distinct, pending and have their dependencies settled.\<close>

lemma to_launch_sub: "set (to_launch d ctx s) \<subseteq> set (ready_steps d s)"
  by (auto simp: to_launch_def within_capacity_def dest: in_set_takeD split: option.splits if_splits)

lemma distinct_to_launch: "distinct (ws_pending s) \<Longrightarrow> distinct (to_launch d ctx s)"
  by (auto simp: to_launch_def within_capacity_def ready_steps_def split: option.splits)

lemma ready_stepsD:
  "i \<in> set (ready_steps d s) \<Longrightarrow> i \<in> set (ws_pending s) \<and> depsSettled (ws_results s) (the (step_of (wd_steps d) i))"
  by (auto simp: ready_steps_def)

subsection \<open>The engine stops\<close>

fun phase_rank :: "engine_phase \<Rightarrow> nat" where
  "phase_rank AtHead = 2"
| "phase_rank (Racing True) = 3"
| "phase_rank (Racing False) = 1"
| "phase_rank Draining = 1"
| "phase_rank _ = 0"

definition engine_work :: "engine_state \<Rightarrow> nat" where
  "engine_work s = 5 * length (ws_pending s) + 4 * length (ws_inflight s) + phase_rank (ws_phase s) +
     (if ws_aborted s then 0 else 4) + (if ws_cancelled s then 0 else 2)"

lemma length_removeAll_in: "distinct xs \<Longrightarrow> x \<in> set xs \<Longrightarrow> length (removeAll x xs) = length xs - 1"
  by (simp add: distinct_remove1_removeAll [symmetric] length_remove1)

lemma launches_work:
  assumes "foldE (launch d ctx) is s = Inr s'" and "distinct is" and "set is \<subseteq> set (ws_pending s)"
    and "distinct (ws_pending s)"
  shows "5 * length (ws_pending s') + 4 * length (ws_inflight s') + length is \<le>
      5 * length (ws_pending s) + 4 * length (ws_inflight s) \<and> ws_phase s' = ws_phase s \<and>
    ws_aborted s' = ws_aborted s \<and> ws_cancelled s' = ws_cancelled s"
  using assms
proof (induction "is" arbitrary: s)
  case (Cons i "is")
  then obtain s1 where one: "launch d ctx i s = Inr s1" and rest: "foldE (launch d ctx) is s1 = Inr s'"
    by (auto simp: err_simps)
  note p = launch_simps [OF one]
  have "length (ws_inflight s1) \<le> Suc (length (ws_inflight s))"
    using one by (rule launch_cases) simp_all
  moreover have "Suc (length (ws_pending s1)) = length (ws_pending s)"
    using p(1) Cons.prems length_removeAll_in [of "ws_pending s" i] by (cases "ws_pending s") auto
  moreover have "set is \<subseteq> set (ws_pending s1)" "distinct (ws_pending s1)"
    using p(1) Cons.prems by (auto simp: distinct_removeAll)
  ultimately show ?case using Cons.IH [OF rest] Cons.prems p(2-4) by auto
qed simp

definition engine_shape :: "engine_state \<Rightarrow> bool" where
  "engine_shape s \<longleftrightarrow> distinct (ws_pending s) \<and> distinct (ws_inflight s) \<and>
     set (ws_pending s) \<inter> set (ws_inflight s) = {} \<and>
     ((\<exists>b. ws_phase s = Racing b) \<longrightarrow> \<not> ws_cancelled s)"

lemma launches_shape:
  assumes "foldE (launch d ctx) is s = Inr s'" and "distinct is" and "set is \<subseteq> set (ws_pending s)"
    and "engine_shape s"
  shows "engine_shape s'"
  using assms
proof (induction "is" arbitrary: s)
  case (Cons i "is")
  then obtain s1 where one: "launch d ctx i s = Inr s1" and rest: "foldE (launch d ctx) is s1 = Inr s'"
    by (auto simp: err_simps)
  note p = launch_simps [OF one]
  have "engine_shape s1"
    using one Cons.prems p by (cases rule: launch_cases) (auto simp: engine_shape_def distinct_removeAll)
  moreover have "set is \<subseteq> set (ws_pending s1)" using p(1) Cons.prems by auto
  ultimately show ?case using Cons.IH [OF rest] Cons.prems by simp
qed simp

lemma at_head_cases:
  assumes "at_head d ctx s = Inr s'"
  obtains (stop) "ws_pending s = [] \<or> ws_cancelled s"
      "s' = s\<lparr>ws_phase := (if ws_cancelled s then Draining else Returned)\<rparr>"
    | (stuck) "ws_pending s \<noteq> []" "\<not> ws_cancelled s" "to_launch d ctx s = []" "ws_inflight s = []"
      "s' = (give_up s)\<lparr>ws_phase := Returned\<rparr>"
    | (launched) s1 where "\<not> ws_cancelled s" "to_launch d ctx s \<noteq> [] \<or> ws_inflight s \<noteq> []"
      "foldE (launch d ctx) (to_launch d ctx s) s = Inr s1"
      "s' = s1\<lparr>ws_phase := (if ws_inflight s1 = [] then AtHead else Racing False)\<rparr>"
  using assms by (auto simp: at_head_def err_simps split: if_splits)

lemma to_launch_pending: "set (to_launch d ctx s) \<subseteq> set (ws_pending s)"
  using to_launch_sub ready_stepsD by blast

lemma launches_of:
  assumes "foldE (launch d ctx) (to_launch d ctx s) s = Inr s1" and "engine_shape s"
  shows "5 * length (ws_pending s1) + 4 * length (ws_inflight s1) + length (to_launch d ctx s) \<le>
      5 * length (ws_pending s) + 4 * length (ws_inflight s)"
    "ws_phase s1 = ws_phase s" "ws_aborted s1 = ws_aborted s" "ws_cancelled s1 = ws_cancelled s" "engine_shape s1"
  using launches_work [OF assms(1)] launches_shape [OF assms(1)] assms(2) to_launch_pending [of d ctx s]
    distinct_to_launch [of s d ctx] by (simp_all add: engine_shape_def)

lemma engine_step_shape:
  assumes "engine_step runs d ctx s s'" and "engine_shape s"
  shows "engine_shape s'"
  using assms
proof (cases rule: engine_step.cases)
  case pass
  from pass(2) show ?thesis
  proof (cases rule: at_head_cases)
    case (launched s1)
    with launches_of [OF launched(3) assms(2)] show ?thesis by (auto simp: engine_shape_def)
  qed (use assms(2) in \<open>auto simp: engine_shape_def\<close>)
qed (use assms(2) in \<open>auto simp: engine_shape_def distinct_removeAll\<close>)

lemma initial_shape: "engine_shape (initial_state d aborted)"
  by (simp add: engine_shape_def initial_state_def)

lemma reachable_shape: "engine_reachable runs d ctx aborted s \<Longrightarrow> engine_shape s"
  by (induction rule: engine_reachable_induct) (auto intro: initial_shape engine_step_shape)

lemma step_ofD: "step_of steps i = Some st \<Longrightarrow> st_id st = i \<and> st \<in> set steps"
  by (auto simp: step_of_def dest!: map_of_SomeD)

lemma removed_task:
  assumes "engine_shape s" and "i \<in> set (ws_inflight s)"
  shows "Suc (length (removeAll i (ws_inflight s))) = length (ws_inflight s)"
  using assms length_removeAll_in [of "ws_inflight s" i] by (cases "ws_inflight s") (auto simp: engine_shape_def)

lemma pass_work:
  assumes "at_head d ctx s = Inr s'" and "engine_shape s" and "ws_phase s = AtHead"
  shows "engine_work s' < engine_work s"
  using assms(1)
proof (cases rule: at_head_cases)
  case stop
  then show ?thesis by (simp add: engine_work_def assms(3))
next
  case stuck
  then show ?thesis by (simp add: engine_work_def assms(3))
next
  case (launched s1)
  note l = launches_of [OF launched(3) assms(2)]
  have "to_launch d ctx s = [] \<Longrightarrow> s1 = s" using launched(3) by simp
  with l launched show ?thesis
    by (cases "to_launch d ctx s") (auto simp: engine_work_def assms(3))
qed

lemma engine_step_work:
  assumes "engine_step runs d ctx s s'" and "engine_shape s"
  shows "engine_work s' < engine_work s"
  using assms(1)
proof (cases rule: engine_step.cases)
  case pass
  then show ?thesis using pass_work assms(2) by blast
next
  case (settle b i st r)
  with removed_task [OF assms(2) settle(3)] step_ofD [OF settle(4)] show ?thesis
    by (cases b) (auto simp: engine_work_def)
next
  case (task_throws b i st e)
  with removed_task [OF assms(2) task_throws(3)] show ?thesis by (cases b) (auto simp: engine_work_def)
next
  case (raced b)
  with assms(2) show ?thesis by (cases b) (auto simp: engine_work_def engine_shape_def)
next
  case (drain i st r)
  with removed_task [OF assms(2) drain(3)] step_ofD [OF drain(4)] show ?thesis by (auto simp: engine_work_def)
next
  case (drain_throws i st e)
  with removed_task [OF assms(2) drain_throws(3)] show ?thesis by (auto simp: engine_work_def)
qed (auto simp: engine_work_def)

lemma no_infinite_run:
  assumes "f 0 = initial_state d aborted" and "\<And>n. engine_step runs d ctx (f n) (f (Suc n))"
  shows False
proof -
  have shape: "engine_shape (f n)" for n
    by (induction n) (auto simp: assms(1) initial_shape intro: engine_step_shape [OF assms(2)])
  have "(f (Suc n), f n) \<in> measure engine_work" for n
    using engine_step_work [OF assms(2) shape] by simp
  with wf_measure [of engine_work] show False
    unfolding wf_iff_no_infinite_down_chain by blast
qed

subsection \<open>Concurrency\<close>

definition bounded_tasks :: "engine_context \<Rightarrow> engine_state \<Rightarrow> bool" where
  "bounded_tasks ctx s \<longleftrightarrow>
     (case wx_concurrency ctx of None \<Rightarrow> True | Some l \<Rightarrow> 0 < l \<longrightarrow> of_nat (length (ws_inflight s)) \<le> l)"

lemma launches_inflight:
  "foldE (launch d ctx) is s = Inr s' \<Longrightarrow> length (ws_inflight s') \<le> length (ws_inflight s) + length is"
proof (induction "is" arbitrary: s)
  case (Cons i "is")
  then obtain s1 where one: "launch d ctx i s = Inr s1" and rest: "foldE (launch d ctx) is s1 = Inr s'"
    by (auto simp: err_simps)
  have "length (ws_inflight s1) \<le> Suc (length (ws_inflight s))" using one by (rule launch_cases) simp_all
  with Cons.IH [OF rest] show ?case by simp
qed simp

lemma capacity_left:
  assumes "wx_concurrency ctx = Some l" and "0 < l" and "of_nat k \<le> l"
  shows "of_nat (k + length (within_capacity ctx k ready)) \<le> l"
proof -
  have "length (within_capacity ctx k ready) \<le> nat \<lfloor>l - of_nat k\<rfloor>"
    using assms by (simp add: within_capacity_def)
  moreover have "of_nat (nat \<lfloor>l - of_nat k\<rfloor>) \<le> l - of_nat k" using assms(3) by (simp add: of_nat_nat)
  ultimately have "of_nat (length (within_capacity ctx k ready)) \<le> l - of_nat k"
    by (meson of_nat_mono order_trans)
  then show ?thesis by (simp add: algebra_simps)
qed

lemma step_bounded:
  assumes "engine_step runs d ctx s s'" and "bounded_tasks ctx s"
  shows "bounded_tasks ctx s'"
proof -
  have fewer: "bounded_tasks ctx t" if "length (ws_inflight t) \<le> length (ws_inflight s)" for t
    using assms(2) that by (auto simp: bounded_tasks_def split: option.splits)
  from assms(1) show ?thesis
  proof (cases rule: engine_step.cases)
    case pass
    from pass(2) show ?thesis
    proof (cases rule: at_head_cases)
      case (launched s1)
      show ?thesis
      proof (cases "wx_concurrency ctx")
        case (Some l)
        have "of_nat (length (ws_inflight s1)) \<le> l" if "0 < l"
        proof -
          have "of_nat (length (ws_inflight s)) \<le> l" using assms(2) Some that by (simp add: bounded_tasks_def)
          from capacity_left [OF Some that this, of "ready_steps d s"] launches_inflight [OF launched(3)]
          show ?thesis unfolding to_launch_def by (meson of_nat_mono order_trans)
        qed
        then show ?thesis using Some launched(4) by (simp add: bounded_tasks_def)
      qed (simp add: bounded_tasks_def)
    qed (auto intro: fewer)
  qed (auto intro!: fewer simp: length_removeAll_less_eq)
qed

subsection \<open>Why a step ran or was skipped\<close>

definition has_result :: "engine_state \<Rightarrow> string \<Rightarrow> bool" where
  "has_result s i \<longleftrightarrow> map_of (ws_results s) i \<noteq> None"

text \<open>
  The rule decided so when the dependencies had settled: \<open>seen\<close> are the results of that time,
  which agree with those of \<open>s\<close> on the dependencies.
\<close>

definition decided ::
  "workflow_definition \<Rightarrow> engine_context \<Rightarrow> engine_state \<Rightarrow> workflow_step \<Rightarrow> eligibility \<Rightarrow> bool" where
  "decided d ctx s st el \<longleftrightarrow> depsSettled (ws_results s) st \<and>
     (\<exists>seen. (\<forall>dep \<in> set (deps_of st). map_of seen dep = map_of (ws_results s) dep) \<and>
        isEligible (wd_steps d) (eval_context d ctx seen) (ws_tainted s) st = Inr el)"

definition taint_ok :: "engine_state \<Rightarrow> workflow_step \<Rightarrow> step_result \<Rightarrow> bool" where
  "taint_ok s st r \<longleftrightarrow>
     (st_id st \<in> set (ws_tainted s) \<longleftrightarrow> sr_status r = step_status.StFailed \<and> \<not> continues (Some st))"

definition explained ::
  "(workflow_step \<Rightarrow> v1_error + step_result \<Rightarrow> bool) \<Rightarrow> workflow_definition \<Rightarrow> engine_context \<Rightarrow>
   engine_state \<Rightarrow> workflow_step \<Rightarrow> step_result \<Rightarrow> bool" where
  "explained runs d ctx s st r \<longleftrightarrow>
     (decided d ctx s st Eligible \<and> runs st (Inr r) \<and> taint_ok s st r) \<or>
     (\<exists>reason t. decided d ctx s st (Ineligible reason t) \<and> r = skipped_result (st_id st) reason \<and>
        (st_id st \<in> set (ws_tainted s) \<longleftrightarrow> t))"

definition engine_inv ::
  "(workflow_step \<Rightarrow> v1_error + step_result \<Rightarrow> bool) \<Rightarrow> workflow_definition \<Rightarrow> engine_context \<Rightarrow>
   engine_state \<Rightarrow> bool" where
  "engine_inv runs d ctx s \<longleftrightarrow> engine_shape s \<and>
     set (ws_pending s) \<union> set (ws_inflight s) \<subseteq> set (map st_id (wd_steps d)) \<and>
     (\<forall>i. has_result s i \<longrightarrow> i \<in> set (map st_id (wd_steps d)) \<and> i \<notin> set (ws_pending s) \<union> set (ws_inflight s)) \<and>
     (\<forall>i \<in> set (ws_tainted s). has_result s i) \<and>
     (\<forall>i \<in> set (ws_inflight s). \<exists>st. step_of (wd_steps d) i = Some st \<and> decided d ctx s st Eligible) \<and>
     (\<forall>i r. map_of (ws_results s) i = Some r \<longrightarrow>
        (\<exists>st. step_of (wd_steps d) i = Some st \<and> explained runs d ctx s st r))"

lemma engine_invD:
  assumes "engine_inv runs d ctx s"
  shows "engine_shape s" "set (ws_pending s) \<union> set (ws_inflight s) \<subseteq> set (map st_id (wd_steps d))"
    "has_result s i \<Longrightarrow> i \<in> set (map st_id (wd_steps d)) \<and> i \<notin> set (ws_pending s) \<union> set (ws_inflight s)"
    "i \<in> set (ws_tainted s) \<Longrightarrow> has_result s i"
    "i \<in> set (ws_inflight s) \<Longrightarrow> \<exists>st. step_of (wd_steps d) i = Some st \<and> decided d ctx s st Eligible"
    "map_of (ws_results s) i = Some r \<Longrightarrow> \<exists>st. step_of (wd_steps d) i = Some st \<and> explained runs d ctx s st r"
  using assms unfolding engine_inv_def by blast+

lemma engine_inv_same:
  assumes inv: "engine_inv runs d ctx s" and shape: "engine_shape s'"
    and same: "ws_results s' = ws_results s" "ws_tainted s' = ws_tainted s"
      "set (ws_pending s') \<union> set (ws_inflight s') \<subseteq> set (ws_pending s) \<union> set (ws_inflight s)"
    and tasks: "\<And>j. j \<in> set (ws_inflight s') \<Longrightarrow>
      \<exists>st. step_of (wd_steps d) j = Some st \<and> decided d ctx s st Eligible"
  shows "engine_inv runs d ctx s'"
proof -
  have eqs: "has_result s' = has_result s" "decided d ctx s' = decided d ctx s"
    "explained runs d ctx s' = explained runs d ctx s"
    by (auto simp: fun_eq_iff has_result_def decided_def explained_def taint_ok_def same(1,2))
  show ?thesis
    using inv shape same(3) tasks unfolding engine_inv_def eqs same(1,2) by blast
qed

text \<open>The rule reads nothing but the dependencies, apart from a \<open>when\<close> condition.\<close>

lemma bad_deps_cong:
  assumes "\<forall>dep \<in> set (deps_of st). map_of seen dep = map_of results dep"
  shows "bad_deps steps seen st = bad_deps steps results st"
  using assms unfolding bad_deps_def by (intro arg_cong [where f = "filter _"] map_cong) auto

lemma bad_deps_sub: "(dep, r) \<in> set (bad_deps steps results st) \<Longrightarrow> dep \<in> set (deps_of st)"
  by (auto simp: bad_deps_def)

lemma isEligible_taint_cong:
  assumes "\<forall>dep \<in> set (deps_of st). dep \<in> set t1 \<longleftrightarrow> dep \<in> set t2"
  shows "isEligible steps ctx t1 st = isEligible steps ctx t2 st"
proof -
  have taints: "list_ex (causes_taint t1) ps = list_ex (causes_taint t2) ps"
    if "\<forall>(dep, r) \<in> set ps. dep \<in> set (deps_of st)" for ps
    using that assms by (induction ps) (auto simp: causes_taint_def)
  let ?bad = "bad_deps steps (ctx_steps ctx) st"
  have "\<forall>(dep, r) \<in> set ?bad. dep \<in> set (deps_of st)" using bad_deps_sub by fast
  from taints [OF this] show ?thesis
    by (cases ?bad) (simp_all add: isEligible_def split_beta split: option.splits)
qed

text \<open>A later state keeps the settled results and their taints.\<close>

definition keeps :: "engine_state \<Rightarrow> engine_state \<Rightarrow> bool" where
  "keeps s s' \<longleftrightarrow> (\<forall>i. has_result s i \<longrightarrow> map_of (ws_results s') i = map_of (ws_results s) i \<and>
     (i \<in> set (ws_tainted s') \<longleftrightarrow> i \<in> set (ws_tainted s)))"

lemma settled_kept:
  assumes "keeps s s'" and "depsSettled (ws_results s) st" and "dep \<in> set (deps_of st)"
  shows "map_of (ws_results s') dep = map_of (ws_results s) dep"
    and "dep \<in> set (ws_tainted s') \<longleftrightarrow> dep \<in> set (ws_tainted s)"
  using assms by (auto simp: keeps_def has_result_def depsSettled_def list_all_iff)

lemma decided_kept:
  assumes "decided d ctx s st el" and "keeps s s'"
  shows "decided d ctx s' st el"
proof -
  from assms(1) obtain seen where settled: "depsSettled (ws_results s) st"
    and seen: "\<forall>dep \<in> set (deps_of st). map_of seen dep = map_of (ws_results s) dep"
    and el: "isEligible (wd_steps d) (eval_context d ctx seen) (ws_tainted s) st = Inr el"
    by (auto simp: decided_def)
  note kept = settled_kept [OF assms(2) settled]
  have "depsSettled (ws_results s') st" using settled kept(1) by (simp add: depsSettled_def list_all_iff)
  moreover have "isEligible (wd_steps d) (eval_context d ctx seen) (ws_tainted s') st = Inr el"
    using el isEligible_taint_cong [of st "ws_tainted s'" "ws_tainted s"] kept(2) by simp
  ultimately show ?thesis using seen kept(1) by (auto simp: decided_def)
qed

lemma explained_kept:
  assumes "explained runs d ctx s st r" and "keeps s s'" and "has_result s (st_id st)"
  shows "explained runs d ctx s' st r"
  using assms decided_kept [OF _ assms(2)] unfolding explained_def taint_ok_def keeps_def by blast

lemma decided_now:
  assumes "isEligible (wd_steps d) (eval_context d ctx (ws_results s)) (ws_tainted s) st = Inr el"
    and "depsSettled (ws_results s) st"
  shows "decided d ctx s st el"
  using assms by (auto simp: decided_def)

lemma keeps_new_result:
  assumes "\<not> has_result s i" and "ws_results s' = AList.update i r (ws_results s)"
    and "set (ws_tainted s') - {i} = set (ws_tainted s) - {i}"
  shows "keeps s s'"
  using assms unfolding keeps_def has_result_def by (auto simp: update_conv')

lemma keeps_unchanged:
  assumes "ws_results s' = ws_results s" and "ws_tainted s' = ws_tainted s"
  shows "keeps s s'"
  using assms by (simp add: keeps_def has_result_def)

lemma step_of_in: "i \<in> set (map st_id steps) \<Longrightarrow> \<exists>st. step_of steps i = Some st"
proof -
  assume "i \<in> set (map st_id steps)"
  then have "i \<in> fst ` set (rev (map (\<lambda>s. (st_id s, s)) steps))" by (simp add: image_image)
  then show ?thesis unfolding step_of_def by (metis map_of_eq_None_iff not_None_eq)
qed

lemma inv_add_result:
  assumes inv: "engine_inv runs d ctx s" and st: "step_of (wd_steps d) i = Some st"
    and fresh: "\<not> has_result s i"
    and results: "ws_results s' = AList.update i r (ws_results s)"
    and tainted: "set (ws_tainted s') = set (ws_tainted s) \<or> set (ws_tainted s') = insert i (set (ws_tainted s))"
    and rest: "set (ws_pending s') \<subseteq> set (ws_pending s) - {i}" "set (ws_inflight s') \<subseteq> set (ws_inflight s) - {i}"
    and shape: "engine_shape s'"
    and new: "keeps s s' \<Longrightarrow> explained runs d ctx s' st r"
  shows "engine_inv runs d ctx s' \<and> keeps s s'"
proof -
  have keeps: "keeps s s'" by (rule keeps_new_result [OF fresh results]) (use tainted in auto)
  have has: "has_result s' j \<longleftrightarrow> j = i \<or> has_result s j" for j
    by (simp add: has_result_def results update_conv')
  have "i \<in> set (map st_id (wd_steps d))" using step_ofD [OF st] by force
  moreover have "\<exists>st. step_of (wd_steps d) j = Some st \<and> decided d ctx s' st Eligible" if "j \<in> set (ws_inflight s')" for j
    using inv that rest decided_kept [OF _ keeps] unfolding engine_inv_def by blast
  moreover have "\<exists>st. step_of (wd_steps d) j = Some st \<and> explained runs d ctx s' st q"
    if "map_of (ws_results s') j = Some q" for j q
  proof (cases "j = i")
    case True
    with that st new [OF keeps] show ?thesis by (simp add: results)
  next
    case False
    with that have "map_of (ws_results s) j = Some q" by (simp add: results update_conv')
    with inv obtain su where su: "step_of (wd_steps d) j = Some su" "explained runs d ctx s su q" and "has_result s j"
      unfolding engine_inv_def has_result_def by force
    with explained_kept [OF su(2) keeps] step_ofD [OF su(1)] show ?thesis by auto
  qed
  ultimately have "engine_inv runs d ctx s'"
    using inv shape rest tainted unfolding engine_inv_def has by blast
  with keeps show ?thesis by blast
qed

lemma launch_inv:
  assumes inv: "engine_inv runs d ctx s" and i: "i \<in> set (ws_pending s)"
    and ready: "depsSettled (ws_results s) (the (step_of (wd_steps d) i))"
    and launch: "launch d ctx i s = Inr s'"
  shows "engine_inv runs d ctx s' \<and> keeps s s'"
proof -
  note invD = engine_invD [OF inv]
  from i invD(2) have "i \<in> set (map st_id (wd_steps d))" by blast
  then obtain st where st: "step_of (wd_steps d) i = Some st" using step_of_in by blast
  have id: "st_id st = i" using step_ofD [OF st] by simp
  have fresh: "\<not> has_result s i" "i \<notin> set (ws_tainted s)" "i \<notin> set (ws_inflight s)"
    using invD(3,4) [of i] i invD(1) by (auto simp: engine_shape_def)
  have shape: "engine_shape s'"
    using launches_shape [of d ctx "[i]" s s'] launch i inv by (simp add: engine_inv_def)
  from launch show ?thesis
  proof (cases rule: launch_cases)
    case (skipped reason t)
    then have el: "decided d ctx s st (Ineligible reason t)" using ready st by (simp add: decided_now)
    show ?thesis
    proof (rule inv_add_result [OF inv st fresh(1) _ _ _ _ shape])
      assume "keeps s s'"
      from decided_kept [OF el this] show "explained runs d ctx s' st (skipped_result i reason)"
        using id fresh(2) skipped(2) by (auto simp: explained_def)
    qed (use skipped(2) fresh(3) in auto)
  next
    case started
    have keeps: "keeps s s'" by (rule keeps_unchanged) (simp_all add: started(2))
    have new: "decided d ctx s st Eligible" using ready st started(1) by (simp add: decided_now)
    have "engine_inv runs d ctx s'"
    proof (rule engine_inv_same [OF inv shape])
      fix j assume "j \<in> set (ws_inflight s')"
      then show "\<exists>st. step_of (wd_steps d) j = Some st \<and> decided d ctx s st Eligible"
        using invD(5) new st by (auto simp: started(2))
    qed (use i in \<open>auto simp: started(2)\<close>)
    with keeps show ?thesis by blast
  qed
qed

subsection \<open>The invariant along a run\<close>

definition all_placed :: "workflow_definition \<Rightarrow> engine_state \<Rightarrow> bool" where
  "all_placed d s \<longleftrightarrow> (\<forall>i \<in> set (map st_id (wd_steps d)).
     i \<in> set (ws_pending s) \<or> i \<in> set (ws_inflight s) \<or> has_result s i)"

lemma keeps_trans: "keeps s t \<Longrightarrow> keeps t u \<Longrightarrow> keeps s u"
  by (auto simp: keeps_def has_result_def)

lemma launches_inv:
  assumes "foldE (launch d ctx) is s = Inr s'" and "engine_inv runs d ctx s" and "distinct is"
    and "set is \<subseteq> set (ws_pending s)"
    and "\<forall>i \<in> set is. depsSettled (ws_results s) (the (step_of (wd_steps d) i))" and "all_placed d s"
  shows "engine_inv runs d ctx s' \<and> all_placed d s'"
  using assms
proof (induction "is" arbitrary: s)
  case (Cons i "is")
  then obtain s1 where one: "launch d ctx i s = Inr s1" and rest: "foldE (launch d ctx) is s1 = Inr s'"
    by (auto simp: err_simps)
  have i: "i \<in> set (ws_pending s)" "depsSettled (ws_results s) (the (step_of (wd_steps d) i))"
    using Cons.prems(4,5) by simp_all
  from launch_inv [OF Cons.prems(2) i one] have inv: "engine_inv runs d ctx s1" and keeps: "keeps s s1" by simp_all
  have "depsSettled (ws_results s1) st" if "depsSettled (ws_results s) st" for st
    using that keeps by (auto simp: depsSettled_def list_all_iff keeps_def has_result_def)
  moreover have "all_placed d s1"
    using one Cons.prems(6) by (cases rule: launch_cases) (auto simp: all_placed_def has_result_def update_conv')
  moreover have "set is \<subseteq> set (ws_pending s1)" using Cons.prems(3,4) launch_simps(1) [OF one] by auto
  ultimately show ?case using Cons.IH [OF rest inv] Cons.prems(3,5) by simp
qed simp

definition sound_limit :: "engine_context \<Rightarrow> bool" where
  "sound_limit ctx \<longleftrightarrow> (case wx_concurrency ctx of None \<Rightarrow> True | Some l \<Rightarrow> l \<le> 0 \<or> 1 \<le> l)"

lemma some_ready:
  assumes dag: "is_dag (wd_steps d)" and inv: "engine_inv runs d ctx s" and placed: "all_placed d s"
    and "ws_pending s \<noteq> []" and idle: "ws_inflight s = []"
  shows "ready_steps d s \<noteq> []"
proof -
  let ?rank = "dag_rank (wd_steps d)"
  have "finite (set (ws_pending s))" "set (ws_pending s) \<noteq> {}" using assms(4) by simp_all
  then obtain i where i: "i \<in> set (ws_pending s)" and least: "\<forall>j \<in> set (ws_pending s). ?rank i \<le> ?rank j"
    using arg_min_if_finite [of "set (ws_pending s)" ?rank] by (metis not_le)
  then obtain st where st: "step_of (wd_steps d) i = Some st"
    using engine_invD(2) [OF inv] step_of_in [of i "wd_steps d"] by blast
  have "map_of (ws_results s) dep \<noteq> None" if dep: "dep \<in> set (deps_of st)" for dep
  proof -
    have edge: "(i, dep) \<in> step_edges_of (wd_steps d)" using step_ofD [OF st] dep by (auto simp: step_edges_iff)
    have "dep \<in> set (map st_id (wd_steps d))" using dag step_ofD [OF st] dep by (auto simp: is_dag_def)
    moreover have "dep \<notin> set (ws_pending s)" using dag_rank_less [OF dag edge] least by (meson not_le)
    ultimately show ?thesis using placed idle by (auto simp: all_placed_def has_result_def)
  qed
  then have "i \<in> set (ready_steps d s)" using i st by (simp add: ready_steps_def depsSettled_def list_all_iff)
  then show ?thesis by auto
qed

lemma some_launched:
  assumes "sound_limit ctx" and "ready_steps d s \<noteq> []" and "ws_inflight s = []"
  shows "to_launch d ctx s \<noteq> []"
proof (cases "wx_concurrency ctx")
  case (Some l)
  have "1 \<le> \<lfloor>l\<rfloor>" if "\<not> l \<le> 0" using assms(1) Some that by (simp add: sound_limit_def le_floor_iff)
  with Some assms(2,3) show ?thesis by (auto simp: to_launch_def within_capacity_def)
qed (use assms in \<open>simp add: to_launch_def within_capacity_def\<close>)

definition engine_good ::
  "(workflow_step \<Rightarrow> v1_error + step_result \<Rightarrow> bool) \<Rightarrow> workflow_definition \<Rightarrow> engine_context \<Rightarrow>
   engine_state \<Rightarrow> bool" where
  "engine_good runs d ctx s \<longleftrightarrow>
     (ws_phase s = Returned \<longrightarrow> ws_cancelled s \<or> ws_pending s = []) \<and>
     ((ws_phase s = Returned \<and> ws_cancelled s) \<or>
      engine_inv runs d ctx s \<and>
      (all_placed d s \<or> ws_phase s = Draining \<or> (\<exists>e. ws_phase s = Threw e)) \<and>
      (ws_phase s = Draining \<longrightarrow> ws_cancelled s))"

lemma good_phase:
  assumes "engine_inv runs d ctx s" and "all_placed d s"
    and "p = Returned \<Longrightarrow> ws_cancelled s \<or> ws_pending s = []" and "p = Draining \<Longrightarrow> ws_cancelled s"
    and "\<And>b. p = Racing b \<Longrightarrow> \<not> ws_cancelled s"
  shows "engine_good runs d ctx (s\<lparr>ws_phase := p\<rparr>)"
proof -
  have "engine_shape (s\<lparr>ws_phase := p\<rparr>)" using engine_invD(1) [OF assms(1)] assms(5) by (auto simp: engine_shape_def)
  then have "engine_inv runs d ctx (s\<lparr>ws_phase := p\<rparr>)"
    using engine_invD(5) [OF assms(1)] by (intro engine_inv_same [OF assms(1)]) auto
  with assms show ?thesis by (auto simp: engine_good_def all_placed_def has_result_def)
qed

lemma task_done_inv:
  assumes inv: "engine_inv runs d ctx s" and i: "i \<in> set (ws_inflight s)"
    and st: "step_of (wd_steps d) i = Some st" and runs: "runs st (Inr r)"
  shows "engine_inv runs d ctx (task_done st r s)" and "all_placed d s \<Longrightarrow> all_placed d (task_done st r s)"
proof -
  have id: "st_id st = i" using step_ofD [OF st] by simp
  note invD = engine_invD [OF inv]
  have fresh: "\<not> has_result s i" "i \<notin> set (ws_tainted s)" "i \<notin> set (ws_pending s)"
    using invD(3,4) [of i] i invD(1) by (auto simp: engine_shape_def)
  from invD(5) [OF i] st have el: "decided d ctx s st Eligible" by auto
  have shape: "engine_shape (task_done st r s)"
    using invD(1) by (auto simp: engine_shape_def distinct_removeAll)
  have "engine_inv runs d ctx (task_done st r s) \<and> keeps s (task_done st r s)"
  proof (rule inv_add_result [OF inv st fresh(1) _ _ _ _ shape])
    assume "keeps s (task_done st r s)"
    from decided_kept [OF el this] runs show "explained runs d ctx (task_done st r s) st r"
      using fresh(2) id by (simp add: explained_def taint_ok_def)
  qed (use fresh(3) id in auto)
  then show "engine_inv runs d ctx (task_done st r s)" ..
  show "all_placed d (task_done st r s)" if "all_placed d s"
    using that id by (auto simp: all_placed_def has_result_def update_conv')
qed

lemma good_initial: "engine_good runs d ctx (initial_state d aborted)"
proof -
  have "engine_inv runs d ctx (initial_state d aborted)"
    using initial_shape [of d aborted] by (simp add: engine_inv_def initial_state_def has_result_def)
  then show ?thesis by (simp add: engine_good_def all_placed_def) (simp add: initial_state_def)
qed

lemma pass_good:
  assumes "is_dag (wd_steps d)" and "sound_limit ctx" and good: "engine_good runs d ctx s"
    and phase: "ws_phase s = AtHead" and "at_head d ctx s = Inr s'"
  shows "engine_good runs d ctx s'"
proof -
  from good phase have inv: "engine_inv runs d ctx s" and placed: "all_placed d s"
    by (auto simp: engine_good_def)
  from assms(5) show ?thesis
  proof (cases rule: at_head_cases)
    case stop
    then show ?thesis by (auto intro!: good_phase [OF inv placed] split: if_splits)
  next
    case stuck
    with some_launched [OF assms(2) some_ready [OF assms(1) inv placed]] show ?thesis by simp
  next
    case (launched s1)
    have shape: "engine_shape s" by (rule engine_invD(1) [OF inv])
    have "distinct (to_launch d ctx s)" using shape by (simp add: distinct_to_launch engine_shape_def)
    moreover have "\<forall>i \<in> set (to_launch d ctx s). depsSettled (ws_results s) (the (step_of (wd_steps d) i))"
      using to_launch_sub ready_stepsD by blast
    ultimately have "engine_inv runs d ctx s1 \<and> all_placed d s1"
      using launches_inv [OF launched(3) inv _ to_launch_pending _ placed] by blast
    with launches_of(4) [OF launched(3) shape] launched(1) show ?thesis
      unfolding launched(4) by (intro good_phase) (auto split: if_splits)
  qed
qed

lemma step_good:
  assumes dag: "is_dag (wd_steps d)" and limit: "sound_limit ctx"
    and good: "engine_good runs d ctx s" and step: "engine_step runs d ctx s s'"
  shows "engine_good runs d ctx s'"
proof -
  have racing: "engine_inv runs d ctx s" "all_placed d s" "\<not> ws_cancelled s" if "ws_phase s = Racing b" for b
    using good that engine_invD(1) [of runs d ctx s] by (auto simp: engine_good_def engine_shape_def)
  have draining: "engine_inv runs d ctx s" "ws_cancelled s" if "ws_phase s = Draining"
    using good that by (auto simp: engine_good_def)
  have fewer: "engine_inv runs d ctx (s\<lparr>ws_inflight := removeAll i (ws_inflight s), ws_phase := p\<rparr>)"
    if "engine_inv runs d ctx s" "\<And>b. p \<noteq> Racing b" for i p
    using engine_invD(1,5) [OF that(1)] that(2)
    by (intro engine_inv_same [OF that(1)]) (auto simp: engine_shape_def distinct_removeAll)
  from step show ?thesis
  proof (cases rule: engine_step.cases)
    case pass
    then show ?thesis using pass_good [OF dag limit good] by blast
  next
    case (pass_throws e)
    with good have "engine_inv runs d ctx s" "all_placed d s" by (auto simp: engine_good_def)
    from good_phase [OF this, of "Threw e"] pass_throws show ?thesis by simp
  next
    case (settle b i st r)
    note after = task_done_inv [OF racing(1) [OF settle(2)] settle(3,4,5)]
    show ?thesis
      unfolding settle(1) by (rule good_phase [OF after(1) after(2) [OF racing(2) [OF settle(2)]]])
        (use racing(3) settle(2) in auto)
  next
    case (task_throws b i st e)
    then show ?thesis using fewer [OF racing(1), of b "Threw e" i] by (simp add: engine_good_def)
  next
    case (abort b)
    have "engine_inv runs d ctx s'"
      using engine_invD(1,5) [OF racing(1) [OF abort(2)]] unfolding abort(1)
      by (intro engine_inv_same [OF racing(1) [OF abort(2)]]) (auto simp: engine_shape_def)
    with racing [OF abort(2)] abort show ?thesis
      by (simp add: engine_good_def all_placed_def has_result_def)
  next
    case (raced b)
    have "engine_inv runs d ctx s'"
      using engine_invD(1,5) [OF racing(1) [OF raced(2)]] unfolding raced(1)
      by (intro engine_inv_same [OF racing(1) [OF raced(2)]]) (auto simp: engine_shape_def)
    with racing [OF raced(2)] raced show ?thesis
      by (simp add: engine_good_def all_placed_def has_result_def)
  next
    case (drain i st r)
    note after = task_done_inv [OF draining(1) [OF drain(2)] drain(3,4,5)]
    with draining(2) drain show ?thesis by (simp add: engine_good_def)
  next
    case (drain_throws i st e)
    have "s' = s\<lparr>ws_inflight := removeAll i (ws_inflight s), ws_phase := Draining\<rparr>"
      using drain_throws(1,2) by simp
    with fewer [OF draining(1) [OF drain_throws(2)], of Draining i] draining(2) drain_throws show ?thesis
      by (simp add: engine_good_def)
  next
    case drained
    then show ?thesis using draining(2) by (simp add: engine_good_def)
  qed
qed

lemma reachable_good:
  assumes "is_dag (wd_steps d)" and "sound_limit ctx" and "engine_reachable runs d ctx aborted s"
  shows "engine_good runs d ctx s"
  using assms(3) by (induction rule: engine_reachable_induct) (auto intro: good_initial step_good [OF assms(1,2)])

text \<open>Short of a cancelled run that has returned.\<close>

lemma reachable_inv:
  assumes "is_dag (wd_steps d)" and "sound_limit ctx" and "engine_reachable runs d ctx aborted s"
    and "\<not> (ws_phase s = Returned \<and> ws_cancelled s)"
  shows "engine_inv runs d ctx s"
  using reachable_good [OF assms(1-3)] assms(4) by (auto simp: engine_good_def)

subsection \<open>Taint\<close>

text \<open>
  What the documentation calls tainted: a step that failed and is not forgiven, and a step without
  a \<open>when\<close> that was skipped behind a tainted one.
\<close>

inductive hard_tainted :: "workflow_definition \<Rightarrow> step_result record_of \<Rightarrow> string \<Rightarrow> bool"
  for d :: workflow_definition and results :: "step_result record_of" where
    failed: "step_of (wd_steps d) i = Some st \<Longrightarrow> map_of results i = Some r \<Longrightarrow>
      sr_status r = step_status.StFailed \<Longrightarrow> st_continueOnFailure st \<noteq> Some True \<Longrightarrow> hard_tainted d results i"
  | behind: "step_of (wd_steps d) i = Some st \<Longrightarrow> map_of results i = Some r \<Longrightarrow>
      sr_status r = StSkipped \<Longrightarrow> st_when st = None \<Longrightarrow> dep \<in> set (deps_of st) \<Longrightarrow>
      hard_tainted d results dep \<Longrightarrow> hard_tainted d results i"

lemma isEligible_plain:
  assumes "isEligible steps ctx tainted st = Inr (Ineligible reason t)"
  shows "t \<longleftrightarrow> st_when st = None \<and> list_ex (causes_taint tainted) (bad_deps steps (ctx_steps ctx) st)"
proof (cases "st_when st")
  case None
  with assms show ?thesis
    by (cases "bad_deps steps (ctx_steps ctx) st") (auto simp: isEligible_def)
qed (use assms in \<open>auto simp: isEligible_def err_simps split: if_splits\<close>)

locale task_runner =
  fixes runs :: "workflow_step \<Rightarrow> v1_error + step_result \<Rightarrow> bool"
  assumes settles: "runs st (Inr r) \<Longrightarrow> sr_status r = StSucceeded \<or> sr_status r = step_status.StFailed"
begin

lemma tainted_result:
  assumes "engine_inv runs d ctx s" and "i \<in> set (ws_tainted s)" and "map_of (ws_results s) i = Some r"
    and "step_of (wd_steps d) i = Some st"
  shows "(sr_status r = step_status.StFailed \<and> \<not> continues (Some st)) \<or> sr_status r = StSkipped"
  using engine_invD(6) [OF assms(1,3)] assms(2,4) step_ofD [OF assms(4)]
  by (auto simp: explained_def taint_ok_def skipped_result_def)

lemma skipped_decided:
  assumes "explained runs d ctx s st r" and "sr_status r = StSkipped"
  obtains reason t where "decided d ctx s st (Ineligible reason t)" "st_id st \<in> set (ws_tainted s) \<longleftrightarrow> t"
  using assms settles [of st r] by (auto simp: explained_def)

text \<open>What a default-rule skip is tainted by, in terms of the results and taints of now.\<close>

lemma decided_taint:
  assumes "decided d ctx s st (Ineligible reason t)"
  shows "t \<longleftrightarrow> st_when st = None \<and>
    list_ex (causes_taint (ws_tainted s)) (bad_deps (wd_steps d) (ws_results s) st)"
proof -
  from assms obtain seen where seen: "\<forall>dep \<in> set (deps_of st). map_of seen dep = map_of (ws_results s) dep"
    and el: "isEligible (wd_steps d) (eval_context d ctx seen) (ws_tainted s) st = Inr (Ineligible reason t)"
    by (auto simp: decided_def)
  from isEligible_plain [OF el] bad_deps_cong [OF seen] show ?thesis by (simp add: eval_context_def)
qed

lemma hard_tainted_tainted:
  assumes inv: "engine_inv runs d ctx s"
  shows "hard_tainted d (ws_results s) i \<Longrightarrow> i \<in> set (ws_tainted s)"
proof (induction rule: hard_tainted.induct)
  case (failed i st r)
  with engine_invD(6) [OF inv failed(2)] step_ofD [OF failed(1)] show ?case
    by (auto simp: explained_def taint_ok_def skipped_result_def continues_def)
next
  case (behind i st r dep)
  from engine_invD(6) [OF inv behind(2)] behind(1) have "explained runs d ctx s st r" by auto
  then obtain reason t where el: "decided d ctx s st (Ineligible reason t)" and t: "st_id st \<in> set (ws_tainted s) \<longleftrightarrow> t"
    using behind(3) by (rule skipped_decided)
  have "has_result s dep" by (rule engine_invD(4) [OF inv behind(7)])
  then obtain q where q: "map_of (ws_results s) dep = Some q" by (auto simp: has_result_def)
  with engine_invD(6) [OF inv this] obtain su where su: "step_of (wd_steps d) dep = Some su" by auto
  from tainted_result [OF inv behind(7) q su] su have "\<not> dep_ok (wd_steps d) dep q"
    by (auto simp: dep_ok_def)
  with q behind(5) have "(dep, q) \<in> set (bad_deps (wd_steps d) (ws_results s) st)"
    by (force simp: bad_deps_def)
  with behind(7) have "list_ex (causes_taint (ws_tainted s)) (bad_deps (wd_steps d) (ws_results s) st)"
    by (force simp: list_ex_iff causes_taint_def)
  with decided_taint [OF el] behind(4) t step_ofD [OF behind(1)] show ?case by simp
qed

lemma tainted_hard_tainted:
  assumes inv: "engine_inv runs d ctx s" and dag: "is_dag (wd_steps d)"
  shows "i \<in> set (ws_tainted s) \<Longrightarrow> hard_tainted d (ws_results s) i"
proof (induction i rule: measure_induct_rule [where f = "dag_rank (wd_steps d)"])
  case (less i)
  from engine_invD(4) [OF inv less.prems] obtain r where r: "map_of (ws_results s) i = Some r"
    by (auto simp: has_result_def)
  with engine_invD(6) [OF inv this] obtain st
    where st: "step_of (wd_steps d) i = Some st" and why: "explained runs d ctx s st r" by auto
  from tainted_result [OF inv less.prems r st] show ?case
  proof
    assume "sr_status r = step_status.StFailed \<and> \<not> continues (Some st)"
    then show ?thesis using hard_tainted.failed [OF st r] by (simp add: continues_def)
  next
    assume skipped: "sr_status r = StSkipped"
    with why obtain reason t where el: "decided d ctx s st (Ineligible reason t)"
      and t: "st_id st \<in> set (ws_tainted s) \<longleftrightarrow> t" by (rule skipped_decided)
    with less.prems step_ofD [OF st] decided_taint [OF el] have "when": "st_when st = None"
      and "list_ex (causes_taint (ws_tainted s)) (bad_deps (wd_steps d) (ws_results s) st)" by auto
    then obtain dep q where bad: "(dep, q) \<in> set (bad_deps (wd_steps d) (ws_results s) st)"
      and cause: "causes_taint (ws_tainted s) (dep, q)" by (auto simp: list_ex_iff)
    have dep: "dep \<in> set (deps_of st)" by (rule bad_deps_sub [OF bad])
    from el dep have settled: "map_of (ws_results s) dep \<noteq> None" by (auto simp: decided_def depsSettled_def list_all_iff)
    with bad have q: "map_of (ws_results s) dep = Some q" and not_ok: "\<not> dep_ok (wd_steps d) dep q"
      by (auto simp: bad_deps_def)
    from engine_invD(6) [OF inv q] obtain su where su: "step_of (wd_steps d) dep = Some su" by auto
    have "(i, dep) \<in> step_edges_of (wd_steps d)" using step_ofD [OF st] dep by (auto simp: step_edges_iff)
    note lower = less.IH [OF dag_rank_less [OF dag this]]
    have "hard_tainted d (ws_results s) dep"
    proof (cases "sr_status q = step_status.StFailed")
      case True
      then show ?thesis using hard_tainted.failed [OF su q] not_ok su by (simp add: dep_ok_def continues_def)
    next
      case False
      then show ?thesis using cause lower by (simp add: causes_taint_def)
    qed
    then show ?thesis by (rule hard_tainted.behind [OF st r skipped "when" dep])
  qed
qed

lemma settled_run_fails:
  assumes dag: "is_dag (wd_steps d)" and limit: "sound_limit ctx"
    and run: "engine_reachable runs d ctx aborted s" and returned: "ws_phase s = Returned"
    and live: "\<not> ws_cancelled s" and idle: "ws_inflight s = []"
  shows "run_status d s =
      (if \<exists>st \<in> set (terminal_steps (wd_steps d)). hard_tainted d (ws_results s) (st_id st)
       then RunFailed else RunSucceeded)"
    and "st \<in> set (wd_steps d) \<Longrightarrow> map_of (ws_results s) (st_id st) \<noteq> None"
proof -
  from reachable_good [OF dag limit run] returned live
  have inv: "engine_inv runs d ctx s" and placed: "all_placed d s" and "ws_pending s = []"
    by (auto simp: engine_good_def)
  then have settled: "has_result s (st_id st)" if "st \<in> set (wd_steps d)" for st
    using that idle by (auto simp: all_placed_def)
  then show "st \<in> set (wd_steps d) \<Longrightarrow> map_of (ws_results s) (st_id st) \<noteq> None"
    by (simp add: has_result_def)
  have "(case map_of (ws_results s) (st_id st) of None \<Rightarrow> True
      | Some r \<Rightarrow> (sr_status r = step_status.StFailed \<and> \<not> continues (Some st)) \<or>
          (sr_status r = StSkipped \<and> st_id st \<in> set (ws_tainted s))) \<longleftrightarrow> hard_tainted d (ws_results s) (st_id st)"
    if st: "st \<in> set (wd_steps d)" for st
  proof -
    have of: "step_of (wd_steps d) (st_id st) = Some st"
      using dag st by (intro step_of_step) (simp_all add: is_dag_def)
    from settled [OF st] obtain r where r: "map_of (ws_results s) (st_id st) = Some r" by (auto simp: has_result_def)
    show ?thesis
      using hard_tainted.failed [OF of r] hard_tainted_tainted [OF inv, of "st_id st"]
        tainted_hard_tainted [OF inv dag, of "st_id st"] tainted_result [OF inv _ r of] r
      by (auto simp: continues_def)
  qed
  with terminal_steps_subset [of "wd_steps d"]
  have "list_ex (\<lambda>st. case map_of (ws_results s) (st_id st) of None \<Rightarrow> True
      | Some r \<Rightarrow> (sr_status r = step_status.StFailed \<and> \<not> continues (Some st)) \<or>
          (sr_status r = StSkipped \<and> st_id st \<in> set (ws_tainted s))) (terminal_steps (wd_steps d)) \<longleftrightarrow>
     (\<exists>st \<in> set (terminal_steps (wd_steps d)). hard_tainted d (ws_results s) (st_id st))"
    unfolding list_ex_iff by (intro bex_cong) auto
  with live show "run_status d s =
      (if \<exists>st \<in> set (terminal_steps (wd_steps d)). hard_tainted d (ws_results s) (st_id st)
       then RunFailed else RunSucceeded)"
    by (simp add: run_status_def computeStatus_def)
qed

end

subsection \<open>Independence of the schedule\<close>

fun step_reads :: "v1_expr \<Rightarrow> string list" where
  "step_reads (XStepField i f) = [i]"
| "step_reads (XStepOutput i key) = [i]"
| "step_reads (XNot e) = step_reads e"
| "step_reads (XBin op l r) = step_reads l @ step_reads r"
| "step_reads _ = []"

text \<open>A \<open>when\<close> condition that reads nothing but the results of dependencies.\<close>

definition local_condition :: "workflow_step \<Rightarrow> bool" where
  "local_condition st \<longleftrightarrow>
     (case st_when st of
        None \<Rightarrow> True
      | Some w \<Rightarrow> (case parseExpression w of Inl _ \<Rightarrow> True | Inr e \<Rightarrow> list_all (\<lambda>i. i \<in> set (deps_of st)) (step_reads e)))"

lemma evaluate_cong:
  assumes "ctx_vars c1 = ctx_vars c2"
  shows "\<forall>i \<in> set (step_reads e). map_of (ctx_steps c1) i = map_of (ctx_steps c2) i \<Longrightarrow>
    evaluateExpression e c1 = evaluateExpression e c2"
  by (induction e) (simp_all add: assms statusFor_def cong: if_cong)

lemma isEligible_cong:
  assumes "local_condition st"
    and "\<forall>dep \<in> set (deps_of st). map_of m1 dep = map_of m2 dep \<and> (dep \<in> set t1 \<longleftrightarrow> dep \<in> set t2)"
  shows "isEligible steps (eval_context d ctx m1) t1 st = isEligible steps (eval_context d ctx m2) t2 st"
proof -
  have taints: "isEligible steps (eval_context d ctx m2) t1 st = isEligible steps (eval_context d ctx m2) t2 st"
    using assms(2) by (intro isEligible_taint_cong) auto
  have "isEligible steps (eval_context d ctx m1) t1 st = isEligible steps (eval_context d ctx m2) t1 st"
  proof (cases "st_when st")
    case None
    have "bad_deps steps m1 st = bad_deps steps m2 st" using assms(2) by (intro bad_deps_cong) auto
    then show ?thesis by (simp add: isEligible_def None eval_context_def)
  next
    case (Some w)
    show ?thesis
    proof (cases "parseExpression w")
      case (Inr e)
      have "evaluateExpression e (eval_context d ctx m1) = evaluateExpression e (eval_context d ctx m2)"
        using assms Some Inr by (intro evaluate_cong) (auto simp: eval_context_def local_condition_def list_all_iff)
      then show ?thesis by (simp add: isEligible_def Some Inr)
    qed (simp add: isEligible_def Some)
  qed
  with taints show ?thesis by simp
qed

lemma same_results:
  assumes dag: "is_dag (wd_steps d)" and local: "\<forall>st \<in> set (wd_steps d). local_condition st"
    and fixed: "\<And>st x y. runs st x \<Longrightarrow> runs st y \<Longrightarrow> x = y"
    and inv: "engine_inv runs d ctx s" "engine_inv runs d ctx t"
  shows "has_result s i \<Longrightarrow> has_result t i \<Longrightarrow> map_of (ws_results s) i = map_of (ws_results t) i \<and>
    (i \<in> set (ws_tainted s) \<longleftrightarrow> i \<in> set (ws_tainted t))"
proof (induction i rule: measure_induct_rule [where f = "dag_rank (wd_steps d)"])
  case (less i)
  from less.prems obtain r q where r: "map_of (ws_results s) i = Some r" and q: "map_of (ws_results t) i = Some q"
    by (auto simp: has_result_def)
  from engine_invD(6) [OF inv(1) r] engine_invD(6) [OF inv(2) q] obtain st
    where st: "step_of (wd_steps d) i = Some st"
      and why: "explained runs d ctx s st r" "explained runs d ctx t st q" by auto
  have same: "map_of (ws_results s) dep = map_of (ws_results t) dep \<and>
      (dep \<in> set (ws_tainted s) \<longleftrightarrow> dep \<in> set (ws_tainted t))"
    if "dep \<in> set (deps_of st)" "depsSettled (ws_results s) st" "depsSettled (ws_results t) st" for dep
  proof (rule less.IH)
    show "dag_rank (wd_steps d) dep < dag_rank (wd_steps d) i"
      using step_ofD [OF st] that(1) by (intro dag_rank_less [OF dag]) (auto simp: step_edges_iff)
    show "has_result s dep" "has_result t dep"
      using that by (auto simp: has_result_def depsSettled_def list_all_iff)
  qed
  have rule: "el = el'" if el: "decided d ctx s st el" and el': "decided d ctx t st el'" for el el'
  proof -
    from el obtain m1 where m1: "\<forall>dep \<in> set (deps_of st). map_of m1 dep = map_of (ws_results s) dep"
      "isEligible (wd_steps d) (eval_context d ctx m1) (ws_tainted s) st = Inr el" "depsSettled (ws_results s) st"
      by (auto simp: decided_def)
    from el' obtain m2 where m2: "\<forall>dep \<in> set (deps_of st). map_of m2 dep = map_of (ws_results t) dep"
      "isEligible (wd_steps d) (eval_context d ctx m2) (ws_tainted t) st = Inr el'" "depsSettled (ws_results t) st"
      by (auto simp: decided_def)
    have "isEligible (wd_steps d) (eval_context d ctx m1) (ws_tainted s) st =
        isEligible (wd_steps d) (eval_context d ctx m2) (ws_tainted t) st"
      using local step_ofD [OF st] m1(1,3) m2(1,3) same by (intro isEligible_cong) auto
    with m1(2) m2(2) show ?thesis by simp
  qed
  have id: "st_id st = i" using step_ofD [OF st] by simp
  from why(1) [unfolded explained_def] show ?case
  proof (elim disjE exE conjE)
    assume el: "decided d ctx s st Eligible" and "runs st (Inr r)" and taint: "taint_ok s st r"
    from rule [OF el] why(2) have "runs st (Inr q)" and "taint_ok t st q" by (auto simp: explained_def)
    moreover from this(1) \<open>runs st (Inr r)\<close> have "r = q" using fixed by blast
    ultimately show ?thesis using taint r q by (simp add: taint_ok_def id)
  next
    fix reason tainted
    assume el: "decided d ctx s st (Ineligible reason tainted)"
      and "r = skipped_result (st_id st) reason" and "st_id st \<in> set (ws_tainted s) \<longleftrightarrow> tainted"
    moreover from rule [OF el] why(2) have "q = skipped_result (st_id st) reason \<and>
        (st_id st \<in> set (ws_tainted t) \<longleftrightarrow> tainted)"
      unfolding explained_def by blast
    ultimately show ?thesis using r q id by simp
  qed
qed

subsection \<open>What a task of the engine settles with\<close>

lemma run_attempts_status:
  "run_attempts number env st n k outputs err = Some (Inr r) \<Longrightarrow>
   sr_status r = StSucceeded \<or> sr_status r = step_status.StFailed"
proof (induction n arbitrary: k outputs err)
  case (Suc n)
  from Suc.prems obtain ready generated
    where "interpolateStep number st (te_context env k) = Inr (ready, generated)"
    by (cases "interpolateStep number st (te_context env k)") auto
  moreover from this Suc.prems obtain out where "attempt_settles number env ready generated k = Some out"
    by (cases "attempt_settles number env ready generated k") auto
  ultimately show ?case
    using Suc.prems Suc.IH
    by (cases out) (auto simp: step_succeeded_def step_failed_def Let_def split: if_splits)
qed (auto simp: step_failed_def)

interpretation engine_tasks: task_runner "engine_runs number" for number
proof
  fix st r
  assume "engine_runs number st (Inr r)"
  then show "sr_status r = StSucceeded \<or> sr_status r = step_status.StFailed"
    unfolding engine_runs_def runStep_def using run_attempts_status by blast
qed

end
