(* ===== verification/WorkflowEngineRuns.thy ===== *)
theory WorkflowEngineRuns
  imports WorkflowEngineProps
begin

section \<open>Runs of the workflow engine\<close>

text \<open>
  The properties of \<open>execute\<close>, each with a run of a small workflow, and the run in which it
  returns before its tasks have settled.
\<close>

subsection \<open>Progress\<close>

definition engine_alive :: "workflow_definition \<Rightarrow> engine_state \<Rightarrow> bool" where
  "engine_alive d s \<longleftrightarrow> set (ws_pending s) \<union> set (ws_inflight s) \<subseteq> set (map st_id (wd_steps d)) \<and>
     (ws_phase s = Racing False \<longrightarrow> ws_inflight s \<noteq> [])"

lemma launches_known:
  "foldE (launch d ctx) is s = Inr s' \<Longrightarrow> set is \<subseteq> set (map st_id (wd_steps d)) \<Longrightarrow>
   set (ws_pending s) \<union> set (ws_inflight s) \<subseteq> set (map st_id (wd_steps d)) \<Longrightarrow>
   set (ws_pending s') \<union> set (ws_inflight s') \<subseteq> set (map st_id (wd_steps d))"
proof (induction "is" arbitrary: s)
  case (Cons i "is")
  then obtain s1 where one: "launch d ctx i s = Inr s1" and rest: "foldE (launch d ctx) is s1 = Inr s'"
    by (auto simp: err_simps)
  have "set (ws_pending s1) \<union> set (ws_inflight s1) \<subseteq> set (map st_id (wd_steps d))"
    using one Cons.prems(2,3) by (cases rule: launch_cases) auto
  with Cons.IH [OF rest] Cons.prems(2) show ?case by simp
qed simp

lemma step_alive:
  assumes "engine_step runs d ctx s s'" and alive: "engine_alive d s"
  shows "engine_alive d s'"
  using assms(1)
proof (cases rule: engine_step.cases)
  case pass
  from pass(2) show ?thesis
  proof (cases rule: at_head_cases)
    case (launched s1)
    have "set (ws_pending s) \<union> set (ws_inflight s) \<subseteq> set (map st_id (wd_steps d))"
      using alive by (simp add: engine_alive_def)
    with launches_known [OF launched(3)] to_launch_pending [of d ctx s]
    have "set (ws_pending s1) \<union> set (ws_inflight s1) \<subseteq> set (map st_id (wd_steps d))" by blast
    then show ?thesis by (auto simp: engine_alive_def launched(4))
  qed (use alive in \<open>auto simp: engine_alive_def\<close>)
qed (use alive in \<open>auto simp: engine_alive_def\<close>)

lemma reachable_alive: "engine_reachable runs d ctx aborted s \<Longrightarrow> engine_alive d s"
proof (induction rule: engine_reachable_induct)
  case initial
  show ?case by (simp add: engine_alive_def initial_state_def)
qed (rule step_alive)

text \<open>A task of the engine can always settle: an executor that throws is one it may meet.\<close>

definition throwing :: task_env where
  "throwing = \<lparr>te_context = \<lambda>_. \<lparr>ctx_steps = [], ctx_vars = []\<rparr>, te_answer = \<lambda>_ _ _. Some (AttemptThrew []),
     te_aborted = \<lambda>_. False, te_aborted_asleep = \<lambda>_. False, te_started = 0, te_finished = 0\<rparr>"

lemma throwing_settles: "\<exists>x. run_attempts number throwing st n k outputs err = Some x"
proof (induction n arbitrary: k outputs err)
  case (Suc n)
  show ?case
  proof (cases "interpolateStep number st (te_context throwing k)")
    case (Inr p)
    have "attempt_settles number throwing ready generated k = Some (AttemptThrew [])" for ready generated
      by (simp add: attempt_settles_def throwing_def)
    with Suc.IH show ?thesis by (cases p) (simp add: Inr Let_def)
  qed simp
qed simp

lemma task_settles: "\<exists>x. engine_runs number st x"
  unfolding engine_runs_def runStep_def using throwing_settles by blast

lemma engine_progress:
  assumes "engine_alive d s" and "ws_phase s \<noteq> Returned" and "\<And>e. ws_phase s \<noteq> Threw e"
  shows "\<exists>s'. engine_step (engine_runs number) d ctx s s'"
proof -
  have task: "\<exists>i st x. i \<in> set (ws_inflight s) \<and> step_of (wd_steps d) i = Some st \<and> engine_runs number st x"
    if "ws_inflight s \<noteq> []"
  proof -
    from that obtain i where "i \<in> set (ws_inflight s)" by (cases "ws_inflight s") auto
    moreover from this assms(1) obtain st where "step_of (wd_steps d) i = Some st"
      using step_of_in [of i "wd_steps d"] by (auto simp: engine_alive_def)
    ultimately show ?thesis using task_settles by blast
  qed
  show ?thesis
  proof (cases "ws_phase s")
    case AtHead
    then show ?thesis
      by (cases "at_head d ctx s") (blast intro: engine_step.pass engine_step.pass_throws)+
  next
    case (Racing b)
    show ?thesis
    proof (cases b)
      case True
      with Racing show ?thesis by (blast intro: engine_step.raced)
    next
      case False
      with Racing assms(1) have "ws_inflight s \<noteq> []" by (simp add: engine_alive_def)
      from task [OF this] obtain i st x
        where "i \<in> set (ws_inflight s)" "step_of (wd_steps d) i = Some st" "engine_runs number st x" by blast
      with Racing show ?thesis by (cases x) (blast intro: engine_step.settle engine_step.task_throws)+
    qed
  next
    case Draining
    show ?thesis
    proof (cases "ws_inflight s = []")
      case True
      with Draining show ?thesis by (blast intro: engine_step.drained)
    next
      case False
      from task [OF this] obtain i st x
        where "i \<in> set (ws_inflight s)" "step_of (wd_steps d) i = Some st" "engine_runs number st x" by blast
      with Draining show ?thesis by (cases x) (blast intro: engine_step.drain engine_step.drain_throws)+
    qed
  qed (use assms(2,3) in auto)
qed

subsection \<open>A run of two steps\<close>

definition action_step :: "string \<Rightarrow> workflow_step" where
  "action_step i = \<lparr>st_id = i, st_config = ActionStep ''work'' None, st_dependsOn = None, st_when = None,
     st_timeoutMs = None, st_retry = None, st_continueOnFailure = None\<rparr>"

definition workflow_of :: "workflow_step list \<Rightarrow> workflow_definition" where
  "workflow_of steps = \<lparr>wd_name = ''sample'', wd_description = None, wd_trigger = None, wd_eligibility = None,
     wd_workspace = None, wd_variables = None, wd_steps = steps, wd_transitions = None, wd_budget = None\<rparr>"

definition pair_workflow :: workflow_definition where
  "pair_workflow = workflow_of [action_step ''a'', action_step ''b'']"

definition unlimited :: engine_context where
  "unlimited = \<lparr>wx_variables = [], wx_concurrency = None\<rparr>"

definition prompt :: task_env where
  "prompt = \<lparr>te_context = \<lambda>_. \<lparr>ctx_steps = [], ctx_vars = []\<rparr>, te_answer = \<lambda>_ _ _. Some (AttemptSucceeded None),
     te_aborted = \<lambda>_. False, te_aborted_asleep = \<lambda>_. False, te_started = 0, te_finished = 1\<rparr>"

definition good_result :: "string \<Rightarrow> step_result" where
  "good_result i = step_succeeded prompt (action_step i) None"

lemma action_runs: "engine_runs number (action_step i) (Inr (good_result i))"
proof -
  have "runStep number prompt (action_step i) = Some (Inr (good_result i))"
    by (simp add: runStep_def interpolateStep_def optionalE_def attempt_settles_def good_result_def action_step_def
        prompt_def step_succeeded_def)
  then show ?thesis by (auto simp: engine_runs_def)
qed

text \<open>Both steps in flight, then one settled, then returned.\<close>

definition both_running :: engine_state where
  "both_running = \<lparr>ws_results = [], ws_pending = [], ws_inflight = [''a'', ''b''], ws_tainted = [],
     ws_events = [StepStarted ''a'', StepStarted ''b''], ws_aborted = False, ws_cancelled = False,
     ws_phase = Racing False\<rparr>"

definition one_settled :: "engine_phase \<Rightarrow> engine_state" where
  "one_settled p = \<lparr>ws_results = [(''a'', good_result ''a'')], ws_pending = [], ws_inflight = [''b''], ws_tainted = [],
     ws_events = [StepStarted ''a'', StepStarted ''b'', StepCompleted ''a'' StSucceeded],
     ws_aborted = False, ws_cancelled = False, ws_phase = p\<rparr>"

lemma pair_launched: "at_head pair_workflow unlimited (initial_state pair_workflow False) = Inr both_running"
  by code_simp

lemma pair_steps:
  "engine_reachable (engine_runs number) pair_workflow unlimited False both_running"
  "engine_reachable (engine_runs number) pair_workflow unlimited False (one_settled Returned)"
proof -
  let ?step = "engine_step (engine_runs number) pair_workflow unlimited"
  have s1: "?step (initial_state pair_workflow False) both_running"
    by (rule engine_step.pass [OF _ pair_launched]) (simp add: initial_state_def)
  have known: "step_of (wd_steps pair_workflow) ''a'' = Some (action_step ''a'')" by code_simp
  have "(task_done (action_step ''a'') (good_result ''a'') both_running)\<lparr>ws_phase := Racing True\<rparr> = one_settled (Racing True)"
    by (simp add: task_done_def Let_def set_result_def notify_def both_running_def one_settled_def action_step_def
        good_result_def step_succeeded_def)
  with engine_step.settle [of both_running False "''a''" pair_workflow "action_step ''a''" "engine_runs number"
      "good_result ''a''" unlimited, OF _ _ known action_runs]
  have s2: "?step both_running (one_settled (Racing True))" by (simp add: both_running_def)
  from engine_step.raced [of "one_settled (Racing True)" True "engine_runs number" pair_workflow unlimited]
  have s3: "?step (one_settled (Racing True)) (one_settled AtHead)" by (simp add: one_settled_def)
  have s4: "?step (one_settled AtHead) (one_settled Returned)"
    by (rule engine_step.pass) (simp_all add: one_settled_def at_head_def)
  have r1: "?step\<^sup>*\<^sup>* (initial_state pair_workflow False) both_running" by (rule r_into_rtranclp [of ?step, OF s1])
  note rtranclp.rtrancl_into_rtrancl [OF rtranclp.rtrancl_into_rtrancl [OF rtranclp.rtrancl_into_rtrancl [OF r1 s2] s3] s4]
  with r1 show "engine_reachable (engine_runs number) pair_workflow unlimited False both_running"
    "engine_reachable (engine_runs number) pair_workflow unlimited False (one_settled Returned)"
    by (simp_all only: engine_reachable_def)
qed

subsection \<open>Schedules that can be computed\<close>

text \<open>A schedule names the passes, the settlements and the returns of the race in their order.\<close>

datatype move = Pass | Settle string step_result | Resume

fun make_move :: "workflow_definition \<Rightarrow> engine_context \<Rightarrow> move \<Rightarrow> engine_state \<Rightarrow> engine_state option" where
  "make_move d ctx Pass s =
     (if ws_phase s = AtHead then case at_head d ctx s of Inl _ \<Rightarrow> None | Inr t \<Rightarrow> Some t else None)"
| "make_move d ctx (Settle i r) s =
     (case (ws_phase s, step_of (wd_steps d) i) of
        (Racing _, Some st) \<Rightarrow> if i \<in> set (ws_inflight s) then Some ((task_done st r s)\<lparr>ws_phase := Racing True\<rparr>) else None
      | _ \<Rightarrow> None)"
| "make_move d ctx Resume s =
     (if ws_phase s = Racing True then Some (s\<lparr>ws_cancelled := ws_aborted s, ws_phase := AtHead\<rparr>) else None)"

fun follow :: "workflow_definition \<Rightarrow> engine_context \<Rightarrow> move list \<Rightarrow> engine_state \<Rightarrow> engine_state option" where
  "follow d ctx [] s = Some s"
| "follow d ctx (m # ms) s = Option.bind (make_move d ctx m s) (follow d ctx ms)"

definition settles_with ::
  "(workflow_step \<Rightarrow> v1_error + step_result \<Rightarrow> bool) \<Rightarrow> workflow_definition \<Rightarrow> move \<Rightarrow> bool" where
  "settles_with runs d m \<longleftrightarrow>
     (case m of Settle i r \<Rightarrow> (case step_of (wd_steps d) i of None \<Rightarrow> False | Some st \<Rightarrow> runs st (Inr r)) | _ \<Rightarrow> True)"

lemma make_move_step:
  assumes "make_move d ctx m s = Some t" and "settles_with runs d m"
  shows "engine_step runs d ctx s t"
proof (cases m)
  case Pass
  with assms show ?thesis by (auto split: if_splits sum.splits intro: engine_step.pass)
next
  case (Settle i r)
  with assms show ?thesis
    by (auto simp: settles_with_def split: engine_phase.splits option.splits if_splits intro: engine_step.settle)
next
  case Resume
  with assms show ?thesis by (auto split: if_splits intro: engine_step.raced)
qed

lemma follow_reachable:
  assumes "follow d ctx ms s = Some t" and "list_all (settles_with runs d) ms"
    and "engine_reachable runs d ctx aborted s"
  shows "engine_reachable runs d ctx aborted t"
  using assms
proof (induction ms arbitrary: s)
  case (Cons m ms)
  then obtain u where u: "make_move d ctx m s = Some u" "follow d ctx ms u = Some t"
    by (cases "make_move d ctx m s") auto
  have "engine_reachable runs d ctx aborted u"
    using Cons.prems(2,3) make_move_step [OF u(1)] unfolding engine_reachable_def
    by (auto intro: rtranclp.rtrancl_into_rtrancl)
  with Cons.IH [OF u(2)] Cons.prems(2) show ?case by simp
qed simp

lemma follow_initial:
  assumes "follow d ctx ms (initial_state d aborted) = Some t" and "list_all (settles_with runs d) ms"
  shows "engine_reachable runs d ctx aborted t"
  using follow_reachable [OF assms] by (simp add: engine_reachable_def)

text \<open>A build, and tests that depend on it and fail.\<close>

definition test_step :: workflow_step where
  "test_step = (action_step ''test'')\<lparr>st_dependsOn := Some [''build'']\<rparr>"

definition chain_workflow :: workflow_definition where
  "chain_workflow = workflow_of [action_step ''build'', test_step]"

definition failing :: task_env where
  "failing = prompt\<lparr>te_answer := \<lambda>_ _ _. Some (AttemptFailed None (Some ''broken''))\<rparr>"

definition bad_result :: step_result where
  "bad_result = step_failed failing test_step [] (Some ''broken'')"

lemma test_fails: "engine_runs number test_step (Inr bad_result)"
proof -
  have "runStep number failing test_step = Some (Inr bad_result)"
    by (simp add: runStep_def interpolateStep_def optionalE_def attempt_settles_def test_step_def action_step_def
        failing_def prompt_def bad_result_def step_failed_def)
  then show ?thesis by (auto simp: engine_runs_def)
qed

definition chain_moves :: "move list" where
  "chain_moves = [Pass, Settle ''build'' (good_result ''build''), Resume, Pass,
     Settle ''test'' bad_result, Resume, Pass]"

definition chain_state :: "nat \<Rightarrow> engine_state" where
  "chain_state n = the (follow chain_workflow unlimited (take n chain_moves) (initial_state chain_workflow False))"

lemma chain_reachable:
  assumes "follow chain_workflow unlimited (take n chain_moves) (initial_state chain_workflow False) \<noteq> None"
  shows "engine_reachable (engine_runs number) chain_workflow unlimited False (chain_state n)"
proof (rule follow_initial)
  show "follow chain_workflow unlimited (take n chain_moves) (initial_state chain_workflow False) = Some (chain_state n)"
    using assms by (auto simp: chain_state_def)
  have "step_of (wd_steps chain_workflow) ''build'' = Some (action_step ''build'')"
    "step_of (wd_steps chain_workflow) ''test'' = Some test_step" by code_simp+
  then have "list_all (settles_with (engine_runs number) chain_workflow) chain_moves"
    using test_fails action_runs by (simp add: chain_moves_def settles_with_def)
  then show "list_all (settles_with (engine_runs number) chain_workflow) (take n chain_moves)"
    by (auto simp: list_all_iff dest: in_set_takeD)
qed

lemma chain_dag: "is_dag (wd_steps chain_workflow)"
proof -
  have "step_edges_of (wd_steps chain_workflow) \<subseteq> {(''test'', ''build'')}"
    by (auto simp: step_edges_of_def chain_workflow_def workflow_of_def test_step_def action_step_def deps_of_def)
  moreover have "acyclic {(''test'', ''build'')}" by (auto simp: acyclic_def elim: trancl.cases)
  ultimately have "acyclic (step_edges_of (wd_steps chain_workflow))" by (rule acyclic_subset [rotated])
  then show ?thesis
    by (auto simp: is_dag_def chain_workflow_def workflow_of_def test_step_def action_step_def deps_of_def)
qed

lemma unlimited_sound: "sound_limit unlimited"
  by (simp add: sound_limit_def unlimited_def)

subsection \<open>Properties\<close>

text \<open>
  The engine returns while a task is still running: the loop ends as soon as no step is
  pending, so of two independent steps the run is reported when the first settles. The other has
  no result then and, being terminal, fails the workflow, although every step succeeds.
\<close>

theorem returns_with_task_in_flight:
  "\<exists>s. engine_reachable (engine_runs number) pair_workflow unlimited False s \<and> ws_phase s = Returned \<and>
     ws_inflight s = [''b''] \<and> list_all (\<lambda>(i, r). sr_status r = StSucceeded) (ws_results s) \<and>
     run_status pair_workflow s = RunFailed"
proof (intro exI conjI)
  show "engine_reachable (engine_runs number) pair_workflow unlimited False (one_settled Returned)"
    by (rule pair_steps)
  show "run_status pair_workflow (one_settled Returned) = RunFailed" by code_simp
qed (simp_all add: one_settled_def good_result_def step_succeeded_def)

text \<open>
  C26. Every run of the engine ends: no run goes on for ever, whatever the steps, the executors
  and the moment of an abort are, and as long as it has neither returned nor thrown it can go on.
\<close>

theorem engine_always_ends:
  "\<not> (\<exists>f. f 0 = initial_state d aborted \<and> (\<forall>n. engine_step (engine_runs number) d ctx (f n) (f (Suc n)))) \<and>
   (engine_reachable (engine_runs number) d ctx aborted s \<longrightarrow>
     ws_phase s = Returned \<or> (\<exists>e. ws_phase s = Threw e) \<or> (\<exists>s'. engine_step (engine_runs number) d ctx s s'))"
  using no_infinite_run [of _ d aborted "engine_runs number" ctx]
    engine_progress [OF reachable_alive [of "engine_runs number" d ctx aborted s], of number ctx] by blast

theorem engine_always_ends_witness:
  "\<exists>s'. engine_step (engine_runs (\<lambda>_. [])) pair_workflow unlimited both_running s'"
  using engine_always_ends [of pair_workflow False "\<lambda>_. []" unlimited both_running] pair_steps(1)
  by (simp add: both_running_def)

text \<open>
  C27. The engine never runs more tasks at a time than the run's concurrency limit, whatever the
  order in which tasks settle.
\<close>

theorem concurrency_bounded:
  assumes "engine_reachable runs d ctx aborted s" and "wx_concurrency ctx = Some limit" and "0 < limit"
  shows "of_nat (length (ws_inflight s)) \<le> limit"
proof -
  have "bounded_tasks ctx s"
    using assms(1)
  proof (induction rule: engine_reachable_induct)
    case initial
    show ?case using assms(3) by (simp add: bounded_tasks_def initial_state_def split: option.splits)
  qed (rule step_bounded)
  with assms(2,3) show ?thesis by (simp add: bounded_tasks_def)
qed

definition one_at_a_time :: engine_context where
  "one_at_a_time = \<lparr>wx_variables = [], wx_concurrency = Some 1\<rparr>"

definition first_running :: engine_state where
  "first_running = \<lparr>ws_results = [], ws_pending = [''b''], ws_inflight = [''a''], ws_tainted = [],
     ws_events = [StepStarted ''a''], ws_aborted = False, ws_cancelled = False, ws_phase = Racing False\<rparr>"

lemma first_launched: "engine_reachable runs pair_workflow one_at_a_time False first_running"
proof -
  have "at_head pair_workflow one_at_a_time (initial_state pair_workflow False) = Inr first_running"
    by code_simp
  then have "engine_step runs pair_workflow one_at_a_time (initial_state pair_workflow False) first_running"
    by (intro engine_step.pass) (simp_all add: initial_state_def)
  then show ?thesis unfolding engine_reachable_def by (rule r_into_rtranclp)
qed

theorem concurrency_bounded_witness:
  "of_nat (length (ws_inflight first_running)) \<le> (1::rat)"
  by (rule concurrency_bounded [OF first_launched [of "engine_runs (\<lambda>_. [])"]]) (simp_all add: one_at_a_time_def)

text \<open>
  C28. A task is only ever in flight when its step may run: all its dependencies have settled, and
  without a \<open>when\<close> each of them succeeded or failed with \<open>continueOnFailure\<close>.
\<close>

theorem tasks_wait_for_dependencies:
  assumes "is_dag (wd_steps d)" and "sound_limit ctx" and "engine_reachable runs d ctx aborted s"
    and "ws_phase s \<noteq> Returned" and "step_of (wd_steps d) i = Some st" and "i \<in> set (ws_inflight s)"
    and "dep \<in> set (deps_of st)"
  shows "\<exists>r. map_of (ws_results s) dep = Some r \<and>
    (st_when st = None \<longrightarrow> sr_status r = StSucceeded \<or>
       (sr_status r = step_status.StFailed \<and> Option.bind (step_of (wd_steps d) dep) st_continueOnFailure = Some True))"
proof -
  have inv: "engine_inv runs d ctx s" using reachable_inv [OF assms(1-3)] assms(4) by blast
  from engine_invD(5) [OF inv assms(6)] assms(5) have el: "decided d ctx s st Eligible" by auto
  then obtain seen where settled: "depsSettled (ws_results s) st"
    and seen: "\<forall>dep \<in> set (deps_of st). map_of seen dep = map_of (ws_results s) dep"
    and rule: "isEligible (wd_steps d) (eval_context d ctx seen) (ws_tainted s) st = Inr Eligible"
    by (auto simp: decided_def)
  from settled assms(7) obtain r where r: "map_of (ws_results s) dep = Some r"
    by (auto simp: depsSettled_def list_all_iff)
  have "dep_ok (wd_steps d) dep r" if "st_when st = None"
  proof -
    have "bad_deps (wd_steps d) (ws_results s) st = []"
      using rule that bad_deps_cong [OF seen]
      by (simp add: isEligible_def eval_context_def split: list.splits prod.splits)
    with assms(7) r show ?thesis by (auto simp: bad_deps_def filter_empty_conv)
  qed
  with r show ?thesis by (auto simp: dep_ok_def continues_def)
qed

theorem tasks_wait_for_dependencies_witness:
  "\<exists>r. map_of (ws_results (chain_state 4)) ''build'' = Some r \<and> sr_status r = StSucceeded"
proof -
  have "follow chain_workflow unlimited (take 4 chain_moves) (initial_state chain_workflow False) \<noteq> None"
    by code_simp
  note run = chain_reachable [OF this, of "\<lambda>_. []"]
  have "ws_phase (chain_state 4) = Racing False" "''test'' \<in> set (ws_inflight (chain_state 4))"
    "step_of (wd_steps chain_workflow) ''test'' = Some test_step" "''build'' \<in> set (deps_of test_step)"
    "st_when test_step = None" "step_of (wd_steps chain_workflow) ''build'' = Some (action_step ''build'')"
    "st_continueOnFailure (action_step ''build'') = None"
    by code_simp+
  with tasks_wait_for_dependencies [OF chain_dag unlimited_sound run, of "''test''" test_step "''build''"]
  show ?thesis by auto
qed

text \<open>
  C29. The outcome of a run that returns with no task left is the one the documentation gives:
  it fails exactly when a terminal step is tainted, that is failed without forgiveness or was
  skipped, without a \<open>when\<close>, behind a tainted step; otherwise it succeeds, and every step has a
  result.
\<close>

theorem run_fails_iff_tainted_terminal:
  assumes "is_dag (wd_steps d)" and "sound_limit ctx"
    and "engine_reachable (engine_runs number) d ctx aborted s" and "ws_phase s = Returned"
    and "\<not> ws_cancelled s" and "ws_inflight s = []"
  shows "run_status d s =
      (if \<exists>st \<in> set (terminal_steps (wd_steps d)). hard_tainted d (ws_results s) (st_id st)
       then RunFailed else RunSucceeded)"
  by (rule engine_tasks.settled_run_fails(1) [OF assms])

theorem run_fails_iff_tainted_terminal_witness:
  "run_status chain_workflow (chain_state 7) = RunFailed \<and> hard_tainted chain_workflow (ws_results (chain_state 7)) ''test''"
proof -
  have "follow chain_workflow unlimited (take 7 chain_moves) (initial_state chain_workflow False) \<noteq> None"
    by code_simp
  note run = chain_reachable [OF this, of "\<lambda>_. []"]
  have "ws_phase (chain_state 7) = Returned" "\<not> ws_cancelled (chain_state 7)" "ws_inflight (chain_state 7) = []"
    "run_status chain_workflow (chain_state 7) = RunFailed"
    "map st_id (terminal_steps (wd_steps chain_workflow)) = [''test'']"
    by code_simp+
  with run_fails_iff_tainted_terminal [OF chain_dag unlimited_sound run]
  show ?thesis by (auto split: if_splits)
qed

text \<open>
  C30. What a step settles with does not depend on the schedule: when executors answer the same
  for a step whenever they run it and conditions read only the dependencies of their step, any
  two runs, with any limits on concurrency, agree on every step both have settled, and on whether
  it is tainted.
\<close>

theorem schedule_independent:
  assumes "is_dag (wd_steps d)" and "list_all local_condition (wd_steps d)"
    and "sound_limit ctx" and "sound_limit ctx'" and "wx_variables ctx = wx_variables ctx'"
    and "engine_reachable (\<lambda>st x. x = answer st) d ctx aborted s" and "\<not> (ws_phase s = Returned \<and> ws_cancelled s)"
    and "engine_reachable (\<lambda>st x. x = answer st) d ctx' aborted' t" and "\<not> (ws_phase t = Returned \<and> ws_cancelled t)"
    and "map_of (ws_results s) i = Some r" and "map_of (ws_results t) i = Some q"
  shows "r = q \<and> (i \<in> set (ws_tainted s) \<longleftrightarrow> i \<in> set (ws_tainted t))"
proof -
  let ?runs = "\<lambda>st x. x = answer st"
  have "eval_context d ctx' = eval_context d ctx"
    by (simp add: fun_eq_iff eval_context_def engine_variables_def assms(5))
  then have "engine_inv ?runs d ctx' = engine_inv ?runs d ctx"
    by (simp add: fun_eq_iff engine_inv_def explained_def decided_def)
  then have inv: "engine_inv ?runs d ctx s" "engine_inv ?runs d ctx t"
    using reachable_inv [OF assms(1,3,6,7)] reachable_inv [OF assms(1,4,8,9)] by simp_all
  have "\<forall>st \<in> set (wd_steps d). local_condition st" using assms(2) by (simp add: list_all_iff)
  from same_results [OF assms(1) this _ inv, of i] assms(10,11) show ?thesis by (simp add: has_result_def)
qed

definition pair_moves :: "move list" where
  "pair_moves = [Pass, Settle ''a'' (good_result ''a''), Resume, Pass]"

theorem schedule_independent_witness:
  "\<exists>s t. engine_reachable (\<lambda>st x. x = Inr (good_result (st_id st))) pair_workflow unlimited False s \<and>
     engine_reachable (\<lambda>st x. x = Inr (good_result (st_id st))) pair_workflow one_at_a_time False t \<and>
     ws_inflight s = [''b''] \<and> ws_phase t = Racing False \<and>
     map_of (ws_results s) ''a'' \<noteq> None \<and> map_of (ws_results s) ''a'' = map_of (ws_results t) ''a''"
proof -
  let ?s = "the (follow pair_workflow unlimited pair_moves (initial_state pair_workflow False))"
  let ?t = "the (follow pair_workflow one_at_a_time pair_moves (initial_state pair_workflow False))"
  let ?runs = "\<lambda>st x. x = Inr (good_result (st_id st))"
  have known: "step_of (wd_steps pair_workflow) ''a'' = Some (action_step ''a'')" by code_simp
  have ok: "list_all (settles_with ?runs pair_workflow) pair_moves"
    by (simp add: pair_moves_def settles_with_def known) (simp add: action_step_def)
  have "follow pair_workflow unlimited pair_moves (initial_state pair_workflow False) = Some ?s"
    "follow pair_workflow one_at_a_time pair_moves (initial_state pair_workflow False) = Some ?t" by code_simp+
  then have runs: "engine_reachable ?runs pair_workflow unlimited False ?s"
      "engine_reachable ?runs pair_workflow one_at_a_time False ?t"
    by (auto intro: follow_initial [OF _ ok])
  have facts: "ws_phase ?s = Returned" "\<not> ws_cancelled ?s" "ws_phase ?t = Racing False" "ws_inflight ?s = [''b'']"
    "map_of (ws_results ?s) ''a'' \<noteq> None" "map_of (ws_results ?t) ''a'' \<noteq> None"
    "list_all local_condition (wd_steps pair_workflow)" by code_simp+
  have dag: "is_dag (wd_steps pair_workflow)"
    by (auto simp: is_dag_def acyclic_def step_edges_of_def pair_workflow_def workflow_of_def action_step_def
        deps_of_def elim: trancl.cases)
  have limits: "sound_limit unlimited" "sound_limit one_at_a_time" "wx_variables unlimited = wx_variables one_at_a_time"
    by (simp_all add: sound_limit_def unlimited_def one_at_a_time_def)
  from schedule_independent [OF dag facts(7) limits runs(1) _ runs(2), of "''a''"] facts
  have "map_of (ws_results ?s) ''a'' = map_of (ws_results ?t) ''a''" by auto
  with runs facts show ?thesis by blast
qed

end
