(* ===== verification/AgentLoop.thy ===== *)
theory AgentLoop
  imports Budget Policy Text Expressions Stores Effects
begin

section \<open>The native agent loop\<close>

text \<open>
  \<open>packages/runtime/src/agent-loop.ts\<close>, with the compaction of \<open>context.ts\<close>, the protocol tools
  of \<open>protocol.ts\<close> and the registry of \<open>registry.ts\<close>. What the loop calls (the model, the tools,
  the hooks, the approval gateway, the session repository, the clock and the abort signals) is a
  record of functions, each of which reads how often it was called before. What it does to the
  world is a trace. A sub-agent is a run of the same loop one level deeper.
\<close>

subsection \<open>Messages\<close>

datatype block =
  TextBlock string | ImageBlock string string | ToolCall string string jsval
| ToolResult string string "bool option" | ThinkingBlock string "jsval option"

datatype message_role = RoleSystem | RoleUser | RoleAssistant | RoleTool

record message =
  msg_role :: message_role
  msg_content :: "block list"

record model_response =
  mr_model :: string
  mr_content :: "block list"
  mr_usage :: token_usage

record model_error =
  me_message :: string
  me_retryable :: bool

datatype stream_event = TextDelta string | ThinkingDelta string | OtherDelta

text \<open>A stream yields events and then a response, nothing, or an error.\<close>

datatype stream_end = Response model_response | NoResponse | StreamError model_error

subsection \<open>Requests and results\<close>

record agent_request =
  rq_runId :: string
  rq_sessionId :: string
  rq_goal :: string
  rq_context :: "string option"
  rq_workspace :: "string option"
  rq_model :: "string option"
  rq_systemPrompt :: "string option"
  rq_toolNames :: "string list option"
  rq_maxTurns :: "nat option"
  rq_timeoutMs :: "nat option"
  rq_limits :: "budget_limits option"

record agent_result =
  ar_outcome :: agent_outcome
  ar_summary :: string
  ar_usage :: usage_record
  ar_session :: "string option"

datatype agent_event =
  AgentStarted string | TurnStarted nat | AgentText string | AgentThinking string
| ToolStarted string string jsval | ToolCompleted string string bool string
| SubagentStarted string | SubagentCompleted string agent_outcome | WaitingHuman string
| AgentUsage token_usage string | AgentCompleted agent_result

record tool =
  tl_name :: string
  tl_permissions :: "permission_capability list"
  tl_policyTarget :: "(jsval \<Rightarrow> string option) option"

text \<open>
  What the model is asked: the tools by their names, the protocol tools among them. Limits on the
  length of the answer are left out.
\<close>

record model_request =
  mq_model :: string
  mq_system :: string
  mq_messages :: "message list"
  mq_tools :: "string list"

datatype tool_outcome = ToolAnswered string "bool option" | ToolThrew string | ToolTimedOut

datatype hook_call =
  BeforeToolCall string string jsval | AfterToolCall string string bool | AfterAgentTurn string nat

datatype hook_outcome = HookContinues | HookBlocks "string option"

text \<open>Who aborted a session: a caller of \<open>cancel\<close>, with a reason, or its own timeout.\<close>

datatype abort_cause = ByCaller "string option" | ByTimeout

datatype agent_act =
  Asked string model_request | Answered string model_response | Executed string string tool jsval
| Approved permission_request | Saved "message session_snapshot" | Emitted string agent_event
| Summarized model_request "model_response option"

subsection \<open>The surroundings\<close>

record agent_env =
  ae_providers :: "tool list option list"
  ae_policy :: policy_engine
  ae_approve :: "(nat \<Rightarrow> permission_request \<Rightarrow> string + bool) option"
  ae_hooks :: "(nat \<Rightarrow> hook_call \<Rightarrow> string + hook_outcome) option"
  ae_stream :: "nat \<Rightarrow> model_request \<Rightarrow> stream_event list \<times> stream_end"
  ae_complete :: "nat \<Rightarrow> model_request \<Rightarrow> model_response option"
  ae_tool :: "nat \<Rightarrow> string \<Rightarrow> jsval \<Rightarrow> tool_outcome"
  ae_sessions :: "(nat \<Rightarrow> bool) option"
  ae_abort :: "string \<Rightarrow> nat \<Rightarrow> abort_cause option"
  ae_clock :: "nat \<Rightarrow> time"
  ae_cost :: "string \<Rightarrow> token_usage \<Rightarrow> rat option"
  ae_number :: "rat \<Rightarrow> string"
  ae_provider :: string
  ae_defaultModel :: string
  ae_defaultMaxTurns :: "nat option"
  ae_maxTextOnly :: "nat option"
  ae_maxDenials :: "nat option"
  ae_toolTimeoutMs :: nat
  ae_attempts :: nat
  ae_subagents :: bool
  ae_maxDepth :: nat
  ae_maxPerRun :: rat
  ae_triggerTokens :: rat
  ae_keepRecent :: nat
  ae_summaryModel :: "string option"

record agent_world =
  aw_polls :: nat
  aw_clock :: nat
  aw_streams :: nat
  aw_hooks :: nat
  aw_approvals :: nat
  aw_tools :: nat
  aw_saves :: nat
  aw_summaries :: nat
  aw_sessions :: "message session_rows"
  aw_trace :: "agent_act list"

text \<open>Computations that act on the world and may throw.\<close>

type_synonym 'a act = "(agent_world, string, 'a) op"

definition atomically :: "(agent_world \<Rightarrow> 'a \<times> agent_world) \<Rightarrow> 'a act" where
  "atomically f w = (case f w of (x, w1) \<Rightarrow> (Inr x, w1))"

definition polled :: "agent_env \<Rightarrow> string \<Rightarrow> abort_cause option act" where
  "polled env sid = atomically (\<lambda>w. (ae_abort env sid (aw_polls w), w\<lparr>aw_polls := aw_polls w + 1\<rparr>))"

definition agent_clock :: "agent_env \<Rightarrow> time act" where
  "agent_clock env = atomically (\<lambda>w. (ae_clock env (aw_clock w), w\<lparr>aw_clock := aw_clock w + 1\<rparr>))"

text \<open>The trace holds the latest act first.\<close>

definition traced :: "agent_act \<Rightarrow> unit act" where
  "traced a = atomically (\<lambda>w. ((), w\<lparr>aw_trace := a # aw_trace w\<rparr>))"

definition emitted :: "string \<Rightarrow> agent_event \<Rightarrow> unit act" where
  "emitted sid e = traced (Emitted sid e)"

text \<open>A hook point, when the runtime has a registry.\<close>

definition run_hook :: "agent_env \<Rightarrow> hook_call \<Rightarrow> hook_outcome act" where
  "run_hook env c w =
     (case ae_hooks env of
        None \<Rightarrow> (Inr HookContinues, w)
      | Some f \<Rightarrow> (f (aw_hooks w) c, w\<lparr>aw_hooks := aw_hooks w + 1\<rparr>))"

definition ask_approval :: "(nat \<Rightarrow> permission_request \<Rightarrow> string + bool) \<Rightarrow> permission_request \<Rightarrow> bool act" where
  "ask_approval f q w =
     (f (aw_approvals w) q,
      w\<lparr>aw_approvals := aw_approvals w + 1,
        aw_trace := (if f (aw_approvals w) q = Inr True then Approved q # aw_trace w else aw_trace w)\<rparr>)"

subsection \<open>The tool registry\<close>

definition resolve_step :: "string list option \<Rightarrow> tool \<Rightarrow> tool list \<Rightarrow> tool list" where
  "resolve_step names t tools =
     (if tl_name t \<in> set (map tl_name tools) then tools
      else if (case names of None \<Rightarrow> False | Some ns \<Rightarrow> tl_name t \<notin> set ns) then tools
      else tools @ [t])"

definition resolve_tools :: "tool list option list \<Rightarrow> string list option \<Rightarrow> tool list" where
  "resolve_tools providers names =
     fold (resolve_step names) (concat (map (\<lambda>p. case p of None \<Rightarrow> [] | Some ts \<Rightarrow> ts) providers)) []"

subsection \<open>The protocol tools\<close>

definition COMPLETE_GOAL_TOOL :: string where "COMPLETE_GOAL_TOOL = ''complete_goal''"
definition REQUEST_HUMAN_INPUT_TOOL :: string where "REQUEST_HUMAN_INPUT_TOOL = ''request_human_input''"
definition RUN_SUBAGENT_TOOL :: string where "RUN_SUBAGENT_TOOL = ''run_subagent''"

definition text_field :: "jsval \<Rightarrow> string \<Rightarrow> string option" where
  "text_field input k =
     (case input of
        JObj _ fs \<Rightarrow> (case map_of fs k of Some (JStr s) \<Rightarrow> Some s | _ \<Rightarrow> None)
      | _ \<Rightarrow> None)"

definition parseCompleteGoal :: "jsval \<Rightarrow> bool \<times> string" where
  "parseCompleteGoal input =
     (text_field input ''outcome'' \<noteq> Some ''blocked'',
      case text_field input ''summary'' of None \<Rightarrow> [] | Some s \<Rightarrow> s)"

definition parseReason :: "jsval \<Rightarrow> string" where
  "parseReason input = (case text_field input ''reason'' of None \<Rightarrow> ''human input requested'' | Some s \<Rightarrow> s)"

subsection \<open>Compaction\<close>

definition truncate_text :: "string \<Rightarrow> nat \<Rightarrow> string" where
  "truncate_text t maxChars =
     (if length t \<le> maxChars then t
      else take maxChars t @ [CHR 0x0A] @ ''[truncated '' @ show_nat (length t - maxChars) @ '' characters]'')"

definition transcript_block :: "(rat \<Rightarrow> string) \<Rightarrow> block \<Rightarrow> string" where
  "transcript_block number b =
     (case b of
        TextBlock t \<Rightarrow> t
      | ToolCall _ name input \<Rightarrow> ''[tool call '' @ name @ '': '' @
          (case json number input of None \<Rightarrow> ''undefined'' | Some t \<Rightarrow> t) @ '']''
      | ToolResult _ content _ \<Rightarrow> ''[tool result: '' @ truncate_text content 2000 @ '']''
      | ImageBlock _ _ \<Rightarrow> ''[image]''
      | ThinkingBlock _ _ \<Rightarrow> [])"

definition role_text :: "message_role \<Rightarrow> string" where
  "role_text r = (case r of
     RoleSystem \<Rightarrow> ''system'' | RoleUser \<Rightarrow> ''user'' | RoleAssistant \<Rightarrow> ''assistant'' | RoleTool \<Rightarrow> ''tool'')"

definition transcriptOf :: "(rat \<Rightarrow> string) \<Rightarrow> message list \<Rightarrow> string" where
  "transcriptOf number ms = join_with [CHR 0x0A, CHR 0x0A] (map (\<lambda>m.
     role_text (msg_role m) @ '': '' @
     join_with [CHR 0x0A] (filter (\<lambda>t. t \<noteq> []) (map (transcript_block number) (msg_content m)))) ms)"

definition block_texts :: "block list \<Rightarrow> string list" where
  "block_texts bs = concat (map (\<lambda>b. case b of TextBlock t \<Rightarrow> [t] | _ \<Rightarrow> []) bs)"

definition call_ids :: "message \<Rightarrow> string list" where
  "call_ids m = concat (map (\<lambda>b. case b of ToolCall i _ _ \<Rightarrow> [i] | _ \<Rightarrow> []) (msg_content m))"

definition unorphan :: "string set \<Rightarrow> block \<Rightarrow> block" where
  "unorphan known b =
     (case b of
        ToolResult i content _ \<Rightarrow>
          if i \<in> known then b else TextBlock (''[Earlier tool result]'' @ [CHR 0x0A] @ content)
      | _ \<Rightarrow> b)"

fun sanitizeTail :: "string set \<Rightarrow> message list \<Rightarrow> message list" where
  "sanitizeTail known [] = []"
| "sanitizeTail known (m # ms) =
     (let known' = known \<union> set (call_ids m) in
      m\<lparr>msg_content := map (unorphan known') (msg_content m)\<rparr> # sanitizeTail known' ms)"

definition summary_message :: "string \<Rightarrow> message" where
  "summary_message summary = \<lparr>msg_role = RoleUser,
     msg_content = [TextBlock (''[Conversation summary -- earlier turns compacted]'' @ [CHR 0x0A] @ summary)]\<rparr>"

definition summary_prompt :: string where
  "summary_prompt =
     ''Summarize the following agent conversation for continuation. Preserve: the goal, '' @
     ''decisions made, files and identifiers touched, tool outcomes that matter, open '' @
     ''problems, and next steps. Be dense and factual.''"

definition summary_request :: "agent_env \<Rightarrow> string \<Rightarrow> message list \<Rightarrow> model_request" where
  "summary_request env model ms =
     \<lparr>mq_model = (case ae_summaryModel env of None \<Rightarrow> model | Some m \<Rightarrow> m),
      mq_system = summary_prompt,
      mq_messages = [\<lparr>msg_role = RoleUser, msg_content = [TextBlock (transcriptOf (ae_number env) ms)]\<rparr>],
      mq_tools = []\<rparr>"

text \<open>
  The call of \<open>provider.complete\<close>, which answers or throws. It is an act of its own: a call of
  the model that belongs to no turn.
\<close>

definition complete_summary :: "agent_env \<Rightarrow> model_request \<Rightarrow> model_response option act" where
  "complete_summary env q = atomically (\<lambda>w.
     (ae_complete env (aw_summaries w) q,
      w\<lparr>aw_summaries := aw_summaries w + 1,
        aw_trace := Summarized q (ae_complete env (aw_summaries w) q) # aw_trace w\<rparr>))"

text \<open>The messages after a compaction, which are the same when none takes place.\<close>

definition compactMessages :: "agent_env \<Rightarrow> string \<Rightarrow> message list \<Rightarrow> message list act" where
  "compactMessages env model ms =
     (let keep = max (ae_keepRecent env) 2; cut = length ms - keep in
      if length ms \<le> keep + 2 then returnS ms
      else bindS (complete_summary env (summary_request env model (take cut ms))) (\<lambda>answer.
        case answer of
          None \<Rightarrow> returnS ms
        | Some r \<Rightarrow>
            (let summary = join_with [CHR 0x0A] (block_texts (mr_content r)) in
             returnS (if trim summary = [] then ms
                      else summary_message summary # sanitizeTail {} (drop cut ms)))))"

subsection \<open>Budget dimensions and capabilities in messages\<close>

definition dimension_text :: "budget_dimension \<Rightarrow> string" where
  "dimension_text dm = (case dm of
     DTokens \<Rightarrow> ''maxTokens'' | DCost \<Rightarrow> ''maxEstimatedCostUsd'' | DRequests \<Rightarrow> ''maxSubscriptionRequests''
   | DIterations \<Rightarrow> ''maxIterations'' | DWallClock \<Rightarrow> ''maxWallClockMs''
   | DQuota k \<Rightarrow> ''providerQuota:'' @ k)"

definition capability_text :: "permission_capability \<Rightarrow> string" where
  "capability_text c = (case c of
     FilesystemRead \<Rightarrow> ''filesystem.read'' | FilesystemWrite \<Rightarrow> ''filesystem.write''
   | ProcessExecute \<Rightarrow> ''process.execute'' | NetworkConnect \<Rightarrow> ''network.connect''
   | GitRead \<Rightarrow> ''git.read'' | GitWrite \<Rightarrow> ''git.write''
   | IssueRead \<Rightarrow> ''issue.read'' | IssueWrite \<Rightarrow> ''issue.write''
   | SecretRead \<Rightarrow> ''secret.read'' | BrowserUse \<Rightarrow> ''browser.use''
   | ComputerUse \<Rightarrow> ''computer.use'' | ContainerUse \<Rightarrow> ''container.use'')"

definition effect_text :: "policy_effect \<Rightarrow> string" where
  "effect_text e = (case e of
     Allow \<Rightarrow> ''allow'' | Deny \<Rightarrow> ''deny'' | Ask \<Rightarrow> ''ask'' | SandboxOnly \<Rightarrow> ''sandbox-only'')"

subsection \<open>Requests, the system prompt and the session of a run\<close>

definition nonempty_text :: "string option \<Rightarrow> string list" where
  "nonempty_text t = (case t of None \<Rightarrow> [] | Some s \<Rightarrow> if s = [] then [] else [s])"

definition runtimeInstructions :: "string option \<Rightarrow> string" where
  "runtimeInstructions workspacePath = join_with [CHR 0x0A]
     ([''You are an autonomous agent working toward an explicit goal.'',
       ''Work step by step using the available tools. Verify your work before declaring it done.'',
       ''When the goal is fully achieved (or genuinely stuck), call '' @ COMPLETE_GOAL_TOOL @
         ''; plain text never ends the task.'',
       ''If you need something only a human can provide, call '' @ REQUEST_HUMAN_INPUT_TOOL @ ''.''] @
      map (\<lambda>path. ''Your working directory is: '' @ path) (nonempty_text workspacePath))"

definition initialMessages :: "agent_request \<Rightarrow> message list" where
  "initialMessages rq =
     [\<lparr>msg_role = RoleUser,
       msg_content = [TextBlock (join_with [CHR 0x0A, CHR 0x0A]
         ((''Goal:'' @ [CHR 0x0A] @ rq_goal rq) #
          map (\<lambda>c. ''Context:'' @ [CHR 0x0A] @ c) (nonempty_text (rq_context rq))))]\<rparr>]"

definition model_of :: "agent_env \<Rightarrow> agent_request \<Rightarrow> string" where
  "model_of env rq = (case rq_model rq of None \<Rightarrow> ae_defaultModel env | Some m \<Rightarrow> m)"

definition max_turns_of :: "agent_env \<Rightarrow> agent_request \<Rightarrow> nat" where
  "max_turns_of env rq =
     (case rq_maxTurns rq of Some n \<Rightarrow> n | None \<Rightarrow>
        (case ae_defaultMaxTurns env of Some n \<Rightarrow> n | None \<Rightarrow> 50))"

definition system_of :: "agent_request \<Rightarrow> string" where
  "system_of rq = join_with [CHR 0x0A, CHR 0x0A]
     (nonempty_text (rq_systemPrompt rq) @ nonempty_text (Some (runtimeInstructions (rq_workspace rq))))"

definition subagentAllowed :: "agent_env \<Rightarrow> nat \<Rightarrow> bool" where
  "subagentAllowed env depth \<longleftrightarrow> ae_subagents env \<and> depth < ae_maxDepth env"

definition effectiveMaxSubagents :: "agent_env \<Rightarrow> agent_request \<Rightarrow> rat" where
  "effectiveMaxSubagents env rq =
     (case Option.bind (rq_limits rq) maxSubagentsPerRun of None \<Rightarrow> ae_maxPerRun env | Some m \<Rightarrow> m)"

definition no_limits :: budget_limits where
  "no_limits = \<lparr>maxConcurrentAgents = None, maxSubagentsPerRun = None, maxIterations = None,
     maxWallClockMs = None, maxTokens = None, maxEstimatedCostUsd = None,
     maxSubscriptionRequests = None, bl_providerQuotas = None\<rparr>"

text \<open>What a run is closed over, and the variables of its loop.\<close>

record agent_ctx =
  ac_env :: agent_env
  ac_request :: agent_request
  ac_depth :: nat
  ac_tools :: "tool list"
  ac_startedAt :: time
  ac_child :: "agent_request \<Rightarrow> message list \<Rightarrow> agent_world \<Rightarrow> agent_result \<times> agent_world"

record loop_state =
  ls_messages :: "message list"
  ls_usage :: token_usage
  ls_turn :: nat
  ls_textOnly :: nat
  ls_denials :: nat
  ls_subagents :: nat
  ls_lastText :: string
  ls_budget :: budget_tracker

definition ac_sid :: "agent_ctx \<Rightarrow> string" where
  "ac_sid ctx = rq_sessionId (ac_request ctx)"

definition model_request_of :: "agent_ctx \<Rightarrow> message list \<Rightarrow> model_request" where
  "model_request_of ctx ms =
     \<lparr>mq_model = model_of (ac_env ctx) (ac_request ctx), mq_system = system_of (ac_request ctx),
      mq_messages = ms,
      mq_tools = map tl_name (ac_tools ctx) @ [COMPLETE_GOAL_TOOL, REQUEST_HUMAN_INPUT_TOOL] @
        (if subagentAllowed (ac_env ctx) (ac_depth ctx) then [RUN_SUBAGENT_TOOL] else [])\<rparr>"

text \<open>\<open>persist\<close>: a repository that fails is logged, and the run goes on.\<close>

definition snapshot_of :: "agent_ctx \<Rightarrow> message list \<Rightarrow> time \<Rightarrow> message session_snapshot" where
  "snapshot_of ctx ms t =
     \<lparr>ss_sessionId = ac_sid ctx, ss_runId = rq_runId (ac_request ctx),
      ss_provider = ae_provider (ac_env ctx),
      ss_model = Some (model_of (ac_env ctx) (ac_request ctx)),
      ss_systemPrompt = Some (system_of (ac_request ctx)), ss_messages = ms,
      ss_providerSessionId = None, ss_updatedAt = t\<rparr>"

definition persist :: "agent_ctx \<Rightarrow> message list \<Rightarrow> unit act" where
  "persist ctx ms =
     (case ae_sessions (ac_env ctx) of
        None \<Rightarrow> returnS ()
      | Some ok \<Rightarrow> bindS (agent_clock (ac_env ctx)) (\<lambda>t w. (Inr (),
          if ok (aw_saves w) then
            w\<lparr>aw_saves := aw_saves w + 1,
              aw_sessions := save_session (snapshot_of ctx ms t) (aw_sessions w),
              aw_trace := Saved (snapshot_of ctx ms t) # aw_trace w\<rparr>
          else w\<lparr>aw_saves := aw_saves w + 1\<rparr>)))"

definition finish :: "agent_ctx \<Rightarrow> agent_outcome \<Rightarrow> string \<Rightarrow> loop_state \<Rightarrow> agent_result act" where
  "finish ctx outcome summary ls = bindS (agent_clock (ac_env ctx)) (\<lambda>t. returnS
     \<lparr>ar_outcome = outcome, ar_summary = summary,
      ar_usage = \<lparr>us_provider = ae_provider (ac_env ctx),
        us_model = Some (model_of (ac_env ctx) (ac_request ctx)), us_tokens = ls_usage ls,
        us_estimatedCostUsd = ae_cost (ac_env ctx) (model_of (ac_env ctx) (ac_request ctx)) (ls_usage ls),
        us_subscriptionRequests = None, us_durationMs = t - ac_startedAt ctx, us_turns = ls_turn ls,
        us_subagents = ls_subagents ls\<rparr>,
      ar_session = Some (ac_sid ctx)\<rparr>)"

definition abort_outcome :: "abort_cause \<Rightarrow> agent_outcome" where
  "abort_outcome c = (case c of ByCaller _ \<Rightarrow> CANCELLED | ByTimeout \<Rightarrow> BUDGET_EXHAUSTED)"

definition abort_reason :: "agent_request \<Rightarrow> abort_cause \<Rightarrow> string" where
  "abort_reason rq c =
     (case c of
        ByCaller None \<Rightarrow> ''cancelled''
      | ByCaller (Some r) \<Rightarrow> r
      | ByTimeout \<Rightarrow> ''wall-clock timeout after '' @
          show_nat (case rq_timeoutMs rq of None \<Rightarrow> 0 | Some t \<Rightarrow> t) @ ''ms'')"

subsection \<open>Calling the model\<close>

datatype invocation = Responded model_response | InvocationFailed string | InvocationAborted abort_cause

definition emit_stream :: "string \<Rightarrow> stream_event \<Rightarrow> unit act" where
  "emit_stream sid e = (case e of
     TextDelta t \<Rightarrow> emitted sid (AgentText t)
   | ThinkingDelta t \<Rightarrow> emitted sid (AgentThinking t)
   | OtherDelta \<Rightarrow> returnS ())"

primrec emit_all :: "string \<Rightarrow> stream_event list \<Rightarrow> unit act" where
  "emit_all sid [] = returnS ()"
| "emit_all sid (e # es) = bindS (emit_stream sid e) (\<lambda>_. emit_all sid es)"

text \<open>One call of the model: the response of its stream or the error it ends with.\<close>

definition stream_call :: "agent_env \<Rightarrow> string \<Rightarrow> model_request \<Rightarrow> (model_error + model_response) act" where
  "stream_call env sid q =
     bindS (atomically (\<lambda>w. (ae_stream env (aw_streams w) q,
                        w\<lparr>aw_streams := aw_streams w + 1, aw_trace := Asked sid q # aw_trace w\<rparr>)))
       (\<lambda>(es, e). bindS (emit_all sid es) (\<lambda>_.
          case e of
            Response r \<Rightarrow> bindS (traced (Answered sid r)) (\<lambda>_. returnS (Inr r))
          | NoResponse \<Rightarrow> returnS (Inl \<lparr>me_message = ''model stream ended without response'', me_retryable = False\<rparr>)
          | StreamError err \<Rightarrow> returnS (Inl err)))"

text \<open>
  \<open>invokeWithRetry\<close>, by recursion on the attempts that are left. A failed attempt is followed by
  the next one, unless the run was aborted, the error is final or no attempt is left; the delay
  between the two ends with the delay or with an abort.
\<close>

definition retry_after ::
  "agent_env \<Rightarrow> string \<Rightarrow> model_error \<Rightarrow> bool \<Rightarrow> invocation act \<Rightarrow> invocation act" where
  "retry_after env sid e lastAttempt again =
     bindS (polled env sid) (\<lambda>a. case a of
       Some c \<Rightarrow> returnS (InvocationAborted c)
     | None \<Rightarrow>
         if \<not> me_retryable e \<or> lastAttempt then returnS (InvocationFailed (me_message e))
         else bindS (polled env sid) (\<lambda>a2. case a2 of
           Some c \<Rightarrow> returnS (InvocationAborted c)
         | None \<Rightarrow> again))"

fun invoke_attempts :: "agent_env \<Rightarrow> string \<Rightarrow> model_request \<Rightarrow> model_error option \<Rightarrow> nat \<Rightarrow> invocation act" where
  "invoke_attempts env sid q lastError 0 =
     returnS (InvocationFailed (case lastError of None \<Rightarrow> ''model invocation failed'' | Some e \<Rightarrow> me_message e))"
| "invoke_attempts env sid q lastError (Suc k) =
     bindS (polled env sid) (\<lambda>a. case a of
       Some c \<Rightarrow> returnS (InvocationAborted c)
     | None \<Rightarrow> bindS (stream_call env sid q) (\<lambda>r. case r of
         Inr response \<Rightarrow> returnS (Responded response)
       | Inl e \<Rightarrow> retry_after env sid e (k = 0) (invoke_attempts env sid q (Some e) k)))"

definition invokeWithRetry :: "agent_env \<Rightarrow> string \<Rightarrow> model_request \<Rightarrow> invocation act" where
  "invokeWithRetry env sid q = invoke_attempts env sid q None (ae_attempts env)"

subsection \<open>Permissions and tools\<close>

primrec first_text :: "string list \<Rightarrow> jsval \<Rightarrow> string option" where
  "first_text [] input = None"
| "first_text (k # ks) input = (case text_field input k of Some s \<Rightarrow> Some s | None \<Rightarrow> first_text ks input)"

definition targetOf :: "jsval \<Rightarrow> string option" where
  "targetOf input = first_text [''path'', ''file'', ''file_path'', ''command'', ''url'', ''name''] input"

definition permission_requests :: "string \<Rightarrow> tool \<Rightarrow> jsval \<Rightarrow> permission_request list" where
  "permission_requests runId t input =
     (let target = (case Option.bind (tl_policyTarget t) (\<lambda>f. f input) of
                      None \<Rightarrow> targetOf input | Some s \<Rightarrow> Some s) in
      map (\<lambda>c. \<lparr>pr_capability = c, pr_target = target, pr_runId = Some runId,
                 pr_toolName = Some (tl_name t)\<rparr>) (tl_permissions t))"

definition denial_message :: "permission_request \<Rightarrow> policy_decision \<Rightarrow> string" where
  "denial_message q d =
     ''permission denied ('' @ effect_text (pd_effect d) @ ''): '' @ capability_text (pr_capability q) @
     concat (map (\<lambda>r. '' -- '' @ r) (nonempty_text (pd_reason d)))"

text \<open>The message of the first request that is not granted, when there is one.\<close>

fun checkPermissions :: "agent_env \<Rightarrow> permission_request list \<Rightarrow> string option act" where
  "checkPermissions env [] = returnS None"
| "checkPermissions env (q # qs) =
     (let d = evaluate_policy (ae_policy env) q in
      if pd_effect d = Allow then checkPermissions env qs
      else case (if pd_effect d = Ask then ae_approve env else None) of
        None \<Rightarrow> returnS (Some (denial_message q d))
      | Some f \<Rightarrow> bindS (ask_approval f q) (\<lambda>approved.
          if approved then checkPermissions env qs
          else returnS (Some (''permission denied by user: '' @ capability_text (pr_capability q)))))"

definition executeTool :: "agent_ctx \<Rightarrow> tool \<Rightarrow> jsval \<Rightarrow> (string \<times> bool) act" where
  "executeTool ctx t input = atomically (\<lambda>w.
     (case ae_tool (ac_env ctx) (aw_tools w) (tl_name t) input of
        ToolAnswered content isError \<Rightarrow> (content, isError = Some True)
      | ToolThrew e \<Rightarrow> (''tool failed: '' @ e, True)
      | ToolTimedOut \<Rightarrow>
          (''tool failed: tool timed out after '' @ show_nat (ae_toolTimeoutMs (ac_env ctx)) @ ''ms'', True),
      w\<lparr>aw_tools := aw_tools w + 1,
        aw_trace := Executed (ac_sid ctx) (rq_runId (ac_request ctx)) t input # aw_trace w\<rparr>))"

definition errorResult :: "string \<Rightarrow> string \<Rightarrow> block" where
  "errorResult i content = ToolResult i content (Some True)"

subsection \<open>Sub-agents\<close>

definition sub_sid :: "string \<Rightarrow> time \<Rightarrow> string" where
  "sub_sid sid t = sid @ ''.sub'' @ show_int t"

definition subagent_request :: "agent_env \<Rightarrow> agent_request \<Rightarrow> jsval \<Rightarrow> string \<Rightarrow> agent_request" where
  "subagent_request env rq input sid = rq\<lparr>
     rq_sessionId := sid,
     rq_goal := (case text_field input ''goal'' of None \<Rightarrow> [] | Some g \<Rightarrow> g),
     rq_context := (case text_field input ''context'' of
                      None \<Rightarrow> None | Some c \<Rightarrow> if c = [] then None else Some c),
     rq_maxTurns := Some (min (max_turns_of env rq) 25)\<rparr>"

definition outcome_text :: "agent_outcome \<Rightarrow> string" where
  "outcome_text x = (case x of
     GOAL_COMPLETED \<Rightarrow> ''GOAL_COMPLETED'' | GOAL_BLOCKED \<Rightarrow> ''GOAL_BLOCKED''
   | BUDGET_EXHAUSTED \<Rightarrow> ''BUDGET_EXHAUSTED'' | POLICY_BLOCKED \<Rightarrow> ''POLICY_BLOCKED''
   | HUMAN_INPUT_REQUIRED \<Rightarrow> ''HUMAN_INPUT_REQUIRED'' | FATAL_FAILURE \<Rightarrow> ''FATAL_FAILURE''
   | CANCELLED \<Rightarrow> ''CANCELLED'')"

definition runSubagent :: "agent_ctx \<Rightarrow> jsval \<Rightarrow> agent_result act" where
  "runSubagent ctx input =
     bindS (agent_clock (ac_env ctx)) (\<lambda>t.
       let sid = sub_sid (ac_sid ctx) t;
           rq = subagent_request (ac_env ctx) (ac_request ctx) input sid in
       bindS (emitted (ac_sid ctx) (SubagentStarted sid)) (\<lambda>_.
       bindS (atomically (ac_child ctx rq (initialMessages rq))) (\<lambda>r.
       bindS (emitted (ac_sid ctx) (SubagentCompleted sid (ar_outcome r))) (\<lambda>_.
       returnS r))))"

subsection \<open>One tool call\<close>

datatype call_end =
  CallStops agent_outcome string loop_state | CallGoesOn loop_state "block list"

text \<open>A call that is refused: its error is the result, and the event that it completed.\<close>

definition call_refused :: "agent_ctx \<Rightarrow> string \<Rightarrow> string \<Rightarrow> string \<Rightarrow> unit act" where
  "call_refused ctx i name content = emitted (ac_sid ctx) (ToolCompleted i name True content)"

definition call_subagent ::
  "agent_ctx \<Rightarrow> loop_state \<Rightarrow> block list \<Rightarrow> string \<Rightarrow> jsval \<Rightarrow> call_end act" where
  "call_subagent ctx ls results i input =
     (if \<not> subagentAllowed (ac_env ctx) (ac_depth ctx)
         \<or> effectiveMaxSubagents (ac_env ctx) (ac_request ctx) \<le> of_nat (ls_subagents ls)
      then returnS (CallGoesOn ls
        (results @ [errorResult i ''sub-agent limit reached; complete the work directly'']))
      else bindS (runSubagent ctx input) (\<lambda>r. returnS (CallGoesOn
        (ls\<lparr>ls_subagents := ls_subagents ls + 1,
            ls_usage := addTokenUsage (ls_usage ls) (us_tokens (ar_usage r))\<rparr>)
        (results @ [ToolResult i (''[sub-agent '' @ outcome_text (ar_outcome r) @ ''] '' @ ar_summary r)
                      (Some (ar_outcome r = FATAL_FAILURE))]))))"

definition run_tool ::
  "agent_ctx \<Rightarrow> loop_state \<Rightarrow> block list \<Rightarrow> string \<Rightarrow> tool \<Rightarrow> jsval \<Rightarrow> call_end act" where
  "run_tool ctx ls results i t input =
     bindS (executeTool ctx t input) (\<lambda>(content, isError).
     bindS (emitted (ac_sid ctx) (ToolCompleted i (tl_name t) isError (truncate_text content 2000))) (\<lambda>_.
     bindS (run_hook (ac_env ctx) (AfterToolCall (rq_runId (ac_request ctx)) (tl_name t) isError)) (\<lambda>_.
     returnS (CallGoesOn ls
       (results @ [ToolResult i content (if isError then Some True else None)])))))"

definition deny_call ::
  "agent_ctx \<Rightarrow> loop_state \<Rightarrow> block list \<Rightarrow> string \<Rightarrow> string \<Rightarrow> string \<Rightarrow> call_end act" where
  "deny_call ctx ls results i name message =
     (let ls' = ls\<lparr>ls_denials := ls_denials ls + 1\<rparr>;
          maxDenials = (case ae_maxDenials (ac_env ctx) of None \<Rightarrow> 5 | Some n \<Rightarrow> n) in
      bindS (call_refused ctx i name message) (\<lambda>_.
        if maxDenials \<le> ls_denials ls' then
          bindS (persist ctx (ls_messages ls)) (\<lambda>_. returnS (CallStops POLICY_BLOCKED
            (''policy denied '' @ show_nat (ls_denials ls') @ '' tool calls; stopping'') ls'))
        else returnS (CallGoesOn ls' (results @ [errorResult i message]))))"

definition call_tool ::
  "agent_ctx \<Rightarrow> loop_state \<Rightarrow> block list \<Rightarrow> string \<Rightarrow> tool \<Rightarrow> jsval \<Rightarrow> call_end act" where
  "call_tool ctx ls results i t input =
     bindS (emitted (ac_sid ctx) (ToolStarted i (tl_name t) input)) (\<lambda>_.
     bindS (run_hook (ac_env ctx) (BeforeToolCall (rq_runId (ac_request ctx)) (tl_name t) input)) (\<lambda>h.
     case h of
       HookBlocks reason \<Rightarrow>
         (let content = ''tool call blocked by hook: '' @
                (case reason of None \<Rightarrow> ''no reason given'' | Some s \<Rightarrow> s) in
          bindS (call_refused ctx i (tl_name t) content) (\<lambda>_.
            returnS (CallGoesOn ls (results @ [errorResult i content]))))
     | HookContinues \<Rightarrow>
         bindS (checkPermissions (ac_env ctx) (permission_requests (rq_runId (ac_request ctx)) t input))
           (\<lambda>denied. case denied of
              Some message \<Rightarrow> deny_call ctx ls results i (tl_name t) message
            | None \<Rightarrow> run_tool ctx ls results i t input)))"

definition handle_call ::
  "agent_ctx \<Rightarrow> loop_state \<Rightarrow> block list \<Rightarrow> string \<times> string \<times> jsval \<Rightarrow> call_end act" where
  "handle_call ctx ls results c =
     (case c of (i, name, input) \<Rightarrow>
      if name = COMPLETE_GOAL_TOOL then
        bindS (persist ctx (ls_messages ls)) (\<lambda>_.
          case parseCompleteGoal input of (completed, summary) \<Rightarrow> returnS (CallStops
            (if completed then GOAL_COMPLETED else GOAL_BLOCKED)
            (if summary = [] then ls_lastText ls else summary) ls))
      else if name = REQUEST_HUMAN_INPUT_TOOL then
        bindS (emitted (ac_sid ctx) (WaitingHuman (parseReason input))) (\<lambda>_.
        bindS (persist ctx (ls_messages ls)) (\<lambda>_.
          returnS (CallStops HUMAN_INPUT_REQUIRED (parseReason input) ls)))
      else if name = RUN_SUBAGENT_TOOL then call_subagent ctx ls results i input
      else case find (\<lambda>t. tl_name t = name) (ac_tools ctx) of
        None \<Rightarrow> returnS (CallGoesOn ls (results @ [errorResult i (''unknown tool: '' @ name)]))
      | Some t \<Rightarrow> call_tool ctx ls results i t input)"

text \<open>The tool calls of a response in order, until one of them ends the run or the run is aborted.\<close>

fun handle_calls ::
  "agent_ctx \<Rightarrow> loop_state \<Rightarrow> block list \<Rightarrow> (string \<times> string \<times> jsval) list \<Rightarrow> call_end act" where
  "handle_calls ctx ls results [] = returnS (CallGoesOn ls results)"
| "handle_calls ctx ls results (c # cs) =
     bindS (polled (ac_env ctx) (ac_sid ctx)) (\<lambda>a. case a of
       Some _ \<Rightarrow> returnS (CallGoesOn ls results)
     | None \<Rightarrow> bindS (handle_call ctx ls results c) (\<lambda>e. case e of
         CallStops x s ls' \<Rightarrow> returnS (CallStops x s ls')
       | CallGoesOn ls' results' \<Rightarrow> handle_calls ctx ls' results' cs))"

subsection \<open>One turn\<close>

datatype turn_end = Finished agent_outcome string loop_state | NextTurn loop_state

definition tool_calls :: "block list \<Rightarrow> (string \<times> string \<times> jsval) list" where
  "tool_calls bs = concat (map (\<lambda>b. case b of ToolCall i name input \<Rightarrow> [(i, name, input)] | _ \<Rightarrow> []) bs)"

definition collectText :: "model_response \<Rightarrow> string" where
  "collectText r = join_with [CHR 0x0A] (block_texts (mr_content r))"

definition nudge :: message where
  "nudge = \<lparr>msg_role = RoleUser, msg_content = [TextBlock
     (''If the goal is complete, call '' @ COMPLETE_GOAL_TOOL @
      '' with your final report. Otherwise continue working with tools.'')]\<rparr>"

text \<open>The usage of a response: the total, the event and the consumption of the budget.\<close>

definition charge_response :: "agent_ctx \<Rightarrow> model_response \<Rightarrow> loop_state \<Rightarrow> (budget_status \<times> loop_state) act" where
  "charge_response ctx r ls =
     bindS (emitted (ac_sid ctx) (AgentUsage (mr_usage r) (mr_model r))) (\<lambda>_.
     bindS (agent_clock (ac_env ctx)) (\<lambda>t.
       case record_consumption
              \<lparr>bc_tokens = Some (inputTokens (mr_usage r) + outputTokens (mr_usage r)),
               bc_estimatedCostUsd =
                 ae_cost (ac_env ctx) (model_of (ac_env ctx) (ac_request ctx)) (mr_usage r),
               bc_subscriptionRequests = None, bc_iterations = Some 1,
               bc_wallClockMs = Some (of_int (t - ac_startedAt ctx)), bc_providerQuotas = None\<rparr>
              (ls_budget ls) of
         (status, b) \<Rightarrow> returnS (status,
           ls\<lparr>ls_usage := addTokenUsage (ls_usage ls) (mr_usage r), ls_budget := b\<rparr>)))"

definition text_only_turn :: "agent_ctx \<Rightarrow> model_response \<Rightarrow> loop_state \<Rightarrow> turn_end" where
  "text_only_turn ctx r ls =
     (let ls' = ls\<lparr>ls_textOnly := ls_textOnly ls + 1\<rparr>;
          maxTextOnly = (case ae_maxTextOnly (ac_env ctx) of None \<Rightarrow> 2 | Some n \<Rightarrow> n) in
      if maxTextOnly \<le> ls_textOnly ls' then
        Finished GOAL_BLOCKED
          (if ls_lastText ls' = [] then ''agent stopped making progress without declaring completion''
           else ls_lastText ls') ls'
      else NextTurn (ls'\<lparr>ls_messages :=
        ls_messages ls' @ [\<lparr>msg_role = RoleAssistant, msg_content = mr_content r\<rparr>, nudge]\<rparr>))"

text \<open>What follows the tool calls: the message with the results, the hook, the session, the compaction.\<close>

definition close_turn ::
  "agent_ctx \<Rightarrow> model_response \<Rightarrow> loop_state \<Rightarrow> block list \<Rightarrow> turn_end act" where
  "close_turn ctx r ls results =
     (let ms = ls_messages ls @ [\<lparr>msg_role = RoleTool, msg_content = results\<rparr>] in
      bindS (run_hook (ac_env ctx) (AfterAgentTurn (rq_runId (ac_request ctx)) (ls_turn ls))) (\<lambda>_.
      bindS (persist ctx ms) (\<lambda>_.
      bindS (if ae_triggerTokens (ac_env ctx) \<le> inputTokens (mr_usage r)
             then compactMessages (ac_env ctx) (model_of (ac_env ctx) (ac_request ctx)) ms else returnS ms) (\<lambda>ms'.
        returnS (NextTurn (ls\<lparr>ls_messages := ms'\<rparr>))))))"

definition proceed :: "agent_ctx \<Rightarrow> model_response \<Rightarrow> loop_state \<Rightarrow> turn_end act" where
  "proceed ctx r ls =
     (let t = collectText r;
          ls1 = (if t = [] then ls else ls\<lparr>ls_lastText := t\<rparr>) in
      if tool_calls (mr_content r) = [] then returnS (text_only_turn ctx r ls1)
      else
        bindS (handle_calls ctx
          (ls1\<lparr>ls_textOnly := 0,
               ls_messages := ls_messages ls1 @ [\<lparr>msg_role = RoleAssistant, msg_content = mr_content r\<rparr>]\<rparr>)
          [] (tool_calls (mr_content r))) (\<lambda>e. case e of
            CallStops x s ls2 \<Rightarrow> returnS (Finished x s ls2)
          | CallGoesOn ls2 results \<Rightarrow> close_turn ctx r ls2 results))"

definition respond :: "agent_ctx \<Rightarrow> model_response \<Rightarrow> loop_state \<Rightarrow> turn_end act" where
  "respond ctx r ls =
     bindS (charge_response ctx r ls) (\<lambda>(status, ls1).
       if bs_exhausted status then returnS (Finished BUDGET_EXHAUSTED
         (''budget exhausted on: '' @ join_with '', '' (map dimension_text (bs_exhaustedDimensions status))) ls1)
       else proceed ctx r ls1)"

definition one_turn :: "agent_ctx \<Rightarrow> loop_state \<Rightarrow> turn_end act" where
  "one_turn ctx ls =
     (let ls1 = ls\<lparr>ls_turn := ls_turn ls + 1\<rparr> in
      bindS (emitted (ac_sid ctx) (TurnStarted (ls_turn ls1))) (\<lambda>_.
      bindS (invokeWithRetry (ac_env ctx) (ac_sid ctx) (model_request_of ctx (ls_messages ls1))) (\<lambda>i.
      case i of
        InvocationAborted c \<Rightarrow>
          returnS (Finished (abort_outcome c) (abort_reason (ac_request ctx) c) ls1)
      | InvocationFailed e \<Rightarrow>
          returnS (Finished FATAL_FAILURE (''model invocation failed: '' @ e) ls1)
      | Responded r \<Rightarrow> respond ctx r ls1)))"

subsection \<open>The loop, by recursion on the turns that are left\<close>

definition turn_limit_message :: "nat \<Rightarrow> string" where
  "turn_limit_message n = ''turn limit of '' @ show_nat n @ '' reached''"

fun agent_turns :: "agent_ctx \<Rightarrow> nat \<Rightarrow> loop_state \<Rightarrow> agent_result act" where
  "agent_turns ctx 0 ls =
     bindS (polled (ac_env ctx) (ac_sid ctx)) (\<lambda>a. case a of
       Some c \<Rightarrow> finish ctx (abort_outcome c) (abort_reason (ac_request ctx) c) ls
     | None \<Rightarrow> finish ctx BUDGET_EXHAUSTED
         (turn_limit_message (max_turns_of (ac_env ctx) (ac_request ctx))) ls)"
| "agent_turns ctx (Suc k) ls =
     bindS (polled (ac_env ctx) (ac_sid ctx)) (\<lambda>a. case a of
       Some c \<Rightarrow> finish ctx (abort_outcome c) (abort_reason (ac_request ctx) c) ls
     | None \<Rightarrow> bindS (one_turn ctx ls) (\<lambda>e. case e of
         Finished x s ls' \<Rightarrow> finish ctx x s ls'
       | NextTurn ls' \<Rightarrow> agent_turns ctx k ls'))"

definition initial_loop :: "agent_request \<Rightarrow> message list \<Rightarrow> loop_state" where
  "initial_loop rq ms =
     \<lparr>ls_messages = ms, ls_usage = emptyTokenUsage, ls_turn = 0, ls_textOnly = 0, ls_denials = 0,
      ls_subagents = 0, ls_lastText = [],
      ls_budget = new_tracker \<lparr>budget_id = rq_runId rq, budget_period = PerRun,
        budget_limits = (case rq_limits rq of None \<Rightarrow> no_limits | Some l \<Rightarrow> l)\<rparr> None\<rparr>"

type_synonym agent_run = "agent_request \<Rightarrow> message list \<Rightarrow> agent_world \<Rightarrow> agent_result \<times> agent_world"

definition runLoop ::
  "agent_env \<Rightarrow> nat \<Rightarrow> agent_run \<Rightarrow> agent_request \<Rightarrow> message list \<Rightarrow> agent_result act" where
  "runLoop env depth child rq ms =
     bindS (agent_clock env) (\<lambda>t.
     bindS (emitted (rq_sessionId rq) (AgentStarted (rq_sessionId rq))) (\<lambda>_.
       agent_turns \<lparr>ac_env = env, ac_request = rq, ac_depth = depth,
           ac_tools = resolve_tools (ae_providers env) (rq_toolNames rq), ac_startedAt = t,
           ac_child = child\<rparr>
         (max_turns_of env rq) (initial_loop rq ms)))"

text \<open>What a run that throws is reported as.\<close>

definition runtime_failure :: "agent_env \<Rightarrow> string \<Rightarrow> agent_result" where
  "runtime_failure env e =
     \<lparr>ar_outcome = FATAL_FAILURE, ar_summary = ''runtime failure: '' @ e,
      ar_usage = \<lparr>us_provider = ae_provider env, us_model = None, us_tokens = emptyTokenUsage,
        us_estimatedCostUsd = None, us_subscriptionRequests = None, us_durationMs = 0, us_turns = 0,
        us_subagents = 0\<rparr>,
      ar_session = None\<rparr>"

text \<open>
  A run at a depth, by recursion on the levels below it: where no level is left no sub-agent is
  allowed, and the run below is never called.
\<close>

definition completed_event :: "string \<Rightarrow> agent_result \<times> agent_world \<Rightarrow> agent_result \<times> agent_world" where
  "completed_event sid p = (case p of (r, w) \<Rightarrow>
     (r, w\<lparr>aw_trace := Emitted sid (AgentCompleted r) # aw_trace w\<rparr>))"

definition launch_over :: "agent_env \<Rightarrow> nat \<Rightarrow> agent_run \<Rightarrow> agent_run" where
  "launch_over env depth child rq ms w = completed_event (rq_sessionId rq)
     (case runLoop env depth child rq ms w of
        (Inl e, w1) \<Rightarrow> (runtime_failure env e, w1)
      | (Inr r, w1) \<Rightarrow> (r, w1))"

primrec launch_agent :: "agent_env \<Rightarrow> nat \<Rightarrow> agent_run" where
  "launch_agent env 0 = launch_over env (ae_maxDepth env) (\<lambda>rq ms w. (runtime_failure env [], w))"
| "launch_agent env (Suc n) = launch_over env (ae_maxDepth env - Suc n) (launch_agent env n)"

definition start_agent :: "agent_env \<Rightarrow> agent_request \<Rightarrow> agent_world \<Rightarrow> agent_result \<times> agent_world" where
  "start_agent env rq = launch_agent env (ae_maxDepth env) rq (initialMessages rq)"

text \<open>\<open>resume\<close>, with the messages of the session that the repository holds.\<close>

definition resume_agent ::
  "agent_env \<Rightarrow> string \<Rightarrow> agent_request \<Rightarrow> agent_world \<Rightarrow> string + (agent_result \<times> agent_world)" where
  "resume_agent env sid rq w =
     (case ae_sessions env of
        None \<Rightarrow> Inl ''resume requires a session repository''
      | Some _ \<Rightarrow>
          (case get_session sid (aw_sessions w) of
             None \<Rightarrow> Inl (''no session snapshot for '' @ sid)
           | Some s \<Rightarrow> Inr (launch_agent env (ae_maxDepth env) rq (ss_messages s) w)))"

end
