(* ===== verification/AgentLoopProps.thy ===== *)
theory AgentLoopProps
  imports AgentLoop
begin

section \<open>What every run of the agent loop keeps\<close>

text \<open>
  The program logic of \<open>Effects\<close> over the computations of the loop; the acts of a run that change
  nothing but the trace of events, approvals and sessions; and the permissions under which tools
  are executed.
\<close>

subsection \<open>Rules for the computations of the loop\<close>

named_theorems keeping_rules \<open>rules for properties of the world that a computation keeps\<close>

lemma hoare_returnI: "(\<And>w. P w \<Longrightarrow> Q x w) \<Longrightarrow> hoare P (returnS x) Q E"
  by (simp add: hoare_def returnS_def)

lemma hoare_atomically:
  "(\<And>w. P w \<Longrightarrow> Q (fst (f w)) (snd (f w))) \<Longrightarrow> hoare P (atomically f) Q E"
  by (simp add: hoare_def atomically_def case_prod_unfold)

lemma hoare_apply:
  "hoare P m Q E \<Longrightarrow> P w \<Longrightarrow> (case m w of (Inl e, w') \<Rightarrow> E w' | (Inr x, w') \<Rightarrow> Q x w')"
  by (simp add: hoare_def)

text \<open>A property of the world that a computation keeps, whether it returns or throws.\<close>

definition keeping :: "(agent_world \<Rightarrow> bool) \<Rightarrow> 'a act \<Rightarrow> bool" where
  "keeping I m \<longleftrightarrow> (\<forall>w. I w \<longrightarrow> I (snd (m w)))"

lemma keeping_iff_hoare: "keeping I m \<longleftrightarrow> hoare I m (\<lambda>_. I) I"
  unfolding keeping_def hoare_def by (fastforce split: prod.splits sum.splits)

lemma keeping_return [keeping_rules]: "keeping I (returnS x)"
  by (simp add: keeping_def returnS_def)

lemma keeping_bind [keeping_rules]:
  "keeping I m \<Longrightarrow> (\<And>x. keeping I (f x)) \<Longrightarrow> keeping I (bindS m f)"
  unfolding keeping_iff_hoare by (rule hoare_bind)

lemma keeping_if [keeping_rules]: "keeping I m \<Longrightarrow> keeping I n \<Longrightarrow> keeping I (if b then m else n)"
  by simp

lemma keeping_option [keeping_rules]:
  "keeping I m \<Longrightarrow> (\<And>x. keeping I (f x)) \<Longrightarrow> keeping I (case y of None \<Rightarrow> m | Some x \<Rightarrow> f x)"
  by (simp split: option.splits)

lemma keeping_pair [keeping_rules]: "(\<And>x y. keeping I (f x y)) \<Longrightarrow> keeping I (case p of (x, y) \<Rightarrow> f x y)"
  by (simp split: prod.splits)

lemma keeping_lift: "(\<And>w. I w \<Longrightarrow> I (snd (f w))) \<Longrightarrow> keeping I (atomically f)"
  by (simp add: keeping_def atomically_def case_prod_unfold)

subsection \<open>Quiet acts\<close>

text \<open>
  An act is quiet when it neither calls the model, for a turn or for a summary, nor executes a
  tool: events, approvals and saved sessions. A quiet step adds nothing else to the trace; the abort signals may be read in it.
\<close>

fun is_quiet :: "agent_act \<Rightarrow> bool" where
  "is_quiet (Emitted _ _) = True"
| "is_quiet (Approved _) = True"
| "is_quiet (Saved _) = True"
| "is_quiet _ = False"

definition quiet_step :: "agent_world \<Rightarrow> agent_world \<Rightarrow> bool" where
  "quiet_step w w' \<longleftrightarrow>
     (\<exists>new. aw_trace w' = new @ aw_trace w \<and> list_all is_quiet new) \<and> aw_polls w \<le> aw_polls w'"

lemma quiet_step_same [intro]:
  "aw_trace w' = aw_trace w \<Longrightarrow> aw_polls w \<le> aw_polls w' \<Longrightarrow> quiet_step w w'"
  unfolding quiet_step_def by auto

lemma quiet_step_Cons [intro]:
  "aw_trace w' = a # aw_trace w \<Longrightarrow> is_quiet a \<Longrightarrow> aw_polls w \<le> aw_polls w' \<Longrightarrow> quiet_step w w'"
  unfolding quiet_step_def by (auto intro: exI [of _ "[a]"])

text \<open>One act that is not quiet.\<close>

definition act_step :: "agent_act \<Rightarrow> agent_world \<Rightarrow> agent_world \<Rightarrow> bool" where
  "act_step a w w' \<longleftrightarrow> aw_trace w' = a # aw_trace w \<and> aw_polls w' = aw_polls w"

text \<open>The contract of an invariant that quiet acts keep.\<close>

locale quiet_invariant =
  fixes I :: "agent_world \<Rightarrow> bool"
  assumes quiet: "I w \<Longrightarrow> quiet_step w w' \<Longrightarrow> I w'"
begin

lemma same_kept: "I w \<Longrightarrow> aw_trace w' = aw_trace w \<Longrightarrow> aw_polls w \<le> aw_polls w' \<Longrightarrow> I w'"
  by (erule quiet) auto

lemma added_kept:
  "I w \<Longrightarrow> aw_trace w' = a # aw_trace w \<Longrightarrow> is_quiet a \<Longrightarrow> aw_polls w \<le> aw_polls w' \<Longrightarrow> I w'"
  by (erule quiet) auto

lemma lift_keeps: "(\<And>w. quiet_step w (snd (f w))) \<Longrightarrow> keeping I (atomically f)"
  by (rule keeping_lift) (rule quiet)

lemma polled_keeps [keeping_rules]: "keeping I (polled env sid)"
  unfolding polled_def by (rule lift_keeps) auto

lemma clock_keeps [keeping_rules]: "keeping I (agent_clock env)"
  unfolding agent_clock_def by (rule lift_keeps) auto

lemma emitted_keeps [keeping_rules]: "keeping I (emitted sid e)"
  unfolding emitted_def traced_def by (rule lift_keeps) auto

lemma hook_keeps [keeping_rules]: "keeping I (run_hook env c)"
  unfolding keeping_def run_hook_def by (auto split: option.splits elim: same_kept)

lemma approval_keeps [keeping_rules]: "keeping I (ask_approval f q)"
  unfolding keeping_def ask_approval_def by (auto elim: same_kept added_kept)

lemma persist_keeps [keeping_rules]: "keeping I (persist ctx ms)"
proof -
  have *: "keeping I (\<lambda>w. (Inr (), if ok (aw_saves w) then w\<lparr>aw_saves := n w, aw_sessions := rows w,
      aw_trace := Saved s # aw_trace w\<rparr> else w\<lparr>aw_saves := n w\<rparr>))" for ok s n rows
    unfolding keeping_def by (auto elim: same_kept added_kept)
  show ?thesis unfolding persist_def by (intro keeping_rules *)
qed

lemma finish_keeps [keeping_rules]: "keeping I (finish ctx x s ls)"
  unfolding finish_def by (intro keeping_rules)

lemma stream_events_keep [keeping_rules]: "keeping I (emit_all sid es)"
proof (induction es)
  case (Cons e es)
  then show ?case by (cases e) (auto simp: emit_stream_def intro!: keeping_rules)
qed (auto intro: keeping_rules)

lemma check_keeps [keeping_rules]: "keeping I (checkPermissions env qs)"
proof (induction qs)
  case (Cons q qs)
  have "keeping I (bindS (ask_approval f q) (\<lambda>approved. if approved then checkPermissions env qs
      else returnS (Some (''permission denied by user: '' @ capability_text (pr_capability q)))))" for f
    by (intro keeping_rules Cons.IH)
  with Cons.IH show ?case by (auto simp: Let_def split: option.splits intro: keeping_rules)
qed (simp add: keeping_rules)

lemma deny_keeps [keeping_rules]: "keeping I (deny_call ctx ls rs i name msg)"
  unfolding deny_call_def call_refused_def Let_def by (intro keeping_rules)

lemma record_keeps [keeping_rules]: "keeping I (charge_response ctx r ls)"
  unfolding charge_response_def by (intro keeping_rules)

end

text \<open>The contract of an invariant that a compaction keeps, too.\<close>

locale closing_invariant = quiet_invariant +
  assumes summarizing: "I w \<Longrightarrow> act_step (Summarized q a) w w' \<Longrightarrow> I w'"
begin

lemma compact_keeps [keeping_rules]: "keeping I (compactMessages env model ms)"
proof -
  have "keeping I (complete_summary env q)" for q
    unfolding complete_summary_def by (rule keeping_lift) (auto intro: summarizing simp: act_step_def)
  then show ?thesis unfolding compactMessages_def Let_def by (intro keeping_rules)
qed

lemma close_keeps [keeping_rules]: "keeping I (close_turn ctx r ls rs)"
  unfolding close_turn_def Let_def by (intro keeping_rules)

end

text \<open>The sessions of the sub-agents that a run may start itself.\<close>

definition child_sids :: "agent_ctx \<Rightarrow> string set" where
  "child_sids ctx = range (sub_sid (ac_sid ctx))"

subsection \<open>Permissions\<close>

text \<open>
  The requests of a call are granted when the policy allows each or asks for it, and the latest
  acts are the approvals of exactly the requests it asks for.
\<close>

definition effect_of :: "agent_env \<Rightarrow> permission_request \<Rightarrow> policy_effect" where
  "effect_of env q = pd_effect (evaluate_policy (ae_policy env) q)"

definition asked_for :: "agent_env \<Rightarrow> permission_request list \<Rightarrow> permission_request list" where
  "asked_for env qs = filter (\<lambda>q. effect_of env q = Ask) qs"

definition granted :: "agent_env \<Rightarrow> permission_request list \<Rightarrow> agent_act list \<Rightarrow> bool" where
  "granted env qs tr \<longleftrightarrow>
     list_all (\<lambda>q. effect_of env q = Allow \<or> effect_of env q = Ask) qs \<and>
     take (length (asked_for env qs)) tr = rev (map Approved (asked_for env qs))"

text \<open>Every execution in a trace (latest act first) has been granted.\<close>

fun authorized :: "agent_env \<Rightarrow> agent_act list \<Rightarrow> bool" where
  "authorized env [] = True"
| "authorized env (a # tr) =
     ((case a of
         Executed sid runId t input \<Rightarrow> granted env (permission_requests runId t input) tr
       | _ \<Rightarrow> True) \<and> authorized env tr)"

lemma checkPermissions_grants:
  "hoare (\<lambda>w. aw_trace w = tr) (checkPermissions env qs)
     (\<lambda>r w. r = None \<longrightarrow> list_all (\<lambda>q. effect_of env q = Allow \<or> effect_of env q = Ask) qs \<and>
        aw_trace w = rev (map Approved (asked_for env qs)) @ tr) (\<lambda>_. True)"
proof (induction qs arbitrary: tr)
  case Nil
  show ?case by (auto simp: asked_for_def intro: hoare_returnI)
next
  case (Cons q qs)
  have ask: "hoare (\<lambda>w. aw_trace w = tr) (ask_approval f q)
      (\<lambda>ok w. ok \<longrightarrow> aw_trace w = Approved q # tr) (\<lambda>_. True)" for f
    by (auto simp: hoare_def ask_approval_def split: sum.splits)
  have step: "hoare (\<lambda>w. ok \<longrightarrow> aw_trace w = Approved q # tr)
      (if ok then checkPermissions env qs else returnS (Some msg))
      (\<lambda>r w. r = None \<longrightarrow> list_all (\<lambda>q. effect_of env q = Allow \<or> effect_of env q = Ask) qs \<and>
         aw_trace w = rev (map Approved (asked_for env qs)) @ Approved q # tr) (\<lambda>_. True)" for ok msg
    using Cons.IH [of "Approved q # tr"] by (cases ok) (auto intro: hoare_returnI)
  consider (allow) "effect_of env q = Allow"
    | (asks) f where "effect_of env q = Ask" "ae_approve env = Some f"
    | (denied) "effect_of env q \<noteq> Allow" "effect_of env q \<noteq> Ask \<or> ae_approve env = None"
    by (cases "ae_approve env") auto
  then show ?case
  proof cases
    case allow
    with Cons.IH [of tr] show ?thesis by (simp add: effect_of_def asked_for_def)
  next
    case (asks f)
    from hoare_bind [OF ask step] asks show ?thesis by (simp add: effect_of_def asked_for_def Let_def)
  next
    case denied
    then show ?thesis by (auto simp: effect_of_def Let_def intro: hoare_returnI)
  qed
qed

text \<open>The contract of an invariant that the execution of a tool keeps when it is granted.\<close>

locale tool_invariant = quiet_invariant I for I :: "agent_world \<Rightarrow> bool" +
  fixes env :: agent_env
  assumes executing: "I w \<Longrightarrow> granted env (permission_requests runId t input) (aw_trace w) \<Longrightarrow>
       act_step (Executed sid runId t input) w w' \<Longrightarrow> I w'"
begin

lemma run_tool_keeps:
  assumes "ac_env ctx = env"
  shows "hoare (\<lambda>w. I w \<and> granted env (permission_requests (rq_runId (ac_request ctx)) t input) (aw_trace w))
    (run_tool ctx ls rs i t input) (\<lambda>_. I) I"
proof -
  have "hoare (\<lambda>w. I w \<and> granted env (permission_requests (rq_runId (ac_request ctx)) t input) (aw_trace w))
      (executeTool ctx t input) (\<lambda>_. I) I"
    unfolding executeTool_def by (rule hoare_atomically) (auto intro: executing simp: act_step_def)
  moreover have "hoare I (case p of (content, isError) \<Rightarrow>
      bindS (emitted (ac_sid ctx) (ToolCompleted i (tl_name t) isError (truncate_text content 2000))) (\<lambda>_.
      bindS (run_hook (ac_env ctx) (AfterToolCall (rq_runId (ac_request ctx)) (tl_name t) isError)) (\<lambda>_.
      returnS (CallGoesOn ls (rs @ [ToolResult i content (if isError then Some True else None)]))))) (\<lambda>_. I) I" for p
    unfolding keeping_iff_hoare [symmetric] by (intro keeping_rules)
  ultimately show ?thesis unfolding run_tool_def by (rule hoare_bind)
qed

lemma check_grants:
  "hoare I (checkPermissions env qs) (\<lambda>r w. I w \<and> (r = None \<longrightarrow> granted env qs (aw_trace w))) I"
  unfolding hoare_def
proof (intro allI impI)
  fix w assume I: "I w"
  obtain r w' where run: "checkPermissions env qs w = (r, w')" by (cases "checkPermissions env qs w")
  from check_keeps [of env qs] I run have I': "I w'" unfolding keeping_def by (metis snd_conv)
  from hoare_apply [OF checkPermissions_grants [of "aw_trace w" env qs], of w] run
  have "case r of Inl e \<Rightarrow> True | Inr x \<Rightarrow> x = None \<longrightarrow> granted env qs (aw_trace w')"
    by (auto simp: granted_def split: sum.splits)
  with run I' show "case checkPermissions env qs w of (Inl e, w') \<Rightarrow> I w'
      | (Inr r, w') \<Rightarrow> I w' \<and> (r = None \<longrightarrow> granted env qs (aw_trace w'))"
    by (auto split: sum.splits)
qed

lemma call_tool_keeps [keeping_rules]:
  assumes "ac_env ctx = env"
  shows "keeping I (call_tool ctx ls rs i t input)"
proof -
  have deny: "hoare I (deny_call ctx ls rs i (tl_name t) m) (\<lambda>_. I) I" for m
    using deny_keeps by (simp add: keeping_iff_hoare)
  have "keeping I (bindS (checkPermissions env (permission_requests (rq_runId (ac_request ctx)) t input))
      (\<lambda>denied. case denied of Some m \<Rightarrow> deny_call ctx ls rs i (tl_name t) m | None \<Rightarrow> run_tool ctx ls rs i t input))"
    unfolding keeping_iff_hoare
    by (rule hoare_bind [OF check_grants]) (auto intro: deny run_tool_keeps [OF assms] split: option.split)
  then show ?thesis
    unfolding call_tool_def call_refused_def Let_def assms
    by (auto intro!: keeping_rules split: hook_outcome.splits)
qed

text \<open>Inside a context whose sub-agents keep the invariant.\<close>

lemma subagent_keeps [keeping_rules]:
  assumes "\<And>rq w. rq_sessionId rq \<in> child_sids ctx \<Longrightarrow> I w \<Longrightarrow> I (snd (ac_child ctx rq (initialMessages rq) w))"
  shows "keeping I (call_subagent ctx ls rs i input)"
proof -
  have "keeping I (atomically (ac_child ctx (subagent_request (ac_env ctx) (ac_request ctx) input
      (sub_sid (ac_sid ctx) t)) (initialMessages (subagent_request (ac_env ctx) (ac_request ctx) input
      (sub_sid (ac_sid ctx) t)))))" for t
    using assms by (intro keeping_lift) (auto simp: subagent_request_def child_sids_def)
  then show ?thesis
    unfolding call_subagent_def runSubagent_def Let_def by (intro keeping_rules)
qed

lemma handle_call_keeps:
  assumes "ac_env ctx = env"
    and "\<And>rq w. rq_sessionId rq \<in> child_sids ctx \<Longrightarrow> I w \<Longrightarrow> I (snd (ac_child ctx rq (initialMessages rq) w))"
  shows "keeping I (handle_call ctx ls rs c)"
  unfolding handle_call_def by (intro keeping_rules assms)

lemma handle_calls_keep:
  assumes "ac_env ctx = env"
    and "\<And>rq w. rq_sessionId rq \<in> child_sids ctx \<Longrightarrow> I w \<Longrightarrow> I (snd (ac_child ctx rq (initialMessages rq) w))"
  shows "keeping I (handle_calls ctx ls rs cs)"
proof (induction cs arbitrary: ls rs)
  case (Cons c cs)
  then show ?case
    by (auto intro!: keeping_rules handle_call_keeps [OF assms] split: call_end.split)
qed (simp add: keeping_rules)

end

text \<open>The contract of an invariant of whole runs, for the sessions of a set.\<close>

locale run_invariant = tool_invariant I env + closing_invariant I
  for I :: "agent_world \<Rightarrow> bool" and env :: agent_env +
  fixes sids :: "string set" and askable :: "model_request \<Rightarrow> bool"
  assumes asking: "sid \<in> sids \<Longrightarrow> askable q \<Longrightarrow> I w \<Longrightarrow> act_step (Asked sid q) w w' \<Longrightarrow> I w'"
    and answering: "sid \<in> sids \<Longrightarrow> I w \<Longrightarrow> act_step (Answered sid r) w w' \<Longrightarrow> I w'"
    and below: "sid \<in> sids \<Longrightarrow> sub_sid sid t \<in> sids"
begin

lemma stream_keeps:
  assumes "sid \<in> sids" "askable q"
  shows "keeping I (stream_call env sid q)"
proof -
  have ask: "keeping I (atomically (\<lambda>w. (g w, w\<lparr>aw_streams := n w, aw_trace := Asked sid q # aw_trace w\<rparr>)))"
    for g :: "agent_world \<Rightarrow> stream_event list \<times> stream_end" and n
    by (rule keeping_lift) (auto intro: asking [OF assms] simp: act_step_def)
  have answer: "keeping I (traced (Answered sid r))" for r
    unfolding traced_def by (rule keeping_lift) (auto intro: answering [OF assms(1)] simp: act_step_def)
  have close: "keeping I (case e of
      Response r \<Rightarrow> bindS (traced (Answered sid r)) (\<lambda>_. returnS (Inr r))
    | NoResponse \<Rightarrow> returnS (Inl \<lparr>me_message = ''model stream ended without response'', me_retryable = False\<rparr>)
    | StreamError err \<Rightarrow> returnS (Inl err))" for e
    by (cases e) (auto intro!: keeping_rules answer)
  show ?thesis unfolding stream_call_def by (intro keeping_rules ask close)
qed

lemma attempts_keep:
  assumes "sid \<in> sids" "askable q"
  shows "keeping I (invoke_attempts env sid q err k)"
proof (induction k arbitrary: err)
  case (Suc k)
  then show ?case by (auto intro!: keeping_rules stream_keeps [OF assms] simp: retry_after_def split: sum.splits)
qed (simp add: keeping_rules)

lemma invoke_keeps:
  "sid \<in> sids \<Longrightarrow> askable q \<Longrightarrow> keeping I (invokeWithRetry env sid q)"
  unfolding invokeWithRetry_def by (rule attempts_keep)

lemma child_in_sids: "ac_sid ctx \<in> sids \<Longrightarrow> sid \<in> child_sids ctx \<Longrightarrow> sid \<in> sids"
  by (auto simp: child_sids_def intro: below)

end

text \<open>The contract of one that does not depend on what the model is asked.\<close>

locale free_invariant = run_invariant +
  assumes askable: "askable q"
begin

lemma one_turn_keeps:
  assumes "ac_env ctx = env" "ac_sid ctx \<in> sids"
    and "\<And>rq w. rq_sessionId rq \<in> sids \<Longrightarrow> I w \<Longrightarrow> I (snd (ac_child ctx rq (initialMessages rq) w))"
  shows "keeping I (one_turn ctx ls)"
proof -
  have "keeping I (respond ctx r ls)" for r ls
    unfolding respond_def proceed_def Let_def
    by (auto intro!: keeping_rules handle_calls_keep [OF assms(1)] assms(3) child_in_sids [OF assms(2)] split: call_end.split)
  then show ?thesis
    unfolding one_turn_def Let_def assms(1)
    by (auto intro!: keeping_rules invoke_keeps assms(2) askable split: invocation.split)
qed

lemma turns_keep:
  assumes "ac_env ctx = env" "ac_sid ctx \<in> sids"
    and "\<And>rq w. rq_sessionId rq \<in> sids \<Longrightarrow> I w \<Longrightarrow> I (snd (ac_child ctx rq (initialMessages rq) w))"
  shows "keeping I (agent_turns ctx k ls)"
proof (induction k arbitrary: ls)
  case (Suc k)
  then show ?case
    by (auto intro!: keeping_rules one_turn_keeps [OF assms] split: turn_end.split)
qed (auto intro!: keeping_rules)

lemma launch_over_keeps:
  assumes "\<And>rq ms w. rq_sessionId rq \<in> sids \<Longrightarrow> I w \<Longrightarrow> I (snd (child rq ms w))" and "I w"
    and "rq_sessionId rq \<in> sids"
  shows "I (snd (launch_over env depth child rq ms w))"
proof -
  have "keeping I (runLoop env depth child rq ms)"
    unfolding runLoop_def by (intro keeping_rules turns_keep) (simp_all add: assms ac_sid_def)
  with assms(2) have "I (snd (runLoop env depth child rq ms w))" by (simp add: keeping_def)
  then show ?thesis
    unfolding launch_over_def completed_event_def
    by (auto split: prod.splits sum.splits elim: added_kept)
qed

lemma launch_keeps: "rq_sessionId rq \<in> sids \<Longrightarrow> I w \<Longrightarrow> I (snd (launch_agent env n rq ms w))"
proof (induction n arbitrary: rq ms w)
  case 0
  then show ?case by (auto intro: launch_over_keeps)
next
  case (Suc n)
  then show ?case by (auto intro: launch_over_keeps)
qed

end

lemma quiet_authorized: "list_all is_quiet new \<Longrightarrow> authorized env tr \<Longrightarrow> authorized env (new @ tr)"
  by (induction new) (auto split: agent_act.splits)

interpretation authorization:
  free_invariant "\<lambda>w. authorized env (aw_trace w)" env UNIV "\<lambda>_. True" for env
  by unfold_locales (auto simp: quiet_step_def act_step_def quiet_authorized)

text \<open>
  C31. Tools run only with permission. In the trace of a run, started or resumed, each execution of
  a tool, by the agent or by one of its sub-agents at any depth, comes directly after the
  approvals of all the permissions of that very call that the policy asks for, and the policy
  allows the others; a denied, sandboxed or unanswered permission is never followed by the
  execution.
\<close>

theorem tools_run_with_permission:
  assumes "authorized env (aw_trace w)"
  shows "authorized env (aw_trace (snd (launch_agent env n rq ms w)))"
  using assms by (intro authorization.launch_keeps) simp

end
