(* ===== verification/AgentLoopAccounts.thy ===== *)
theory AgentLoopAccounts
  imports AgentLoopProps
begin

section \<open>What a run of the agent loop costs\<close>

text \<open>
  The accounts of a run are its turns, its usage and its sub-agents. A contract for whatever relates
  them to the trace is proved once for the loop, and met twice: by the bound on the calls of the
  model and by the sum of the usages of its responses.
\<close>

subsection \<open>Values of computations\<close>

definition yields :: "'a act \<Rightarrow> ('a \<Rightarrow> bool) \<Rightarrow> bool" where
  "yields m R \<longleftrightarrow> hoare (\<lambda>_. True) m (\<lambda>x _. R x) (\<lambda>_. True)"

lemma yields_return: "R x \<Longrightarrow> yields (returnS x) R"
  unfolding yields_def by (rule hoare_returnI)

lemma yields_bind: "(\<And>x. yields (f x) R) \<Longrightarrow> yields (bindS m f) R"
  unfolding yields_def
  by (rule hoare_bind [where R = "\<lambda>_ _. True"]) (auto simp: hoare_def split: sum.splits prod.splits)

lemma yields_chain: "yields m R \<Longrightarrow> (\<And>x. R x \<Longrightarrow> yields (f x) Q) \<Longrightarrow> yields (bindS m f) Q"
  unfolding yields_def
  by (rule hoare_bind, assumption) (auto simp: hoare_def)

lemma hoare_yields:
  "hoare P m Q E \<Longrightarrow> yields m R \<Longrightarrow> hoare P m (\<lambda>x w. Q x w \<and> R x) E"
  unfolding hoare_def yields_def by (fastforce split: prod.splits sum.splits)

text \<open>The state after a call, which differs from the one before in the denials at most.\<close>

definition end_state :: "call_end \<Rightarrow> loop_state" where
  "end_state e = (case e of CallStops _ _ ls \<Rightarrow> ls | CallGoesOn ls _ \<Rightarrow> ls)"

lemma end_state_simps [simp]:
  "end_state (CallStops x s ls) = ls" "end_state (CallGoesOn ls rs) = ls"
  by (simp_all add: end_state_def)

definition call_done :: "loop_state \<Rightarrow> block list \<Rightarrow> string \<Rightarrow> call_end \<Rightarrow> bool" where
  "call_done ls rs i e \<longleftrightarrow>
     end_state e = ls\<lparr>ls_denials := ls_denials (end_state e)\<rparr> \<and>
     (case e of
        CallStops x _ _ \<Rightarrow> x = POLICY_BLOCKED
      | CallGoesOn _ rs' \<Rightarrow> \<exists>content err. rs' = rs @ [ToolResult i content err])"

lemma call_tool_yields: "yields (call_tool ctx ls rs i t input) (call_done ls rs i)"
proof -
  have deny: "yields (deny_call ctx ls rs i name m) (call_done ls rs i)" for name m
    unfolding deny_call_def Let_def
    by (intro yields_bind) (auto intro!: yields_return yields_bind simp: call_done_def errorResult_def)
  have run: "yields (run_tool ctx ls rs i t input) (call_done ls rs i)"
    unfolding run_tool_def
    by (intro yields_bind) (auto intro!: yields_return yields_bind simp: call_done_def split: prod.split)
  have block: "yields (bindS (call_refused ctx i name m) (\<lambda>_. returnS (CallGoesOn ls (rs @ [errorResult i m]))))
      (call_done ls rs i)" for name m
    by (intro yields_bind yields_return) (simp add: call_done_def errorResult_def)
  show ?thesis
    unfolding call_tool_def Let_def
    by (intro yields_bind) (auto intro!: yields_bind deny run block split: hook_outcome.split option.split)
qed

lemma handle_call_turn: "yields (handle_call ctx ls rs c) (\<lambda>e. ls_turn (end_state e) = ls_turn ls)"
proof -
  have tool: "yields (call_tool ctx ls rs i t input) (\<lambda>e. ls_turn (end_state e) = ls_turn ls)" for i t input
    using call_tool_yields unfolding yields_def
    by (rule hoare_weaken) (auto simp: call_done_def, metis loop_state.select_convs(3) loop_state.surjective loop_state.update_convs(5))
  have sub: "yields (call_subagent ctx ls rs i input) (\<lambda>e. ls_turn (end_state e) = ls_turn ls)" for i input
    unfolding call_subagent_def by (auto intro!: yields_bind yields_return)
  show ?thesis
    unfolding handle_call_def
    by (auto intro!: yields_bind yields_return tool sub split: prod.split option.split)
qed

lemma handle_calls_turn: "yields (handle_calls ctx ls rs cs) (\<lambda>e. ls_turn (end_state e) = ls_turn ls)"
proof (induction cs arbitrary: ls rs)
  case (Cons c cs)
  have "yields (bindS (handle_call ctx ls rs c) (\<lambda>e. case e of CallStops x s ls' \<Rightarrow> returnS (CallStops x s ls')
      | CallGoesOn ls' rs' \<Rightarrow> handle_calls ctx ls' rs' cs)) (\<lambda>e. ls_turn (end_state e) = ls_turn ls)"
  proof (rule yields_chain [OF handle_call_turn])
    fix e assume e: "ls_turn (end_state e) = ls_turn ls"
    show "yields (case e of CallStops x s ls' \<Rightarrow> returnS (CallStops x s ls')
      | CallGoesOn ls' rs' \<Rightarrow> handle_calls ctx ls' rs' cs) (\<lambda>e. ls_turn (end_state e) = ls_turn ls)"
    proof (cases e)
      case (CallGoesOn ls' rs')
      with e Cons.IH [of ls' rs'] show ?thesis by simp
    qed (use e in \<open>simp add: yields_return\<close>)
  qed
  then show ?case by (auto intro!: yields_bind yields_return split: option.split)
qed (auto intro: yields_return)

subsection \<open>The contract of an account\<close>

definition accounts :: "loop_state \<Rightarrow> nat \<times> token_usage \<times> nat" where
  "accounts ls = (ls_turn ls, ls_usage ls, ls_subagents ls)"

definition charged :: "invocation \<Rightarrow> loop_state \<Rightarrow> loop_state" where
  "charged i ls = (case i of
     Responded r \<Rightarrow> ls\<lparr>ls_usage := addTokenUsage (ls_usage ls) (mr_usage r)\<rparr> | _ \<Rightarrow> ls)"

definition turn_state :: "turn_end \<Rightarrow> loop_state" where
  "turn_state e = (case e of Finished _ _ ls \<Rightarrow> ls | NextTurn ls \<Rightarrow> ls)"

lemma turn_state_simps [simp]:
  "turn_state (Finished x s ls) = ls" "turn_state (NextTurn ls) = ls"
  by (simp_all add: turn_state_def)

lemma close_turn_turn: "yields (close_turn ctx r ls rs) (\<lambda>e. ls_turn (turn_state e) = ls_turn ls)"
  unfolding close_turn_def Let_def by (intro yields_bind yields_return) simp

lemma respond_turn: "yields (respond ctx r ls) (\<lambda>e. ls_turn (turn_state e) = ls_turn ls)"
proof -
  have rec: "yields (charge_response ctx r ls) (\<lambda>p. ls_turn (snd p) = ls_turn ls)"
    unfolding charge_response_def by (intro yields_bind) (auto intro!: yields_return split: prod.split)
  have calls: "yields (bindS (handle_calls ctx ls2 [] cs) (\<lambda>e. case e of
      CallStops x s ls3 \<Rightarrow> returnS (Finished x s ls3)
    | CallGoesOn ls3 results \<Rightarrow> close_turn ctx r ls3 results)) (\<lambda>e. ls_turn (turn_state e) = ls_turn ls2)"
    for ls2 cs
  proof (rule yields_chain [OF handle_calls_turn])
    fix e assume e: "ls_turn (end_state e) = ls_turn ls2"
    show "yields (case e of CallStops x s ls3 \<Rightarrow> returnS (Finished x s ls3)
      | CallGoesOn ls3 results \<Rightarrow> close_turn ctx r ls3 results) (\<lambda>e. ls_turn (turn_state e) = ls_turn ls2)"
    proof (cases e)
      case (CallGoesOn ls' rs')
      with e close_turn_turn [of ctx r ls' rs'] show ?thesis by simp
    qed (use e in \<open>simp add: yields_return\<close>)
  qed
  have proceed: "yields (proceed ctx r ls1) (\<lambda>e. ls_turn (turn_state e) = ls_turn ls1)" for ls1
  proof -
    define ls2 where "ls2 = (if collectText r = [] then ls1 else ls1\<lparr>ls_lastText := collectText r\<rparr>)"
    have turn: "ls_turn ls2 = ls_turn ls1" by (simp add: ls2_def)
    show ?thesis
      unfolding proceed_def Let_def ls2_def [symmetric]
      using calls [of "ls2\<lparr>ls_textOnly := 0, ls_messages := ms\<rparr>" for ms]
      by (simp add: turn text_only_turn_def Let_def yields_return)
  qed
  show ?thesis
    unfolding respond_def
  proof (rule yields_chain [OF rec])
    fix p :: "budget_status \<times> loop_state"
    assume p: "ls_turn (snd p) = ls_turn ls"
    then show "yields (case p of (status, ls1) \<Rightarrow>
        if bs_exhausted status then returnS (Finished BUDGET_EXHAUSTED
          (''budget exhausted on: '' @ join_with '', '' (map dimension_text (bs_exhaustedDimensions status))) ls1)
        else proceed ctx r ls1) (\<lambda>e. ls_turn (turn_state e) = ls_turn ls)"
      using proceed [of "snd p"] by (cases p) (simp add: yields_return)
  qed
qed

lemma one_turn_counts: "yields (one_turn ctx ls) (\<lambda>e. ls_turn (turn_state e) = ls_turn ls + 1)"
proof -
  have "yields (respond ctx r (ls\<lparr>ls_turn := ls_turn ls + 1\<rparr>)) (\<lambda>e. ls_turn (turn_state e) = ls_turn ls + 1)" for r
    using respond_turn [of ctx r "ls\<lparr>ls_turn := ls_turn ls + 1\<rparr>"] by simp
  then show ?thesis
    unfolding one_turn_def Let_def
    by (auto intro!: yields_bind yields_return split: invocation.split)
qed

text \<open>What a result says of the accounts.\<close>

definition reports :: "agent_result \<Rightarrow> loop_state \<Rightarrow> bool" where
  "reports r ls \<longleftrightarrow> us_tokens (ar_usage r) = ls_usage ls \<and> us_turns (ar_usage r) = ls_turn ls \<and>
     us_subagents (ar_usage r) = ls_subagents ls"

lemma finish_reports: "yields (finish ctx x s ls) (\<lambda>r. reports r ls)"
  unfolding finish_def by (intro yields_bind yields_return) (simp add: reports_def)

locale loop_account =
  fixes ctx :: agent_ctx and K J :: "loop_state \<Rightarrow> agent_world \<Rightarrow> bool" and X :: "agent_world \<Rightarrow> bool"
    and T :: nat
  assumes quiet: "K ls w \<Longrightarrow> quiet_step w w' \<Longrightarrow> K ls w'"
    and executing: "K ls w \<Longrightarrow> act_step (Executed sid runId t input) w w' \<Longrightarrow> K ls w'"
    and same: "K ls w \<Longrightarrow> accounts ls' = accounts ls \<Longrightarrow> K ls' w"
    and quiet_between: "J ls w \<Longrightarrow> quiet_step w w' \<Longrightarrow> J ls w'"
    and same_between: "J ls w \<Longrightarrow> accounts ls' = accounts ls \<Longrightarrow> J ls' w"
    and uncompacted: "K ls w \<Longrightarrow> J ls w"
    and compacted: "K ls w \<Longrightarrow> act_step (Summarized q a) w w' \<Longrightarrow> J ls w'"
    and thrown: "J ls w \<Longrightarrow> X w"
    and invoked: "ls_turn ls < T \<Longrightarrow> hoare (J ls) (invokeWithRetry (ac_env ctx) (ac_sid ctx) q)
      (\<lambda>i. K (charged i (ls\<lparr>ls_turn := ls_turn ls + 1\<rparr>))) X"
    and delegated: "hoare (K ls) (call_subagent ctx ls rs i input) (\<lambda>e. K (end_state e)) X"
begin

sublocale account: tool_invariant "K ls" "ac_env ctx" for ls
  by unfold_locales (auto intro: quiet executing)

sublocale between: quiet_invariant "J ls" for ls
  by unfold_locales (auto intro: quiet_between)

lemma kept: "keeping (K ls) m \<Longrightarrow> hoare (K ls) m (\<lambda>_. K ls) X"
  unfolding keeping_iff_hoare by (erule hoare_weaken) (auto intro: thrown uncompacted)

lemma kept_between: "keeping (J ls) m \<Longrightarrow> hoare (J ls) m (\<lambda>_. J ls) X"
  unfolding keeping_iff_hoare by (erule hoare_weaken) (auto intro: thrown)

lemma stopped: "keeping (K ls) m \<Longrightarrow> hoare (K ls) (bindS m (\<lambda>_. returnS (CallStops x s ls))) (\<lambda>e. K (end_state e)) X"
  by (rule hoare_bind [OF kept]) (auto intro: hoare_returnI)

lemma called: "hoare (K ls) (call_tool ctx ls rs i t input) (\<lambda>e. K (end_state e)) X"
proof -
  have "hoare (K ls) (call_tool ctx ls rs i t input) (\<lambda>e w. K ls w \<and> call_done ls rs i e) X"
    by (rule hoare_yields [OF kept call_tool_yields]) (rule account.call_tool_keeps [OF refl])
  then show ?thesis
  proof (rule hoare_weaken)
    fix e w assume "K ls w \<and> call_done ls rs i e"
    moreover from this have "accounts (end_state e) = accounts ls"
      unfolding call_done_def accounts_def by (metis (no_types, lifting) loop_state.select_convs loop_state.surjective loop_state.update_convs(5))
    ultimately show "K (end_state e) w" by (auto intro: same)
  qed auto
qed

lemma handled: "hoare (K ls) (handle_call ctx ls rs c) (\<lambda>e. K (end_state e)) X"
proof -
  obtain i name input where c: "c = (i, name, input)" by (cases c)
  have unknown: "hoare (K ls) (returnS (CallGoesOn ls rs')) (\<lambda>e. K (end_state e)) X" for rs'
    by (rule hoare_returnI) simp
  have human: "hoare (K ls) (bindS (emitted (ac_sid ctx) ev) (\<lambda>_. bindS (persist ctx (ls_messages ls))
      (\<lambda>_. returnS (CallStops x s ls)))) (\<lambda>e. K (end_state e)) X" for ev x s
    by (rule hoare_bind [OF kept stopped]) (intro account.emitted_keeps account.persist_keeps)+
  show ?thesis
    unfolding handle_call_def c
    by (auto intro!: stopped human unknown called delegated account.persist_keeps
        split: option.split prod.split)
qed

lemma calls_handled: "hoare (K ls) (handle_calls ctx ls rs cs) (\<lambda>e. K (end_state e)) X"
proof (induction cs arbitrary: ls rs)
  case Nil
  show ?case by (auto intro: hoare_returnI)
next
  case (Cons c cs)
  have next_call: "hoare (K (end_state e)) (case e of CallStops x s ls' \<Rightarrow> returnS (CallStops x s ls')
      | CallGoesOn ls' rs' \<Rightarrow> handle_calls ctx ls' rs' cs) (\<lambda>e. K (end_state e)) X" for e
    using Cons.IH by (cases e) (auto intro: hoare_returnI)
  have "hoare (K ls) (case a of Some _ \<Rightarrow> returnS (CallGoesOn ls rs) | None \<Rightarrow>
      bindS (handle_call ctx ls rs c) (\<lambda>e. case e of CallStops x s ls' \<Rightarrow> returnS (CallStops x s ls')
      | CallGoesOn ls' rs' \<Rightarrow> handle_calls ctx ls' rs' cs)) (\<lambda>e. K (end_state e)) X" for a
    using hoare_bind [OF handled next_call] by (auto intro: hoare_returnI split: option.split)
  from hoare_bind [OF kept [OF account.polled_keeps] this] show ?case by simp
qed

lemma recorded:
  "hoare (K (charged (Responded r) ls)) (charge_response ctx r ls)
     (\<lambda>p w. case p of (status, ls1) \<Rightarrow> K ls1 w) X"
proof -
  have y: "yields (charge_response ctx r ls) (\<lambda>p. accounts (snd p) = accounts (charged (Responded r) ls))"
    unfolding charge_response_def
    by (intro yields_bind) (auto intro!: yields_return simp: accounts_def charged_def split: prod.split)
  show ?thesis
    using hoare_yields [OF kept [OF account.record_keeps] y]
    by (rule hoare_weaken) (auto intro: same)
qed

text \<open>The end of a turn: the credit for its compaction is spent or dropped.\<close>

lemma closed: "hoare (K ls) (close_turn ctx r ls rs) (\<lambda>e. J (turn_state e)) X"
proof -
  have summary: "hoare (K ls) (complete_summary env q) (\<lambda>_. J ls) X" for env q
    unfolding complete_summary_def by (rule hoare_atomically) (auto intro: compacted simp: act_step_def)
  have returned: "hoare (J ls) (returnS x) (\<lambda>_. J ls) X" "hoare (K ls) (returnS x) (\<lambda>_. J ls) X"
    for x :: "message list"
    by (auto intro: hoare_returnI uncompacted)
  have compaction: "hoare (K ls) (compactMessages env model ms) (\<lambda>_. J ls) X" for env model ms
    unfolding compactMessages_def Let_def
    by (auto intro!: returned hoare_bind [OF summary] split: option.split)
  have last: "hoare (J ls) (returnS (NextTurn (ls\<lparr>ls_messages := ms\<rparr>))) (\<lambda>e. J (turn_state e)) X" for ms
    by (rule hoare_returnI) (auto intro: same_between simp: accounts_def)
  have final: "hoare (K ls) (bindS (if b then compactMessages env model ms else returnS ms)
      (\<lambda>ms'. returnS (NextTurn (ls\<lparr>ls_messages := ms'\<rparr>)))) (\<lambda>e. J (turn_state e)) X" for b env model ms
    by (cases b) (simp_all add: hoare_bind [OF compaction last] hoare_bind [OF returned(2) last])
  show ?thesis
    unfolding close_turn_def Let_def
    by (rule hoare_bind [OF kept [OF account.hook_keeps]], rule hoare_bind [OF kept [OF account.persist_keeps]],
        rule final)
qed

lemma answered: "hoare (K (charged (Responded r) ls)) (respond ctx r ls) (\<lambda>e. J (turn_state e)) X"
proof -
  have exhausted: "hoare (K ls1) (returnS (Finished x s ls1)) (\<lambda>e. J (turn_state e)) X" for x s ls1
    by (rule hoare_returnI) (simp add: uncompacted)
  have text_only: "hoare (K ls1) (returnS (text_only_turn ctx r ls2)) (\<lambda>e. J (turn_state e)) X"
    if "accounts ls2 = accounts ls1" for ls1 ls2
  proof (rule hoare_returnI)
    fix w assume "K ls1 w"
    moreover from that have "accounts (turn_state (text_only_turn ctx r ls2)) = accounts ls1"
      by (simp add: text_only_turn_def Let_def accounts_def)
    ultimately show "J (turn_state (text_only_turn ctx r ls2)) w" by (auto intro: same uncompacted)
  qed
  have calls: "hoare (K ls1) (bindS (handle_calls ctx ls2 [] cs) (\<lambda>e. case e of
      CallStops x s ls3 \<Rightarrow> returnS (Finished x s ls3)
    | CallGoesOn ls3 results \<Rightarrow> close_turn ctx r ls3 results)) (\<lambda>e. J (turn_state e)) X"
    if "accounts ls2 = accounts ls1" for ls1 ls2 cs
  proof (rule hoare_bind)
    show "hoare (K ls1) (handle_calls ctx ls2 [] cs) (\<lambda>e. K (end_state e)) X"
      using calls_handled by (rule hoare_weaken) (auto intro: same [OF _ that])
    show "hoare (K (end_state e)) (case e of CallStops x s ls3 \<Rightarrow> returnS (Finished x s ls3)
      | CallGoesOn ls3 results \<Rightarrow> close_turn ctx r ls3 results) (\<lambda>e. J (turn_state e)) X" for e
      using closed by (cases e) (auto intro: exhausted)
  qed
  have go_on: "hoare (K ls1) (proceed ctx r ls1) (\<lambda>e. J (turn_state e)) X" for ls1
    unfolding proceed_def by (auto simp: Let_def accounts_def intro!: text_only calls)
  have rest: "hoare (\<lambda>w. case p of (status, ls1) \<Rightarrow> K ls1 w) (case p of (status, ls1) \<Rightarrow>
       if bs_exhausted status then returnS (Finished BUDGET_EXHAUSTED (m status) ls1)
       else proceed ctx r ls1) (\<lambda>e. J (turn_state e)) X" for p m
    by (cases p) (simp add: exhausted go_on)
  show ?thesis unfolding respond_def by (rule hoare_bind [OF recorded rest])
qed

lemma turned:
  assumes "ls_turn ls < T"
  shows "hoare (J ls) (one_turn ctx ls)
    (\<lambda>e w. J (turn_state e) w \<and> ls_turn (turn_state e) = ls_turn ls + 1) X"
proof -
  let ?ls = "ls\<lparr>ls_turn := ls_turn ls + 1\<rparr>"
  have "hoare (K (charged i ?ls)) (case i of
        InvocationAborted c \<Rightarrow> returnS (Finished (abort_outcome c) (abort_reason (ac_request ctx) c) ?ls)
      | InvocationFailed e \<Rightarrow> returnS (Finished FATAL_FAILURE (''model invocation failed: '' @ e) ?ls)
      | Responded r \<Rightarrow> respond ctx r ?ls) (\<lambda>e. J (turn_state e)) X" for i
    using answered [of _ ?ls] by (cases i) (auto intro!: hoare_returnI simp: charged_def uncompacted)
  then have "hoare (J ls) (one_turn ctx ls) (\<lambda>e. J (turn_state e)) X"
    unfolding one_turn_def Let_def
    by (rule hoare_bind [OF kept_between [OF between.emitted_keeps] hoare_bind [OF invoked [OF assms]]])
  then show ?thesis by (rule hoare_yields) (rule one_turn_counts)
qed

text \<open>
  Whatever the run ends with, the account holds of the state that the result reports.
\<close>

lemma finished:
  assumes "ls_turn ls \<le> T"
  shows "hoare (J ls) (finish ctx x s ls) (\<lambda>r w. \<exists>ls'. J ls' w \<and> reports r ls' \<and> ls_turn ls' \<le> T) X"
  using hoare_yields [OF kept_between [OF between.finish_keeps] finish_reports]
  by (rule hoare_weaken) (use assms in auto)

lemma ran:
  "ls_turn ls + k = T \<Longrightarrow> hoare (J ls) (agent_turns ctx k ls)
     (\<lambda>r w. \<exists>ls'. J ls' w \<and> reports r ls' \<and> ls_turn ls' \<le> T) X"
proof (induction k arbitrary: ls)
  case 0
  then have le: "ls_turn ls \<le> T" by simp
  have "hoare (J ls) (case a of Some c \<Rightarrow> finish ctx (abort_outcome c) (abort_reason (ac_request ctx) c) ls
     | None \<Rightarrow> finish ctx BUDGET_EXHAUSTED (turn_limit_message (max_turns_of (ac_env ctx) (ac_request ctx))) ls)
     (\<lambda>r w. \<exists>ls'. J ls' w \<and> reports r ls' \<and> ls_turn ls' \<le> T) X" for a
    by (cases a) (simp_all add: finished [OF le])
  from hoare_bind [OF kept_between [OF between.polled_keeps] this] show ?case by simp
next
  case (Suc k)
  then have le: "ls_turn ls \<le> T" and lt: "ls_turn ls < T" by simp_all
  have turn: "hoare (\<lambda>w. J (turn_state e) w \<and> ls_turn (turn_state e) = ls_turn ls + 1)
      (case e of Finished x s ls' \<Rightarrow> finish ctx x s ls' | NextTurn ls' \<Rightarrow> agent_turns ctx k ls')
      (\<lambda>r w. \<exists>ls'. J ls' w \<and> reports r ls' \<and> ls_turn ls' \<le> T) X" for e
  proof (cases "ls_turn (turn_state e) = ls_turn ls + 1")
    case True
    with Suc.prems have "ls_turn (turn_state e) + k = T" by simp
    with True Suc.IH [of "turn_state e"] finished [of "turn_state e"] show ?thesis
      by (cases e) auto
  qed (simp add: hoare_def)
  have "hoare (J ls) (case a of Some c \<Rightarrow> finish ctx (abort_outcome c) (abort_reason (ac_request ctx) c) ls
     | None \<Rightarrow> bindS (one_turn ctx ls) (\<lambda>e. case e of
         Finished x s ls' \<Rightarrow> finish ctx x s ls' | NextTurn ls' \<Rightarrow> agent_turns ctx k ls'))
     (\<lambda>r w. \<exists>ls'. J ls' w \<and> reports r ls' \<and> ls_turn ls' \<le> T) X" for a
    by (cases a) (simp_all add: finished [OF le] hoare_bind [OF turned [OF lt] turn])
  from hoare_bind [OF kept_between [OF between.polled_keeps] this] show ?case by simp
qed

end

end
