(* ===== verification/AgentLoopBounds.thy ===== *)
theory AgentLoopBounds
  imports AgentLoopAccounts
begin

section \<open>How often the model is called\<close>

subsection \<open>The bound on the calls of the model\<close>

text \<open>The model is called for an attempt of a turn and for the summary of a compaction.\<close>

fun is_model_call :: "agent_act \<Rightarrow> bool" where
  "is_model_call (Asked _ _) = True"
| "is_model_call (Summarized _ _) = True"
| "is_model_call _ = False"

definition calls_made :: "agent_world \<Rightarrow> nat" where
  "calls_made w = length (filter is_model_call (aw_trace w))"

lemma calls_quiet: "quiet_step w w' \<Longrightarrow> calls_made w' = calls_made w"
proof -
  have "list_all is_quiet new \<Longrightarrow> filter is_model_call new = []" for new
    by (induction new) (auto elim: is_quiet.elims)
  then show "quiet_step w w' \<Longrightarrow> calls_made w' = calls_made w"
    by (auto simp: quiet_step_def calls_made_def)
qed

lemma calls_executed: "act_step (Executed sid runId t input) w w' \<Longrightarrow> calls_made w' = calls_made w"
  by (simp add: act_step_def calls_made_def)

text \<open>
  The bound for a run with \<open>T\<close> turns and \<open>n\<close> levels of sub-agents below it: \<open>A\<close> attempts and one
  summary in each turn, and \<open>S\<close> sub-agents with at most 25 turns each.
\<close>

fun call_bound :: "nat \<Rightarrow> nat \<Rightarrow> nat \<Rightarrow> nat \<Rightarrow> nat" where
  "call_bound A S 0 T = T * (A + 1)"
| "call_bound A S (Suc n) T = T * (A + 1) + S * call_bound A S n (min T 25)"

definition max_children :: "agent_env \<Rightarrow> agent_request \<Rightarrow> nat" where
  "max_children env rq = nat \<lceil>effectiveMaxSubagents env rq\<rceil>"

text \<open>Sub-agents that call the model at most \<open>B\<close> times each.\<close>

definition bounded_child :: "agent_ctx \<Rightarrow> nat \<Rightarrow> bool" where
  "bounded_child ctx B \<longleftrightarrow> subagentAllowed (ac_env ctx) (ac_depth ctx) \<longrightarrow> (\<forall>input sid ms w.
     calls_made (snd (ac_child ctx (subagent_request (ac_env ctx) (ac_request ctx) input sid) ms w))
       \<le> calls_made w + B)"

text \<open>The calls of one turn: its attempts, and the summary of a compaction.\<close>

definition turn_calls :: "agent_env \<Rightarrow> nat" where
  "turn_calls env = ae_attempts env + 1"

text \<open>The calls that are left, \<open>c\<close> of which belong to the turn that is under way.\<close>

definition within_bound :: "agent_ctx \<Rightarrow> nat \<Rightarrow> nat \<Rightarrow> nat \<Rightarrow> loop_state \<Rightarrow> agent_world \<Rightarrow> bool" where
  "within_bound ctx B N c ls w \<longleftrightarrow> (bounded_child ctx B \<longrightarrow>
     calls_made w + c + (max_turns_of (ac_env ctx) (ac_request ctx) - ls_turn ls) * turn_calls (ac_env ctx)
       + (max_children (ac_env ctx) (ac_request ctx) - ls_subagents ls) * B \<le> N)"

interpretation call_count: quiet_invariant "\<lambda>w. calls_made w + c \<le> N" for c N
  by unfold_locales (simp add: calls_quiet)

lemma stream_calls:
  "hoare (\<lambda>w. calls_made w + Suc c \<le> N) (stream_call env sid q) (\<lambda>_ w. calls_made w + c \<le> N)
     (\<lambda>w. calls_made w + c \<le> N)"
proof -
  let ?I = "\<lambda>w. calls_made w + c \<le> N"
  have ask: "hoare (\<lambda>w. calls_made w + Suc c \<le> N)
      (atomically (\<lambda>w. (ae_stream env (aw_streams w) q,
                   w\<lparr>aw_streams := aw_streams w + 1, aw_trace := Asked sid q # aw_trace w\<rparr>))) (\<lambda>_. ?I) ?I"
    by (rule hoare_atomically) (simp add: calls_made_def)
  have answer: "keeping ?I (traced (Answered sid r))" for r
    unfolding traced_def by (rule keeping_lift) (simp add: calls_made_def)
  have tail: "hoare ?I (case p of (es, e) \<Rightarrow> bindS (emit_all sid es) (\<lambda>_. case e of
      Response r \<Rightarrow> bindS (traced (Answered sid r)) (\<lambda>_. returnS (Inr r))
    | NoResponse \<Rightarrow> returnS (Inl \<lparr>me_message = ''model stream ended without response'', me_retryable = False\<rparr>)
    | StreamError err \<Rightarrow> returnS (Inl err))) (\<lambda>_. ?I) ?I" for p
    unfolding keeping_iff_hoare [symmetric]
    by (cases p; cases "snd p") (auto intro!: keeping_rules answer call_count.stream_events_keep)
  show ?thesis unfolding stream_call_def by (rule hoare_bind [OF ask tail])
qed

lemma attempts_calls:
  "hoare (\<lambda>w. calls_made w + (k + c) \<le> N) (invoke_attempts env sid q err k)
     (\<lambda>_ w. calls_made w + c \<le> N) (\<lambda>w. calls_made w + c \<le> N)"
proof (induction k arbitrary: err)
  case 0
  show ?case by (auto intro: hoare_returnI)
next
  case (Suc k)
  let ?I = "\<lambda>w. calls_made w + (k + c) \<le> N"
  have done_with: "hoare ?I (returnS x) (\<lambda>_ w. calls_made w + c \<le> N) (\<lambda>w. calls_made w + c \<le> N)"
    for x
    by (rule hoare_returnI) simp
  have poll: "hoare P (polled env sid) (\<lambda>_. P) E" if "P = (\<lambda>w. calls_made w + d \<le> N)" for P d E
    unfolding polled_def by (rule hoare_atomically) (simp add: that calls_made_def)
  have early: "hoare (\<lambda>w. calls_made w + Suc (k + c) \<le> N) (returnS x) (\<lambda>_ w. calls_made w + c \<le> N)
     (\<lambda>w. calls_made w + c \<le> N)" for x
    by (rule hoare_returnI) simp
  have again: "hoare ?I (invoke_attempts env sid q err k)
     (\<lambda>_ w. calls_made w + c \<le> N) (\<lambda>w. calls_made w + c \<le> N)" for err
    by (rule Suc.IH)
  have retry: "hoare ?I (retry_after env sid e (k = 0) (invoke_attempts env sid q (Some e) k))
     (\<lambda>_ w. calls_made w + c \<le> N) (\<lambda>w. calls_made w + c \<le> N)" for e
  proof -
    have again': "hoare ?I (case a of Some c \<Rightarrow> returnS (InvocationAborted c)
        | None \<Rightarrow> invoke_attempts env sid q (Some e) k)
        (\<lambda>_ w. calls_made w + c \<le> N) (\<lambda>w. calls_made w + c \<le> N)" for a
      by (cases a) (simp_all only: option.case done_with again)
    have "hoare ?I (case a of Some c \<Rightarrow> returnS (InvocationAborted c) | None \<Rightarrow>
        if \<not> me_retryable e \<or> k = 0 then returnS (InvocationFailed (me_message e))
        else bindS (polled env sid) (\<lambda>a2. case a2 of Some c \<Rightarrow> returnS (InvocationAborted c)
        | None \<Rightarrow> invoke_attempts env sid q (Some e) k))
        (\<lambda>_ w. calls_made w + c \<le> N) (\<lambda>w. calls_made w + c \<le> N)" for a
      by (cases a; cases "\<not> me_retryable e \<or> k = 0")
        (simp_all only: option.case if_True if_False done_with hoare_bind [OF poll [OF refl] again'])
    then show ?thesis unfolding retry_after_def by (rule hoare_bind [OF poll [OF refl]])
  qed
  have failed: "hoare ?I (case r of Inr response \<Rightarrow> returnS (Responded response)
       | Inl e \<Rightarrow> retry_after env sid e (k = 0) (invoke_attempts env sid q (Some e) k))
     (\<lambda>_ w. calls_made w + c \<le> N) (\<lambda>w. calls_made w + c \<le> N)" for r
    by (cases r) (simp_all only: sum.case done_with retry)
  have stream: "hoare (\<lambda>w. calls_made w + Suc (k + c) \<le> N) (stream_call env sid q) (\<lambda>_. ?I)
     (\<lambda>w. calls_made w + c \<le> N)"
    using stream_calls [of "k + c" N env sid q] by (rule hoare_weaken) auto
  have "hoare (\<lambda>w. calls_made w + Suc (k + c) \<le> N) (case a of
       Some c \<Rightarrow> returnS (InvocationAborted c)
     | None \<Rightarrow> bindS (stream_call env sid q) (\<lambda>r. case r of
         Inr response \<Rightarrow> returnS (Responded response)
       | Inl e \<Rightarrow> retry_after env sid e (k = 0) (invoke_attempts env sid q (Some e) k)))
     (\<lambda>_ w. calls_made w + c \<le> N) (\<lambda>w. calls_made w + c \<le> N)" for a
    by (cases a) (simp_all only: option.case hoare_bind [OF stream failed] early)
  from hoare_bind [OF poll [OF refl] this] show ?case by (simp only: invoke_attempts.simps add_Suc)
qed

lemma delegated_calls:
  "hoare (within_bound ctx B N c ls) (call_subagent ctx ls rs i input)
     (\<lambda>e. within_bound ctx B N c (end_state e)) (\<lambda>w. bounded_child ctx B \<longrightarrow> calls_made w \<le> N)"
proof (cases "\<not> subagentAllowed (ac_env ctx) (ac_depth ctx)
         \<or> effectiveMaxSubagents (ac_env ctx) (ac_request ctx) \<le> of_nat (ls_subagents ls)")
  case True
  then show ?thesis by (auto simp: call_subagent_def intro: hoare_returnI)
next
  case False
  then have "of_nat (ls_subagents ls) < effectiveMaxSubagents (ac_env ctx) (ac_request ctx)" by simp
  then have more: "ls_subagents ls < max_children (ac_env ctx) (ac_request ctx)"
    unfolding max_children_def by (simp add: zless_nat_eq_int_zless less_ceiling_iff)
  obtain d where d: "max_children (ac_env ctx) (ac_request ctx) - ls_subagents ls = Suc d"
    using more by (metis Suc_diff_Suc)
  then have d': "max_children (ac_env ctx) (ac_request ctx) - Suc (ls_subagents ls) = d" by simp
  let ?A = "c + (max_turns_of (ac_env ctx) (ac_request ctx) - ls_turn ls) * turn_calls (ac_env ctx)"
  let ?P = "\<lambda>w. bounded_child ctx B \<longrightarrow> calls_made w + (B + (?A + d * B)) \<le> N"
  let ?Q = "\<lambda>w. bounded_child ctx B \<longrightarrow> calls_made w + (?A + d * B) \<le> N"
  have quiet: "quiet_invariant ?P" "quiet_invariant ?Q"
    by (unfold_locales; auto simp: calls_quiet)+
  have child: "hoare ?P (atomically (ac_child ctx (subagent_request (ac_env ctx) (ac_request ctx) input sid) ms))
      (\<lambda>_. ?Q) ?Q" for sid ms
  proof (rule hoare_atomically)
    fix w assume w: "?P w"
    have "bounded_child ctx B \<Longrightarrow>
      calls_made (snd (ac_child ctx (subagent_request (ac_env ctx) (ac_request ctx) input sid) ms w)) \<le> calls_made w + B"
      using False by (simp add: bounded_child_def)
    with w show "?Q (snd (ac_child ctx (subagent_request (ac_env ctx) (ac_request ctx) input sid) ms w))" by auto
  qed
  have run: "hoare ?P (runSubagent ctx input) (\<lambda>_. ?Q) (\<lambda>w. bounded_child ctx B \<longrightarrow> calls_made w \<le> N)"
  proof -
    have P: "hoare ?P m (\<lambda>_. ?P) (\<lambda>w. bounded_child ctx B \<longrightarrow> calls_made w \<le> N)" if "keeping ?P m" for m :: "'x act"
      using that unfolding keeping_iff_hoare by (rule hoare_weaken) auto
    have Q: "hoare ?Q m (\<lambda>_. ?Q) (\<lambda>w. bounded_child ctx B \<longrightarrow> calls_made w \<le> N)" if "keeping ?Q m" for m :: "'x act"
      using that unfolding keeping_iff_hoare by (rule hoare_weaken) auto
    have child': "hoare ?P (atomically (ac_child ctx (subagent_request (ac_env ctx) (ac_request ctx) input sid) ms))
      (\<lambda>_. ?Q) (\<lambda>w. bounded_child ctx B \<longrightarrow> calls_made w \<le> N)" for sid ms
      using child by (rule hoare_weaken) auto
    show ?thesis
      unfolding runSubagent_def Let_def
      by (rule hoare_bind [OF P [OF quiet_invariant.clock_keeps [OF quiet(1)]]],
          rule hoare_bind [OF P [OF quiet_invariant.emitted_keeps [OF quiet(1)]]],
          rule hoare_bind [OF child'],
          rule hoare_bind [OF Q [OF quiet_invariant.emitted_keeps [OF quiet(2)]]],
          rule hoare_returnI)
  qed
  have "hoare ?P (call_subagent ctx ls rs i input)
     (\<lambda>e. within_bound ctx B N c (end_state e)) (\<lambda>w. bounded_child ctx B \<longrightarrow> calls_made w \<le> N)"
    using False unfolding call_subagent_def
    by (auto intro!: hoare_bind [OF run] hoare_returnI simp: within_bound_def d')
  then show ?thesis
    by (rule hoare_weaken) (auto simp: within_bound_def d)
qed

lemma calls_summarized: "act_step (Summarized q a) w w' \<Longrightarrow> calls_made w' = calls_made w + 1"
  by (simp add: act_step_def calls_made_def)

interpretation call_account: loop_account ctx "within_bound ctx B N 1" "within_bound ctx B N 0"
    "\<lambda>w. bounded_child ctx B \<longrightarrow> calls_made w \<le> N" "max_turns_of (ac_env ctx) (ac_request ctx)" for ctx B N
proof
  fix ls :: loop_state and q :: model_request
  assume "ls_turn ls < max_turns_of (ac_env ctx) (ac_request ctx)"
  then obtain d where d: "max_turns_of (ac_env ctx) (ac_request ctx) - ls_turn ls = Suc d"
    "max_turns_of (ac_env ctx) (ac_request ctx) - Suc (ls_turn ls) = d"
    by (metis Suc_diff_Suc)
  let ?c = "1 + d * turn_calls (ac_env ctx) + (max_children (ac_env ctx) (ac_request ctx) - ls_subagents ls) * B"
  show "hoare (within_bound ctx B N 0 ls) (invokeWithRetry (ac_env ctx) (ac_sid ctx) q)
     (\<lambda>i. within_bound ctx B N 1 (charged i (ls\<lparr>ls_turn := ls_turn ls + 1\<rparr>)))
     (\<lambda>w. bounded_child ctx B \<longrightarrow> calls_made w \<le> N)"
  proof (cases "bounded_child ctx B")
    case True
    have "hoare (\<lambda>w. calls_made w + (ae_attempts (ac_env ctx) + ?c) \<le> N)
      (invokeWithRetry (ac_env ctx) (ac_sid ctx) q) (\<lambda>_ w. calls_made w + ?c \<le> N) (\<lambda>w. calls_made w + ?c \<le> N)"
      unfolding invokeWithRetry_def by (rule attempts_calls)
    then show ?thesis
      by (rule hoare_weaken) (auto simp: within_bound_def d True charged_def turn_calls_def split: invocation.split)
  qed (auto simp: hoare_def within_bound_def split: sum.splits prod.splits)
qed (auto simp: within_bound_def calls_quiet calls_executed calls_summarized accounts_def intro: delegated_calls)

lemma launch_over_calls:
  assumes "\<And>t. bounded_child \<lparr>ac_env = env, ac_request = rq, ac_depth = depth,
      ac_tools = resolve_tools (ae_providers env) (rq_toolNames rq), ac_startedAt = t, ac_child = child\<rparr> B"
  shows "calls_made (snd (launch_over env depth child rq ms w))
     \<le> calls_made w + max_turns_of env rq * turn_calls env + max_children env rq * B"
proof -
  let ?ctx = "\<lambda>t. \<lparr>ac_env = env, ac_request = rq, ac_depth = depth,
      ac_tools = resolve_tools (ae_providers env) (rq_toolNames rq), ac_startedAt = t, ac_child = child\<rparr>"
  let ?c = "max_turns_of env rq * turn_calls env + max_children env rq * B"
  let ?N = "calls_made w + ?c"
  have turns: "hoare (\<lambda>w. calls_made w + ?c \<le> ?N)
      (agent_turns (?ctx t) (max_turns_of env rq) (initial_loop rq ms)) (\<lambda>_ w. calls_made w \<le> ?N) (\<lambda>w. calls_made w \<le> ?N)" for t
    using call_account.ran [of "initial_loop rq ms" "max_turns_of env rq" "?ctx t" B ?N]
    by (rule hoare_weaken) (auto simp: initial_loop_def within_bound_def assms)
  have P: "hoare (\<lambda>w. calls_made w + ?c \<le> ?N) m (\<lambda>_ w. calls_made w + ?c \<le> ?N) (\<lambda>w. calls_made w \<le> ?N)"
    if "keeping (\<lambda>w. calls_made w + ?c \<le> ?N) m" for m :: "'x act"
    using that unfolding keeping_iff_hoare by (rule hoare_weaken) auto
  have "hoare (\<lambda>w. calls_made w + ?c \<le> ?N) (runLoop env depth child rq ms)
      (\<lambda>_ w. calls_made w \<le> ?N) (\<lambda>w. calls_made w \<le> ?N)"
    unfolding runLoop_def
    by (rule hoare_bind [OF P [OF call_count.clock_keeps]], rule hoare_bind [OF P [OF call_count.emitted_keeps]],
        rule turns)
  from hoare_apply [OF this, of w] show ?thesis
    by (auto simp: launch_over_def completed_event_def calls_made_def split: prod.splits sum.splits)
qed

lemma launch_calls:
  "n \<le> ae_maxDepth env \<Longrightarrow> calls_made (snd (launch_agent env n rq ms w))
     \<le> calls_made w + call_bound (ae_attempts env) (max_children env rq) n (max_turns_of env rq)"
proof (induction n arbitrary: rq ms w)
  case 0
  show ?case
    using launch_over_calls [of env rq "ae_maxDepth env" "\<lambda>rq ms w. (runtime_failure env [], w)" 0 ms w]
    by (simp add: bounded_child_def subagentAllowed_def turn_calls_def)
next
  case (Suc n)
  let ?B = "call_bound (ae_attempts env) (max_children env rq) n (min (max_turns_of env rq) 25)"
  have "max_children env (subagent_request env rq input sid) = max_children env rq"
    "max_turns_of env (subagent_request env rq input sid) = min (max_turns_of env rq) 25" for input sid
    by (simp_all add: max_children_def effectiveMaxSubagents_def max_turns_of_def subagent_request_def)
  with Suc.IH [of "subagent_request env rq input sid" for input sid] Suc.prems
  have "bounded_child \<lparr>ac_env = env, ac_request = rq, ac_depth = ae_maxDepth env - Suc n,
      ac_tools = resolve_tools (ae_providers env) (rq_toolNames rq), ac_startedAt = t,
      ac_child = launch_agent env n\<rparr> ?B" for t
    by (simp add: bounded_child_def)
  from launch_over_calls [OF this, of ms w] show ?case by (simp add: turn_calls_def)
qed

text \<open>
  C34. The number of times a run calls the model is bounded: by the attempts of each turn and one
  summary after it, when the turn compacts the conversation, and, for every sub-agent that the
  limits allow, by those of at most 25 turns, one level deeper. With the defaults (three attempts, 50
  turns, four sub-agents, one level) a run calls the model at most 600 times.
\<close>

theorem model_calls_bounded:
  "calls_made (snd (start_agent env rq w)) \<le> calls_made w +
     call_bound (ae_attempts env) (max_children env rq) (ae_maxDepth env) (max_turns_of env rq)
   \<and> call_bound 3 4 1 50 = 600"
  unfolding start_agent_def using launch_calls [OF order_refl, of env rq "initialMessages rq" w]
  by (simp_all add: eval_nat_numeral)

end
