(* ===== verification/AgentLoopUsage.thy ===== *)
theory AgentLoopUsage
  imports AgentLoopAccounts
begin

section \<open>The usage a run reports\<close>

text \<open>
  Where hooks and approvals do not throw, a run returns, and what it reports as its usage is the
  sum of the usages of the responses to its turns and to those of its sub-agents. The responses to
  the requests for a summary are not among them.
\<close>

subsection \<open>Runs that do not throw\<close>

text \<open>Hooks and approvals that answer, as \<open>DefaultHookRegistry\<close> and the gateways do.\<close>

definition polite :: "agent_env \<Rightarrow> bool" where
  "polite env \<longleftrightarrow>
     (\<forall>f n c e. ae_hooks env = Some f \<longrightarrow> f n c \<noteq> Inl e) \<and>
     (\<forall>f n q e. ae_approve env = Some f \<longrightarrow> f n q \<noteq> Inl e)"

definition nothrow :: "'a act \<Rightarrow> bool" where
  "nothrow m \<longleftrightarrow> hoare (\<lambda>_. True) m (\<lambda>_ _. True) (\<lambda>_. False)"

named_theorems nothrow_intros \<open>computations that do not throw\<close>

lemma nothrow_return [nothrow_intros]: "nothrow (returnS x)"
  unfolding nothrow_def by (rule hoare_returnI) simp

lemma nothrow_lift [nothrow_intros]: "nothrow (atomically f)"
  unfolding nothrow_def by (rule hoare_atomically) simp

lemma nothrow_bind [nothrow_intros]: "nothrow m \<Longrightarrow> (\<And>x. nothrow (f x)) \<Longrightarrow> nothrow (bindS m f)"
  unfolding nothrow_def by (rule hoare_bind)

lemma nothrow_if [nothrow_intros]: "nothrow m \<Longrightarrow> nothrow n \<Longrightarrow> nothrow (if b then m else n)"
  by simp

lemma nothrow_option [nothrow_intros]:
  "nothrow m \<Longrightarrow> (\<And>x. nothrow (f x)) \<Longrightarrow> nothrow (case y of None \<Rightarrow> m | Some x \<Rightarrow> f x)"
  by (simp split: option.splits)

lemma nothrow_pair [nothrow_intros]: "(\<And>x y. nothrow (f x y)) \<Longrightarrow> nothrow (case p of (x, y) \<Rightarrow> f x y)"
  by (simp split: prod.splits)

lemma nothrow_basic [nothrow_intros]:
  "nothrow (polled env sid)" "nothrow (agent_clock env)" "nothrow (traced a)" "nothrow (emitted sid e)"
  by (simp_all add: polled_def agent_clock_def emitted_def traced_def nothrow_intros)

lemma nothrow_hook [nothrow_intros]: "polite env \<Longrightarrow> nothrow (run_hook env c)"
  by (auto simp: nothrow_def hoare_def run_hook_def polite_def split: option.splits sum.splits)

lemma nothrow_persist [nothrow_intros]: "nothrow (persist ctx ms)"
proof -
  have "nothrow (\<lambda>w. (Inr (), g w))" for g
    by (simp add: nothrow_def hoare_def)
  then show ?thesis unfolding persist_def by (intro nothrow_intros) (auto intro: nothrow_intros)
qed

lemma nothrow_compact [nothrow_intros]: "nothrow (compactMessages env model ms)"
  unfolding compactMessages_def complete_summary_def Let_def by (intro nothrow_intros)

lemma nothrow_finish [nothrow_intros]: "nothrow (finish ctx x s ls)"
  unfolding finish_def by (intro nothrow_intros)

lemma nothrow_emit [nothrow_intros]: "nothrow (emit_all sid es)"
proof (induction es)
  case (Cons e es)
  then show ?case by (cases e) (auto simp: emit_stream_def intro!: nothrow_intros)
qed (simp add: nothrow_intros)

lemma nothrow_stream [nothrow_intros]: "nothrow (stream_call env sid q)"
  unfolding stream_call_def by (auto intro!: nothrow_intros split: stream_end.split)

lemma nothrow_attempts: "nothrow (invoke_attempts env sid q err k)"
proof (induction k arbitrary: err)
  case (Suc k)
  then show ?case by (auto intro!: nothrow_intros simp: retry_after_def split: sum.split)
qed (simp add: nothrow_intros)

lemma nothrow_invoke [nothrow_intros]: "nothrow (invokeWithRetry env sid q)"
  unfolding invokeWithRetry_def by (rule nothrow_attempts)

lemma nothrow_check [nothrow_intros]:
  assumes "polite env"
  shows "nothrow (checkPermissions env qs)"
proof (induction qs)
  case (Cons q qs)
  have ask: "nothrow (ask_approval f q)" if "ae_approve env = Some f" for f
    using that assms by (auto simp: nothrow_def hoare_def ask_approval_def polite_def split: sum.splits)
  have "nothrow (bindS (ask_approval f q) (\<lambda>approved. if approved then checkPermissions env qs
      else returnS (Some m)))" if "ae_approve env = Some f" for f m
    by (intro nothrow_intros ask [OF that] Cons.IH)
  with Cons.IH show ?case by (auto simp: Let_def split: option.splits intro: nothrow_intros)
qed (simp add: nothrow_intros)

lemma nothrow_call_tool [nothrow_intros]:
  "polite (ac_env ctx) \<Longrightarrow> nothrow (call_tool ctx ls rs i t input)"
  unfolding call_tool_def deny_call_def run_tool_def executeTool_def call_refused_def Let_def
  by (auto intro!: nothrow_intros split: hook_outcome.split)

lemma nothrow_call [nothrow_intros]: "polite (ac_env ctx) \<Longrightarrow> nothrow (handle_call ctx ls rs c)"
  unfolding handle_call_def call_subagent_def runSubagent_def Let_def by (intro nothrow_intros)

lemma nothrow_calls [nothrow_intros]:
  "polite (ac_env ctx) \<Longrightarrow> nothrow (handle_calls ctx ls rs cs)"
proof (induction cs arbitrary: ls rs)
  case (Cons c cs)
  then show ?case by (auto intro!: nothrow_intros split: call_end.split)
qed (simp add: nothrow_intros)

lemma nothrow_turn [nothrow_intros]: "polite (ac_env ctx) \<Longrightarrow> nothrow (one_turn ctx ls)"
  unfolding one_turn_def respond_def proceed_def charge_response_def close_turn_def Let_def
  by (auto intro!: nothrow_intros split: invocation.split call_end.split)

lemma nothrow_turns: "polite (ac_env ctx) \<Longrightarrow> nothrow (agent_turns ctx k ls)"
proof (induction k arbitrary: ls)
  case (Suc k)
  then show ?case by (auto intro!: nothrow_intros split: turn_end.split)
qed (auto intro!: nothrow_intros)

lemma nothrow_run: "polite env \<Longrightarrow> nothrow (runLoop env depth child rq ms)"
  unfolding runLoop_def by (intro nothrow_intros nothrow_turns) simp

subsection \<open>The sum of the usages\<close>

text \<open>A count of tokens that is added by \<open>addTokenUsage\<close>, and its sum over the responses.\<close>

definition adds_up :: "(token_usage \<Rightarrow> rat) \<Rightarrow> bool" where
  "adds_up f \<longleftrightarrow> f emptyTokenUsage = 0 \<and> (\<forall>a b. f (addTokenUsage a b) = f a + f b)"

definition usage_of_act :: "(token_usage \<Rightarrow> rat) \<Rightarrow> agent_act \<Rightarrow> rat" where
  "usage_of_act f a = (case a of Answered _ r \<Rightarrow> f (mr_usage r) | _ \<Rightarrow> 0)"

definition spent :: "(token_usage \<Rightarrow> rat) \<Rightarrow> agent_world \<Rightarrow> rat" where
  "spent f w = sum_list (map (usage_of_act f) (aw_trace w))"

text \<open>What the summaries of compactions use, and what all calls of the model use.\<close>

definition usage_of_summary :: "(token_usage \<Rightarrow> rat) \<Rightarrow> agent_act \<Rightarrow> rat" where
  "usage_of_summary f a = (case a of Summarized _ (Some r) \<Rightarrow> f (mr_usage r) | _ \<Rightarrow> 0)"

definition summarized :: "(token_usage \<Rightarrow> rat) \<Rightarrow> agent_world \<Rightarrow> rat" where
  "summarized f w = sum_list (map (usage_of_summary f) (aw_trace w))"

definition usage_of_call :: "(token_usage \<Rightarrow> rat) \<Rightarrow> agent_act \<Rightarrow> rat" where
  "usage_of_call f a = (case a of
     Answered _ r \<Rightarrow> f (mr_usage r) | Summarized _ (Some r) \<Rightarrow> f (mr_usage r) | _ \<Rightarrow> 0)"

definition consumed :: "(token_usage \<Rightarrow> rat) \<Rightarrow> agent_world \<Rightarrow> rat" where
  "consumed f w = sum_list (map (usage_of_call f) (aw_trace w))"

lemma consumed_split: "consumed f w = spent f w + summarized f w"
proof -
  have "usage_of_call f = (\<lambda>a. usage_of_act f a + usage_of_summary f a)"
    by (rule ext) (simp add: usage_of_call_def usage_of_act_def usage_of_summary_def split: agent_act.split option.split)
  then show ?thesis by (simp add: consumed_def spent_def summarized_def sum_list_addf)
qed

lemma spent_quiet: "quiet_step w w' \<Longrightarrow> spent f w' = spent f w"
proof -
  have "list_all is_quiet new \<Longrightarrow> sum_list (map (usage_of_act f) new) = 0" for new
    by (induction new) (auto simp: usage_of_act_def split: agent_act.splits)
  then show "quiet_step w w' \<Longrightarrow> spent f w' = spent f w"
    by (auto simp: quiet_step_def spent_def)
qed

lemma spent_step: "act_step a w w' \<Longrightarrow> spent f w' = usage_of_act f a + spent f w"
  by (simp add: act_step_def spent_def)

interpretation spending: quiet_invariant "\<lambda>w. spent f w = c" for f c
  by unfold_locales (simp add: spent_quiet)

text \<open>Sub-agents that report what they spend.\<close>

definition honest_child :: "(token_usage \<Rightarrow> rat) \<Rightarrow> agent_ctx \<Rightarrow> bool" where
  "honest_child f ctx \<longleftrightarrow> subagentAllowed (ac_env ctx) (ac_depth ctx) \<longrightarrow> (\<forall>rq ms w. case ac_child ctx rq ms w of
     (r, w') \<Rightarrow> spent f w' = spent f w + f (us_tokens (ar_usage r)))"

definition accounted :: "(token_usage \<Rightarrow> rat) \<Rightarrow> agent_ctx \<Rightarrow> rat \<Rightarrow> loop_state \<Rightarrow> agent_world \<Rightarrow> bool" where
  "accounted f ctx base ls w \<longleftrightarrow>
     (adds_up f \<and> honest_child f ctx \<longrightarrow> spent f w = base + f (ls_usage ls))"

lemma stream_spends:
  "hoare (\<lambda>w. spent f w = c) (stream_call env sid q)
     (\<lambda>r w. spent f w = c + (case r of Inr x \<Rightarrow> f (mr_usage x) | Inl _ \<Rightarrow> 0)) (\<lambda>_. True)"
proof -
  let ?I = "\<lambda>w. spent f w = c"
  have ask: "hoare ?I (atomically (\<lambda>w. (ae_stream env (aw_streams w) q,
                   w\<lparr>aw_streams := aw_streams w + 1, aw_trace := Asked sid q # aw_trace w\<rparr>))) (\<lambda>_. ?I) (\<lambda>_. True)"
    by (rule hoare_atomically) (simp add: spent_def usage_of_act_def)
  have events: "hoare ?I (emit_all sid es) (\<lambda>_. ?I) (\<lambda>_. True)" for es
    using spending.stream_events_keep unfolding keeping_iff_hoare by (rule hoare_weaken) auto
  have answer: "hoare ?I (traced (Answered sid r)) (\<lambda>_ w. spent f w = c + f (mr_usage r)) (\<lambda>_. True)" for r
    unfolding traced_def by (rule hoare_atomically) (simp add: spent_def usage_of_act_def)
  have close: "hoare ?I (case e of
      Response r \<Rightarrow> bindS (traced (Answered sid r)) (\<lambda>_. returnS (Inr r))
    | NoResponse \<Rightarrow> returnS (Inl \<lparr>me_message = ''model stream ended without response'', me_retryable = False\<rparr>)
    | StreamError err \<Rightarrow> returnS (Inl err))
    (\<lambda>r w. spent f w = c + (case r of Inr x \<Rightarrow> f (mr_usage x) | Inl _ \<Rightarrow> 0)) (\<lambda>_. True)" for e
    by (cases e) (auto intro!: hoare_bind [OF answer] hoare_returnI)
  show ?thesis unfolding stream_call_def
    by (rule hoare_bind [OF ask]) (auto intro!: hoare_bind [OF events close] split: prod.split)
qed

definition invocation_usage :: "(token_usage \<Rightarrow> rat) \<Rightarrow> invocation \<Rightarrow> rat" where
  "invocation_usage f i = (case i of Responded r \<Rightarrow> f (mr_usage r) | _ \<Rightarrow> 0)"

lemma attempts_spend:
  "hoare (\<lambda>w. spent f w = c) (invoke_attempts env sid q err k)
     (\<lambda>i w. spent f w = c + invocation_usage f i) (\<lambda>_. True)"
proof (induction k arbitrary: err)
  case 0
  show ?case by (auto intro: hoare_returnI simp: invocation_usage_def)
next
  case (Suc k)
  let ?I = "\<lambda>w. spent f w = c" and ?Q = "\<lambda>i w. spent f w = c + invocation_usage f i"
  have stopped: "hoare ?I (returnS (InvocationAborted x)) ?Q (\<lambda>_. True)"
    "hoare ?I (returnS (InvocationFailed m)) ?Q (\<lambda>_. True)" for x m
    by (auto intro: hoare_returnI simp: invocation_usage_def)
  have poll: "hoare ?I (polled env sid) (\<lambda>_. ?I) (\<lambda>_. True)"
    using spending.polled_keeps unfolding keeping_iff_hoare by (rule hoare_weaken) auto
  have retry: "hoare ?I (retry_after env sid e (k = 0) (invoke_attempts env sid q (Some e) k)) ?Q (\<lambda>_. True)" for e
    unfolding retry_after_def
    by (rule hoare_bind [OF poll]) (auto simp: stopped Suc.IH intro!: hoare_bind [OF poll] split: option.split)
  have after: "hoare (\<lambda>w. spent f w = c + (case r of Inr x \<Rightarrow> f (mr_usage x) | Inl _ \<Rightarrow> 0)) (case r of
         Inr response \<Rightarrow> returnS (Responded response)
       | Inl e \<Rightarrow> retry_after env sid e (k = 0) (invoke_attempts env sid q (Some e) k)) ?Q (\<lambda>_. True)" for r
    using retry by (cases r) (auto intro!: hoare_returnI simp: invocation_usage_def)
  have "hoare ?I (case a of Some c \<Rightarrow> returnS (InvocationAborted c)
     | None \<Rightarrow> bindS (stream_call env sid q) (\<lambda>r. case r of
         Inr response \<Rightarrow> returnS (Responded response)
       | Inl e \<Rightarrow> retry_after env sid e (k = 0) (invoke_attempts env sid q (Some e) k))) ?Q (\<lambda>_. True)" for a
    by (cases a) (simp_all only: option.case stopped hoare_bind [OF stream_spends after])
  from hoare_bind [OF poll this] show ?case by (simp only: invoke_attempts.simps)
qed

lemma delegated_spends:
  "hoare (accounted f ctx base ls) (call_subagent ctx ls rs i input)
     (\<lambda>e. accounted f ctx base (end_state e)) (\<lambda>_. True)"
proof (cases "adds_up f \<and> honest_child f ctx \<and> subagentAllowed (ac_env ctx) (ac_depth ctx)")
  case True
  let ?c = "base + f (ls_usage ls)"
  have quiet: "hoare (\<lambda>w. spent f w = c) m (\<lambda>_ w. spent f w = c) (\<lambda>_. True)"
    if "keeping (\<lambda>w. spent f w = c) m" for m :: "'x act" and c
    using that unfolding keeping_iff_hoare by (rule hoare_weaken) auto
  have child: "hoare (\<lambda>w. spent f w = ?c) (atomically (ac_child ctx rq ms))
      (\<lambda>r w. spent f w = ?c + f (us_tokens (ar_usage r))) (\<lambda>_. True)" for rq ms
  proof (rule hoare_atomically)
    fix w assume "spent f w = ?c"
    moreover have "case ac_child ctx rq ms w of (r, w') \<Rightarrow> spent f w' = spent f w + f (us_tokens (ar_usage r))"
      using True by (simp add: honest_child_def)
    ultimately show "spent f (snd (ac_child ctx rq ms w)) =
        ?c + f (us_tokens (ar_usage (fst (ac_child ctx rq ms w))))"
      by (simp add: case_prod_unfold)
  qed
  have run: "hoare (\<lambda>w. spent f w = ?c) (runSubagent ctx input)
      (\<lambda>r w. spent f w = ?c + f (us_tokens (ar_usage r))) (\<lambda>_. True)"
    unfolding runSubagent_def Let_def
    by (rule hoare_bind [OF quiet [OF spending.clock_keeps]],
        rule hoare_bind [OF quiet [OF spending.emitted_keeps]], rule hoare_bind [OF child],
        rule hoare_bind [OF quiet [OF spending.emitted_keeps]], rule hoare_returnI)
  have "hoare (\<lambda>w. spent f w = ?c) (call_subagent ctx ls rs i input)
     (\<lambda>e. accounted f ctx base (end_state e)) (\<lambda>_. True)"
    using True unfolding call_subagent_def
    by (auto intro!: hoare_bind [OF run] hoare_returnI simp: accounted_def adds_up_def)
  then show ?thesis
    by (rule hoare_weaken) (use True in \<open>auto simp: accounted_def\<close>)
next
  case False
  show ?thesis
  proof (cases "adds_up f \<and> honest_child f ctx")
    case True
    with False show ?thesis by (auto simp: call_subagent_def intro: hoare_returnI)
  qed (auto simp: hoare_def accounted_def split: sum.splits prod.splits)
qed

interpretation usage_account: loop_account ctx "accounted f ctx base" "accounted f ctx base" "\<lambda>_. True"
    "max_turns_of (ac_env ctx) (ac_request ctx)" for f ctx base
proof
  fix ls :: loop_state and q :: model_request
  show "hoare (accounted f ctx base ls) (invokeWithRetry (ac_env ctx) (ac_sid ctx) q)
     (\<lambda>i. accounted f ctx base (charged i (ls\<lparr>ls_turn := ls_turn ls + 1\<rparr>))) (\<lambda>_. True)"
  proof (cases "adds_up f \<and> honest_child f ctx")
    case True
    show ?thesis
      using attempts_spend [of f "base + f (ls_usage ls)"] unfolding invokeWithRetry_def
      by (rule hoare_weaken)
        (use True in \<open>auto simp: accounted_def charged_def adds_up_def invocation_usage_def split: invocation.split\<close>)
  qed (auto simp: hoare_def accounted_def split: sum.splits prod.splits)
qed (auto simp: accounted_def spent_quiet spent_step usage_of_act_def accounts_def intro: delegated_spends)

lemma launch_over_spends:
  assumes "polite env" "adds_up f"
    and "\<And>t. honest_child f \<lparr>ac_env = env, ac_request = rq, ac_depth = depth,
      ac_tools = resolve_tools (ae_providers env) (rq_toolNames rq), ac_startedAt = t, ac_child = child\<rparr>"
  shows "case launch_over env depth child rq ms w of
    (r, w') \<Rightarrow> spent f w' = spent f w + f (us_tokens (ar_usage r))"
proof -
  let ?ctx = "\<lambda>t. \<lparr>ac_env = env, ac_request = rq, ac_depth = depth,
      ac_tools = resolve_tools (ae_providers env) (rq_toolNames rq), ac_startedAt = t, ac_child = child\<rparr>"
  let ?I = "\<lambda>v. spent f v = spent f w"
  have quiet: "hoare ?I m (\<lambda>_. ?I) (\<lambda>_. True)" if "keeping ?I m" for m :: "'x act"
    using that unfolding keeping_iff_hoare by (rule hoare_weaken) auto
  have turns: "hoare ?I (agent_turns (?ctx t) (max_turns_of env rq) (initial_loop rq ms))
      (\<lambda>r v. spent f v = spent f w + f (us_tokens (ar_usage r))) (\<lambda>_. True)" for t
    using usage_account.ran [of "initial_loop rq ms" "max_turns_of env rq" "?ctx t" f "spent f w"]
    by (rule hoare_weaken)
      (use assms(2) in \<open>auto simp: initial_loop_def accounted_def assms(3) reports_def adds_up_def\<close>)
  have sums: "hoare ?I (runLoop env depth child rq ms)
      (\<lambda>r v. spent f v = spent f w + f (us_tokens (ar_usage r))) (\<lambda>_. True)"
    unfolding runLoop_def
    by (rule hoare_bind [OF quiet [OF spending.clock_keeps]], rule hoare_bind [OF quiet [OF spending.emitted_keeps]],
        rule turns)
  have returns: "hoare (\<lambda>_. True) (runLoop env depth child rq ms) (\<lambda>_ _. True) (\<lambda>_. False)"
    using nothrow_run [OF assms(1)] by (simp add: nothrow_def)
  from hoare_apply [OF sums, of w] hoare_apply [OF returns, of w] show ?thesis
    by (auto simp: launch_over_def completed_event_def spent_def usage_of_act_def split: prod.splits sum.splits)
qed

lemma launch_spends:
  "polite env \<Longrightarrow> adds_up f \<Longrightarrow> n \<le> ae_maxDepth env \<Longrightarrow> case launch_agent env n rq ms w of
     (r, w') \<Rightarrow> spent f w' = spent f w + f (us_tokens (ar_usage r))"
proof (induction n arbitrary: rq ms w)
  case 0
  then show ?case
    unfolding launch_agent.simps
    by (intro launch_over_spends) (simp_all add: honest_child_def subagentAllowed_def)
next
  case (Suc n)
  then show ?case
    unfolding launch_agent.simps
    by (intro launch_over_spends) (simp_all add: honest_child_def)
qed

text \<open>The counts of a usage: input, output, read from and written to the cache.\<close>

definition token_counts :: "(token_usage \<Rightarrow> rat) list" where
  "token_counts = [inputTokens, outputTokens, \<lambda>u. or_zero (cacheReadTokens u), \<lambda>u. or_zero (cacheWriteTokens u)]"

lemma counts_add_up: "f \<in> set token_counts \<Longrightarrow> adds_up f"
  by (auto simp: token_counts_def adds_up_def emptyTokenUsage_def addTokenUsage_def)

text \<open>
  C35. The usage of a run is that of its turns, without its summaries. Where hooks and approvals do
  not throw, each count of tokens that a started run reports is the sum over the responses to all
  turns, whatever they ended with, of the run and of all its sub-agents, also of those that fail,
  are cancelled or run out of budget. All that the model consumed is this and what the summaries of
  compactions consumed, which the run neither reports nor charges to its budget.
\<close>

theorem usage_counts_every_turn:
  assumes "polite env" and "start_agent env rq w = (r, w')" and "f \<in> set token_counts"
  shows "f (us_tokens (ar_usage r)) = spent f w' - spent f w \<and>
    consumed f w' - consumed f w = f (us_tokens (ar_usage r)) + (summarized f w' - summarized f w)"
  using launch_spends [OF assms(1) counts_add_up [OF assms(3)] order_refl, where rq = rq and
      ms = "initialMessages rq" and w = w] assms(2)
  by (simp add: start_agent_def consumed_split)

end
