(* ===== verification/AgentLoopTranscripts.thy ===== *)
theory AgentLoopTranscripts
  imports AgentLoopAccounts
begin

section \<open>The transcripts a model is asked with\<close>

text \<open>
  A provider refuses a transcript in which a tool call is not answered by the message after it.
  The calls that are pending after a list of messages are those of the last one; a message answers
  the calls that are pending before it, in their order, and a message with results calls no tool.
\<close>

definition asks_of :: "message \<Rightarrow> string list" where
  "asks_of m = (if msg_role m = RoleAssistant then call_ids m else [])"

definition result_ids :: "block list \<Rightarrow> string list" where
  "result_ids bs = concat (map (\<lambda>b. case b of ToolResult i _ _ \<Rightarrow> [i] | _ \<Rightarrow> []) bs)"

definition answers_of :: "message \<Rightarrow> string list" where
  "answers_of m = (if msg_role m = RoleTool then result_ids (msg_content m) else [])"

definition answers :: "string list \<Rightarrow> message \<Rightarrow> bool" where
  "answers p m \<longleftrightarrow> answers_of m = p \<and> (msg_role m = RoleTool \<longrightarrow> call_ids m = [])"

fun pending :: "string list \<Rightarrow> message list \<Rightarrow> string list option" where
  "pending p [] = Some p"
| "pending p (m # ms) = (if answers p m then pending (asks_of m) ms else None)"

definition well_paired :: "message list \<Rightarrow> bool" where
  "well_paired ms \<longleftrightarrow> pending [] ms = Some []"

lemma pending_append: "pending p (ms @ ns) = Option.bind (pending p ms) (\<lambda>q. pending q ns)"
  by (induction ms arbitrary: p) auto

lemma pending_drop: "pending p ms = Some q \<Longrightarrow> \<exists>p'. pending p' (drop k ms) = Some q"
proof -
  assume "pending p ms = Some q"
  then have "pending p (take k ms @ drop k ms) = Some q" by simp
  then show ?thesis unfolding pending_append by (cases "pending p (take k ms)") auto
qed

subsection \<open>Compaction keeps the pairing\<close>

lemma result_ids_simps [simp]:
  "result_ids [] = []" "result_ids (b # bs) = (case b of ToolResult i _ _ \<Rightarrow> [i] | _ \<Rightarrow> []) @ result_ids bs"
  "result_ids (bs @ cs) = result_ids bs @ result_ids cs"
  by (simp_all add: result_ids_def)

lemma unorphan_known: "set (result_ids bs) \<subseteq> known \<Longrightarrow> map (unorphan known) bs = bs"
  by (induction bs) (auto simp: unorphan_def split: block.splits)

lemma unorphan_none: "result_ids (map (unorphan {}) bs) = []"
  by (induction bs) (auto simp: unorphan_def split: block.splits)

lemma unorphan_calls:
  "call_ids (m\<lparr>msg_content := map (unorphan known) bs\<rparr>) = call_ids (m\<lparr>msg_content := bs\<rparr>)"
  unfolding call_ids_def by (induction bs) (auto simp: unorphan_def split: block.splits)

lemma unorphan_asks: "asks_of (m\<lparr>msg_content := map (unorphan known) (msg_content m)\<rparr>) = asks_of m"
  using unorphan_calls [where m = m and known = known and bs = "msg_content m"] by (simp add: asks_of_def)

lemma sanitize_paired:
  "pending p ms = Some q \<Longrightarrow> set p \<subseteq> known \<Longrightarrow> pending p (sanitizeTail known ms) = Some q"
proof (induction ms arbitrary: p known)
  case (Cons m ms)
  let ?known = "known \<union> set (call_ids m)"
  let ?m = "m\<lparr>msg_content := map (unorphan ?known) (msg_content m)\<rparr>"
  from Cons.prems have ans: "answers p m" and rest: "pending (asks_of m) ms = Some q"
    by (auto split: if_splits)
  from ans Cons.prems(2) have "answers p ?m"
    using unorphan_known [of "msg_content m" ?known] unorphan_calls [where m = m and known = ?known and bs = "msg_content m"]
    by (auto simp: answers_def answers_of_def)
  moreover have "set (asks_of m) \<subseteq> ?known" by (auto simp: asks_of_def)
  ultimately show ?case
    using Cons.IH [OF rest] by (simp add: Let_def unorphan_asks)
qed simp

lemma sanitize_tail:
  assumes "pending p ms = Some []" "ms \<noteq> []"
  shows "pending [] (sanitizeTail {} ms) = Some []"
proof (cases "p = []")
  case True
  with assms(1) show ?thesis by (auto intro: sanitize_paired)
next
  case False
  from assms obtain m ns where ms: "ms = m # ns" by (cases ms) auto
  with assms(1) have ans: "answers p m" and rest: "pending (asks_of m) ns = Some []"
    by (auto split: if_splits)
  from ans False have role: "msg_role m = RoleTool" "call_ids m = []"
    by (auto simp: answers_def answers_of_def split: if_splits)
  then have asks: "asks_of m = []" by (simp add: asks_of_def)
  have "answers [] (m\<lparr>msg_content := map (unorphan {}) (msg_content m)\<rparr>)"
    using role unorphan_calls [where m = m and known = "{}" and bs = "msg_content m"] by (simp add: answers_def answers_of_def unorphan_none)
  with rest asks role show ?thesis
    using unorphan_asks [where m = m and known = "{}"] sanitize_paired [of "[]" ns "[]" "{}"] by (simp add: ms Let_def)
qed

lemma compact_paired:
  assumes "well_paired ms"
  shows "yields (compactMessages env model ms) well_paired"
proof -
  let ?keep = "max (ae_keepRecent env) 2"
  have "well_paired (summary_message s # sanitizeTail {} (drop (length ms - ?keep) ms))"
    if long: "\<not> length ms \<le> ?keep + 2" for s
  proof -
    from long have "drop (length ms - ?keep) ms \<noteq> []" by simp
    moreover obtain p' where "pending p' (drop (length ms - ?keep) ms) = Some []"
      using pending_drop assms unfolding well_paired_def by blast
    ultimately have "pending [] (sanitizeTail {} (drop (length ms - ?keep) ms)) = Some []"
      by (intro sanitize_tail)
    then show ?thesis
      by (simp add: well_paired_def summary_message_def answers_def answers_of_def asks_of_def)
  qed
  with assms show ?thesis
    unfolding compactMessages_def Let_def
    by (auto intro!: yields_bind yields_return split: option.split)
qed

subsection \<open>The results of the calls of a turn\<close>

definition abort_final :: "agent_env \<Rightarrow> bool" where
  "abort_final env \<longleftrightarrow> (\<forall>sid n m. n \<le> m \<longrightarrow> ae_abort env sid n \<noteq> None \<longrightarrow> ae_abort env sid m \<noteq> None)"

lemma abort_finalD:
  "abort_final env \<Longrightarrow> ae_abort env sid n \<noteq> None \<Longrightarrow> n \<le> m \<Longrightarrow> ae_abort env sid m \<noteq> None"
  unfolding abort_final_def by blast

definition stopping :: "agent_env \<Rightarrow> string \<Rightarrow> agent_world \<Rightarrow> bool" where
  "stopping env sid w \<longleftrightarrow> (abort_final env \<longrightarrow> ae_abort env sid (aw_polls w) \<noteq> None)"

interpretation stopping: tool_invariant "stopping env sid" env for env sid
  by unfold_locales (auto simp: stopping_def quiet_step_def act_step_def abort_final_def)

interpretation stops_closing: closing_invariant "stopping env sid" for env sid
  by unfold_locales (auto simp: stopping_def quiet_step_def act_step_def abort_final_def)

definition extends_results :: "loop_state \<Rightarrow> block list \<Rightarrow> string list \<Rightarrow> call_end \<Rightarrow> bool" where
  "extends_results ls rs ids e \<longleftrightarrow> (case e of CallStops _ _ _ \<Rightarrow> True | CallGoesOn ls' rs' \<Rightarrow>
     ls_messages ls' = ls_messages ls \<and> (\<exists>bs. rs' = rs @ bs \<and> result_ids bs = ids \<and>
       list_all (\<lambda>b. case b of ToolResult _ _ _ \<Rightarrow> True | _ \<Rightarrow> False) bs))"

lemma handle_call_extends:
  "yields (handle_call ctx ls rs c) (extends_results ls rs [fst c])"
proof -
  obtain i name input where c: "c = (i, name, input)" by (cases c)
  have tool: "yields (call_tool ctx ls rs i t input) (extends_results ls rs [i])" for t
    using call_tool_yields unfolding yields_def
  proof (rule hoare_weaken)
    fix e assume "call_done ls rs i e"
    then show "extends_results ls rs [i] e"
      by (cases e) (auto simp: call_done_def extends_results_def,
        metis loop_state.select_convs(1) loop_state.surjective loop_state.update_convs(5))
  qed auto
  have plain: "extends_results ls rs [i] (CallGoesOn ls (rs @ [ToolResult i m x]))" for m x
    by (simp add: extends_results_def)
  have sub: "yields (call_subagent ctx ls rs i input) (extends_results ls rs [i])"
    unfolding call_subagent_def
    by (auto intro!: yields_bind yields_return plain simp: errorResult_def) (simp add: extends_results_def)
  show ?thesis
    unfolding handle_call_def c
    by (auto intro!: yields_bind yields_return tool sub plain
        simp: errorResult_def extends_results_def split: option.split prod.split)
qed

lemma extends_trans:
  "extends_results ls rs [i] (CallGoesOn ls' rs') \<Longrightarrow> extends_results ls' rs' ids e \<Longrightarrow>
   extends_results ls rs (i # ids) e"
  by (cases e) (auto simp: extends_results_def)

definition all_or_stopping :: "agent_ctx \<Rightarrow> loop_state \<Rightarrow> block list \<Rightarrow> string list \<Rightarrow> call_end \<Rightarrow> agent_world \<Rightarrow> bool" where
  "all_or_stopping ctx ls rs ids e w \<longleftrightarrow> (\<exists>ids'. extends_results ls rs ids' e \<and>
     (ids' = ids \<or> stopping (ac_env ctx) (ac_sid ctx) w))"

lemma polled_stops:
  "hoare P (polled env sid) (\<lambda>a w. a \<noteq> None \<longrightarrow> stopping env sid w) (\<lambda>_. True)"
  unfolding polled_def by (rule hoare_atomically) (use abort_finalD in \<open>fastforce simp: stopping_def\<close>)

lemma handle_calls_extend:
  "hoare (\<lambda>_. True) (handle_calls ctx ls rs cs) (all_or_stopping ctx ls rs (map fst cs)) (\<lambda>_. True)"
proof (induction cs arbitrary: ls rs)
  case Nil
  show ?case by (auto intro!: hoare_returnI exI [of _ "[]"] simp: all_or_stopping_def extends_results_def)
next
  case (Cons c cs)
  let ?all = "all_or_stopping ctx ls rs (map fst (c # cs))"
  have next_call: "hoare (\<lambda>_. extends_results ls rs [fst c] e) (case e of CallStops x s ls' \<Rightarrow> returnS (CallStops x s ls')
      | CallGoesOn ls' rs' \<Rightarrow> handle_calls ctx ls' rs' cs) ?all (\<lambda>_. True)" for e
  proof (cases e)
    case (CallStops x s ls')
    then show ?thesis by (auto intro!: hoare_returnI simp: all_or_stopping_def extends_results_def)
  next
    case (CallGoesOn ls' rs')
    have "hoare (\<lambda>_. extends_results ls rs [fst c] e) (handle_calls ctx ls' rs' cs) ?all (\<lambda>_. True)"
      if "extends_results ls rs [fst c] e"
      using Cons.IH [of ls' rs']
      by (rule hoare_weaken) (use that CallGoesOn in \<open>auto simp: all_or_stopping_def intro: extends_trans\<close>)
    with CallGoesOn show ?thesis by (auto simp: hoare_def)
  qed
  have "hoare (\<lambda>w. a \<noteq> None \<longrightarrow> stopping (ac_env ctx) (ac_sid ctx) w) (case a of
      Some _ \<Rightarrow> returnS (CallGoesOn ls rs)
    | None \<Rightarrow> bindS (handle_call ctx ls rs c) (\<lambda>e. case e of CallStops x s ls' \<Rightarrow> returnS (CallStops x s ls')
      | CallGoesOn ls' rs' \<Rightarrow> handle_calls ctx ls' rs' cs)) ?all (\<lambda>_. True)" for a
  proof (cases a)
    case None
    have "hoare (\<lambda>_. True) (bindS (handle_call ctx ls rs c) (\<lambda>e. case e of CallStops x s ls' \<Rightarrow> returnS (CallStops x s ls')
      | CallGoesOn ls' rs' \<Rightarrow> handle_calls ctx ls' rs' cs)) ?all (\<lambda>_. True)"
      by (rule hoare_bind [OF handle_call_extends [unfolded yields_def] next_call])
    then show ?thesis using None by simp
  next
    case (Some x)
    then show ?thesis
      by (auto intro!: hoare_returnI exI [of _ "[]"] simp: all_or_stopping_def extends_results_def)
  qed
  from hoare_bind [OF polled_stops this] show ?case by simp
qed

subsection \<open>What the model is asked\<close>

definition asked_paired :: "agent_world \<Rightarrow> bool" where
  "asked_paired w \<longleftrightarrow> list_all (\<lambda>a. case a of Asked _ q \<Rightarrow> well_paired (mq_messages q) | _ \<Rightarrow> True) (aw_trace w)"

interpretation asking: run_invariant asked_paired env UNIV "\<lambda>q. well_paired (mq_messages q)" for env
proof
  fix w w' :: agent_world
  have "list_all is_quiet new \<Longrightarrow> list_all (\<lambda>a. case a of Asked _ q \<Rightarrow> well_paired (mq_messages q) | _ \<Rightarrow> True) new" for new
    by (induction new) (auto split: agent_act.splits)
  then show "asked_paired w \<Longrightarrow> quiet_step w w' \<Longrightarrow> asked_paired w'"
    by (auto simp: asked_paired_def quiet_step_def)
qed (auto simp: asked_paired_def act_step_def)

text \<open>The messages a turn leaves for the next one are paired, or the run is being stopped.\<close>

definition leaves_paired :: "agent_ctx \<Rightarrow> turn_end \<Rightarrow> agent_world \<Rightarrow> bool" where
  "leaves_paired ctx e w \<longleftrightarrow> (case e of Finished _ _ _ \<Rightarrow> True | NextTurn ls \<Rightarrow>
     well_paired (ls_messages ls) \<or> stopping (ac_env ctx) (ac_sid ctx) w)"

lemma hoare_and:
  "hoare P m Q E \<Longrightarrow> hoare P' m Q' E' \<Longrightarrow>
   hoare (\<lambda>w. P w \<and> P' w) m (\<lambda>x w. Q x w \<and> Q' x w) (\<lambda>w. E w \<and> E' w)"
  unfolding hoare_def by (fastforce split: prod.splits sum.splits)

lemma call_ids_tool_calls: "map fst (tool_calls bs) = call_ids \<lparr>msg_role = x, msg_content = bs\<rparr>"
  by (induction bs) (auto simp: tool_calls_def call_ids_def split: block.splits)

lemma text_only_leaves:
  assumes "well_paired (ls_messages ls)" "tool_calls (mr_content r) = []"
  shows "leaves_paired ctx (text_only_turn ctx r ls) w"
proof -
  have "call_ids \<lparr>msg_role = RoleAssistant, msg_content = mr_content r\<rparr> = []"
    using call_ids_tool_calls [of "mr_content r" RoleAssistant] assms(2) by simp
  with assms(1) show ?thesis
    by (simp add: text_only_turn_def Let_def leaves_paired_def well_paired_def pending_append answers_def
        answers_of_def asks_of_def nudge_def)
qed

lemma close_leaves:
  assumes "well_paired ms" and ls: "ls_messages ls = ms @ [\<lparr>msg_role = RoleAssistant, msg_content = mr_content r\<rparr>]"
    and ids: "result_ids rs = map fst (tool_calls (mr_content r))"
    and results: "list_all (\<lambda>b. case b of ToolResult _ _ _ \<Rightarrow> True | _ \<Rightarrow> False) rs"
  shows "yields (close_turn ctx r ls rs) (\<lambda>e. leaves_paired ctx e w)"
proof -
  have "list_all (\<lambda>b. case b of ToolResult _ _ _ \<Rightarrow> True | _ \<Rightarrow> False) bs \<Longrightarrow>
      call_ids \<lparr>msg_role = RoleTool, msg_content = bs\<rparr> = []" for bs
    by (induction bs) (auto simp: call_ids_def split: block.splits)
  with results have "call_ids \<lparr>msg_role = RoleTool, msg_content = rs\<rparr> = []" by simp
  with assms(1) ids have paired: "well_paired (ls_messages ls @ [\<lparr>msg_role = RoleTool, msg_content = rs\<rparr>])"
    by (simp add: ls well_paired_def pending_append answers_def answers_of_def asks_of_def
        call_ids_tool_calls [of "mr_content r" RoleAssistant])
  have "yields (if b then compactMessages env model (ls_messages ls @ [\<lparr>msg_role = RoleTool, msg_content = rs\<rparr>])
      else returnS (ls_messages ls @ [\<lparr>msg_role = RoleTool, msg_content = rs\<rparr>])) well_paired" for b env model
    using compact_paired [OF paired] paired by (simp add: yields_return)
  then have tail: "yields (bindS
      (if b then compactMessages env model (ls_messages ls @ [\<lparr>msg_role = RoleTool, msg_content = rs\<rparr>])
      else returnS (ls_messages ls @ [\<lparr>msg_role = RoleTool, msg_content = rs\<rparr>]))
      (\<lambda>ms'. returnS (NextTurn (ls\<lparr>ls_messages := ms'\<rparr>)))) (\<lambda>e. leaves_paired ctx e w)" for b env model
    by (rule yields_chain) (auto intro!: yields_return simp: leaves_paired_def)
  show ?thesis
    unfolding close_turn_def Let_def by (rule yields_bind, rule yields_bind, rule tail)
qed

lemma close_stopping:
  "hoare (stopping (ac_env ctx) (ac_sid ctx)) (close_turn ctx r ls rs) (leaves_paired ctx) (\<lambda>_. True)"
  using stops_closing.close_keeps [where ctx = ctx and r = r and ls = ls and rs = rs] unfolding keeping_iff_hoare
  by (rule hoare_weaken) (auto simp: leaves_paired_def split: turn_end.split)

lemma proceed_leaves:
  assumes "well_paired (ls_messages ls)"
  shows "hoare (\<lambda>_. True) (proceed ctx r ls) (leaves_paired ctx) (\<lambda>_. True)"
proof -
  define ls1 where "ls1 = (if collectText r = [] then ls else ls\<lparr>ls_lastText := collectText r\<rparr>)"
  define ls2 where "ls2 = ls1\<lparr>ls_textOnly := 0,
    ls_messages := ls_messages ls1 @ [\<lparr>msg_role = RoleAssistant, msg_content = mr_content r\<rparr>]\<rparr>"
  let ?ids = "map fst (tool_calls (mr_content r))"
  have ls1: "ls_messages ls1 = ls_messages ls" by (simp add: ls1_def)
  have ls2: "ls_messages ls2 = ls_messages ls @ [\<lparr>msg_role = RoleAssistant, msg_content = mr_content r\<rparr>]"
    by (simp add: ls2_def ls1)
  have closing: "hoare (all_or_stopping ctx ls2 [] ?ids (CallGoesOn ls3 rs)) (close_turn ctx r ls3 rs)
      (leaves_paired ctx) (\<lambda>_. True)" for ls3 rs
    unfolding hoare_def
  proof (intro allI impI)
    fix w assume w: "all_or_stopping ctx ls2 [] ?ids (CallGoesOn ls3 rs) w"
    then obtain ids' where ids: "ls_messages ls3 = ls_messages ls2" "result_ids rs = ids'"
      "list_all (\<lambda>b. case b of ToolResult _ _ _ \<Rightarrow> True | _ \<Rightarrow> False) rs"
      "ids' = ?ids \<or> stopping (ac_env ctx) (ac_sid ctx) w"
      by (auto simp: all_or_stopping_def extends_results_def)
    show "case close_turn ctx r ls3 rs w of (Inl e, w') \<Rightarrow> True | (Inr e, w') \<Rightarrow> leaves_paired ctx e w'"
    proof (cases "ids' = ?ids")
      case True
      have "yields (close_turn ctx r ls3 rs) (\<lambda>e. leaves_paired ctx e v)" for v
        using assms ids True by (intro close_leaves [OF assms]) (simp_all add: ls2)
      from hoare_apply [OF this [of "snd (close_turn ctx r ls3 rs w)", unfolded yields_def], of w]
      show ?thesis by (simp add: case_prod_unfold)
    next
      case False
      with ids(4) have "stopping (ac_env ctx) (ac_sid ctx) w" by simp
      from hoare_apply [OF close_stopping this] show ?thesis .
    qed
  qed
  have ended: "hoare (all_or_stopping ctx ls2 [] ?ids e) (case e of CallStops x s ls3 \<Rightarrow> returnS (Finished x s ls3)
      | CallGoesOn ls3 results \<Rightarrow> close_turn ctx r ls3 results) (leaves_paired ctx) (\<lambda>_. True)" for e
    using closing by (cases e) (auto intro!: hoare_returnI simp: leaves_paired_def)
  have calls: "hoare (\<lambda>_. True) (bindS (handle_calls ctx ls2 [] (tool_calls (mr_content r))) (\<lambda>e. case e of
      CallStops x s ls3 \<Rightarrow> returnS (Finished x s ls3)
    | CallGoesOn ls3 results \<Rightarrow> close_turn ctx r ls3 results)) (leaves_paired ctx) (\<lambda>_. True)"
    by (rule hoare_bind [OF handle_calls_extend ended])
  show ?thesis
    unfolding proceed_def Let_def ls1_def [symmetric] ls2_def [symmetric]
    using calls assms by (auto intro!: hoare_returnI text_only_leaves simp: ls1)
qed

lemma one_turn_leaves:
  assumes "well_paired (ls_messages ls)"
  shows "hoare (\<lambda>_. True) (one_turn ctx ls) (leaves_paired ctx) (\<lambda>_. True)"
proof -
  have any: "hoare (\<lambda>_. True) (bindS m f) Q (\<lambda>_. True)"
    if "\<And>x. hoare (\<lambda>_. True) (f x) Q (\<lambda>_. True)" for m :: "'x act" and f :: "'x \<Rightarrow> 'y act" and Q
    by (rule hoare_bind [where R = "\<lambda>_ _. True"])
      (simp add: hoare_def split: sum.splits prod.splits, rule that)
  have respond: "hoare (\<lambda>_. True) (respond ctx r ls1) (leaves_paired ctx) (\<lambda>_. True)"
    if "ls_messages ls1 = ls_messages ls" for r ls1
  proof -
    have same: "yields (charge_response ctx r ls1) (\<lambda>p. ls_messages (snd p) = ls_messages ls)"
      unfolding charge_response_def by (intro yields_bind) (auto intro!: yields_return simp: that split: prod.split)
    have after: "hoare (\<lambda>_. ls_messages (snd p) = ls_messages ls) (case p of (status, ls1) \<Rightarrow>
        if bs_exhausted status then returnS (Finished BUDGET_EXHAUSTED (m status) ls1) else proceed ctx r ls1)
        (leaves_paired ctx) (\<lambda>_. True)" for p m
      using proceed_leaves [of "snd p"] assms
      by (cases p; cases "ls_messages (snd p) = ls_messages ls")
        (auto simp: hoare_def returnS_def leaves_paired_def)
    show ?thesis
      unfolding respond_def by (rule hoare_bind [OF same [unfolded yields_def] after])
  qed
  show ?thesis
    unfolding one_turn_def Let_def
    by (rule any, rule any) (auto intro!: hoare_returnI respond simp: leaves_paired_def split: invocation.split)
qed

lemma one_turn_asks:
  assumes "well_paired (ls_messages ls)"
    and child: "\<And>rq w. asked_paired w \<Longrightarrow> asked_paired (snd (ac_child ctx rq (initialMessages rq) w))"
  shows "keeping asked_paired (one_turn ctx ls)"
proof -
  have calls: "keeping asked_paired (handle_calls ctx ls1 rs cs)" for ls1 rs cs
    by (rule asking.handle_calls_keep [OF refl child])
  have "keeping asked_paired (respond ctx r ls1)" for r ls1
    unfolding respond_def proceed_def Let_def
    by (auto intro!: keeping_rules asking.record_keeps asking.close_keeps calls split: call_end.split)
  moreover have "keeping asked_paired (invokeWithRetry (ac_env ctx) (ac_sid ctx) (model_request_of ctx (ls_messages ls)))"
    using assms(1) by (intro asking.invoke_keeps) (simp_all add: model_request_of_def)
  ultimately show ?thesis
    unfolding one_turn_def Let_def
    by (auto intro!: keeping_rules asking.emitted_keeps split: invocation.split)
qed

text \<open>A run that is being stopped reads its signal before it asks the model again.\<close>

definition ready :: "agent_ctx \<Rightarrow> loop_state \<Rightarrow> agent_world \<Rightarrow> bool" where
  "ready ctx ls w \<longleftrightarrow> asked_paired w \<and>
     (well_paired (ls_messages ls) \<or> stopping (ac_env ctx) (ac_sid ctx) w)"

lemma turns_ask:
  assumes final: "abort_final (ac_env ctx)"
    and child: "\<And>rq w. asked_paired w \<Longrightarrow> asked_paired (snd (ac_child ctx rq (initialMessages rq) w))"
  shows "hoare (ready ctx ls) (agent_turns ctx k ls) (\<lambda>_. asked_paired) asked_paired"
proof (induction k arbitrary: ls)
  have poll: "hoare (ready ctx ls) (polled (ac_env ctx) (ac_sid ctx))
      (\<lambda>a w. asked_paired w \<and> (a = None \<longrightarrow> well_paired (ls_messages ls))) asked_paired" for ls
    unfolding polled_def by (rule hoare_atomically) (use final in \<open>auto simp: ready_def stopping_def asked_paired_def\<close>)
  have fin: "hoare (\<lambda>w. asked_paired w \<and> P) (finish ctx x s ls) (\<lambda>_. asked_paired) asked_paired" for x s ls P
    using asking.finish_keeps unfolding keeping_iff_hoare by (rule hoare_weaken) auto
  {
    case 0
    have "hoare (\<lambda>w. asked_paired w \<and> (a = None \<longrightarrow> well_paired (ls_messages ls))) (case a of
        Some c \<Rightarrow> finish ctx (abort_outcome c) (abort_reason (ac_request ctx) c) ls
      | None \<Rightarrow> finish ctx BUDGET_EXHAUSTED (turn_limit_message (max_turns_of (ac_env ctx) (ac_request ctx))) ls)
      (\<lambda>_. asked_paired) asked_paired" for a
      using fin [of True] fin [of "well_paired (ls_messages ls)"] by (cases a) simp_all
    from hoare_bind [OF poll this] show ?case by simp
  next
    case (Suc k)
    have turn: "hoare (\<lambda>w. asked_paired w \<and> leaves_paired ctx e w) (case e of
        Finished x s ls' \<Rightarrow> finish ctx x s ls' | NextTurn ls' \<Rightarrow> agent_turns ctx k ls')
        (\<lambda>_. asked_paired) asked_paired" for e
    proof (cases e)
      case (Finished x s ls')
      with fin [of True x s ls'] show ?thesis by (simp add: leaves_paired_def)
    next
      case (NextTurn ls')
      from Suc.IH [of ls'] have "hoare (\<lambda>w. asked_paired w \<and> leaves_paired ctx e w) (agent_turns ctx k ls')
          (\<lambda>_. asked_paired) asked_paired"
        by (rule hoare_weaken) (auto simp: leaves_paired_def ready_def NextTurn)
      with NextTurn show ?thesis by simp
    qed
    have one: "hoare asked_paired (one_turn ctx ls) (\<lambda>e w. asked_paired w \<and> leaves_paired ctx e w) asked_paired"
      if "well_paired (ls_messages ls)"
      using hoare_and [OF one_turn_asks [OF that child, unfolded keeping_iff_hoare] one_turn_leaves [OF that]]
      by (rule hoare_weaken) auto
    have "hoare (\<lambda>w. asked_paired w \<and> (a = None \<longrightarrow> well_paired (ls_messages ls))) (case a of
        Some c \<Rightarrow> finish ctx (abort_outcome c) (abort_reason (ac_request ctx) c) ls
      | None \<Rightarrow> bindS (one_turn ctx ls) (\<lambda>e. case e of
          Finished x s ls' \<Rightarrow> finish ctx x s ls' | NextTurn ls' \<Rightarrow> agent_turns ctx k ls'))
      (\<lambda>_. asked_paired) asked_paired" for a
    proof (cases a)
      case (Some c)
      with fin [of True] show ?thesis by simp
    next
      case None
      show ?thesis
      proof (cases "well_paired (ls_messages ls)")
        case True
        with None hoare_bind [OF one [OF True] turn] show ?thesis by simp
      qed (simp add: None hoare_def)
    qed
    from hoare_bind [OF poll this] show ?case by simp
  }
qed

lemma launch_over_asks:
  assumes "abort_final env" "well_paired ms" "asked_paired w"
    and child: "\<And>rq w. asked_paired w \<Longrightarrow> asked_paired (snd (child rq (initialMessages rq) w))"
  shows "asked_paired (snd (launch_over env depth child rq ms w))"
proof -
  have turns: "hoare asked_paired (agent_turns \<lparr>ac_env = env, ac_request = rq, ac_depth = depth,
      ac_tools = resolve_tools (ae_providers env) (rq_toolNames rq), ac_startedAt = t, ac_child = child\<rparr>
      (max_turns_of env rq) (initial_loop rq ms)) (\<lambda>_. asked_paired) asked_paired" for t
    by (rule hoare_weaken [OF turns_ask]) (use assms in \<open>auto simp: ready_def initial_loop_def\<close>)
  have "keeping asked_paired (runLoop env depth child rq ms)"
    unfolding runLoop_def
    by (intro keeping_rules asking.clock_keeps asking.emitted_keeps) (simp add: keeping_iff_hoare turns)
  with assms(3) have "asked_paired (snd (runLoop env depth child rq ms w))" by (simp add: keeping_def)
  then show ?thesis
    unfolding launch_over_def completed_event_def
    by (auto simp: asked_paired_def split: prod.splits sum.splits)
qed

lemma initial_paired: "well_paired (initialMessages rq)"
  by (simp add: well_paired_def initialMessages_def answers_def answers_of_def asks_of_def)

lemma launch_asks:
  "abort_final env \<Longrightarrow> well_paired ms \<Longrightarrow> asked_paired w \<Longrightarrow> asked_paired (snd (launch_agent env n rq ms w))"
proof (induction n arbitrary: rq ms w)
  case 0
  then show ?case unfolding launch_agent.simps by (intro launch_over_asks) simp_all
next
  case (Suc n)
  then show ?case unfolding launch_agent.simps by (intro launch_over_asks Suc.IH initial_paired)
qed

text \<open>
  C32. Every tool call is answered. As long as an aborted run stays aborted, each transcript that a
  started run sends to the model, its own and those of its sub-agents, whatever was compacted and
  whichever calls were refused, blocked, denied or failed, is well formed: the tool calls of a
  message are answered by the next one, all and in their order, and nothing else is answered.
\<close>

theorem transcripts_answer_every_call:
  assumes "abort_final env" and "asked_paired w"
  shows "asked_paired (snd (start_agent env rq w))"
  unfolding start_agent_def by (rule launch_asks [OF assms(1) initial_paired assms(2)])

end
