(* ===== verification/AgentLoopRuns.thy ===== *)
theory AgentLoopRuns
  imports AgentLoopBounds AgentLoopUsage AgentLoopTranscripts
begin

section \<open>How runs of the agent loop end\<close>

text \<open>
  Completion is explicit: it rests on the last thing the model said. Then concrete runs: the
  sessions and budgets for which the loop does not do what its interface says, and the witnesses of
  the properties of the loop.
\<close>

subsection \<open>Explicit completion\<close>

fun last_answer :: "string \<Rightarrow> agent_act list \<Rightarrow> model_response option" where
  "last_answer sid [] = None"
| "last_answer sid (Answered s r # tr) = (if s = sid then Some r else last_answer sid tr)"
| "last_answer sid (a # tr) = last_answer sid tr"

definition completing :: "string \<times> string \<times> jsval \<Rightarrow> bool" where
  "completing c \<longleftrightarrow> (case c of (i, name, input) \<Rightarrow>
     name = COMPLETE_GOAL_TOOL \<and> fst (parseCompleteGoal input))"

definition completes :: "model_response \<Rightarrow> bool" where
  "completes r \<longleftrightarrow> list_ex completing (tool_calls (mr_content r))"

lemma last_answer_quiet: "list_all is_quiet new \<Longrightarrow> last_answer sid (new @ tr) = last_answer sid tr"
  by (induction new) (auto elim: is_quiet.elims)

interpretation others: free_invariant "\<lambda>w. last_answer sid (aw_trace w) = x" env
    "{s. length sid < length s}" "\<lambda>_. True" for sid x env
  by unfold_locales (auto simp: quiet_step_def act_step_def last_answer_quiet sub_sid_def)

definition stops_completing :: "(string \<times> string \<times> jsval) list \<Rightarrow> call_end \<Rightarrow> bool" where
  "stops_completing cs e \<longleftrightarrow>
     (case e of CallStops x _ _ \<Rightarrow> x = GOAL_COMPLETED \<longrightarrow> list_ex completing cs | _ \<Rightarrow> True)"

lemma handle_call_completes: "yields (handle_call ctx ls rs c) (stops_completing [c])"
proof -
  obtain i name input where c: "c = (i, name, input)" by (cases c)
  have tool: "yields (call_tool ctx ls rs i t input) (stops_completing [c])" for t
    using call_tool_yields unfolding yields_def
    by (rule hoare_weaken) (auto simp: call_done_def stops_completing_def split: call_end.splits)
  have sub: "yields (call_subagent ctx ls rs i input) (stops_completing [c])"
    unfolding call_subagent_def by (auto intro!: yields_bind yields_return simp: stops_completing_def)
  show ?thesis
    using tool sub unfolding handle_call_def c
    by (auto intro!: yields_bind yields_return simp: stops_completing_def completing_def
        split: option.split prod.split)
qed

lemma handle_calls_complete: "yields (handle_calls ctx ls rs cs) (stops_completing cs)"
proof (induction cs arbitrary: ls rs)
  case (Cons c cs)
  have step: "yields (bindS (handle_call ctx ls rs c) (\<lambda>e. case e of CallStops x s ls' \<Rightarrow> returnS (CallStops x s ls')
      | CallGoesOn ls' rs' \<Rightarrow> handle_calls ctx ls' rs' cs)) (stops_completing (c # cs))"
  proof (rule yields_chain [OF handle_call_completes])
    fix e assume e: "stops_completing [c] e"
    have later: "yields (handle_calls ctx ls' rs' cs) (stops_completing (c # cs))" for ls' rs'
      using Cons.IH unfolding yields_def
      by (rule hoare_weaken) (auto simp: stops_completing_def split: call_end.splits)
    show "yields (case e of CallStops x s ls' \<Rightarrow> returnS (CallStops x s ls')
      | CallGoesOn ls' rs' \<Rightarrow> handle_calls ctx ls' rs' cs) (stops_completing (c # cs))"
      using e later by (cases e) (auto intro!: yields_return simp: stops_completing_def)
  qed
  have stop: "yields (returnS (CallGoesOn ls rs)) (stops_completing (c # cs))"
    by (rule yields_return) (simp add: stops_completing_def)
  show ?case
    unfolding handle_calls.simps by (rule yields_bind) (simp add: step stop split: option.split)
qed (auto intro!: yields_return simp: stops_completing_def)

text \<open>A turn that ends the run with the goal completed does so by the call of the response.\<close>

definition by_completion :: "string \<Rightarrow> turn_end \<Rightarrow> agent_world \<Rightarrow> bool" where
  "by_completion sid e w \<longleftrightarrow> (case e of Finished x _ _ \<Rightarrow> x = GOAL_COMPLETED \<longrightarrow>
     (\<exists>r. last_answer sid (aw_trace w) = Some r \<and> completes r) | _ \<Rightarrow> True)"

lemma proceed_completes:
  "yields (proceed ctx r ls) (\<lambda>e. case e of Finished x _ _ \<Rightarrow> x = GOAL_COMPLETED \<longrightarrow> completes r | _ \<Rightarrow> True)"
proof -
  let ?R = "\<lambda>e. case e of Finished x _ _ \<Rightarrow> x = GOAL_COMPLETED \<longrightarrow> completes r | _ \<Rightarrow> True"
  have closing: "yields (close_turn ctx r ls3 rs) ?R" for ls3 rs
    unfolding close_turn_def Let_def by (intro yields_bind yields_return) simp
  have "yields (bindS (handle_calls ctx ls2 [] (tool_calls (mr_content r))) (\<lambda>e. case e of
      CallStops x s ls3 \<Rightarrow> returnS (Finished x s ls3)
    | CallGoesOn ls3 results \<Rightarrow> close_turn ctx r ls3 results)) ?R" for ls2
    by (rule yields_chain [OF handle_calls_complete])
      (auto intro!: yields_return closing simp: stops_completing_def completes_def split: call_end.split)
  then show ?thesis
    unfolding proceed_def Let_def by (auto intro!: yields_return simp: text_only_turn_def Let_def)
qed

lemma respond_completes:
  assumes child: "\<And>rq w. rq_sessionId rq \<in> child_sids ctx \<Longrightarrow> last_answer (ac_sid ctx) (aw_trace w) = Some r \<Longrightarrow>
     last_answer (ac_sid ctx) (aw_trace (snd (ac_child ctx rq (initialMessages rq) w))) = Some r"
  shows "hoare (\<lambda>w. last_answer (ac_sid ctx) (aw_trace w) = Some r) (respond ctx r ls) (by_completion (ac_sid ctx)) (\<lambda>_. True)"
proof -
  let ?I = "\<lambda>w. last_answer (ac_sid ctx) (aw_trace w) = Some r"
  have calls: "keeping ?I (handle_calls ctx ls1 rs cs)" for ls1 rs cs
    by (rule others.handle_calls_keep [OF refl child])
  have kept: "keeping ?I (proceed ctx r ls1)" for ls1
    unfolding proceed_def Let_def
    by (auto intro!: keeping_rules others.close_keeps calls split: call_end.split)
  have go_on: "hoare ?I (proceed ctx r ls1) (by_completion (ac_sid ctx)) (\<lambda>_. True)" for ls1
    using hoare_yields [OF kept [unfolded keeping_iff_hoare] proceed_completes]
    by (rule hoare_weaken) (auto simp: by_completion_def split: turn_end.splits)
  have recorded: "hoare ?I (charge_response ctx r ls) (\<lambda>_. ?I) (\<lambda>_. True)"
    using others.record_keeps unfolding keeping_iff_hoare by (rule hoare_weaken) auto
  have "hoare ?I (case p of (status, ls1) \<Rightarrow> if bs_exhausted status then returnS (Finished BUDGET_EXHAUSTED (m status) ls1)
      else proceed ctx r ls1) (by_completion (ac_sid ctx)) (\<lambda>_. True)" for p m
    using go_on by (cases p) (auto intro!: hoare_returnI simp: by_completion_def)
  from hoare_bind [OF recorded this] show ?thesis unfolding respond_def .
qed

lemma stream_answers:
  "hoare (\<lambda>_. True) (stream_call env sid q)
     (\<lambda>r w. case r of Inr x \<Rightarrow> last_answer sid (aw_trace w) = Some x | _ \<Rightarrow> True) (\<lambda>_. True)"
proof -
  have any: "hoare (\<lambda>_. True) m (\<lambda>_ _. True) (\<lambda>_. True)" for m :: "'x act"
    by (simp add: hoare_def split: sum.splits prod.splits)
  have answer: "hoare (\<lambda>_. True) (traced (Answered sid r)) (\<lambda>_ w. last_answer sid (aw_trace w) = Some r) (\<lambda>_. True)" for r
    unfolding traced_def by (rule hoare_atomically) simp
  have close: "hoare (\<lambda>_. True) (case e of
      Response r \<Rightarrow> bindS (traced (Answered sid r)) (\<lambda>_. returnS (Inr r))
    | NoResponse \<Rightarrow> returnS (Inl \<lparr>me_message = ''model stream ended without response'', me_retryable = False\<rparr>)
    | StreamError err \<Rightarrow> returnS (Inl err))
    (\<lambda>r w. case r of Inr x \<Rightarrow> last_answer sid (aw_trace w) = Some x | _ \<Rightarrow> True) (\<lambda>_. True)" for e
    by (cases e) (auto intro!: hoare_bind [OF answer] hoare_returnI)
  show ?thesis
    unfolding stream_call_def
    by (rule hoare_bind [OF any]) (auto intro!: hoare_bind [OF any close] split: prod.split)
qed

lemma attempts_answer:
  "hoare (\<lambda>_. True) (invoke_attempts env sid q err k)
     (\<lambda>i w. case i of Responded x \<Rightarrow> last_answer sid (aw_trace w) = Some x | _ \<Rightarrow> True) (\<lambda>_. True)"
proof (induction k arbitrary: err)
  case 0
  show ?case by (auto intro: hoare_returnI)
next
  case (Suc k)
  let ?Q = "\<lambda>i w. case i of Responded x \<Rightarrow> last_answer sid (aw_trace w) = Some x | _ \<Rightarrow> True"
  have any: "hoare (\<lambda>_. True) m (\<lambda>_ _. True) (\<lambda>_. True)" for m :: "'x act"
    by (simp add: hoare_def split: sum.splits prod.splits)
  have stop: "hoare P (returnS (InvocationAborted c)) ?Q (\<lambda>_. True)" "hoare P (returnS (InvocationFailed m)) ?Q (\<lambda>_. True)" for P c m
    by (auto intro: hoare_returnI)
  have retry: "hoare (\<lambda>_. True) (retry_after env sid e (k = 0) (invoke_attempts env sid q (Some e) k)) ?Q (\<lambda>_. True)" for e
    unfolding retry_after_def
    by (rule hoare_bind [OF any]) (auto simp: stop Suc.IH intro!: hoare_bind [OF any] split: option.split)
  have after: "hoare (\<lambda>w. case r of Inr x \<Rightarrow> last_answer sid (aw_trace w) = Some x | _ \<Rightarrow> True) (case r of
         Inr response \<Rightarrow> returnS (Responded response)
       | Inl e \<Rightarrow> retry_after env sid e (k = 0) (invoke_attempts env sid q (Some e) k)) ?Q (\<lambda>_. True)" for r
    using retry by (cases r) (auto intro!: hoare_returnI)
  have "hoare (\<lambda>_. True) (case a of Some c \<Rightarrow> returnS (InvocationAborted c)
     | None \<Rightarrow> bindS (stream_call env sid q) (\<lambda>r. case r of
         Inr response \<Rightarrow> returnS (Responded response)
       | Inl e \<Rightarrow> retry_after env sid e (k = 0) (invoke_attempts env sid q (Some e) k))) ?Q (\<lambda>_. True)" for a
    by (cases a) (simp_all only: option.case stop hoare_bind [OF stream_answers after])
  from hoare_bind [OF any this] show ?case by (simp only: invoke_attempts.simps)
qed

lemma one_turn_completes:
  assumes child: "\<And>rq w x. rq_sessionId rq \<in> child_sids ctx \<Longrightarrow> last_answer (ac_sid ctx) (aw_trace w) = x \<Longrightarrow>
     last_answer (ac_sid ctx) (aw_trace (snd (ac_child ctx rq (initialMessages rq) w))) = x"
  shows "hoare (\<lambda>_. True) (one_turn ctx ls) (by_completion (ac_sid ctx)) (\<lambda>_. True)"
proof -
  have any: "hoare (\<lambda>_. True) m (\<lambda>_ _. True) (\<lambda>_. True)" for m :: "'x act"
    by (simp add: hoare_def split: sum.splits prod.splits)
  let ?ls = "ls\<lparr>ls_turn := ls_turn ls + 1\<rparr>"
  have outcome: "abort_outcome c \<noteq> GOAL_COMPLETED" for c
    by (simp add: abort_outcome_def split: abort_cause.split)
  have "hoare (\<lambda>w. case i of Responded x \<Rightarrow> last_answer (ac_sid ctx) (aw_trace w) = Some x | _ \<Rightarrow> True) (case i of
        InvocationAborted c \<Rightarrow> returnS (Finished (abort_outcome c) (abort_reason (ac_request ctx) c) ?ls)
      | InvocationFailed e \<Rightarrow> returnS (Finished FATAL_FAILURE (''model invocation failed: '' @ e) ?ls)
      | Responded r \<Rightarrow> respond ctx r ?ls) (by_completion (ac_sid ctx)) (\<lambda>_. True)" for i
    using respond_completes [OF child, of _ ?ls]
    by (cases i) (auto intro!: hoare_returnI simp: by_completion_def outcome)
  then show ?thesis
    unfolding one_turn_def Let_def invokeWithRetry_def
    by (rule hoare_bind [OF any hoare_bind [OF attempts_answer]])
qed

definition completed_explicitly :: "string \<Rightarrow> agent_result \<Rightarrow> agent_world \<Rightarrow> bool" where
  "completed_explicitly sid r w \<longleftrightarrow> (ar_outcome r = GOAL_COMPLETED \<longrightarrow>
     (\<exists>x. last_answer sid (aw_trace w) = Some x \<and> completes x))"

lemma turns_complete:
  assumes child: "\<And>rq w x. rq_sessionId rq \<in> child_sids ctx \<Longrightarrow> last_answer (ac_sid ctx) (aw_trace w) = x \<Longrightarrow>
     last_answer (ac_sid ctx) (aw_trace (snd (ac_child ctx rq (initialMessages rq) w))) = x"
  shows "hoare (\<lambda>_. True) (agent_turns ctx k ls) (completed_explicitly (ac_sid ctx)) (\<lambda>_. True)"
proof (induction k arbitrary: ls)
  have any: "hoare (\<lambda>_. True) m (\<lambda>_ _. True) (\<lambda>_. True)" for m :: "'x act"
    by (simp add: hoare_def split: sum.splits prod.splits)
  have other: "hoare P (finish ctx x s ls) (completed_explicitly (ac_sid ctx)) (\<lambda>_. True)"
    if "x \<noteq> GOAL_COMPLETED" for P x s ls
  proof -
    have "yields (finish ctx x s ls) (\<lambda>r. ar_outcome r = x)"
      unfolding finish_def by (intro yields_bind yields_return) simp
    then show ?thesis
      unfolding yields_def by (rule hoare_weaken) (auto simp: completed_explicitly_def that)
  qed
  have fin: "hoare (by_completion (ac_sid ctx) (Finished x s ls)) (finish ctx x s ls)
      (completed_explicitly (ac_sid ctx)) (\<lambda>_. True)" for x s ls
  proof (cases "x = GOAL_COMPLETED")
    case True
    have "hoare (\<lambda>w. last_answer (ac_sid ctx) (aw_trace w) = Some r) (finish ctx x s ls)
        (\<lambda>_ w. last_answer (ac_sid ctx) (aw_trace w) = Some r) (\<lambda>_. True)" for r
      using others.finish_keeps unfolding keeping_iff_hoare by (rule hoare_weaken) auto
    then show ?thesis
      using True by (fastforce simp: hoare_def by_completion_def completed_explicitly_def split: prod.splits sum.splits)
  qed (rule other)
  have outcome: "abort_outcome c \<noteq> GOAL_COMPLETED" for c
    by (simp add: abort_outcome_def split: abort_cause.split)
  {
    case 0
    have "hoare (\<lambda>_. True) (case a of
        Some c \<Rightarrow> finish ctx (abort_outcome c) (abort_reason (ac_request ctx) c) ls
      | None \<Rightarrow> finish ctx BUDGET_EXHAUSTED (turn_limit_message (max_turns_of (ac_env ctx) (ac_request ctx))) ls)
      (completed_explicitly (ac_sid ctx)) (\<lambda>_. True)" for a
      by (cases a) (simp_all add: other outcome)
    from hoare_bind [OF any this] show ?case by simp
  next
    case (Suc k)
    have turn: "hoare (by_completion (ac_sid ctx) e) (case e of
        Finished x s ls' \<Rightarrow> finish ctx x s ls' | NextTurn ls' \<Rightarrow> agent_turns ctx k ls')
        (completed_explicitly (ac_sid ctx)) (\<lambda>_. True)" for e
    proof (cases e)
      case (Finished x s ls')
      with fin show ?thesis by simp
    next
      case (NextTurn ls')
      have "hoare (by_completion (ac_sid ctx) e) (agent_turns ctx k ls') (completed_explicitly (ac_sid ctx)) (\<lambda>_. True)"
        using Suc.IH by (rule hoare_weaken) auto
      with NextTurn show ?thesis by simp
    qed
    have "hoare (\<lambda>_. True) (case a of
        Some c \<Rightarrow> finish ctx (abort_outcome c) (abort_reason (ac_request ctx) c) ls
      | None \<Rightarrow> bindS (one_turn ctx ls) (\<lambda>e. case e of
          Finished x s ls' \<Rightarrow> finish ctx x s ls' | NextTurn ls' \<Rightarrow> agent_turns ctx k ls'))
      (completed_explicitly (ac_sid ctx)) (\<lambda>_. True)" for a
      by (cases a) (simp_all add: other outcome hoare_bind [OF one_turn_completes [OF child] turn])
    from hoare_bind [OF any this] show ?case by simp
  }
qed

lemma launch_over_completes:
  assumes "\<And>rq' ms w x. length (rq_sessionId rq) < length (rq_sessionId rq') \<Longrightarrow>
    last_answer (rq_sessionId rq) (aw_trace w) = x \<Longrightarrow>
    last_answer (rq_sessionId rq) (aw_trace (snd (child rq' ms w))) = x"
    and "launch_over env depth child rq ms w = (r, w')"
  shows "completed_explicitly (rq_sessionId rq) r w'"
proof -
  have any: "hoare (\<lambda>_. True) m (\<lambda>_ _. True) (\<lambda>_. True)" for m :: "'x act"
    by (simp add: hoare_def split: sum.splits prod.splits)
  have turns: "hoare (\<lambda>_. True) (agent_turns \<lparr>ac_env = env, ac_request = rq, ac_depth = depth,
      ac_tools = resolve_tools (ae_providers env) (rq_toolNames rq), ac_startedAt = t, ac_child = child\<rparr>
      (max_turns_of env rq) (initial_loop rq ms)) (completed_explicitly (rq_sessionId rq)) (\<lambda>_. True)" for t
  proof -
    define c where "c = \<lparr>ac_env = env, ac_request = rq, ac_depth = depth,
      ac_tools = resolve_tools (ae_providers env) (rq_toolNames rq), ac_startedAt = t, ac_child = child\<rparr>"
    have sid: "ac_sid c = rq_sessionId rq" by (simp add: c_def ac_sid_def)
    have "hoare (\<lambda>_. True) (agent_turns c k ls) (completed_explicitly (ac_sid c)) (\<lambda>_. True)" for k ls
    proof (rule turns_complete)
      fix rq' :: agent_request and v :: agent_world and x
      assume "rq_sessionId rq' \<in> child_sids c" "last_answer (ac_sid c) (aw_trace v) = x"
      then show "last_answer (ac_sid c) (aw_trace (snd (ac_child c rq' (initialMessages rq') v))) = x"
        unfolding sid using assms(1) by (auto simp: child_sids_def sub_sid_def c_def ac_sid_def)
    qed
    then show ?thesis unfolding sid by (simp add: c_def)
  qed
  have "hoare (\<lambda>_. True) (runLoop env depth child rq ms) (completed_explicitly (rq_sessionId rq)) (\<lambda>_. True)"
    unfolding runLoop_def by (rule hoare_bind [OF any hoare_bind [OF any turns]])
  from hoare_apply [OF this, of w] assms(2) show ?thesis
    by (auto simp: launch_over_def completed_event_def completed_explicitly_def runtime_failure_def
        split: prod.splits sum.splits)
qed

text \<open>
  C33. Completion is explicit. A run that is started or resumed ends with the goal completed only if
  the last response of the model in its own session calls the tool that completes the goal, with an
  outcome other than blocked: plain text, the answer of a sub-agent, a hook or a failed call never
  completes it.
\<close>

theorem completion_is_explicit:
  assumes "launch_agent env n rq ms w = (r, w')" and "ar_outcome r = GOAL_COMPLETED"
  shows "\<exists>x. last_answer (rq_sessionId rq) (aw_trace w') = Some x \<and> completes x"
proof -
  have "completed_explicitly (rq_sessionId rq) r w'"
  proof (cases n)
    case 0
    with assms(1) have "launch_over env (ae_maxDepth env) (\<lambda>rq ms w. (runtime_failure env [], w)) rq ms w = (r, w')"
      by simp
    then show ?thesis by (rule launch_over_completes [rotated]) simp
  next
    case (Suc m)
    have "last_answer (rq_sessionId rq) (aw_trace (snd (launch_agent env m rq' ms w))) = x"
      if "length (rq_sessionId rq) < length (rq_sessionId rq')" "last_answer (rq_sessionId rq) (aw_trace w) = x"
      for rq' ms w x
      using that by (intro others.launch_keeps) simp_all
    moreover from Suc assms(1) have "launch_over env (ae_maxDepth env - Suc m) (launch_agent env m) rq ms w = (r, w')"
      by simp
    ultimately show ?thesis by (rule launch_over_completes)
  qed
  with assms(2) show ?thesis by (simp add: completed_explicitly_def)
qed

end
