(* ===== verification/AgentLoopCases.thy ===== *)
theory AgentLoopCases
  imports AgentLoopRuns
begin

section \<open>Concrete runs of the agent loop\<close>

text \<open>
  Runs against a scripted model: the witnesses of the properties of the loop, and two runs in which
  the loop departs from its interface.
\<close>

definition tokens_used :: "rat \<Rightarrow> token_usage" where
  "tokens_used n = \<lparr>inputTokens = n, outputTokens = 0, cacheReadTokens = None, cacheWriteTokens = None\<rparr>"

definition says :: "rat \<Rightarrow> block list \<Rightarrow> model_response" where
  "says n bs = \<lparr>mr_model = ''m'', mr_content = bs, mr_usage = tokens_used n\<rparr>"

text \<open>A model that answers its calls with a list of responses in order.\<close>

definition script :: "model_response list \<Rightarrow> nat \<Rightarrow> model_request \<Rightarrow> stream_event list \<times> stream_end" where
  "script rs n q = ([], case drop n rs of [] \<Rightarrow> NoResponse | r # _ \<Rightarrow> Response r)"

definition scripted :: "model_response list \<Rightarrow> agent_env" where
  "scripted rs = \<lparr>
     ae_providers = [Some [\<lparr>tl_name = ''read'', tl_permissions = [FilesystemRead], tl_policyTarget = None\<rparr>]],
     ae_policy = new_policy_engine [\<lparr>rule_id = ''r'', rule_capability = FilesystemRead, rule_target = None, rule_effect = Ask\<rparr>] None,
     ae_approve = Some (\<lambda>_ _. Inr True), ae_hooks = None,
     ae_stream = script rs,
     ae_complete = (\<lambda>_ _. None), ae_tool = (\<lambda>_ _ _. ToolAnswered ''text'' None),
     ae_sessions = Some (\<lambda>_. True), ae_abort = (\<lambda>_ _. None), ae_clock = (\<lambda>_. 0), ae_cost = (\<lambda>_ _. None),
     ae_number = (\<lambda>_. ''0''), ae_provider = ''p'', ae_defaultModel = ''m'', ae_defaultMaxTurns = None,
     ae_maxTextOnly = None, ae_maxDenials = None, ae_toolTimeoutMs = 9, ae_attempts = 3,
     ae_subagents = True, ae_maxDepth = 1, ae_maxPerRun = 4, ae_triggerTokens = 150000, ae_keepRecent = 6,
     ae_summaryModel = None\<rparr>"

definition fresh_world :: agent_world where
  "fresh_world = \<lparr>aw_polls = 0, aw_clock = 0, aw_streams = 0, aw_hooks = 0, aw_approvals = 0, aw_tools = 0,
     aw_saves = 0, aw_summaries = 0, aw_sessions = [], aw_trace = []\<rparr>"

definition plain_request :: agent_request where
  "plain_request = \<lparr>rq_runId = ''run'', rq_sessionId = ''s'', rq_goal = ''goal'', rq_context = None,
     rq_workspace = None, rq_model = None, rq_systemPrompt = None, rq_toolNames = None, rq_maxTurns = Some 3,
     rq_timeoutMs = None, rq_limits = None\<rparr>"

definition goal_reached :: block where
  "goal_reached = ToolCall ''done'' COMPLETE_GOAL_TOOL (JObj (Host 0) [(''outcome'', JStr ''completed''), (''summary'', JStr ''ok'')])"

lemma scripted_polite: "polite (scripted rs)"
  by (simp add: polite_def scripted_def)

lemma scripted_final: "abort_final (scripted rs)"
  by (simp add: abort_final_def scripted_def)

text \<open>A run that reads a file and completes.\<close>

definition reading :: "model_response list" where
  "reading = [says 10 [ToolCall ''c1'' ''read'' (JObj (Host 0) [(''path'', JStr ''a'')])], says 20 [goal_reached]]"

definition executions :: "agent_world \<Rightarrow> nat" where
  "executions w = length (filter (\<lambda>a. case a of Executed _ _ _ _ \<Rightarrow> True | _ \<Rightarrow> False) (aw_trace w))"

text \<open>The system prompt plays no part in these runs, and is not unfolded in them.\<close>

declare system_of_def [code del]

lemma reading_run:
  "case start_agent (scripted reading) plain_request fresh_world of (r, w) \<Rightarrow>
     ar_outcome r = GOAL_COMPLETED \<and> executions w = 1 \<and> calls_made w = 2 \<and>
     inputTokens (us_tokens (ar_usage r)) = 30"
  by code_simp

lemma fresh_lawful: "authorized env (aw_trace fresh_world)" "asked_paired fresh_world"
  by (simp_all add: fresh_world_def asked_paired_def)

lemma tools_run_with_permission_witness:
  "authorized (scripted reading) (aw_trace (snd (start_agent (scripted reading) plain_request fresh_world))) \<and>
   executions (snd (start_agent (scripted reading) plain_request fresh_world)) = 1"
  using tools_run_with_permission [OF fresh_lawful(1), of "scripted reading" "ae_maxDepth (scripted reading)"
      plain_request "initialMessages plain_request"] reading_run
  by (simp add: start_agent_def case_prod_unfold)

lemma transcripts_answer_every_call_witness:
  "asked_paired (snd (start_agent (scripted reading) plain_request fresh_world)) \<and>
   calls_made (snd (start_agent (scripted reading) plain_request fresh_world)) = 2"
  using transcripts_answer_every_call [OF scripted_final fresh_lawful(2), of reading plain_request] reading_run
  by (simp add: case_prod_unfold)

text \<open>A run that reads twice, compacts its conversation after the second turn, and completes.\<close>

definition long_reading :: agent_env where
  "long_reading = (scripted
     [says 10 [ToolCall ''c1'' ''read'' (JObj (Host 0) [(''path'', JStr ''a'')])],
      says 20 [ToolCall ''c2'' ''read'' (JObj (Host 0) [(''path'', JStr ''b'')])],
      says 30 [goal_reached]])
     \<lparr>ae_triggerTokens := 20, ae_keepRecent := 2, ae_complete := (\<lambda>_ _. Some (says 500 [TextBlock ''so far'']))\<rparr>"

declare summary_prompt_def [code del] transcriptOf_def [code del]

lemma long_reading_run:
  "case start_agent long_reading plain_request fresh_world of (r, w) \<Rightarrow>
     ar_outcome r = GOAL_COMPLETED \<and> calls_made w = 4 \<and> summarized inputTokens w = 500 \<and>
     inputTokens (us_tokens (ar_usage r)) = 60"
  by code_simp

lemma usage_counts_every_turn_witness:
  "consumed inputTokens (snd (start_agent long_reading plain_request fresh_world)) = 560"
proof -
  have polite: "polite long_reading" by (simp add: polite_def long_reading_def scripted_def)
  have count: "inputTokens \<in> set token_counts" by (simp add: token_counts_def)
  have start: "consumed inputTokens fresh_world = 0" "summarized inputTokens fresh_world = 0"
    by (simp_all add: consumed_def summarized_def fresh_world_def)
  show ?thesis
    using usage_counts_every_turn [OF polite surjective_pairing count, of plain_request fresh_world]
      long_reading_run
    by (simp add: case_prod_unfold start)
qed

lemma completion_is_explicit_witness:
  "list_ex (\<lambda>a. case a of Answered s x \<Rightarrow> s = ''s'' \<and> completes x | _ \<Rightarrow> False)
     (aw_trace (snd (start_agent (scripted reading) plain_request fresh_world)))"
proof -
  have found: "last_answer sid tr = Some x \<Longrightarrow> Answered sid x \<in> set tr" for sid tr x
    by (induction sid tr rule: last_answer.induct) (auto split: if_splits)
  obtain r w where run: "start_agent (scripted reading) plain_request fresh_world = (r, w)"
    by (cases "start_agent (scripted reading) plain_request fresh_world")
  with reading_run have "ar_outcome r = GOAL_COMPLETED" by simp
  from completion_is_explicit [OF run [unfolded start_agent_def] this] obtain x where
    "last_answer (rq_sessionId plain_request) (aw_trace w) = Some x" "completes x" by blast
  with found [of "''s''" "aw_trace w" x] run show ?thesis
    by (auto simp: list_ex_iff plain_request_def intro!: bexI)
qed

subsection \<open>Where the loop departs from its interface\<close>

text \<open>A run that asks for human input, and is resumed.\<close>

definition asking_human :: "model_response list" where
  "asking_human =
     [says 10 [ToolCall ''c1'' REQUEST_HUMAN_INPUT_TOOL (JObj (Host 0) [(''reason'', JStr ''why'')])],
      says 10 [goal_reached]]"

text \<open>
  A run that stops for human input cannot be resumed with a well formed transcript. The session
  is saved after the message that calls \<open>request_human_input\<close>, without an answer to that call;
  \<open>resume\<close> sends it to the model as it was saved, with the call unanswered, which a
  provider that pairs tool calls with results refuses, and without the input of the human.
\<close>

theorem resumed_transcript_unanswered:
  "case start_agent (scripted asking_human) plain_request fresh_world of (r, w) \<Rightarrow>
     ar_outcome r = HUMAN_INPUT_REQUIRED \<and> asked_paired w \<and>
     (case resume_agent (scripted asking_human) (rq_sessionId plain_request) plain_request w of
        Inr (r', w') \<Rightarrow> ar_outcome r' = GOAL_COMPLETED \<and> \<not> asked_paired w'
      | Inl _ \<Rightarrow> False)"
  by code_simp

text \<open>A run with a budget of 100 tokens that delegates to two sub-agents.\<close>

definition delegating :: "model_response list" where
  "delegating =
     [says 10 [ToolCall ''c1'' RUN_SUBAGENT_TOOL (JObj (Host 0) [(''goal'', JStr ''a'')]),
               ToolCall ''c2'' RUN_SUBAGENT_TOOL (JObj (Host 0) [(''goal'', JStr ''b'')])],
      says 90 [goal_reached], says 90 [goal_reached], says 10 [goal_reached]]"

definition limited_request :: agent_request where
  "limited_request = plain_request\<lparr>rq_limits := Some (no_limits\<lparr>maxTokens := Some 100\<rparr>)\<rparr>"

text \<open>
  Sub-agents escape the budget of a run. Each starts with the limits of its parent and a budget
  of its own that is empty, and what it uses is added to the reported usage but never to the budget of
  the parent: a run limited to 100 tokens completes its goal with 200.
\<close>

theorem subagents_escape_budget:
  "case start_agent (scripted delegating) limited_request fresh_world of (r, w) \<Rightarrow>
     Option.bind (rq_limits limited_request) maxTokens = Some 100 \<and>
     ar_outcome r = GOAL_COMPLETED \<and>
     inputTokens (us_tokens (ar_usage r)) = 200 \<and> us_subagents (ar_usage r) = 2"
  by code_simp

end
