(* ===== verification/NodeExecutors.thy ===== *)
theory NodeExecutors
  imports GraphEngine Definitions WorkItems AgentLoop
begin

section \<open>The executors of the nodes\<close>

text \<open>
  \<open>packages/orchestrator/src/graph/node-executors.ts\<close> with the profiles and gate sets of
  \<open>packages/core/src\<close>: what the graph engine asks for when it executes a node. The
  agents, the commands, the actions, the child runs, the experiments, the clock and the ids are
  functions of how often they were called; what an executor does is a trace, the latest act first.
\<close>

subsection \<open>Profiles\<close>

record model_selection =
  sel_executor :: string
  sel_model :: "string option"

datatype fallback_trigger = OutageOnly | AnyFailure

record fallback_policy =
  fb_chain :: "model_selection list"
  fb_trigger :: fallback_trigger

record profile_fragment =
  fr_primary :: "model_selection option"
  fr_fallback :: "fallback_policy option"
  fr_systemPrompt :: "string option"
  fr_toolNames :: "string list option"
  fr_permissions :: "permission_rule list option"
  fr_budget :: "budget_limits option"
  fr_traversal :: "fields option"
  fr_attachments :: "fields option"
  fr_maxTurns :: "rat option"
  fr_timeoutMs :: "int option"

record agent_profile =
  ap_name :: string
  ap_compose :: "string list option"
  ap_fragment :: profile_fragment

record resolved_profile =
  rp_name :: string
  rp_primary :: model_selection
  rp_fallback :: "fallback_policy option"
  rp_systemPrompt :: "string option"
  rp_toolNames :: "string list option"
  rp_permissions :: "permission_rule list"
  rp_budget :: "budget_limits option"
  rp_traversal :: "fields option"
  rp_attachments :: "fields option"
  rp_maxTurns :: "rat option"
  rp_timeoutMs :: "int option"
  rp_composedFrom :: "string list"

record gate_remediation =
  gr_goal :: string
  gr_maxAttempts :: rat

datatype gate_kind = DeterministicGate | AgentGate | HumanGate

record gate =
  gt_id :: string
  gt_kind :: gate_kind
  gt_check :: string
  gt_remediation :: "gate_remediation option"
  gt_required :: bool

record gate_set =
  gs_name :: string
  gs_gates :: "gate list"
  gs_extends :: "string list option"

text \<open>
  What is thrown: an error with a category (\<open>internal\<close> for an exception of another class), an
  expression error, or the gate that waits for a human.
\<close>

datatype exec_error = Thrown error_category string | ScopeThrown scope_error | HumanGatePending gate

fun exec_error_message :: "exec_error \<Rightarrow> string" where
  "exec_error_message (Thrown _ m) = m"
| "exec_error_message (ScopeThrown e) = scope_error_message e"
| "exec_error_message (HumanGatePending g) = ''human gate pending: '' @ gt_id g"

definition override :: "'a option \<Rightarrow> 'a option \<Rightarrow> 'a option" where
  "override old new = (case new of None \<Rightarrow> old | Some x \<Rightarrow> Some x)"

text \<open>The loop of \<open>composeProfile\<close>: a later fragment overrides, prompts and permissions add up.\<close>

definition add_fragment :: "profile_fragment \<Rightarrow> profile_fragment \<Rightarrow> profile_fragment" where
  "add_fragment f acc = \<lparr>
     fr_primary = override (fr_primary acc) (fr_primary f),
     fr_fallback = override (fr_fallback acc) (fr_fallback f),
     fr_systemPrompt = (case fr_systemPrompt f of
        None \<Rightarrow> fr_systemPrompt acc
      | Some p \<Rightarrow> Some (case fr_systemPrompt acc of
          None \<Rightarrow> p | Some q \<Rightarrow> if q = [] then p else q @ [CHR 0x0A, CHR 0x0A] @ p)),
     fr_toolNames = (case fr_toolNames f of
        None \<Rightarrow> fr_toolNames acc
      | Some ts \<Rightarrow> Some (dedup ((case fr_toolNames acc of None \<Rightarrow> [] | Some us \<Rightarrow> us) @ ts))),
     fr_permissions = Some ((case fr_permissions acc of None \<Rightarrow> [] | Some ps \<Rightarrow> ps) @
        (case fr_permissions f of None \<Rightarrow> [] | Some ps \<Rightarrow> ps)),
     fr_budget = override (fr_budget acc) (fr_budget f),
     fr_traversal = override (fr_traversal acc) (fr_traversal f),
     fr_attachments = override (fr_attachments acc) (fr_attachments f),
     fr_maxTurns = override (fr_maxTurns acc) (fr_maxTurns f),
     fr_timeoutMs = override (fr_timeoutMs acc) (fr_timeoutMs f)\<rparr>"

definition no_fragment :: profile_fragment where
  "no_fragment = \<lparr>fr_primary = None, fr_fallback = None, fr_systemPrompt = None, fr_toolNames = None,
     fr_permissions = None, fr_budget = None, fr_traversal = None, fr_attachments = None,
     fr_maxTurns = None, fr_timeoutMs = None\<rparr>"

definition composeProfile ::
  "agent_profile \<Rightarrow> profile_fragment list \<Rightarrow> string list \<Rightarrow> exec_error + resolved_profile" where
  "composeProfile d resolved names =
     (let f = fold add_fragment (resolved @ [ap_fragment d]) no_fragment in
      case fr_primary f of
        None \<Rightarrow> Inl (Thrown CatInternal
          (''profile '' @ single_quoted (ap_name d) @ '' resolves to no primary model selection''))
      | Some p \<Rightarrow> Inr
          \<lparr>rp_name = ap_name d, rp_primary = p, rp_fallback = fr_fallback f,
           rp_systemPrompt = fr_systemPrompt f, rp_toolNames = fr_toolNames f,
           rp_permissions = (case fr_permissions f of None \<Rightarrow> [] | Some ps \<Rightarrow> ps),
           rp_budget = fr_budget f, rp_traversal = fr_traversal f, rp_attachments = fr_attachments f,
           rp_maxTurns = fr_maxTurns f, rp_timeoutMs = fr_timeoutMs f,
           rp_composedFrom = names @ [ap_name d]\<rparr>)"

definition resolvedToFragment :: "resolved_profile \<Rightarrow> profile_fragment" where
  "resolvedToFragment p = \<lparr>
     fr_primary = Some (rp_primary p), fr_fallback = rp_fallback p, fr_systemPrompt = rp_systemPrompt p,
     fr_toolNames = rp_toolNames p, fr_permissions = Some (rp_permissions p), fr_budget = rp_budget p,
     fr_traversal = rp_traversal p, fr_attachments = rp_attachments p, fr_maxTurns = rp_maxTurns p,
     fr_timeoutMs = rp_timeoutMs p\<rparr>"

fun mapE :: "('a \<Rightarrow> 'e + 'b) \<Rightarrow> 'a list \<Rightarrow> 'e + 'b list" where
  "mapE f [] = Inr []"
| "mapE f (x # xs) = bindE (f x) (\<lambda>y. bindE (mapE f xs) (\<lambda>ys. Inr (y # ys)))"

lemma mapE_cong [fundef_cong]: "xs = ys \<Longrightarrow> (\<And>x. x \<in> set ys \<Longrightarrow> f x = g x) \<Longrightarrow> mapE f xs = mapE g ys"
  by (induction xs arbitrary: ys) auto

text \<open>
  The recursion of \<open>resolveProfileFromSnapshot\<close> over the fragments takes the depth of the stack
  as its fuel; a stack that overflows throws.
\<close>

fun resolve_profile ::
  "(fields \<Rightarrow> agent_profile) \<Rightarrow> resolved_snapshot \<Rightarrow> nat \<Rightarrow> string \<Rightarrow> exec_error + resolved_profile" where
  "resolve_profile docs snap 0 name = Inl (Thrown CatInternal ''Maximum call stack size exceeded'')"
| "resolve_profile docs snap (Suc n) name =
     (case findInSnapshot snap DkAgentProfile name None of
        None \<Rightarrow> Inl (Thrown CatInvalidInput (''agent profile '' @ single_quoted name @ '' not in snapshot''))
      | Some d \<Rightarrow>
          (let p = docs (dv_document d); names = (case ap_compose p of None \<Rightarrow> [] | Some ns \<Rightarrow> ns) in
           bindE (mapE (resolve_profile docs snap n) names) (\<lambda>rs.
             composeProfile p (map resolvedToFragment rs) names)))"

subsection \<open>The surroundings\<close>

record executor_request =
  er_sessionId :: string
  er_goal :: string
  er_context :: string
  er_role :: "string option"
  er_model :: "string option"
  er_systemPrompt :: "string option"
  er_toolNames :: "string list option"
  er_maxTurns :: rat
  er_timeoutMs :: "int option"
  er_limits :: "budget_limits option"
  er_profile :: string

record command_request =
  cr_command :: string
  cr_cwd :: string
  cr_env :: "string record_of option"
  cr_timeoutMs :: "int option"

record child_launch =
  cs_nodeId :: string
  cs_branchKey :: string
  cs_workflowName :: string
  cs_workflowVersion :: nat
  cs_variables :: fields

record experiment_step =
  xs_nodeId :: string
  xs_definition :: definition_version
  xs_rubric :: definition_version
  xs_hypothesis :: string
  xs_satisfaction :: "wait_satisfaction option"

text \<open>What an executor does, with the answer it got.\<close>

datatype exec_act =
  AgentRan string executor_request "exec_error + (agent_outcome \<times> string)"
| CommandRan command_request "exec_error + (int \<times> string)"
| ActionRan string fields "exec_error + jsval"
| ChildStarted child_launch "exec_error + string"
| ExperimentStepped experiment_step "exec_error + node_yield"

record exec_deps =
  xd_item :: work_item
  xd_snapshot :: resolved_snapshot
  xd_defaultProfile :: "definition_ref option"
  xd_hasExecutor :: "string \<Rightarrow> bool"
  xd_agent :: "nat \<Rightarrow> string \<Rightarrow> executor_request \<Rightarrow> exec_error + (agent_outcome \<times> string)"
  xd_command :: "nat \<Rightarrow> command_request \<Rightarrow> exec_error + (int \<times> string)"
  xd_action :: "string \<Rightarrow> (nat \<Rightarrow> fields \<Rightarrow> exec_error + jsval) option"
  xd_child :: "nat \<Rightarrow> child_launch \<Rightarrow> exec_error + string"
  xd_experiment :: "(nat \<Rightarrow> experiment_step \<Rightarrow> exec_error + node_yield) option"
  xd_workspace :: "string option"
  xd_agentContext :: string
  xd_clock :: "nat \<Rightarrow> time"
  xd_session :: "nat \<Rightarrow> string"
  xd_profile_doc :: "fields \<Rightarrow> agent_profile"
  xd_gate_doc :: "fields \<Rightarrow> gate_set"
  xd_number :: "rat \<Rightarrow> string"
  xd_json :: "string \<Rightarrow> jsval option"
  xd_iso :: "time \<Rightarrow> string"
  xd_stack :: nat

record exec_world =
  xw_acts :: nat
  xw_clock :: nat
  xw_sessions :: nat
  xw_objects :: nat
  xw_trace :: "exec_act list"

type_synonym 'a exec = "(exec_world, exec_error, 'a) op"

text \<open>One call of the outside: its answer, on the record.\<close>

definition asking :: "(nat \<Rightarrow> exec_error + 'a) \<Rightarrow> ((exec_error + 'a) \<Rightarrow> exec_act) \<Rightarrow> (exec_error + 'a) exec" where
  "asking f act = (\<lambda>w. (Inr (f (xw_acts w)),
     w\<lparr>xw_acts := xw_acts w + 1, xw_trace := act (f (xw_acts w)) # xw_trace w\<rparr>))"

definition exec_clock :: "exec_deps \<Rightarrow> time exec" where
  "exec_clock deps = (\<lambda>w. (Inr (xd_clock deps (xw_clock w)), w\<lparr>xw_clock := xw_clock w + 1\<rparr>))"

definition new_session :: "exec_deps \<Rightarrow> string exec" where
  "new_session deps = (\<lambda>w. (Inr (xd_session deps (xw_sessions w)), w\<lparr>xw_sessions := xw_sessions w + 1\<rparr>))"

text \<open>The label of the objects that one execution of a node allocates.\<close>

definition fresh_label :: "nat exec" where
  "fresh_label = (\<lambda>w. (Inr (xw_objects w), w\<lparr>xw_objects := xw_objects w + 1\<rparr>))"

subsection \<open>Texts and structured outputs\<close>

text \<open>\<open>String(v)\<close>.\<close>

fun js_string :: "(rat \<Rightarrow> string) \<Rightarrow> jsval \<Rightarrow> string" where
  "js_string number JUndef = ''undefined''"
| "js_string number JNull = ''null''"
| "js_string number (JBool b) = (if b then ''true'' else ''false'')"
| "js_string number (JNum n) = number n"
| "js_string number (JStr s) = s"
| "js_string number (JArr _ vs) = join_with '','' (map (\<lambda>v. if v = JUndef \<or> v = JNull then [] else js_string number v) vs)"
| "js_string number (JObj _ _) = ''[object Object]''"
| "js_string number (JFun s) = s"

text \<open>What the first fenced block holds.\<close>

definition fence :: string where "fence = replicate 3 (CHR 0x60)"

definition fenced_text :: "string \<Rightarrow> string option" where
  "fenced_text s =
     (case str_index fence s of
        None \<Rightarrow> None
      | Some i \<Rightarrow>
          (let rest = drop (i + 3) s;
               body = dropWhile is_space (if starts_with rest ''json'' then drop 4 rest else rest) in
           map_option (\<lambda>k. take k body) (str_index fence body)))"

definition braced :: "string \<Rightarrow> string option" where
  "braced candidate =
     (let t = trim candidate in
      case (str_index [CHR 0x7B] t, str_last_index [CHR 0x7D] t) of
        (Some a, Some b) \<Rightarrow> if b \<le> a then None else Some (slice a (b + 1) t)
      | _ \<Rightarrow> None)"

definition json_object :: "(string \<Rightarrow> jsval option) \<Rightarrow> string \<Rightarrow> fields option" where
  "json_object parse candidate =
     (case Option.bind (braced candidate) parse of Some (JObj _ fs) \<Rightarrow> Some fs | _ \<Rightarrow> None)"

definition parseStructuredOutputs :: "(string \<Rightarrow> jsval option) \<Rightarrow> string \<Rightarrow> fields option" where
  "parseStructuredOutputs parse summary =
     (case Option.bind (fenced_text summary) (json_object parse) of
        Some fs \<Rightarrow> Some fs
      | None \<Rightarrow> json_object parse summary)"

subsection \<open>Running an agent by its profile\<close>

record agent_options =
  ao_context :: "string option"
  ao_toolNames :: "string list option"
  ao_maxTurns :: "rat option"
  ao_timeoutMs :: "int option"
  ao_role :: "string option"

definition role_only :: "string \<Rightarrow> agent_options" where
  "role_only r = \<lparr>ao_context = None, ao_toolNames = None, ao_maxTurns = None, ao_timeoutMs = None,
     ao_role = Some r\<rparr>"

definition agent_request_for ::
  "exec_deps \<Rightarrow> resolved_profile \<Rightarrow> string \<Rightarrow> agent_options \<Rightarrow> model_selection \<Rightarrow> string \<Rightarrow> executor_request" where
  "agent_request_for deps p goal opts sel sid = \<lparr>
     er_sessionId = sid, er_goal = goal,
     er_context = (case ao_context opts of None \<Rightarrow> xd_agentContext deps | Some c \<Rightarrow> c),
     er_role = ao_role opts, er_model = sel_model sel, er_systemPrompt = rp_systemPrompt p,
     er_toolNames = override (rp_toolNames p) (ao_toolNames opts),
     er_maxTurns = (case override (rp_maxTurns p) (ao_maxTurns opts) of None \<Rightarrow> 50 | Some n \<Rightarrow> n),
     er_timeoutMs = override (rp_timeoutMs p) (ao_timeoutMs opts),
     er_limits = rp_budget p, er_profile = rp_name p\<rparr>"

definition trigger_of :: "resolved_profile \<Rightarrow> fallback_trigger" where
  "trigger_of p = (case rp_fallback p of None \<Rightarrow> OutageOnly | Some f \<Rightarrow> fb_trigger f)"

definition is_outage :: "exec_error \<Rightarrow> bool" where
  "is_outage e = (case e of Thrown c _ \<Rightarrow> c = CatProviderOutage \<or> c = CatRateLimit | _ \<Rightarrow> False)"

text \<open>Whether an answer of an executor that is not the last one engages the fallback, and with which error.\<close>

definition engages :: "fallback_trigger \<Rightarrow> exec_error + (agent_outcome \<times> string) \<Rightarrow> exec_error option" where
  "engages tr answer =
     (case answer of
        Inr (out, summary) \<Rightarrow>
          if out = FATAL_FAILURE \<and> tr = AnyFailure then Some (Thrown CatInternal summary) else None
      | Inl e \<Rightarrow> if tr = AnyFailure \<or> is_outage e then Some e else None)"

fun try_selections ::
  "exec_deps \<Rightarrow> resolved_profile \<Rightarrow> string \<Rightarrow> agent_options \<Rightarrow> exec_error option \<Rightarrow> model_selection list \<Rightarrow>
   (agent_outcome \<times> string) exec" where
  "try_selections deps p goal opts lastError [] =
     throwS (case lastError of
       None \<Rightarrow> Thrown CatProviderOutage ''all executors in the fallback chain failed'' | Some e \<Rightarrow> e)"
| "try_selections deps p goal opts lastError (sel # rest) =
     (if \<not> xd_hasExecutor deps (sel_executor sel) then
        try_selections deps p goal opts
          (Some (Thrown CatInvalidInput (''unknown executor '' @ single_quoted (sel_executor sel)))) rest
      else
        bindS (new_session deps) (\<lambda>sid.
        let q = agent_request_for deps p goal opts sel sid in
        bindS (asking (\<lambda>n. xd_agent deps n (sel_executor sel) q) (AgentRan (sel_executor sel) q)) (\<lambda>answer.
          case (if rest = [] then None else engages (trigger_of p) answer) of
            Some e \<Rightarrow> try_selections deps p goal opts (Some e) rest
          | None \<Rightarrow> liftS answer)))"

definition selections :: "resolved_profile \<Rightarrow> model_selection list" where
  "selections p = rp_primary p # (case rp_fallback p of None \<Rightarrow> [] | Some f \<Rightarrow> fb_chain f)"

definition runAgent ::
  "exec_deps \<Rightarrow> string option \<Rightarrow> string \<Rightarrow> agent_options \<Rightarrow> (agent_outcome \<times> string) exec" where
  "runAgent deps profileName goal opts =
     (case override (map_option ref_name (xd_defaultProfile deps)) profileName of
        None \<Rightarrow> throwS (Thrown CatInvalidInput
          ''agent node has no profile and the workflow declares no default profile'')
      | Some name \<Rightarrow>
          if name = [] then throwS (Thrown CatInvalidInput
            ''agent node has no profile and the workflow declares no default profile'')
          else bindS (liftS (resolve_profile (xd_profile_doc deps) (xd_snapshot deps) (xd_stack deps) name)) (\<lambda>p.
            try_selections deps p goal opts None (selections p)))"

subsection \<open>What an executor answers\<close>

definition newline :: string where "newline = [CHR 0x0A]"

definition succeeded_with :: "nat \<Rightarrow> fields \<Rightarrow> node_yield" where
  "succeeded_with k fs = YResult Succeeded (Some (JObj (Built k ''outputs'') fs)) None"

definition failed_with :: "nat \<Rightarrow> fields \<Rightarrow> string \<Rightarrow> node_yield" where
  "failed_with k fs e = YResult Failed_status (Some (JObj (Built k ''outputs'') fs)) (Some e)"

definition waits_for :: "wait_kind \<Rightarrow> fields \<Rightarrow> wait_spec" where
  "waits_for kind ps = \<lparr>ws_kind = kind, ws_parameters = ps, ws_timeoutMs = None\<rparr>"

definition asks_human :: "human_input_type \<Rightarrow> string \<Rightarrow> human_input_request_spec" where
  "asks_human type prompt = \<lparr>hr_type = type, hr_prompt = prompt, hr_surface = SurfaceBoth,
     hr_choices = None, hr_secretName = None, hr_timeoutMs = None\<rparr>"

definition given_input :: "execution_context \<Rightarrow> human_input option" where
  "given_input ctx = Option.bind (ctx_satisfaction ctx) sat_input"

definition given_event :: "execution_context \<Rightarrow> fields option" where
  "given_event ctx = Option.bind (ctx_satisfaction ctx) sat_event"

text \<open>\<open>runScope\<close>: of a result only the status and the outputs.\<close>

definition run_result :: "nat \<Rightarrow> string \<times> node_result \<Rightarrow> string \<times> jsval" where
  "run_result k p = (case p of (i, r) \<Rightarrow>
     (i, JObj (Built k (''results.'' @ i))
       [(''status'', JStr (status_name (res_status r))), (''outputs'', res_outputs r)]))"

definition runScope :: "nat \<Rightarrow> execution_context \<Rightarrow> jsval" where
  "runScope k ctx = JObj (Built k ''scope'')
     [(''vars'', JObj (Built k ''vars'') (ctx_variables ctx)),
      (''domain'', JObj (Built k ''domain'') (dom_data (ctx_domain ctx))),
      (''results'', JObj (Built k ''results'') (map (run_result k) (ctx_nodeResults ctx)))]"

definition scope_value :: "string \<Rightarrow> jsval \<Rightarrow> exec_error + jsval" where
  "scope_value source scope = map_sum ScopeThrown id (evaluateScopeValue source scope)"

subsection \<open>Agents, commands and actions\<close>

definition agent_goal :: "exec_deps \<Rightarrow> agent_node_config \<Rightarrow> string" where
  "agent_goal deps c =
     (case an_outputSchema c of
        None \<Rightarrow> an_goal c
      | Some schema \<Rightarrow> an_goal c @ newline @ newline @
          ''When complete, your final report MUST be a single JSON object conforming to this schema (no extra prose):'' @
          newline @ (case json (xd_number deps) (JObj (Host 0) schema) of None \<Rightarrow> ''undefined'' | Some t \<Rightarrow> t))"

definition node_agent_context :: "exec_deps \<Rightarrow> execution_context \<Rightarrow> string" where
  "node_agent_context deps ctx =
     (case given_input ctx of
        None \<Rightarrow> xd_agentContext deps
      | Some i \<Rightarrow> xd_agentContext deps @ newline @ newline @
          ''--- Human response to your earlier question ---'' @ newline @ js_string (xd_number deps) (hi_value i))"

definition agent_yield ::
  "exec_deps \<Rightarrow> nat \<Rightarrow> string \<Rightarrow> agent_node_config \<Rightarrow> agent_outcome \<times> string \<Rightarrow> node_yield" where
  "agent_yield deps k i c r = (case r of (out, summary) \<Rightarrow>
     let report = [(''summary'', JStr summary), (''outcome'', JStr (outcome_text out))] in
     if out = HUMAN_INPUT_REQUIRED then
       YWait (waits_for WHumanInput [(''nodeId'', JStr i)]) (Some (asks_human HFreeForm summary))
     else if out \<noteq> GOAL_COMPLETED then
       failed_with k report (outcome_text out @ '': '' @ take 300 summary)
     else case an_outputSchema c of
       None \<Rightarrow> succeeded_with k report
     | Some _ \<Rightarrow>
         (case parseStructuredOutputs (xd_json deps) summary of
            None \<Rightarrow> failed_with k report ''agent did not produce the required structured output''
          | Some fs \<Rightarrow> succeeded_with k (spread fs [(''summary'', JStr summary)])))"

definition agent_executor ::
  "exec_deps \<Rightarrow> nat \<Rightarrow> string \<Rightarrow> agent_node_config \<Rightarrow> execution_context \<Rightarrow> node_yield exec" where
  "agent_executor deps k i c ctx =
     bindS (runAgent deps (map_option ref_name (an_profile c)) (agent_goal deps c)
       \<lparr>ao_context = Some (node_agent_context deps ctx), ao_toolNames = an_toolNames c,
        ao_maxTurns = an_maxTurns c, ao_timeoutMs = an_timeoutMs c, ao_role = Some i\<rparr>) (\<lambda>r.
     returnS (agent_yield deps k i c r))"

definition workspace_path :: "exec_deps \<Rightarrow> string option" where
  "workspace_path deps = (case xd_workspace deps of Some p \<Rightarrow> if p = [] then None else Some p | None \<Rightarrow> None)"

definition run_command :: "exec_deps \<Rightarrow> command_request \<Rightarrow> (int \<times> string) exec" where
  "run_command deps q = bindS (asking (\<lambda>n. xd_command deps n q) (CommandRan q)) liftS"

definition command_yield :: "nat \<Rightarrow> int \<times> string \<Rightarrow> node_yield" where
  "command_yield k r = (case r of (code, output) \<Rightarrow>
     let outputs = [(''exitCode'', JNum (of_int code)), (''output'', JStr output)] in
     if code = 0 then succeeded_with k outputs
     else failed_with k outputs (''command exited with code '' @ show_int code))"

definition command_executor :: "exec_deps \<Rightarrow> nat \<Rightarrow> command_node_config \<Rightarrow> node_yield exec" where
  "command_executor deps k c =
     (case workspace_path deps of
        None \<Rightarrow> returnS (failed_yield ''command node requires a workspace'')
      | Some cwd \<Rightarrow>
          bindS (run_command deps
            \<lparr>cr_command = cn_command c,
             cr_cwd = (case cn_cwd c of None \<Rightarrow> cwd | Some d \<Rightarrow> if d = [] then cwd else cwd @ ''/'' @ d),
             cr_env = cn_env c, cr_timeoutMs = cn_timeoutMs c\<rparr>) (\<lambda>r.
          returnS (command_yield k r)))"

definition expr_prefix :: string where "expr_prefix = ''$expr:''"

definition set_argument :: "jsval \<Rightarrow> string \<times> jsval \<Rightarrow> fields \<Rightarrow> exec_error + fields" where
  "set_argument scope entry args = (case entry of (key, v) \<Rightarrow>
     bindE (case v of
              JStr s \<Rightarrow> if starts_with s expr_prefix then scope_value (drop (length expr_prefix) s) scope else Inr v
            | _ \<Rightarrow> Inr v) (\<lambda>x.
     Inr (AList.update key x args)))"

definition action_yield :: "exec_error + jsval \<Rightarrow> node_yield" where
  "action_yield r = (case r of
     Inr outputs \<Rightarrow> YResult Succeeded (Some outputs) None
   | Inl e \<Rightarrow> failed_yield (exec_error_message e))"

definition action_executor ::
  "exec_deps \<Rightarrow> nat \<Rightarrow> action_node_config \<Rightarrow> execution_context \<Rightarrow> node_yield exec" where
  "action_executor deps k c ctx =
     (if ac_action c = ''workflow.noop'' then returnS (succeeded_with k [])
      else case xd_action deps (ac_action c) of
        None \<Rightarrow> returnS (failed_yield (''unknown workflow action: '' @ ac_action c))
      | Some implementation \<Rightarrow>
          bindS (liftS (foldE (set_argument (runScope k ctx)) (case ac_with c of None \<Rightarrow> [] | Some fs \<Rightarrow> fs) [])) (\<lambda>args.
          bindS (asking (\<lambda>n. implementation n args) (ActionRan (ac_action c) args)) (\<lambda>r.
          returnS (action_yield r))))"

definition human_input_executor :: "nat \<Rightarrow> string \<Rightarrow> human_input_request_spec \<Rightarrow> execution_context \<Rightarrow> node_yield" where
  "human_input_executor k i request ctx =
     (case given_input ctx of
        Some input \<Rightarrow> succeeded_with k [(''value'', hi_value input)]
      | None \<Rightarrow> YWait (waits_for (if hr_type request = HApproval then WApproval else WHumanInput)
                  [(''nodeId'', JStr i)]) (Some request))"

definition wait_executor :: "nat \<Rightarrow> wait_spec \<Rightarrow> execution_context \<Rightarrow> node_yield" where
  "wait_executor k condition ctx =
     (case ctx_satisfaction ctx of
        Some s \<Rightarrow> succeeded_with k (case sat_event s of None \<Rightarrow> [] | Some fs \<Rightarrow> fs)
      | None \<Rightarrow> YWait condition None)"

subsection \<open>Child runs\<close>

text \<open>\<open>xs.join(', ')\<close>.\<close>

definition array_join :: "(rat \<Rightarrow> string) \<Rightarrow> string \<Rightarrow> jsval list \<Rightarrow> string" where
  "array_join number sep vs =
     join_with sep (map (\<lambda>v. if v = JUndef \<or> v = JNull then [] else js_string number v) vs)"

definition childCompletionResult :: "(rat \<Rightarrow> string) \<Rightarrow> nat \<Rightarrow> fields \<Rightarrow> node_yield" where
  "childCompletionResult number k event =
     (if field_of event ''succeeded'' = JBool True then succeeded_with k event
      else failed_with k event (''child runs failed: '' @
        (case field_of event ''failedBranches'' of
           JArr _ vs \<Rightarrow> array_join number '', '' vs | _ \<Rightarrow> ''unknown'')))"

definition launch_child :: "exec_deps \<Rightarrow> child_launch \<Rightarrow> string exec" where
  "launch_child deps q = bindS (asking (\<lambda>n. xd_child deps n q) (ChildStarted q)) liftS"

definition awaits_children :: "nat \<Rightarrow> string list \<Rightarrow> jsval \<Rightarrow> node_yield" where
  "awaits_children k ids join = YWait (waits_for WDependency
     [(''childRunIds'', JArr (Built k ''childRunIds'') (map JStr ids)), (''join'', join)]) None"

definition set_input :: "jsval \<Rightarrow> string \<times> string \<Rightarrow> fields \<Rightarrow> exec_error + fields" where
  "set_input scope entry vs = (case entry of (key, source) \<Rightarrow>
     bindE (scope_value source scope) (\<lambda>x. Inr (AList.update key x vs)))"

definition subworkflow_executor ::
  "exec_deps \<Rightarrow> nat \<Rightarrow> string \<Rightarrow> subworkflow_node_config \<Rightarrow> execution_context \<Rightarrow> node_yield exec" where
  "subworkflow_executor deps k i c ctx =
     (case given_event ctx of
        Some event \<Rightarrow> returnS (childCompletionResult (xd_number deps) k event)
      | None \<Rightarrow>
          (case findInSnapshot (xd_snapshot deps) DkWorkflow (ref_name (sn_workflow c)) (ref_version (sn_workflow c)) of
             None \<Rightarrow> returnS (failed_yield
               (''sub-workflow '' @ single_quoted (ref_name (sn_workflow c)) @ '' not in snapshot''))
           | Some d \<Rightarrow>
               bindS (liftS (foldE (set_input (runScope k ctx)) (case sn_inputs c of None \<Rightarrow> [] | Some es \<Rightarrow> es) [])) (\<lambda>vs.
               bindS (launch_child deps \<lparr>cs_nodeId = i, cs_branchKey = ''main'', cs_workflowName = dv_name d,
                 cs_workflowVersion = dv_version d, cs_variables = vs\<rparr>) (\<lambda>child.
               returnS (awaits_children k [child] (JObj (Built k ''join'') [(''mode'', JStr ''all'')]))))))"

definition FANOUT_HARD_CEILING :: rat where "FANOUT_HARD_CEILING = 1000"

definition join_mode_text :: "join_mode \<Rightarrow> string" where
  "join_mode_text m = (case m of JoinAll \<Rightarrow> ''all'' | JoinAny \<Rightarrow> ''any'' | JoinMin \<Rightarrow> ''min'')"

definition join_value :: "nat \<Rightarrow> join_spec \<Rightarrow> jsval" where
  "join_value k j = JObj (Built k ''join'')
     ([(''mode'', JStr (join_mode_text (join_mode j)))] @
      (case join_n j of None \<Rightarrow> [] | Some n \<Rightarrow> [(''n'', JNum n)]) @
      (case join_required j of None \<Rightarrow> []
       | Some rs \<Rightarrow> [(''required'', JArr (Built k ''join.required'') (map JStr rs))]))"

definition branch_start :: "string \<Rightarrow> definition_version \<Rightarrow> nat \<Rightarrow> jsval \<Rightarrow> child_launch" where
  "branch_start i d index item = \<lparr>cs_nodeId = i, cs_branchKey = show_nat index, cs_workflowName = dv_name d,
     cs_workflowVersion = dv_version d,
     cs_variables = [(''item'', item), (''branch'', JNum (of_nat index))]\<rparr>"

fun start_branches ::
  "exec_deps \<Rightarrow> string \<Rightarrow> definition_version \<Rightarrow> nat \<Rightarrow> jsval list \<Rightarrow> string list exec" where
  "start_branches deps i d index [] = returnS []"
| "start_branches deps i d index (item # items) =
     bindS (launch_child deps (branch_start i d index item)) (\<lambda>child.
     bindS (start_branches deps i d (index + 1) items) (\<lambda>children.
     returnS (child # children)))"

definition fan_out_limit :: "fan_out_node_config \<Rightarrow> rat" where
  "fan_out_limit c = min (case fo_maxConcurrency c of None \<Rightarrow> FANOUT_HARD_CEILING | Some m \<Rightarrow> m) FANOUT_HARD_CEILING"

definition fan_out_over ::
  "exec_deps \<Rightarrow> nat \<Rightarrow> string \<Rightarrow> fan_out_node_config \<Rightarrow> jsval \<Rightarrow> node_yield exec" where
  "fan_out_over deps k i c v =
     (case v of
        JArr _ items \<Rightarrow>
          if items = [] then returnS (succeeded_with k [(''branches'', JArr (Built k ''branches'') [])])
          else if fan_out_limit c < of_nat (length items) then
            returnS (failed_yield (''fan-out over '' @ show_nat (length items) @
              '' items exceeds the limit of '' @ xd_number deps (fan_out_limit c)))
          else
            (case findInSnapshot (xd_snapshot deps) DkWorkflow (ref_name (fo_workflow c)) (ref_version (fo_workflow c)) of
               None \<Rightarrow> returnS (failed_yield
                 (''fan-out workflow '' @ single_quoted (ref_name (fo_workflow c)) @ '' not in snapshot''))
             | Some d \<Rightarrow>
                 bindS (start_branches deps i d 0 items) (\<lambda>children.
                 returnS (awaits_children k children (join_value k (fo_join c)))))
      | _ \<Rightarrow> returnS (failed_yield
          (''fan-out items expression did not produce a list: '' @ fo_items c)))"

definition fan_out_executor ::
  "exec_deps \<Rightarrow> nat \<Rightarrow> string \<Rightarrow> fan_out_node_config \<Rightarrow> execution_context \<Rightarrow> node_yield exec" where
  "fan_out_executor deps k i c ctx =
     (case given_event ctx of
        Some event \<Rightarrow> returnS (childCompletionResult (xd_number deps) k event)
      | None \<Rightarrow> bindS (liftS (scope_value (fo_items c) (runScope k ctx))) (fan_out_over deps k i c))"

subsection \<open>Experiments\<close>

definition hypothesis_of :: "exec_deps \<Rightarrow> execution_context \<Rightarrow> string" where
  "hypothesis_of deps ctx =
     (case field_of (dom_data (ctx_domain ctx)) ''hypothesis'' of
        JStr s \<Rightarrow> s
      | _ \<Rightarrow> (case field_of (ctx_variables ctx) ''hypothesis'' of JStr s \<Rightarrow> s | _ \<Rightarrow> wi_title (xd_item deps)))"

definition rubric_name :: "experiment_node_config \<Rightarrow> fields \<Rightarrow> jsval" where
  "rubric_name c doc = (case en_rubric c of Some r \<Rightarrow> JStr (ref_name r) | None \<Rightarrow> field_of doc ''rubric'')"

definition find_rubric :: "resolved_snapshot \<Rightarrow> jsval \<Rightarrow> definition_version option" where
  "find_rubric snap name = (case name of JStr n \<Rightarrow> findInSnapshot snap DkRubric n None | _ \<Rightarrow> None)"

definition experiment_executor ::
  "exec_deps \<Rightarrow> string \<Rightarrow> experiment_node_config \<Rightarrow> execution_context \<Rightarrow> node_yield exec" where
  "experiment_executor deps i c ctx =
     (case xd_experiment deps of
        None \<Rightarrow> returnS (failed_yield ''experiment support is not configured'')
      | Some step \<Rightarrow>
          (case findInSnapshot (xd_snapshot deps) DkExperiment (ref_name (en_experiment c)) (ref_version (en_experiment c)) of
             None \<Rightarrow> returnS (failed_yield
               (''experiment '' @ single_quoted (ref_name (en_experiment c)) @ '' not in snapshot''))
           | Some d \<Rightarrow>
               (case find_rubric (xd_snapshot deps) (rubric_name c (dv_document d)) of
                  None \<Rightarrow> returnS (failed_yield (''rubric '' @
                    single_quoted (js_string (xd_number deps) (rubric_name c (dv_document d))) @ '' not in snapshot''))
                | Some r \<Rightarrow>
                    (let q = \<lparr>xs_nodeId = i, xs_definition = d, xs_rubric = r,
                              xs_hypothesis = hypothesis_of deps ctx, xs_satisfaction = ctx_satisfaction ctx\<rparr> in
                     bindS (asking (\<lambda>n. step n q) (ExperimentStepped q)) liftS))))"

end
