(* ===== verification/GateNodes.thy ===== *)
theory GateNodes
  imports NodeExecutors
begin

section \<open>Gate nodes and the dispatch of nodes\<close>

text \<open>
  \<open>evaluateGateNode\<close> of \<open>packages/orchestrator/src/graph/node-executors.ts\<close>: the gates of a set
  in order, each evaluated, remediated within two bounds and evaluated again; and the executor of
  each kind of node, as the graph engine calls it.
\<close>

subsection \<open>Gate sets\<close>

fun unseen_gates :: "string list \<Rightarrow> gate list \<Rightarrow> gate list" where
  "unseen_gates seen [] = []"
| "unseen_gates seen (g # gs) =
     (if gt_id g \<in> set seen then unseen_gates seen gs else g # unseen_gates (gt_id g # seen) gs)"

definition composeGateSets :: "gate_set \<Rightarrow> gate_set list \<Rightarrow> gate list" where
  "composeGateSets target bases = unseen_gates [] (concat (map gs_gates (bases @ [target])))"

text \<open>A base that the snapshot does not hold is left out.\<close>

definition gate_bases :: "exec_deps \<Rightarrow> gate_set \<Rightarrow> gate_set list" where
  "gate_bases deps s =
     map (\<lambda>d. xd_gate_doc deps (dv_document d))
       (List.map_filter (\<lambda>n. findInSnapshot (xd_snapshot deps) DkGateSet n None)
         (case gs_extends s of None \<Rightarrow> [] | Some ns \<Rightarrow> ns))"

definition node_gates :: "exec_deps \<Rightarrow> gate_set \<Rightarrow> gate list" where
  "node_gates deps s = composeGateSets s (gate_bases deps s)"

subsection \<open>One evaluation\<close>

datatype evaluator = ByExpression | ByCommand | ByAgent | ByHuman

record gate_evaluation =
  ge_gateId :: string
  ge_passed :: bool
  ge_reason :: string
  ge_by :: evaluator
  ge_attempt :: nat
  ge_at :: time

text \<open>What the evaluation of a gate node reads: the profile for its agents, the scope and the approval.\<close>

record gate_context =
  gc_profile :: "string option"
  gc_max :: rat
  gc_scope :: jsval
  gc_approval :: "bool option"
  gc_approvedGate :: "string option"

definition gate_scope :: "exec_deps \<Rightarrow> nat \<Rightarrow> execution_context \<Rightarrow> jsval" where
  "gate_scope deps k ctx =
     (let text = (\<lambda>t. JStr (case t of None \<Rightarrow> [] | Some s \<Rightarrow> s)); item = xd_item deps in
      JObj (Built k ''scope'')
        [(''item'', JObj (Built k ''item'')
           [(''title'', JStr (wi_title item)), (''state'', JStr (wi_state item)),
            (''type'', text (wi_type item)),
            (''labels'', JArr (Built k ''labels'') (map JStr (wi_labels item))),
            (''description'', text (wi_description item))]),
         (''domain'', JObj (Built k ''domain'') (dom_data (ctx_domain ctx))),
         (''vars'', JObj (Built k ''vars'') (ctx_variables ctx)),
         (''results'', resultScope k (ctx_nodeResults ctx))])"

text \<open>\<open>humanApproval\<close>: approved, rejected, or no input.\<close>

definition human_approval :: "execution_context \<Rightarrow> bool option" where
  "human_approval ctx = map_option (\<lambda>i. hi_value i = JBool True) (given_input ctx)"

definition approved_gate :: "exec_deps \<Rightarrow> execution_context \<Rightarrow> string option" where
  "approved_gate deps ctx =
     (case given_event ctx of
        None \<Rightarrow> None
      | Some event \<Rightarrow>
          (let v = field_of event ''gateId'' in if v = JUndef then None else Some (js_string (xd_number deps) v)))"

definition gate_context_of ::
  "exec_deps \<Rightarrow> nat \<Rightarrow> gate_node_config \<Rightarrow> execution_context \<Rightarrow> gate_context" where
  "gate_context_of deps k c ctx =
     \<lparr>gc_profile = map_option ref_name (gn_remediationProfile c),
      gc_max = (case gn_maxRemediationAttempts c of None \<Rightarrow> 0 | Some m \<Rightarrow> m),
      gc_scope = gate_scope deps k ctx, gc_approval = human_approval ctx,
      gc_approvedGate = approved_gate deps ctx\<rparr>"

definition verdict :: "gate \<Rightarrow> nat \<Rightarrow> time \<Rightarrow> evaluator \<Rightarrow> bool \<Rightarrow> string \<Rightarrow> gate_evaluation" where
  "verdict g attempt now by passed reason = \<lparr>ge_gateId = gt_id g, ge_passed = passed, ge_reason = reason,
     ge_by = by, ge_attempt = attempt, ge_at = now\<rparr>"

definition command_prefix :: string where "command_prefix = ''command:''"

definition is_command_gate :: "gate \<Rightarrow> bool" where
  "is_command_gate g \<longleftrightarrow> gt_kind g = DeterministicGate \<and> starts_with (gt_check g) command_prefix"

definition gate_command :: "gate \<Rightarrow> string \<Rightarrow> command_request" where
  "gate_command g cwd = \<lparr>cr_command = trim (drop (length command_prefix) (gt_check g)), cr_cwd = cwd,
     cr_env = None, cr_timeoutMs = None\<rparr>"

definition last_chars :: "nat \<Rightarrow> string \<Rightarrow> string" where
  "last_chars n s = drop (length s - n) s"

definition command_verdict :: "gate \<Rightarrow> nat \<Rightarrow> time \<Rightarrow> int \<times> string \<Rightarrow> gate_evaluation" where
  "command_verdict g attempt now r = (case r of (code, output) \<Rightarrow>
     verdict g attempt now ByCommand (code = 0)
       (if code = 0 then ''command passed''
        else ''exit '' @ show_int code @ '': '' @ last_chars 300 output))"

definition expression_verdict :: "gate_context \<Rightarrow> gate \<Rightarrow> nat \<Rightarrow> time \<Rightarrow> gate_evaluation" where
  "expression_verdict gc g attempt now =
     (case evaluateScopeExpression (gt_check g) (gc_scope gc) of
        Inr b \<Rightarrow> verdict g attempt now ByExpression b
          (if b then ''expression true'' else ''expression false: '' @ gt_check g)
      | Inl e \<Rightarrow> verdict g attempt now ByExpression False (''expression error: '' @ scope_error_message e))"

definition double_quoted :: "string \<Rightarrow> string" where
  "double_quoted s = CHR 0x22 # s @ [CHR 0x22]"

definition gate_question :: "gate \<Rightarrow> string" where
  "gate_question g = gt_check g @ newline @ newline @ ''Respond with a JSON object: {'' @
     double_quoted ''passed'' @ '': true|false, '' @ double_quoted ''reason'' @ '': '' @ double_quoted ''...'' @ ''}''"

definition agent_verdict ::
  "exec_deps \<Rightarrow> gate \<Rightarrow> nat \<Rightarrow> time \<Rightarrow> agent_outcome \<times> string \<Rightarrow> gate_evaluation" where
  "agent_verdict deps g attempt now r =
     (let summary = snd r;
          report = parseStructuredOutputs (xd_json deps) summary;
          said = (\<lambda>key. case report of None \<Rightarrow> JUndef | Some fs \<Rightarrow> field_of fs key) in
      verdict g attempt now ByAgent (said ''passed'' = JBool True)
        (if said ''reason'' \<in> {JUndef, JNull} then take 300 summary
         else js_string (xd_number deps) (said ''reason'')))"

definition evaluateOnce :: "exec_deps \<Rightarrow> gate_context \<Rightarrow> gate \<Rightarrow> nat \<Rightarrow> gate_evaluation exec" where
  "evaluateOnce deps gc g attempt =
     bindS (exec_clock deps) (\<lambda>now.
       case gt_kind g of
         DeterministicGate \<Rightarrow>
           if is_command_gate g then
             (case workspace_path deps of
                None \<Rightarrow> returnS (verdict g attempt now ByCommand False ''no workspace for command gate'')
              | Some cwd \<Rightarrow>
                  bindS (run_command deps (gate_command g cwd)) (\<lambda>r.
                  returnS (command_verdict g attempt now r)))
           else returnS (expression_verdict gc g attempt now)
       | AgentGate \<Rightarrow>
           bindS (runAgent deps (gc_profile gc) (gate_question g) (role_only (''gate:'' @ gt_id g))) (\<lambda>r.
           returnS (agent_verdict deps g attempt now r))
       | HumanGate \<Rightarrow>
           (case gc_approval gc of
              Some b \<Rightarrow>
                if gc_approvedGate gc = Some (gt_id g) then
                  returnS (verdict g attempt now ByHuman b (''human '' @ (if b then ''approved'' else ''rejected'')))
                else throwS (HumanGatePending g)
            | None \<Rightarrow> throwS (HumanGatePending g)))"

subsection \<open>Remediation\<close>

definition remediation_for :: "gate_context \<Rightarrow> gate \<Rightarrow> nat \<Rightarrow> nat \<Rightarrow> gate_evaluation \<Rightarrow> gate_remediation option" where
  "remediation_for gc g attempt done ev =
     (if ge_passed ev \<or> \<not> gt_required g \<or> \<not> of_nat done < gc_max gc then None
      else case gt_remediation g of
        None \<Rightarrow> None
      | Some r \<Rightarrow> if of_nat attempt \<le> gr_maxAttempts r then Some r else None)"

lemma remediation_for_some:
  "remediation_for gc g attempt done ev = Some r \<longleftrightarrow>
     \<not> ge_passed ev \<and> gt_required g \<and> of_nat done < gc_max gc \<and> gt_remediation g = Some r \<and>
     of_nat attempt \<le> gr_maxAttempts r"
  by (auto simp: remediation_for_def split: option.splits if_splits)

lemma below_decreases: "\<lceil>m - (1 + of_nat n)\<rceil> < \<lceil>m - of_nat n :: rat\<rceil>"
proof -
  have "m - (1 + of_nat n) = (m - of_nat n) - 1" by (simp add: algebra_simps)
  then show ?thesis by (simp only: ceiling_diff_one)
qed

definition remediate :: "exec_deps \<Rightarrow> gate_context \<Rightarrow> gate \<Rightarrow> gate_remediation \<Rightarrow> string \<Rightarrow> (agent_outcome \<times> string) exec" where
  "remediate deps gc g r reason =
     runAgent deps (gc_profile gc)
       (gr_goal r @ newline @ newline @ ''The gate '' @ single_quoted (gt_id g) @ '' failed: '' @ reason)
       (role_only (''remediate:'' @ gt_id g))"

text \<open>
  The \<open>while\<close> loop of a gate: the last evaluation, and the remediations attempted so far in the
  whole set. The two bounds let it run at most as long as its measure.
\<close>

function remediation_loop ::
  "exec_deps \<Rightarrow> gate_context \<Rightarrow> gate \<Rightarrow> nat \<Rightarrow> nat \<Rightarrow> gate_evaluation \<Rightarrow> (gate_evaluation \<times> nat) exec" where
  "remediation_loop deps gc g attempt done ev =
     (case remediation_for gc g attempt done ev of
        None \<Rightarrow> returnS (ev, done)
      | Some r \<Rightarrow>
          bindS (remediate deps gc g r (ge_reason ev)) (\<lambda>_.
          bindS (evaluateOnce deps gc g (attempt + 1)) (\<lambda>ev'.
          remediation_loop deps gc g (attempt + 1) (done + 1) ev')))"
  by pat_completeness auto

termination
  by (relation "measure (\<lambda>(_, gc, _, _, done, _). nat \<lceil>gc_max gc - of_nat done\<rceil>)")
    (auto simp: remediation_for_some below_decreases)

declare remediation_loop.simps [simp del]

subsection \<open>The gates of a node in order\<close>

definition decide_gate :: "exec_deps \<Rightarrow> gate_context \<Rightarrow> gate \<Rightarrow> nat \<Rightarrow> (gate_evaluation \<times> nat) exec" where
  "decide_gate deps gc g done =
     bindS (evaluateOnce deps gc g 1) (remediation_loop deps gc g 1 done)"

text \<open>The gate that failed, if one did, with its evaluation; the evaluations; the remediations.\<close>

fun run_gates ::
  "exec_deps \<Rightarrow> gate_context \<Rightarrow> gate list \<Rightarrow> gate_evaluation list \<Rightarrow> nat \<Rightarrow>
   ((gate \<times> gate_evaluation) option \<times> gate_evaluation list \<times> nat) exec" where
  "run_gates deps gc [] evs done = returnS (None, evs, done)"
| "run_gates deps gc (g # gs) evs done =
     bindS (decide_gate deps gc g done) (\<lambda>r. case r of (ev, done') \<Rightarrow>
       if \<not> ge_passed ev \<and> gt_required g then returnS (Some (g, ev), evs @ [ev], done')
       else run_gates deps gc gs (evs @ [ev]) done')"

definition evaluator_text :: "evaluator \<Rightarrow> string" where
  "evaluator_text e = (case e of
     ByExpression \<Rightarrow> ''expression'' | ByCommand \<Rightarrow> ''command'' | ByAgent \<Rightarrow> ''agent'' | ByHuman \<Rightarrow> ''human'')"

definition evaluation_value :: "exec_deps \<Rightarrow> nat \<Rightarrow> nat \<times> gate_evaluation \<Rightarrow> jsval" where
  "evaluation_value deps k p = (case p of (n, ev) \<Rightarrow>
     JObj (Built k (''evaluations.'' @ show_nat n))
       [(''gateId'', JStr (ge_gateId ev)), (''passed'', JBool (ge_passed ev)), (''reason'', JStr (ge_reason ev)),
        (''evaluatedBy'', JStr (evaluator_text (ge_by ev))), (''attempt'', JNum (of_nat (ge_attempt ev))),
        (''at'', JStr (xd_iso deps (ge_at ev)))])"

definition gateOutputs ::
  "exec_deps \<Rightarrow> nat \<Rightarrow> string \<Rightarrow> nat \<Rightarrow> bool \<Rightarrow> gate_evaluation list \<Rightarrow> nat \<Rightarrow> fields" where
  "gateOutputs deps k name version passed evs done =
     [(''gateSetName'', JStr name), (''gateSetVersion'', JNum (of_nat version)), (''passed'', JBool passed),
      (''evaluations'', JArr (Built k ''evaluations'') (map (evaluation_value deps k) (enumerate 0 evs))),
      (''remediationsAttempted'', JNum (of_nat done))]"

definition gates_yield ::
  "exec_deps \<Rightarrow> nat \<Rightarrow> string \<Rightarrow> nat \<Rightarrow>
   (gate \<times> gate_evaluation) option \<times> gate_evaluation list \<times> nat \<Rightarrow> node_yield" where
  "gates_yield deps k name version r = (case r of (failure, evs, done) \<Rightarrow>
     (case failure of
        None \<Rightarrow> succeeded_with k (gateOutputs deps k name version True evs done)
      | Some (g, ev) \<Rightarrow> failed_with k (gateOutputs deps k name version False evs done)
          (''gate '' @ single_quoted (gt_id g) @ '' failed: '' @ ge_reason ev)))"

definition gate_pending :: "string \<Rightarrow> exec_error \<Rightarrow> node_yield exec" where
  "gate_pending i e =
     (case e of
        HumanGatePending g \<Rightarrow> returnS (YWait
          (waits_for WApproval [(''nodeId'', JStr i), (''gateId'', JStr (gt_id g))])
          (Some (asks_human HApproval (gt_check g))))
      | _ \<Rightarrow> throwS e)"

definition evaluateGateNode ::
  "exec_deps \<Rightarrow> nat \<Rightarrow> string \<Rightarrow> gate_node_config \<Rightarrow> execution_context \<Rightarrow> node_yield exec" where
  "evaluateGateNode deps k i c ctx =
     (case findInSnapshot (xd_snapshot deps) DkGateSet (ref_name (gn_gateSet c)) (ref_version (gn_gateSet c)) of
        None \<Rightarrow> returnS (failed_yield
          (''gate set '' @ single_quoted (ref_name (gn_gateSet c)) @ '' not in snapshot''))
      | Some d \<Rightarrow>
          (let s = xd_gate_doc deps (dv_document d) in
           catchS
             (bindS (run_gates deps (gate_context_of deps k c ctx) (node_gates deps s) [] 0) (\<lambda>r.
              returnS (gates_yield deps k (gs_name s) (dv_version d) r)))
             (gate_pending i)))"

subsection \<open>The executor of a node\<close>

definition dispatch_node :: "exec_deps \<Rightarrow> graph_node \<Rightarrow> execution_context \<Rightarrow> node_yield exec" where
  "dispatch_node deps n ctx =
     bindS fresh_label (\<lambda>k.
       case node_config n of
         AgentNode c \<Rightarrow> agent_executor deps k (node_id n) c ctx
       | CommandNode c \<Rightarrow> command_executor deps k c
       | ActionNode c \<Rightarrow> action_executor deps k c ctx
       | GateNode c \<Rightarrow> evaluateGateNode deps k (node_id n) c ctx
       | HumanInputNode r \<Rightarrow> returnS (human_input_executor k (node_id n) r ctx)
       | WaitNode s \<Rightarrow> returnS (wait_executor k s ctx)
       | SubworkflowNode c \<Rightarrow> subworkflow_executor deps k (node_id n) c ctx
       | ExperimentNode c \<Rightarrow> experiment_executor deps (node_id n) c ctx
       | FanOutNode c \<Rightarrow> fan_out_executor deps k (node_id n) c ctx
       | TerminalNode _ \<Rightarrow> returnS (succeeded_with k []))"

text \<open>
  What the graph engine sees: the answer of its \<open>n\<close>-th call, in the world that call finds, with the
  message of what was thrown.
\<close>

definition graph_executors ::
  "exec_deps \<Rightarrow> (nat \<Rightarrow> exec_world) \<Rightarrow> nat \<Rightarrow> graph_node \<Rightarrow> execution_context \<Rightarrow> string + node_yield" where
  "graph_executors deps worlds n node ctx =
     map_sum exec_error_message id (fst (dispatch_node deps node ctx (worlds n)))"

end
