(* ===== verification/NodeExecutorProps.thy ===== *)
theory NodeExecutorProps
  imports GateNodes
begin

section \<open>What the executors of the nodes guarantee\<close>

text \<open>
  The fallback chain of a profile, the branches of a fan-out and the gates of a gate node: which
  acts an executor does, in which order, and what its answer rests on.
\<close>

named_theorems exec_defs \<open>how an operation of the executors acts on their world\<close>

lemmas [exec_defs] = returnS_def throwS_def liftS_def asking_def exec_clock_def new_session_def fresh_label_def

lemma bindS_cases:
  assumes "bindS m f w = (r, w')"
  obtains (throws) e where "m w = (Inl e, w')" "r = Inl e"
  | (returns) x w1 where "m w = (Inr x, w1)" "f x w1 = (r, w')"
proof (cases "m w")
  case (Pair a w1)
  with assms show ?thesis
    by (cases a) (auto simp: bindS_def intro: throws returns)
qed

lemma bindS_returns:
  assumes "bindS m f w = (Inr y, w')"
  obtains x w1 where "m w = (Inr x, w1)" "f x w1 = (Inr y, w')"
  using assms by (elim bindS_cases) auto

subsection \<open>Acts are added to the record\<close>

text \<open>\<open>does m\<close>: every act of \<open>m\<close> is on the record, in front of what was there.\<close>

definition does :: "'a exec \<Rightarrow> (exec_act list \<Rightarrow> exec_error + 'a \<Rightarrow> bool) \<Rightarrow> bool" where
  "does m Q \<longleftrightarrow> (\<forall>w. \<exists>acts. xw_trace (snd (m w)) = rev acts @ xw_trace w \<and> Q acts (fst (m w)))"

named_theorems does_rules \<open>the acts of an operation\<close>

lemma doesD:
  assumes "does m Q" and "m w = (r, w')"
  obtains acts where "xw_trace w' = rev acts @ xw_trace w" "Q acts r"
  using assms by (metis does_def fst_conv snd_conv)

lemma does_silent:
  "(\<And>w. xw_trace (snd (m w)) = xw_trace w \<and> Q [] (fst (m w))) \<Longrightarrow> does m Q"
  unfolding does_def by (intro allI exI [of _ "[]"]) auto

lemma does_return [does_rules]: "Q [] (Inr x) \<Longrightarrow> does (returnS x) Q"
  by (rule does_silent) (simp add: returnS_def)

lemma does_throw [does_rules]: "Q [] (Inl e) \<Longrightarrow> does (throwS e) Q"
  by (rule does_silent) (simp add: throwS_def)

lemma does_lift [does_rules]: "Q [] r \<Longrightarrow> does (liftS r) Q"
  by (rule does_silent) (simp add: liftS_def)

lemma does_bind:
  assumes "does m R" and "\<And>acts e. R acts (Inl e) \<Longrightarrow> Q acts (Inl e)"
    and "\<And>acts x. R acts (Inr x) \<Longrightarrow> does (f x) (\<lambda>ys r. Q (acts @ ys) r)"
  shows "does (bindS m f) Q"
  unfolding does_def
proof
  fix w
  obtain r w1 where m: "m w = (r, w1)" by (cases "m w")
  obtain acts where acts: "xw_trace w1 = rev acts @ xw_trace w" "R acts r"
    using doesD [OF assms(1) m] .
  show "\<exists>acts. xw_trace (snd (bindS m f w)) = rev acts @ xw_trace w \<and> Q acts (fst (bindS m f w))"
  proof (cases r)
    case (Inl e)
    with acts m assms(2) show ?thesis by (auto simp: bindS_def)
  next
    case (Inr x)
    with acts(2) have "does (f x) (\<lambda>ys r. Q (acts @ ys) r)" using assms(3) by simp
    then obtain ys where
      "xw_trace (snd (f x w1)) = rev ys @ xw_trace w1" "Q (acts @ ys) (fst (f x w1))"
      unfolding does_def by blast
    with m Inr acts(1) show ?thesis
      by (intro exI [of _ "acts @ ys"]) (simp add: bindS_def)
  qed
qed

lemma does_weaken: "does m R \<Longrightarrow> (\<And>acts r. R acts r \<Longrightarrow> Q acts r) \<Longrightarrow> does m Q"
  unfolding does_def by meson

text \<open>First steps that cannot throw, and a first step that does nothing on the record.\<close>

lemma does_asking [does_rules]:
  "(\<And>a. does (f a) (\<lambda>ys r. Q (act a # ys) r)) \<Longrightarrow> does (bindS (asking g act) f) Q"
  by (rule does_bind [where R = "\<lambda>acts r. \<exists>a. acts = [act a] \<and> r = Inr a"])
    (auto simp: does_def asking_def)

lemma does_clock [does_rules]: "(\<And>t. does (f t) Q) \<Longrightarrow> does (bindS (exec_clock deps) f) Q"
  by (rule does_bind [where R = "\<lambda>acts r. acts = [] \<and> (\<exists>t. r = Inr t)"])
    (auto simp: does_def exec_clock_def)

lemma does_session [does_rules]: "(\<And>i. does (f i) Q) \<Longrightarrow> does (bindS (new_session deps) f) Q"
  by (rule does_bind [where R = "\<lambda>acts r. acts = [] \<and> (\<exists>t. r = Inr t)"])
    (auto simp: does_def new_session_def)

lemma does_lifted [does_rules]:
  assumes "\<And>e. r = Inl e \<Longrightarrow> Q [] (Inl e)" and "\<And>x. r = Inr x \<Longrightarrow> does (f x) Q"
  shows "does (bindS (liftS r) f) Q"
  by (rule does_bind [where R = "\<lambda>acts r'. acts = [] \<and> r' = r"])
    (use assms in \<open>auto intro: does_lift\<close>)

subsection \<open>The fallback chain\<close>

text \<open>
  The chain as it is promised: the executors that exist are asked in their order, each one after
  the first only when the answer of the one before it engages the fallback.
\<close>

fun follows_chain :: "fallback_trigger \<Rightarrow> string list \<Rightarrow> exec_act list \<Rightarrow> bool" where
  "follows_chain tr [] acts \<longleftrightarrow> acts = []"
| "follows_chain tr (x # xs) acts \<longleftrightarrow>
     (case acts of
        AgentRan y q answer # rest \<Rightarrow>
          y = x \<and> (if engages tr answer = None then rest = [] else follows_chain tr xs rest)
      | _ \<Rightarrow> False)"

definition last_answer_is :: "exec_act list \<Rightarrow> exec_error + (agent_outcome \<times> string) \<Rightarrow> bool" where
  "last_answer_is acts r \<longleftrightarrow>
     (case r of Inl _ \<Rightarrow> True | Inr v \<Rightarrow> acts \<noteq> [] \<and> (\<exists>x q. last acts = AgentRan x q (Inr v)))"

definition available :: "exec_deps \<Rightarrow> model_selection list \<Rightarrow> string list" where
  "available deps sels = filter (xd_hasExecutor deps) (map sel_executor sels)"

lemma available_simps [simp]:
  "available deps [] = []"
  "available deps (s # ss) =
     (if xd_hasExecutor deps (sel_executor s) then sel_executor s # available deps ss else available deps ss)"
  by (simp_all add: available_def)

lemma try_selections_follow:
  "does (try_selections deps p goal opts e sels)
     (\<lambda>acts r. follows_chain (trigger_of p) (available deps sels) acts \<and> last_answer_is acts r \<and>
        (\<forall>a \<in> set acts. \<exists>x q answer. a = AgentRan x q answer \<and> er_goal q = goal))"
proof (induction deps p goal opts e sels rule: try_selections.induct)
  case (1 deps p goal opts e)
  show ?case by (simp, rule does_throw) (simp add: last_answer_is_def)
next
  case (2 deps p goal opts e sel rest)
  let ?q = "agent_request_for deps p goal opts sel"
  show ?case
  proof (cases "xd_hasExecutor deps (sel_executor sel)")
    case False
    with 2(1) show ?thesis by simp
  next
    case True
    have "does (case if rest = [] then None else engages (trigger_of p) answer of
            None \<Rightarrow> liftS answer | Some e \<Rightarrow> try_selections deps p goal opts (Some e) rest)
          (\<lambda>ys r. follows_chain (trigger_of p) (available deps (sel # rest))
               ([AgentRan (sel_executor sel) (?q sid) answer] @ ys) \<and>
             last_answer_is ([AgentRan (sel_executor sel) (?q sid) answer] @ ys) r \<and>
             (\<forall>a \<in> set ([AgentRan (sel_executor sel) (?q sid) answer] @ ys).
                \<exists>x q answer. a = AgentRan x q answer \<and> er_goal q = goal))" for sid answer
    proof (cases "if rest = [] then None else engages (trigger_of p) answer")
      case None
      then show ?thesis
        using True
        by (auto intro!: does_lift simp: last_answer_is_def agent_request_for_def split: sum.splits if_splits)
    next
      case (Some e')
      then have "rest \<noteq> []" "engages (trigger_of p) answer = Some e'" by (auto split: if_splits)
      with True Some 2(2) [OF _ refl Some] show ?thesis
        by (auto elim!: does_weaken simp: last_answer_is_def agent_request_for_def split: sum.splits)
    qed
    then have "does (bindS (new_session deps) (\<lambda>sid.
        bindS (asking (\<lambda>n. xd_agent deps n (sel_executor sel) (?q sid)) (AgentRan (sel_executor sel) (?q sid))) (\<lambda>answer.
          case if rest = [] then None else engages (trigger_of p) answer of
            None \<Rightarrow> liftS answer | Some e \<Rightarrow> try_selections deps p goal opts (Some e) rest)))
       (\<lambda>acts r. follows_chain (trigger_of p) (available deps (sel # rest)) acts \<and> last_answer_is acts r \<and>
         (\<forall>a \<in> set acts. \<exists>x q answer. a = AgentRan x q answer \<and> er_goal q = goal))"
      by (intro does_rules) simp
    with True show ?thesis by (simp add: Let_def)
  qed
qed

lemma runAgent_does:
  "does (runAgent deps profile goal opts)
     (\<lambda>acts r. last_answer_is acts r \<and> (\<forall>a \<in> set acts. \<exists>x q answer. a = AgentRan x q answer \<and> er_goal q = goal))"
  unfolding runAgent_def
  by (auto split: option.splits intro!: does_throw does_lifted does_weaken [OF try_selections_follow]
      simp: last_answer_is_def)

lemma runAgent_of_profile:
  assumes "resolve_profile (xd_profile_doc deps) (xd_snapshot deps) (xd_stack deps) name = Inr p" and "name \<noteq> []"
  shows "runAgent deps (Some name) goal opts w = try_selections deps p goal opts None (selections p) w"
  using assms by (simp add: runAgent_def override_def bindS_def liftS_def)

subsection \<open>What a passed gate rests on\<close>

text \<open>
  \<open>evidenced deps gc acts g\<close>: the last of the acts is the command of the gate, with exit code 0,
  or an agent that was asked the question of the gate and reported that it passed; an expression is
  true in the scope of the node; a human approved this gate.
\<close>

definition evidenced :: "exec_deps \<Rightarrow> gate_context \<Rightarrow> exec_act list \<Rightarrow> gate \<Rightarrow> bool" where
  "evidenced deps gc acts g \<longleftrightarrow>
     (case gt_kind g of
        DeterministicGate \<Rightarrow>
          if is_command_gate g then
            acts \<noteq> [] \<and> (\<exists>cwd output. workspace_path deps = Some cwd \<and> last acts = CommandRan (gate_command g cwd) (Inr (0, output)))
          else evaluateScopeExpression (gt_check g) (gc_scope gc) = Inr True
      | AgentGate \<Rightarrow>
          acts \<noteq> [] \<and> (\<exists>x q out summary fs. last acts = AgentRan x q (Inr (out, summary)) \<and>
            er_goal q = gate_question g \<and> parseStructuredOutputs (xd_json deps) summary = Some fs \<and>
            field_of fs ''passed'' = JBool True)
      | HumanGate \<Rightarrow> gc_approval gc = Some True \<and> gc_approvedGate gc = Some (gt_id g))"

lemma evidenced_append: "evidenced deps gc ys g \<Longrightarrow> evidenced deps gc (acts @ ys) g"
  by (auto simp: evidenced_def split: gate_kind.splits)

definition evaluated :: "exec_deps \<Rightarrow> gate_context \<Rightarrow> gate \<Rightarrow> nat \<Rightarrow> exec_act list \<Rightarrow> gate_evaluation \<Rightarrow> bool" where
  "evaluated deps gc g attempt acts ev \<longleftrightarrow>
     ge_gateId ev = gt_id g \<and> ge_attempt ev = attempt \<and> (ge_passed ev \<longrightarrow> evidenced deps gc acts g) \<and>
     (gt_kind g = HumanGate \<longrightarrow> gc_approvedGate gc = Some (gt_id g))"

lemma evaluated_append: "evaluated deps gc g n ys ev \<Longrightarrow> evaluated deps gc g n (acts @ ys) ev"
  by (auto simp: evaluated_def evidenced_append)

lemma verdict_simps [simp]:
  "ge_gateId (verdict g n t b p r) = gt_id g" "ge_attempt (verdict g n t b p r) = n"
  "ge_passed (verdict g n t b p r) = p" "ge_reason (verdict g n t b p r) = r"
  by (simp_all add: verdict_def)

lemma run_command_does:
  "(\<And>e. Q [CommandRan q (Inl e)] (Inl e)) \<Longrightarrow> (\<And>x. does (f x) (\<lambda>ys r. Q (CommandRan q (Inr x) # ys) r)) \<Longrightarrow>
   does (bindS (run_command deps q) f) Q"
  unfolding run_command_def
  by (rule does_bind [where R = "\<lambda>acts r. acts = [CommandRan q r]"]) (auto intro!: does_rules)

lemma evaluateOnce_does:
  "does (evaluateOnce deps gc g n) (\<lambda>acts r. case r of Inl _ \<Rightarrow> True | Inr ev \<Rightarrow> evaluated deps gc g n acts ev)"
proof (cases "gt_kind g")
  case DeterministicGate
  show ?thesis
    unfolding evaluateOnce_def DeterministicGate gate_kind.case
    by (auto split: option.splits sum.splits prod.splits
        intro!: does_clock does_return run_command_does
        simp: evaluated_def evidenced_def DeterministicGate command_verdict_def expression_verdict_def)
next
  case AgentGate
  show ?thesis
    unfolding evaluateOnce_def AgentGate gate_kind.case
    by (intro does_clock does_bind [OF runAgent_does] does_return)
      (auto simp: evaluated_def evidenced_def AgentGate agent_verdict_def last_answer_is_def Let_def
        split: option.splits dest!: bspec [OF _ last_in_set])
next
  case HumanGate
  show ?thesis
    unfolding evaluateOnce_def HumanGate gate_kind.case
    by (intro does_clock)
      (auto split: option.splits intro!: does_return does_throw simp: evaluated_def evidenced_def HumanGate)
qed

subsection \<open>The remediation of one gate\<close>

definition gate_block ::
  "exec_deps \<Rightarrow> gate_context \<Rightarrow> gate \<Rightarrow> nat \<Rightarrow> nat \<Rightarrow> exec_act list \<Rightarrow> gate_evaluation \<Rightarrow> nat \<Rightarrow> bool" where
  "gate_block deps gc g attempt n acts ev m \<longleftrightarrow>
     n \<le> m \<and> evaluated deps gc g (attempt + (m - n)) acts ev \<and>
     (n < m \<longrightarrow> of_nat m < gc_max gc + 1 \<and>
        (\<exists>r. gt_remediation g = Some r \<and> of_nat (ge_attempt ev) \<le> gr_maxAttempts r + 1))"

lemma remediation_loop_does:
  assumes "evaluated deps gc g attempt past ev"
  shows "does (remediation_loop deps gc g attempt n ev)
    (\<lambda>acts r. case r of Inl _ \<Rightarrow> True | Inr (ev', m) \<Rightarrow> gate_block deps gc g attempt n (past @ acts) ev' m)"
  using assms
proof (induction deps gc g attempt n ev arbitrary: past rule: remediation_loop.induct)
  case (1 deps gc g attempt n ev)
  show ?case
  proof (cases "remediation_for gc g attempt n ev")
    case None
    with 1(2) show ?thesis
      by (subst remediation_loop.simps) (auto intro!: does_return simp: gate_block_def)
  next
    case (Some r)
    then have bounds: "of_nat n < gc_max gc" "gt_remediation g = Some r" "of_nat attempt \<le> gr_maxAttempts r"
      by (auto simp: remediation_for_some)
    have further: "gate_block deps gc g (attempt + 1) (n + 1) acts ev' m \<Longrightarrow> gate_block deps gc g attempt n acts ev' m"
      for acts ev' m
      using bounds
      by (cases "m = n + 1") (auto simp: gate_block_def evaluated_def Suc_diff_Suc)
    have again: "does (remediation_loop deps gc g (attempt + 1) (n + 1) x)
        (\<lambda>acts r. case r of Inl _ \<Rightarrow> True | Inr (ev', m) \<Rightarrow> gate_block deps gc g attempt n (before @ acts) ev' m)"
      if "evaluated deps gc g (attempt + 1) before x" for before x
      by (rule does_weaken [OF 1(1) [OF Some that]]) (auto split: sum.splits intro: further)
    have "does (bindS (remediate deps gc g r (ge_reason ev)) (\<lambda>_.
          bindS (evaluateOnce deps gc g (attempt + 1)) (remediation_loop deps gc g (attempt + 1) (n + 1))))
        (\<lambda>acts r. case r of Inl _ \<Rightarrow> True | Inr (ev', m) \<Rightarrow> gate_block deps gc g attempt n (past @ acts) ev' m)"
      unfolding remediate_def
    proof (rule does_bind [OF runAgent_does], simp, rule does_bind [OF evaluateOnce_does], simp)
      fix acts x acts' x'
      assume "case Inr x' of Inl _ \<Rightarrow> True | Inr ev' \<Rightarrow> evaluated deps gc g (attempt + 1) acts' ev'"
      then have "evaluated deps gc g (attempt + 1) ((past @ acts) @ acts') x'"
        by (intro evaluated_append) simp
      from again [OF this, unfolded append_assoc]
      show "does (remediation_loop deps gc g (attempt + 1) (n + 1) x')
          (\<lambda>ys r. case r of Inl _ \<Rightarrow> True
             | Inr (ev', m) \<Rightarrow> gate_block deps gc g attempt n (past @ acts @ acts' @ ys) ev' m)" .
    qed
    then show ?thesis
      by (subst remediation_loop.simps) (simp only: Some option.case)
  qed
qed

lemma decide_gate_does:
  "does (decide_gate deps gc g n)
     (\<lambda>acts r. case r of Inl _ \<Rightarrow> True | Inr (ev, m) \<Rightarrow> gate_block deps gc g 1 n acts ev m)"
  unfolding decide_gate_def
  by (rule does_bind [OF evaluateOnce_does]) (simp_all add: remediation_loop_does del: One_nat_def)

subsection \<open>The gates of a node\<close>

text \<open>
  The runs of a list of gates: each gate is decided by the acts of its own block; the first required
  gate that does not pass is the last that is looked at.
\<close>

inductive gate_run ::
  "exec_deps \<Rightarrow> gate_context \<Rightarrow> gate list \<Rightarrow> nat \<Rightarrow> exec_act list list \<Rightarrow>
   (gate \<times> gate_evaluation) option \<Rightarrow> gate_evaluation list \<Rightarrow> nat \<Rightarrow> bool"
  for deps gc where
  over: "gate_run deps gc [] n [] None [] n"
| goes_on: "gate_run deps gc (g # gs) n (acts # blocks) failure (ev # evs) m'"
    if "gate_block deps gc g 1 n acts ev m" and "ge_passed ev \<or> \<not> gt_required g"
      and "gate_run deps gc gs m blocks failure evs m'"
| stops: "gate_run deps gc (g # gs) n [acts] (Some (g, ev)) [ev] m"
    if "gate_block deps gc g 1 n acts ev m" and "\<not> ge_passed ev" and "gt_required g"

definition gates_ran ::
  "exec_deps \<Rightarrow> gate_context \<Rightarrow> gate list \<Rightarrow> gate_evaluation list \<Rightarrow> nat \<Rightarrow> exec_act list \<Rightarrow>
   exec_error + (gate \<times> gate_evaluation) option \<times> gate_evaluation list \<times> nat \<Rightarrow> bool" where
  "gates_ran deps gc gs evs n acts r \<longleftrightarrow>
     (case r of Inl _ \<Rightarrow> True
      | Inr (failure, evs', m) \<Rightarrow> \<exists>blocks new. acts = concat blocks \<and> evs' = evs @ new \<and>
          gate_run deps gc gs n blocks failure new m)"

lemma gates_ran_over: "gates_ran deps gc [] evs n [] (Inr (None, evs, n))"
  by (auto simp: gates_ran_def intro!: exI [of _ "[]"] gate_run.intros)

lemma gates_ran_thrown: "gates_ran deps gc gs evs n acts (Inl e)"
  by (simp add: gates_ran_def)

lemma gates_ran_stops:
  "gate_block deps gc g 1 n acts ev m \<Longrightarrow> \<not> ge_passed ev \<Longrightarrow> gt_required g \<Longrightarrow>
   gates_ran deps gc (g # gs) evs n acts (Inr (Some (g, ev), evs @ [ev], m))"
  unfolding gates_ran_def by (force intro: exI [of _ "[acts]"] gate_run.stops)

lemma gates_ran_goes_on:
  assumes "gate_block deps gc g 1 n acts ev m" and "ge_passed ev \<or> \<not> gt_required g"
    and "gates_ran deps gc gs (evs @ [ev]) m ys r"
  shows "gates_ran deps gc (g # gs) evs n (acts @ ys) r"
proof (cases r)
  case (Inr x)
  obtain failure evs' m' where x: "x = (failure, evs', m')" by (cases x)
  from assms(3) Inr x obtain blocks new where
    "ys = concat blocks" "evs' = (evs @ [ev]) @ new" "gate_run deps gc gs m blocks failure new m'"
    by (auto simp: gates_ran_def)
  with gate_run.goes_on [OF assms(1,2) this(3)] Inr x show ?thesis
    by (auto simp: gates_ran_def intro!: exI [of _ "acts # blocks"])
qed (simp add: gates_ran_def)

lemma run_gates_does: "does (run_gates deps gc gs evs n) (gates_ran deps gc gs evs n)"
proof (induction gs arbitrary: evs n)
  case Nil
  show ?case by (auto intro: does_return gates_ran_over)
next
  case (Cons g gs)
  have "does (if \<not> ge_passed ev \<and> gt_required g then returnS (Some (g, ev), evs @ [ev], m)
              else run_gates deps gc gs (evs @ [ev]) m)
          (\<lambda>ys. gates_ran deps gc (g # gs) evs n (acts @ ys))"
    if "gate_block deps gc g 1 n acts ev m" for acts ev m
    using that
    by (auto simp del: One_nat_def intro!: does_return gates_ran_stops
        intro: does_weaken [OF Cons] gates_ran_goes_on)
  then show ?case
    unfolding run_gates.simps
    by (intro does_bind [OF decide_gate_does]) (simp_all add: gates_ran_thrown case_prod_unfold del: One_nat_def)
qed

lemma gate_run_passes:
  "gate_run deps gc gs n blocks failure evs m \<Longrightarrow> failure = None \<Longrightarrow>
   list_all2 (\<lambda>g acts. gt_required g \<longrightarrow> evidenced deps gc acts g) gs blocks"
  by (induction rule: gate_run.induct) (auto simp: gate_block_def evaluated_def)

lemma gate_run_humans:
  "gate_run deps gc gs n blocks failure evs m \<Longrightarrow> failure = None \<Longrightarrow> g \<in> set gs \<Longrightarrow>
   gt_kind g = HumanGate \<Longrightarrow> gc_approvedGate gc = Some (gt_id g)"
  by (induction rule: gate_run.induct) (auto simp: gate_block_def evaluated_def)

lemma gate_run_counts:
  "gate_run deps gc gs n blocks failure evs m \<Longrightarrow> m = n + sum_list (map (\<lambda>ev. ge_attempt ev - 1) evs)"
  by (induction rule: gate_run.induct) (auto simp: gate_block_def evaluated_def)

lemma gate_run_bounded:
  "gate_run deps gc gs n blocks failure evs m \<Longrightarrow> n \<le> m \<and> (n < m \<longrightarrow> of_nat m < gc_max gc + 1)"
  by (induction rule: gate_run.induct) (auto simp: gate_block_def order_le_less)

text \<open>What the answer says: the gates up to the one that failed, in order.\<close>

fun gates_decided :: "gate list \<Rightarrow> (gate \<times> gate_evaluation) option \<Rightarrow> gate_evaluation list \<Rightarrow> bool" where
  "gates_decided gs failure [] \<longleftrightarrow> gs = [] \<and> failure = None"
| "gates_decided gs failure (ev # evs) \<longleftrightarrow>
     (case gs of
        [] \<Rightarrow> False
      | g # rest \<Rightarrow> ge_gateId ev = gt_id g \<and>
          (if \<not> ge_passed ev \<and> gt_required g then evs = [] \<and> failure = Some (g, ev)
           else gates_decided rest failure evs))"

lemma gate_run_decides: "gate_run deps gc gs n blocks failure evs m \<Longrightarrow> gates_decided gs failure evs"
  by (induction rule: gate_run.induct) (auto simp: gate_block_def evaluated_def)

definition attempt_bound :: "gate \<Rightarrow> rat" where
  "attempt_bound g = (case gt_remediation g of None \<Rightarrow> 1 | Some r \<Rightarrow> max 1 (gr_maxAttempts r + 1))"

lemma gate_block_attempts: "gate_block deps gc g 1 n acts ev m \<Longrightarrow> of_nat (ge_attempt ev) \<le> attempt_bound g"
  by (cases "n < m") (auto simp: gate_block_def evaluated_def attempt_bound_def split: option.splits)

lemma gate_run_attempts:
  "gate_run deps gc gs n blocks failure evs m \<Longrightarrow>
   list_all2 (\<lambda>g ev. of_nat (ge_attempt ev) \<le> attempt_bound g) (take (length evs) gs) evs"
  by (induction rule: gate_run.induct) (auto intro: gate_block_attempts)

lemma unseen_gates_fresh: "g \<in> set (unseen_gates seen gs) \<Longrightarrow> gt_id g \<notin> set seen"
  by (induction seen gs rule: unseen_gates.induct) (auto split: if_splits)

lemma unseen_gates_distinct: "distinct (map gt_id (unseen_gates seen gs))"
  by (induction seen gs rule: unseen_gates.induct) (auto dest: unseen_gates_fresh)

lemma node_gates_distinct:
  "g \<in> set (node_gates deps s) \<Longrightarrow> h \<in> set (node_gates deps s) \<Longrightarrow> gt_id g = gt_id h \<Longrightarrow> g = h"
  using unseen_gates_distinct unfolding node_gates_def composeGateSets_def
  by (metis distinct_map inj_onD)

lemma gate_node_answer:
  assumes "evaluateGateNode deps k i c ctx w = (Inr (YResult st outs err), w')"
    and "findInSnapshot (xd_snapshot deps) DkGateSet (ref_name (gn_gateSet c)) (ref_version (gn_gateSet c)) = Some d"
    and "s = xd_gate_doc deps (dv_document d)"
  obtains failure evs m blocks where
    "YResult st outs err = gates_yield deps k (gs_name s) (dv_version d) (failure, evs, m)"
    "gate_run deps (gate_context_of deps k c ctx) (node_gates deps s) 0 blocks failure evs m"
    "xw_trace w' = rev (concat blocks) @ xw_trace w"
proof -
  obtain r w1 where run: "run_gates deps (gate_context_of deps k c ctx) (node_gates deps s) [] 0 w = (r, w1)"
    by (cases "run_gates deps (gate_context_of deps k c ctx) (node_gates deps s) [] 0 w")
  obtain acts where acts: "xw_trace w1 = rev acts @ xw_trace w"
      "gates_ran deps (gate_context_of deps k c ctx) (node_gates deps s) [] 0 acts r"
    using doesD [OF run_gates_does run] .
  show thesis
  proof (cases r)
    case (Inl e)
    with assms run show thesis
      by (cases e)
        (auto simp: evaluateGateNode_def bindS_def catchS_def returnS_def throwS_def gate_pending_def Let_def)
  next
    case (Inr x)
    obtain failure evs m where x: "x = (failure, evs, m)" by (cases x)
    with Inr acts(2) obtain blocks where
      "acts = concat blocks" "gate_run deps (gate_context_of deps k c ctx) (node_gates deps s) 0 blocks failure evs m"
      by (auto simp: gates_ran_def)
    moreover have "w' = w1 \<and> YResult st outs err = gates_yield deps k (gs_name s) (dv_version d) x"
      using assms run Inr by (auto simp: evaluateGateNode_def bindS_def catchS_def returnS_def Let_def)
    ultimately show thesis
      using that acts(1) x by blast
  qed
qed

lemma gates_yield_succeeded:
  "YResult Succeeded outs err = gates_yield deps k name version (failure, evs, m) \<Longrightarrow> failure = None"
  by (auto simp: gates_yield_def failed_with_def split: option.splits)

lemma gate_node_found:
  assumes "evaluateGateNode deps k i c ctx w = (Inr (YResult Succeeded outs err), w')"
  obtains d where
    "findInSnapshot (xd_snapshot deps) DkGateSet (ref_name (gn_gateSet c)) (ref_version (gn_gateSet c)) = Some d"
  using assms by (auto simp: evaluateGateNode_def returnS_def failed_yield_def split: option.splits)

subsection \<open>The properties of gate nodes\<close>

text \<open>
  C36. A gate node succeeds only on evidence. When it does, what it did is one block of acts
  for each gate of the set, in their order, and the block of a required gate ends with the
  evidence for it: a command that exited with 0, an agent that was asked its question and reported
  that it passed; or the expression is true, or a human approved this gate. A remediation is never
  the last act: the gate was evaluated again after it.
\<close>

theorem gate_node_succeeds_on_evidence:
  assumes "evaluateGateNode deps k i c ctx w = (Inr (YResult Succeeded outs err), w')"
  shows "\<exists>d blocks.
    findInSnapshot (xd_snapshot deps) DkGateSet (ref_name (gn_gateSet c)) (ref_version (gn_gateSet c)) = Some d \<and>
    xw_trace w' = rev (concat blocks) @ xw_trace w \<and>
    list_all2 (\<lambda>g acts. gt_required g \<longrightarrow> evidenced deps (gate_context_of deps k c ctx) acts g)
      (node_gates deps (xd_gate_doc deps (dv_document d))) blocks"
proof -
  obtain d where d:
    "findInSnapshot (xd_snapshot deps) DkGateSet (ref_name (gn_gateSet c)) (ref_version (gn_gateSet c)) = Some d"
    using gate_node_found [OF assms] .
  obtain failure evs m blocks where run:
    "YResult Succeeded outs err = gates_yield deps k (gs_name (xd_gate_doc deps (dv_document d))) (dv_version d) (failure, evs, m)"
    "gate_run deps (gate_context_of deps k c ctx) (node_gates deps (xd_gate_doc deps (dv_document d))) 0 blocks failure evs m"
    "xw_trace w' = rev (concat blocks) @ xw_trace w"
    by (rule gate_node_answer [OF assms d refl])
  from gate_run_passes [OF run(2) gates_yield_succeeded [OF run(1)]] run(3) d show ?thesis by blast
qed

text \<open>
  C37. The answer of a gate node reports the evaluations of the gates in their order, up to the
  first required gate that did not pass, and the node fails just when there is such a gate. The
  remediations it reports are the evaluations beyond the first of each gate; they are fewer than the maximum
  of the node plus one, and no gate is evaluated more often than its own maximum plus one.
\<close>

theorem gate_answer_decided:
  assumes "evaluateGateNode deps k i c ctx w = (Inr (YResult st outs err), w')"
    and "findInSnapshot (xd_snapshot deps) DkGateSet (ref_name (gn_gateSet c)) (ref_version (gn_gateSet c)) = Some d"
    and "s = xd_gate_doc deps (dv_document d)"
  shows "\<exists>failure evs n.
    YResult st outs err = gates_yield deps k (gs_name s) (dv_version d) (failure, evs, n) \<and>
    gates_decided (node_gates deps s) failure evs \<and>
    n = sum_list (map (\<lambda>ev. ge_attempt ev - 1) evs) \<and>
    of_nat n < max 1 ((case gn_maxRemediationAttempts c of None \<Rightarrow> 0 | Some m \<Rightarrow> m) + 1) \<and>
    list_all2 (\<lambda>g ev. of_nat (ge_attempt ev) \<le> attempt_bound g) (take (length evs) (node_gates deps s)) evs"
proof -
  obtain failure evs n blocks where run:
    "YResult st outs err = gates_yield deps k (gs_name s) (dv_version d) (failure, evs, n)"
    "gate_run deps (gate_context_of deps k c ctx) (node_gates deps s) 0 blocks failure evs n"
    by (rule gate_node_answer [OF assms])
  from gate_run_bounded [OF run(2)]
  have "of_nat n < max 1 ((case gn_maxRemediationAttempts c of None \<Rightarrow> 0 | Some m \<Rightarrow> m) + 1 :: rat)"
    by (cases "n = 0") (auto simp: gate_context_of_def less_max_iff_disj)
  with run gate_run_decides [OF run(2)] gate_run_counts [OF run(2)] gate_run_attempts [OF run(2)]
  show ?thesis by auto
qed

text \<open>
  C38. A gate set with two human gates never passes, whatever the humans answer: an
  answer is for one gate, and every evaluation of the node begins with the first gate again, so the
  other gate is asked once more in place of the one that was just approved.
\<close>

theorem human_gates_exclude_each_other:
  assumes "findInSnapshot (xd_snapshot deps) DkGateSet (ref_name (gn_gateSet c)) (ref_version (gn_gateSet c)) = Some d"
    and "g \<in> set (node_gates deps (xd_gate_doc deps (dv_document d)))" and "gt_kind g = HumanGate"
    and "h \<in> set (node_gates deps (xd_gate_doc deps (dv_document d)))" and "gt_kind h = HumanGate"
    and "g \<noteq> h"
  shows "fst (evaluateGateNode deps k i c ctx w) \<noteq> Inr (YResult Succeeded outs err)"
proof
  assume "fst (evaluateGateNode deps k i c ctx w) = Inr (YResult Succeeded outs err)"
  then obtain w' where "evaluateGateNode deps k i c ctx w = (Inr (YResult Succeeded outs err), w')"
    by (metis prod.collapse)
  then obtain failure evs m blocks where run:
    "YResult Succeeded outs err = gates_yield deps k (gs_name (xd_gate_doc deps (dv_document d))) (dv_version d) (failure, evs, m)"
    "gate_run deps (gate_context_of deps k c ctx) (node_gates deps (xd_gate_doc deps (dv_document d))) 0 blocks failure evs m"
    by (rule gate_node_answer [OF _ assms(1) refl])
  note humans = gate_run_humans [OF run(2) gates_yield_succeeded [OF run(1)]]
  from humans [OF assms(2,3)] humans [OF assms(4,5)] have "gt_id g = gt_id h" by simp
  with node_gates_distinct [OF assms(2,4)] assms(6) show False by simp
qed

subsection \<open>The properties of agents and fan-outs\<close>

text \<open>
  C39. An agent runs on the fallback chain of its profile. The executors that are registered are
  asked in the order of the profile; one after the first is asked only when the answer of the one
  before engages the fallback, an outage or a rate limit by default, any failure when the
  profile says so; and the result is the answer of the last one asked.
\<close>

theorem fallback_chain_in_order:
  assumes "resolve_profile (xd_profile_doc deps) (xd_snapshot deps) (xd_stack deps) name = Inr p" and "name \<noteq> []"
  shows "\<exists>acts. xw_trace (snd (runAgent deps (Some name) goal opts w)) = rev acts @ xw_trace w \<and>
    follows_chain (trigger_of p) (available deps (selections p)) acts \<and>
    last_answer_is acts (fst (runAgent deps (Some name) goal opts w))"
  using try_selections_follow [of deps p goal opts None "selections p"]
  unfolding runAgent_of_profile [OF assms] does_def by blast

lemma launch_child_does [does_rules]:
  "(\<And>e. Q [ChildStarted q (Inl e)] (Inl e)) \<Longrightarrow> (\<And>x. does (f x) (\<lambda>ys r. Q (ChildStarted q (Inr x) # ys) r)) \<Longrightarrow>
   does (bindS (launch_child deps q) f) Q"
  unfolding launch_child_def
  by (rule does_bind [where R = "\<lambda>acts r. acts = [ChildStarted q r]"]) (auto intro!: does_rules)

text \<open>The starts of branches \<open>n\<close>, \<open>n + 1\<close>, ..., with the ids of the child runs.\<close>

definition branches_started :: "string \<Rightarrow> definition_version \<Rightarrow> nat \<Rightarrow> jsval list \<Rightarrow> string list \<Rightarrow> exec_act list" where
  "branches_started i d n items children =
     map2 (\<lambda>(index, item) child. ChildStarted (branch_start i d index item) (Inr child)) (enumerate n items) children"

text \<open>The same up to the first start that throws.\<close>

definition branches_broken_off ::
  "string \<Rightarrow> definition_version \<Rightarrow> nat \<Rightarrow> jsval list \<Rightarrow> exec_error \<Rightarrow> exec_act list \<Rightarrow> bool" where
  "branches_broken_off i d n items e acts \<longleftrightarrow> (\<exists>children. length children < length items \<and>
     acts = branches_started i d n (take (length children) items) children @
       [ChildStarted (branch_start i d (n + length children) (items ! length children)) (Inl e)])"

lemma broken_off_here: "branches_broken_off i d n (item # items) e [ChildStarted (branch_start i d n item) (Inl e)]"
  unfolding branches_broken_off_def by (intro exI [of _ "[]"]) (simp add: branches_started_def)

lemma broken_off_later:
  assumes "branches_broken_off i d (Suc n) items e acts"
  shows "branches_broken_off i d n (item # items) e (ChildStarted (branch_start i d n item) (Inr child) # acts)"
proof -
  from assms obtain children where "length children < length items"
    "acts = branches_started i d (Suc n) (take (length children) items) children @
       [ChildStarted (branch_start i d (Suc n + length children) (items ! length children)) (Inl e)]"
    unfolding branches_broken_off_def by blast
  then show ?thesis
    unfolding branches_broken_off_def
    by (intro exI [of _ "child # children"]) (simp add: branches_started_def)
qed

lemma start_branches_does:
  "does (start_branches deps i d n items)
     (\<lambda>acts r. case r of
        Inl e \<Rightarrow> branches_broken_off i d n items e acts
      | Inr children \<Rightarrow> length children = length items \<and> acts = branches_started i d n items children)"
proof (induction deps i d n items rule: start_branches.induct)
  case (1 deps i d n)
  show ?case by (auto simp: branches_started_def intro: does_return)
next
  case (2 deps i d n item items)
  show ?case
    unfolding start_branches.simps
    by (rule launch_child_does, simp add: broken_off_here, rule does_bind [OF 2])
      (auto simp: branches_started_def broken_off_later intro!: does_return split: sum.splits)
qed

text \<open>
  A fan-out may start its branches: its expression gives a list of items, no longer than the maximum
  of the node and than 1000, and its workflow is in the snapshot.
\<close>

definition fan_out_ready ::
  "exec_deps \<Rightarrow> nat \<Rightarrow> fan_out_node_config \<Rightarrow> execution_context \<Rightarrow> jsval list \<Rightarrow> definition_version \<Rightarrow> bool" where
  "fan_out_ready deps k c ctx items d \<longleftrightarrow>
     (\<exists>label. evaluateScopeValue (fo_items c) (runScope k ctx) = Inr (JArr label items)) \<and>
     findInSnapshot (xd_snapshot deps) DkWorkflow (ref_name (fo_workflow c)) (ref_version (fo_workflow c)) = Some d \<and>
     of_nat (length items) \<le> fan_out_limit c \<and> length items \<le> 1000"

text \<open>
  C40. A fan-out starts each branch once. When it waits, it has started one child run for each item
  of its list, in order and with the index as the key of the branch, and it waits for exactly these
  children; the list is within the limit, which is the maximum of the node and 1000. When it
  answers with a result it has started no child. When it throws, either no child was asked to
  start, or the starts up to one that threw were made in order: the branches before it are
  running, those after it were never started.
\<close>

theorem fan_out_starts_each_branch_once:
  "\<exists>acts. xw_trace (snd (fan_out_executor deps k i c ctx w)) = rev acts @ xw_trace w \<and>
     (case fst (fan_out_executor deps k i c ctx w) of
        Inr (YResult _ _ _) \<Rightarrow> acts = []
      | Inr (YWait spec _) \<Rightarrow> \<exists>items d children.
          fan_out_ready deps k c ctx items d \<and>
          length children = length items \<and> acts = branches_started i d 0 items children \<and>
          ws_parameters spec = [(''childRunIds'', JArr (Built k ''childRunIds'') (map JStr children)),
            (''join'', join_value k (fo_join c))]
      | Inl e \<Rightarrow> acts = [] \<or>
          (\<exists>items d. fan_out_ready deps k c ctx items d \<and> branches_broken_off i d 0 items e acts))"
proof -
  let ?Q = "\<lambda>acts r. case r of
        Inr (YResult _ _ _) \<Rightarrow> acts = []
      | Inr (YWait spec _) \<Rightarrow> \<exists>items d children.
          fan_out_ready deps k c ctx items d \<and>
          length children = length items \<and> acts = branches_started i d 0 items children \<and>
          ws_parameters spec = [(''childRunIds'', JArr (Built k ''childRunIds'') (map JStr children)),
            (''join'', join_value k (fo_join c))]
      | Inl e \<Rightarrow> acts = [] \<or>
          (\<exists>items d. fan_out_ready deps k c ctx items d \<and> branches_broken_off i d 0 items e acts)"
  have over: "does (fan_out_over deps k i c v) ?Q"
    if v: "evaluateScopeValue (fo_items c) (runScope k ctx) = Inr v" for v
  proof (cases "\<exists>label items. v = JArr label items \<and> items \<noteq> [] \<and> of_nat (length items) \<le> fan_out_limit c")
    case True
    then obtain label items where items: "v = JArr label items" "items \<noteq> []"
        "of_nat (length items) \<le> fan_out_limit c" by blast
    then have "of_nat (length items) \<le> (1000 :: rat)" by (simp add: fan_out_limit_def FANOUT_HARD_CEILING_def)
    then have thousand: "length items \<le> 1000" by linarith
    show ?thesis
    proof (cases "findInSnapshot (xd_snapshot deps) DkWorkflow (ref_name (fo_workflow c)) (ref_version (fo_workflow c))")
      case None
      with items show ?thesis
        by (auto simp: fan_out_over_def failed_yield_def not_less intro: does_return)
    next
      case (Some d)
      with items v thousand show ?thesis
        by (auto simp: fan_out_over_def awaits_children_def waits_for_def not_less fan_out_ready_def
            intro!: does_bind [OF start_branches_does] does_return split: sum.splits)
    qed
  next
    case False
    then show ?thesis
      by (cases v) (auto simp: fan_out_over_def failed_yield_def succeeded_with_def not_less intro!: does_return)
  qed
  have "does (fan_out_executor deps k i c ctx) ?Q"
    unfolding fan_out_executor_def
    by (cases "given_event ctx"; cases "evaluateScopeValue (fo_items c) (runScope k ctx)")
      (auto simp: scope_value_def childCompletionResult_def succeeded_with_def failed_with_def over
        intro!: does_return does_lifted)
  then show ?thesis unfolding does_def by blast
qed

end
