(* ===== verification/NodeExecutorCases.thy ===== *)
theory NodeExecutorCases
  imports NodeExecutorProps Snapshots
begin

section \<open>Concrete runs of the executors\<close>

text \<open>
  A fallback after an outage, a gate that is remediated, and two human gates: the witnesses of
  the properties of the executors. At the end, a profile that is composed from itself, and a gate
  set whose base is not in the snapshot of the run.
\<close>

definition demo_item :: work_item where
  "demo_item = \<lparr>wi_id = ''i'', wi_provider = ''github'', wi_externalId = ''1'', wi_title = ''t'',
     wi_description = None, wi_state = ''open'', wi_type = None, wi_priority = None, wi_labels = [],
     wi_assignees = [], wi_relationships = [], wi_repository = None, wi_metadata = [], wi_url = None,
     wi_updatedAt = None\<rparr>"

definition demo_version :: "definition_kind \<Rightarrow> string \<Rightarrow> definition_version" where
  "demo_version kind name = \<lparr>dv_kind = kind, dv_name = name, dv_version = 1, dv_contentHash = ''h'',
     dv_document = [], dv_createdAt = 0\<rparr>"

definition demo_snapshot :: resolved_snapshot where
  "demo_snapshot = \<lparr>snap_id = ''s'', snap_root_name = ''w'', snap_root_version = 1,
     snap_definitions = [demo_version DkAgentProfile ''p'', demo_version DkGateSet ''gs''], snap_createdAt = 0\<rparr>"

definition executor_named :: "string \<Rightarrow> model_selection" where
  "executor_named x = \<lparr>sel_executor = x, sel_model = None\<rparr>"

definition demo_profile :: agent_profile where
  "demo_profile = \<lparr>ap_name = ''p'', ap_compose = None, ap_fragment = no_fragment\<lparr>
     fr_primary := Some (executor_named ''a''),
     fr_fallback := Some \<lparr>fb_chain = [executor_named ''b'', executor_named ''c''], fb_trigger = OutageOnly\<rparr>\<rparr>\<rparr>"

text \<open>The first executor has an outage, the others complete the goal; a command fails the first time.\<close>

fun demo_agent :: "string \<Rightarrow> exec_error + (agent_outcome \<times> string)" where
  "demo_agent x = (if x = ''a'' then Inl (Thrown CatProviderOutage ''down'') else Inr (GOAL_COMPLETED, ''fixed''))"

fun demo_command :: "nat \<Rightarrow> exec_error + (int \<times> string)" where
  "demo_command n = Inr (if n = 0 then 1 else 0, ''output'')"

definition demo_deps :: "gate list \<Rightarrow> exec_deps" where
  "demo_deps gates = \<lparr>xd_item = demo_item, xd_snapshot = demo_snapshot,
     xd_defaultProfile = Some \<lparr>ref_name = ''p'', ref_version = None\<rparr>,
     xd_hasExecutor = (\<lambda>_. True), xd_agent = (\<lambda>_ x _. demo_agent x), xd_command = (\<lambda>n _. demo_command n),
     xd_action = (\<lambda>_. None), xd_child = (\<lambda>_ _. Inr ''child''), xd_experiment = None,
     xd_workspace = Some ''dir'', xd_agentContext = [], xd_clock = (\<lambda>_. 0), xd_session = (\<lambda>_. ''sid''),
     xd_profile_doc = (\<lambda>_. demo_profile),
     xd_gate_doc = (\<lambda>_. \<lparr>gs_name = ''gs'', gs_gates = gates, gs_extends = None\<rparr>),
     xd_number = (\<lambda>_. ''0''), xd_json = (\<lambda>_. None), xd_iso = (\<lambda>_. ''now''), xd_stack = 9\<rparr>"

definition idle :: exec_world where
  "idle = \<lparr>xw_acts = 0, xw_clock = 0, xw_sessions = 0, xw_objects = 0, xw_trace = []\<rparr>"

definition demo_config :: gate_node_config where
  "demo_config = \<lparr>gn_gateSet = \<lparr>ref_name = ''gs'', ref_version = Some 1\<rparr>, gn_maxRemediationAttempts = Some 2,
     gn_remediationProfile = None\<rparr>"

definition demo_context :: "wait_satisfaction option \<Rightarrow> execution_context" where
  "demo_context sat = \<lparr>ctx_runId = ''r'', ctx_attempt = 1, ctx_variables = [],
     ctx_domain = \<lparr>dom_name = None, dom_data = []\<rparr>, ctx_nodeResults = [], ctx_satisfaction = sat\<rparr>"

definition tests_gate :: gate where
  "tests_gate = \<lparr>gt_id = ''g'', gt_kind = DeterministicGate, gt_check = ''command: make'',
     gt_remediation = Some \<lparr>gr_goal = ''fix'', gr_maxAttempts = 3\<rparr>, gt_required = True\<rparr>"

definition human_gate :: "string \<Rightarrow> gate" where
  "human_gate i = \<lparr>gt_id = i, gt_kind = HumanGate, gt_check = ''ok?'', gt_remediation = None, gt_required = True\<rparr>"

lemma demo_required [simp]: "gt_required tests_gate" "gt_required (human_gate i)"
  by (simp_all add: tests_gate_def human_gate_def)

text \<open>The approval of a gate by a human, as the coordinator hands it to the node.\<close>

definition approval_of :: "string \<Rightarrow> wait_satisfaction" where
  "approval_of i = \<lparr>sat_kind = WApproval, sat_at = 0,
     sat_input = Some \<lparr>hi_requestId = ''q'', hi_responder = ''u'', hi_channel = ChannelApp, hi_at = 0,
       hi_value = JBool True\<rparr>,
     sat_event = Some [(''gateId'', JStr i)]\<rparr>"

lemma demo_resolves:
  "resolve_profile (xd_profile_doc (demo_deps gs)) (xd_snapshot (demo_deps gs)) (xd_stack (demo_deps gs)) ''p'' =
     Inr \<lparr>rp_name = ''p'', rp_primary = executor_named ''a'',
       rp_fallback = Some \<lparr>fb_chain = [executor_named ''b'', executor_named ''c''], fb_trigger = OutageOnly\<rparr>,
       rp_systemPrompt = None, rp_toolNames = None, rp_permissions = [], rp_budget = None, rp_traversal = None,
       rp_attachments = None, rp_maxTurns = None, rp_timeoutMs = None, rp_composedFrom = [''p'']\<rparr>"
  by (simp add: demo_deps_def demo_snapshot_def findInSnapshot_def demo_version_def demo_profile_def
      composeProfile_def add_fragment_def no_fragment_def override_def eval_nat_numeral)

lemma demo_available: "available (demo_deps gs) sels = map sel_executor sels"
  by (simp add: available_def demo_deps_def)

lemma idle_trace: "xw_trace idle = []"
  by (simp add: idle_def)

lemma fallback_run:
  "case runAgent (demo_deps []) (Some ''p'') ''goal'' (role_only ''r'') idle of (r, w) \<Rightarrow>
     r = Inr (GOAL_COMPLETED, ''fixed'') \<and> length (xw_trace w) = 2"
  by code_simp

lemma fallback_chain_in_order_witness:
  "\<exists>acts. xw_trace (snd (runAgent (demo_deps []) (Some ''p'') ''goal'' (role_only ''r'') idle)) = rev acts \<and>
     length acts = 2 \<and> follows_chain OutageOnly [''a'', ''b'', ''c''] acts"
  using fallback_chain_in_order [OF demo_resolves, of "[]" "''goal''" "role_only ''r''" idle] fallback_run
  by (auto simp: idle_trace demo_available selections_def trigger_of_def executor_named_def
      case_prod_unfold simp del: follows_chain.simps available_simps)

lemma gate_run_demo:
  "case evaluateGateNode (demo_deps [tests_gate]) 0 ''n'' demo_config (demo_context None) idle of (r, w) \<Rightarrow>
     (case r of Inr (YResult st _ e) \<Rightarrow> st = Succeeded \<and> e = None | _ \<Rightarrow> False) \<and> length (xw_trace w) = 4"
  by code_simp

lemma demo_gates:
  "findInSnapshot (xd_snapshot (demo_deps gs)) DkGateSet (ref_name (gn_gateSet demo_config))
     (ref_version (gn_gateSet demo_config)) = Some (demo_version DkGateSet ''gs'')"
  "xd_gate_doc (demo_deps gs) fs = \<lparr>gs_name = ''gs'', gs_gates = gs, gs_extends = None\<rparr>"
  by (simp_all add: demo_deps_def demo_snapshot_def demo_config_def demo_version_def findInSnapshot_def)

lemma demo_node_gates:
  "node_gates (demo_deps gs) \<lparr>gs_name = ''gs'', gs_gates = gs, gs_extends = None\<rparr> = unseen_gates [] gs"
  by (simp add: node_gates_def gate_bases_def composeGateSets_def map_filter_def)

lemma gate_node_succeeds_on_evidence_witness:
  "\<exists>acts. xw_trace (snd (evaluateGateNode (demo_deps [tests_gate]) 0 ''n'' demo_config (demo_context None) idle)) =
     rev acts \<and> length acts = 4 \<and>
     evidenced (demo_deps [tests_gate]) (gate_context_of (demo_deps [tests_gate]) 0 demo_config (demo_context None))
       acts tests_gate"
proof -
  let ?run = "evaluateGateNode (demo_deps [tests_gate]) 0 ''n'' demo_config (demo_context None) idle"
  obtain outs w where run: "?run = (Inr (YResult Succeeded outs None), w)" and four: "length (xw_trace w) = 4"
    using gate_run_demo by (cases ?run) (auto split: sum.splits node_yield.splits)
  from gate_node_succeeds_on_evidence [OF run] run four show ?thesis
    by (auto simp: demo_gates demo_node_gates idle_trace list_all2_Cons1 demo_required)
qed

lemma gate_answer_decided_witness:
  "\<exists>failure evs n. gates_decided [tests_gate] failure evs \<and> of_nat n < (3 :: rat) \<and>
     n = sum_list (map (\<lambda>ev. ge_attempt ev - 1) evs)"
proof -
  let ?run = "evaluateGateNode (demo_deps [tests_gate]) 0 ''n'' demo_config (demo_context None) idle"
  obtain outs w where run: "?run = (Inr (YResult Succeeded outs None), w)"
    using gate_run_demo by (cases ?run) (auto split: sum.splits node_yield.splits)
  from gate_answer_decided [OF run demo_gates(1) refl] show ?thesis
    by (auto simp: demo_gates demo_node_gates demo_config_def)
qed

text \<open>The second of two human gates is approved, and the node asks for the first one again.\<close>

lemma human_gates_exclude_each_other_witness:
  "\<not> (\<exists>outs err. fst (evaluateGateNode (demo_deps [human_gate ''g1'', human_gate ''g2'']) 0 ''n'' demo_config
     (demo_context (Some (approval_of ''g2''))) idle) = Inr (YResult Succeeded outs err))"
  using human_gates_exclude_each_other [OF demo_gates(1), where g = "human_gate ''g1''" and h = "human_gate ''g2''"]
  by (simp add: demo_gates demo_node_gates human_gate_def demo_version_def)

text \<open>
  A profile that is composed from itself: a snapshot with it resolves, for its collection visits
  each profile once, and whatever the depth of the stack, resolving the profile overflows it.
\<close>

theorem self_composed_profile_overflows:
  assumes "findInSnapshot snap DkAgentProfile name None = Some d"
    and "ap_compose (docs (dv_document d)) = Some (name # names)"
  shows "resolve_profile docs snap n name = Inl (Thrown CatInternal ''Maximum call stack size exceeded'')"
  using assms by (induction n) (simp_all add: bindE_def Let_def)

text \<open>A workflow with one gate node; its gate set extends the stored gate set \<open>base\<close>.\<close>

definition gated_docs :: documents where
  "gated_docs = \<lparr>
     graph_of = (\<lambda>_. simple_graph ''g''
       [plain_node ''g'' (GateNode \<lparr>gn_gateSet = \<lparr>ref_name = ''gs'', ref_version = None\<rparr>,
          gn_maxRemediationAttempts = None, gn_remediationProfile = None\<rparr>),
        plain_node ''end'' (TerminalNode OutCompleted)]
       [plain_edge ''ge'' ''g'' ''end'']),
     compose_of = (\<lambda>_. [])\<rparr>"

definition gated_store :: definition_store where
  "gated_store =
     (let save = (\<lambda>kind name doc st.
        setLifecycle kind name LcEnabled (snd (save_definition (\<lambda>d. concat (map fst d)) 0 kind name doc st))) in
      save DkWorkflow ''w'' [] (save DkGateSet ''gs'' [(''own'', JNull)]
        (save DkGateSet ''base'' [(''base'', JNull)] empty_definitions)))"

definition gated_set :: "fields \<Rightarrow> gate_set" where
  "gated_set doc = (if map fst doc = [''own'']
     then \<lparr>gs_name = ''gs'', gs_gates = [tests_gate], gs_extends = Some [''base'']\<rparr>
     else \<lparr>gs_name = ''base'', gs_gates = [human_gate ''h''], gs_extends = None\<rparr>)"

text \<open>
  The gates of a base are not run. The walk that resolves a snapshot pins the gate set a node names
  and not the sets it extends, and the gate node leaves out a base that its snapshot does not hold:
  the required human gate of the base, which is stored and enabled, is not among the gates.
\<close>

theorem base_gates_never_run:
  "case resolve gated_docs gated_store ''s'' 0 ''w'' None of
     Inr snap \<Rightarrow>
       map gt_id (composeGateSets (gated_set [(''own'', JNull)]) [gated_set [(''base'', JNull)]]) = [''h'', ''g''] \<and>
       get_definition DkGateSet ''base'' None gated_store \<noteq> None \<and>
       map (\<lambda>d. gated_set (dv_document d)) (filter (\<lambda>d. dv_name d = ''gs'') (snap_definitions snap)) =
         [gated_set [(''own'', JNull)]] \<and>
       map gt_id (node_gates ((demo_deps [])\<lparr>xd_snapshot := snap, xd_gate_doc := gated_set\<rparr>)
         (gated_set [(''own'', JNull)])) = [''g'']
   | Inl _ \<Rightarrow> False"
  by code_simp

end
