(* ===== verification/Spec2Isabelle.thy ===== *)
theory Spec2Isabelle
  imports ScopeExpr GraphEngineLoop Stores Snapshots Budget ManagedSection Policy WorkItems
    CoordinatorSecrets SchedulerProps CompileMeaning WorkflowEngineRuns AgentLoopCases NodeExecutorCases
begin

text \<open>
  A verification development of the orchestration core: the durable workflows, the agents and the
  stores of the packages \<open>core\<close>, \<open>workflow\<close>, \<open>orchestrator\<close>, \<open>runtime\<close>, \<open>policy\<close>,
  \<open>checkpoints\<close> and \<open>persistence\<close> (paths below are relative to \<open>src/packages\<close>).

  \<^bold>\<open>The program.\<close> A work item is routed to a workflow (\<open>Routing\<close>, \<open>Scheduler\<close>). Its definition and all it
  refers to are pinned in a snapshot (\<open>Snapshots\<close>), and a run of it is created, suspended, resumed and
  finished by the coordinator (\<open>Coordinator\<close>), which keeps runs, waits, claims and events in
  repositories (\<open>Stores\<close>). Between two suspensions the coordinator asks the graph engine for ticks
  (\<open>GraphEngine\<close>): the engine activates nodes, evaluates conditions (\<open>ScopeExpr\<close>) and asks one executor
  per kind of node for a result or a wait (\<open>NodeExecutors\<close>, \<open>GateNodes\<close>). Agents run in the native loop
  (\<open>AgentLoop\<close>) under permissions (\<open>Policy\<close>) and budgets (\<open>Budget\<close>). Declarative workflows have an
  engine of their own (\<open>WorkflowEngine\<close>) and are also compiled to graphs (\<open>Compile\<close>).

  \<^bold>\<open>Shared theories.\<close> \<open>Prelude\<close>: JavaScript values with object identities, records as association
  lists in insertion order, results as sums, \<open>foldE\<close>, fuelled iteration and text functions. \<open>Text\<close>:
  searching and splicing strings. \<open>Effects\<close>: operations that act on a state and may throw, keeping what
  they did, with a Hoare logic (\<open>hoare\<close>), invariants (\<open>keeps\<close>), frames and commutation; the coordinator,
  the scheduler, the agent loop and the node executors are written in it.

  \<^bold>\<open>Data and language.\<close>
  \<^item> \<open>Graph\<close>: \<open>core/src/graph.ts\<close>, \<open>waits.ts\<close>, \<open>run-graph.ts\<close>, field by field. \<open>RunState\<close>: the transition
    table and the history of runs, \<open>core/src/run.ts\<close>.
  \<^item> \<open>ScopeExpr\<close>: tokenizer, recursive-descent parser, bounded cache and evaluator of
    \<open>workflow/src/graph-engine/scope-expr.ts\<close>. Lemmas: the parser inverts a precedence-aware printer,
    the cache answers what the parser answers.
  \<^item> \<open>Expressions\<close>: \<open>workflow/src/expressions.ts\<close>, conditions and placeholders. Lemma: the text of a
    shell command does not depend on the values spliced into it.
  \<^item> \<open>GraphValidate\<close>: \<open>core/src/graph-validate.ts\<close>, equivalent to a declarative well-formedness.
  \<^item> \<open>Definitions\<close>, \<open>Snapshots\<close>: versioned definitions and the walk that pins them; versions are immutable, and
    the walk ends and is closed under what workflows and profiles refer to.
  \<^item> \<open>Budget\<close>, \<open>Policy\<close>, \<open>WorkItems\<close>, \<open>ManagedSection\<close>: usage and limits, permission rules with glob
    patterns, eligibility and the typing of human input, the managed section of a work item.

  \<^bold>\<open>The graph engine.\<close> \<open>GraphEngine\<close> is one \<open>tick\<close> of \<open>workflow/src/graph-engine/engine.ts\<close>; the local state
  of the code is the record \<open>tick_state\<close>, and executors, clock and abort signal are functions of how
  often they were asked. \<open>GraphEngineProps\<close> gives the contract of an invariant of a tick as the locale
  \<open>tick_invariant\<close>, \<open>GraphEngineSafety\<close> interprets it once per property, and \<open>GraphEngineLoop\<close> proves that a tick ends
  and draws the conclusions: loop bounds, joins, waits, satisfactions and terminals.

  \<^bold>\<open>The node executors.\<close> \<open>NodeExecutors\<close> and \<open>GateNodes\<close> are
  \<open>orchestrator/src/graph/node-executors.ts\<close> with \<open>core/src/profiles.ts\<close> and \<open>gates.ts\<close>: what an
  executor does is a trace of acts with their answers. \<open>NodeExecutorProps\<close> relates the trace to the
  answer: the fallback chain of a profile, the branches of a fan-out, and the evidence on which a
  gate node succeeds. \<open>NodeExecutorCases\<close> has concrete runs, and two defects of the composition of profiles and
  of gate sets.

  \<^bold>\<open>Stores, coordinator, scheduler.\<close> \<open>Stores\<close> is the in-memory provider of \<open>persistence\<close>, one group of
  definitions per repository. \<open>Coordinator\<close> has every operation of
  \<open>orchestrator/src/graph/coordinator.ts\<close>; \<open>CoordinatorProps\<close> proves the invariant of its stores for each
  operation, \<open>CoordinatorRun\<close> concludes for every sequence of operations, and \<open>CoordinatorSecrets\<close> proves that
  the plaintext of a secret reaches the secret store only. \<open>Schedules\<close> (intervals, cron), \<open>Routing\<close>
  and \<open>Scheduler\<close> are \<open>orchestrator/src/scheduling\<close>; \<open>SchedulerProps\<close> states the port that starts
  runs as the locale \<open>run_starter\<close>, interpreted by the coordinator of the model.

  \<^bold>\<open>Declarative workflows.\<close> \<open>WorkflowDefinitions\<close>: parsing, schema checks and cycle search. \<open>Compile\<close>,
  \<open>CompileProps\<close>, \<open>CompileMeaning\<close>: the compiler to graphs, the validity of what it emits and the meaning of
  translated conditions. \<open>WorkflowEngine\<close>: \<open>execute\<close> as a step relation over passes and
  settlements of tasks; \<open>WorkflowEngineProps\<close> and \<open>WorkflowEngineRuns\<close>: termination, concurrency,
  dependencies, the outcome, and independence of the schedule.

  \<^bold>\<open>Agents.\<close> \<open>AgentLoop\<close> is \<open>runtime/src\<close>: runs, turns, tool calls, sub-agents, retries, compaction
  and sessions. \<open>AgentLoopProps\<close> chains the contracts of what a run keeps (\<open>quiet_invariant\<close>, \<open>closing_invariant\<close>,
  \<open>tool_invariant\<close>, \<open>run_invariant\<close>, \<open>free_invariant\<close>) and proves that tools run with permission;
  \<open>AgentLoopAccounts\<close> states the accounts as \<open>loop_account\<close>, met by the bound on model
  calls, summaries of compactions included (\<open>AgentLoopBounds\<close>), and by the sum of the usages of the
  turns (\<open>AgentLoopUsage\<close>), from which the program leaves out its summaries;
  \<open>AgentLoopTranscripts\<close>: every tool call is answered; \<open>AgentLoopRuns\<close>: completion is explicit;
  \<open>AgentLoopCases\<close>: scripted runs.

  \<^bold>\<open>Bounds and fuel.\<close> A parser takes a fuel linear in the number of its tokens (\<open>parse_fuel\<close>,
  \<open>v1_fuel\<close>) and is proved never to run out. \<open>tick_fuel\<close> bounds the rounds of a tick by a measure of
  settlements, satisfactions and active nodes. \<open>resume_fuel\<close> counts the open runs a settled child can wake.
  \<open>resolve_fuel\<close> exceeds the number of stored definitions, each of which the walk enters once.
  \<open>MAX_SCAN_MINUTES\<close> is the bound of the code, 366 days. The levels of sub-agents, the
  turns and the attempts of the agent loop recurse on the bounds of its options. Only the resolution of a profile,
  which has no bound in the code, takes the depth of the stack as a parameter, and overflows it.

  \<^bold>\<open>Abstractions.\<close> Numbers are exact rationals, and times are integers of milliseconds. Characters are code units below 256,
  so a dash in a message is written as two hyphens. Records keep insertion order; integer-like keys
  are not moved to the front. One operation of a repository is atomic. An operation of the coordinator or the scheduler
  is one step: what detached asynchronous calls may do between two of its awaits is not modelled, while the
  tasks of the engine of declarative workflows and the operations of the coordinator interleave in
  every order. A tick that throws leaves the events it emitted behind; they are not in the model. What lies outside
  is a parameter: executors, models, tools, hooks, clocks, ids, hash functions, JSON and number texts.

  \<^bold>\<open>Not modelled.\<close> The SQLite provider, whose meaning is that of SQL; providers of work items, models
  and agents, source control, tools and secrets, which wrap services and processes; the extensions host;
  the server, the command line and the desktop application, which route and render;
  configuration schemas, templates and built-in workflows, which are constant data; the experiments package,
  whose scores are floating-point numbers; the dry-run evaluation of workflows, which reports on
  operations modelled here; and the older coordinator of declarative workflows, which the graph
  coordinator replaces. The components of the manifest list them file by file.
\<close>

end
